(* ===== verification/Prelude.thy ===== *)
theory Prelude
  imports Main "HOL-Library.Char_ord" "HOL-Library.List_Lexorder" "HOL-Library.Word"
begin

text \<open>
  Shared vocabulary of the development: the parts of the C++ standard library that the modelled
  sources use (\<open>std::map\<close> and \<open>std::set\<close> as key-ordered lists, \<open>std::string\<close> searches and
  \<open>substr\<close>, \<open>std::to_string\<close>), the named theorem collections, and generic list lemmas.
  \<open>std::string\<close> is \<^typ>\<open>string\<close>: a \<^typ>\<open>char\<close> is one byte, ordered by its unsigned value as
  \<open>std::char_traits\<close> compares it.
\<close>

named_theorems cxx_simps \<open>rewrite rules of the C++ library layer\<close>

section \<open>\<open>std::map\<close>: association lists ordered by key\<close>

type_synonym ('k, 'v) omap = "('k \<times> 'v) list"

text \<open>\<open>m[k] = v\<close>: overwrite in place or insert at the position that keeps the keys ascending.\<close>

fun omap_put :: "'k::linorder \<Rightarrow> 'v \<Rightarrow> ('k, 'v) omap \<Rightarrow> ('k, 'v) omap" where
  "omap_put k v [] = [(k, v)]"
| "omap_put k v ((k', v') # m) =
     (if k < k' then (k, v) # (k', v') # m
      else if k = k' then (k, v) # m
      else (k', v') # omap_put k v m)"

text \<open>\<open>m.erase(k)\<close>.\<close>

fun omap_del :: "'k \<Rightarrow> ('k, 'v) omap \<Rightarrow> ('k, 'v) omap" where
  "omap_del k [] = []"
| "omap_del k ((k', v') # m) = (if k = k' then m else (k', v') # omap_del k m)"

text \<open>\<open>m.find(k)\<close> is the library's \<^const>\<open>map_of\<close>.\<close>

abbreviation omap_get :: "('k, 'v) omap \<Rightarrow> 'k \<Rightarrow> 'v option" where
  "omap_get \<equiv> map_of"

text \<open>
  \<open>m[k]\<close> on the right of an assignment: the element, and the map with a default inserted when the
  key was missing.
\<close>

definition at_ins :: "'v \<Rightarrow> ('k::linorder, 'v) omap \<Rightarrow> 'k \<Rightarrow> 'v \<times> ('k, 'v) omap" where
  "at_ins d m k = (case omap_get m k of Some v \<Rightarrow> (v, m) | None \<Rightarrow> (d, omap_put k d m))"

text \<open>The representation invariant: strictly ascending keys.\<close>

definition omap_ok :: "('k::linorder, 'v) omap \<Rightarrow> bool" where
  "omap_ok m \<longleftrightarrow> sorted (map fst m) \<and> distinct (map fst m)"

lemma fst_image_omap_put [simp]: "fst ` set (omap_put k v m) = insert k (fst ` set m)"
proof (induction m)
  case Nil
  then show ?case by simp
next
  case (Cons kv m)
  then show ?case by (cases kv) (simp add: insert_commute)
qed

lemma omap_get_put [simp]: "omap_get (omap_put k v m) = (omap_get m)(k \<mapsto> v)"
  by (induction m) (auto simp: fun_eq_iff)

lemma fst_image_omap_del: "fst ` set (omap_del k m) \<subseteq> fst ` set m"
proof (induction m)
  case Nil
  then show ?case by simp
next
  case (Cons kv m)
  then show ?case by (cases kv) auto
qed

lemma set_omap_del: "set (omap_del k m) \<subseteq> set m"
  by (induction k m rule: omap_del.induct) auto

lemma omap_get_None_iff: "omap_get m k = None \<longleftrightarrow> k \<notin> fst ` set m"
  by (induction m) auto

lemma omap_ok_Nil [simp]: "omap_ok []"
  by (simp add: omap_ok_def)

lemma omap_ok_Cons: "omap_ok ((k, v) # m) \<longleftrightarrow> omap_ok m \<and> (\<forall>k' \<in> fst ` set m. k < k')"
  by (auto simp: omap_ok_def less_le)

lemma omap_ok_put [simp]: "omap_ok m \<Longrightarrow> omap_ok (omap_put k v m)"
proof (induction m)
  case Nil
  then show ?case by (simp add: omap_ok_def)
next
  case (Cons kv m)
  obtain k' v' where kv: "kv = (k', v')" by (cases kv)
  show ?case using Cons by (auto simp: kv omap_ok_Cons)
qed

lemma omap_get_del: "omap_ok m \<Longrightarrow> omap_get (omap_del k m) = (omap_get m)(k := None)"
proof (induction m)
  case Nil
  then show ?case by (simp add: fun_eq_iff)
next
  case (Cons kv m)
  obtain k' v' where kv: "kv = (k', v')" by (cases kv)
  have "k' \<notin> fst ` set m" using Cons.prems by (auto simp: kv omap_ok_def)
  then have "omap_get m k' = None" by (simp add: omap_get_None_iff)
  then show ?case using Cons by (auto simp: kv omap_ok_Cons fun_eq_iff)
qed

lemma omap_ok_del [simp]: "omap_ok m \<Longrightarrow> omap_ok (omap_del k m)"
proof (induction m)
  case Nil
  then show ?case by simp
next
  case (Cons kv m)
  obtain k' v' where kv: "kv = (k', v')" by (cases kv)
  have "\<forall>x \<in> fst ` set (omap_del k m). k' < x"
    using Cons.prems fst_image_omap_del [of k m] unfolding kv omap_ok_Cons by blast
  then show ?case using Cons by (simp add: kv omap_ok_Cons)
qed

lemma omap_put_last: "\<forall>x \<in> fst ` set m. x < k \<Longrightarrow> omap_put k v m = m @ [(k, v)]"
  by (induction k v m rule: omap_put.induct) auto

lemma omap_put_put [simp]: "omap_put k v (omap_put k w m) = omap_put k v m"
  by (induction k w m rule: omap_put.induct) auto

lemma omap_put_same: "omap_get m k = Some v \<Longrightarrow> omap_ok m \<Longrightarrow> omap_put k v m = m"
proof (induction k v m rule: omap_put.induct)
  case (2 k v k' v' m)
  then show ?case by (fastforce simp: omap_ok_Cons split: if_splits dest: map_of_SomeD)
qed simp

lemma snd_image_omap_put: "snd ` set (omap_put k v m) \<subseteq> insert v (snd ` set m)"
  by (induction k v m rule: omap_put.induct) auto

lemma omap_ok_mem: "omap_ok m \<Longrightarrow> (k, v) \<in> set m \<longleftrightarrow> omap_get m k = Some v"
  by (auto simp: omap_ok_def dest: map_of_SomeD)

lemma omap_ok_map: "omap_ok (map (\<lambda>(k, v). (k, f k v)) m) = omap_ok m"
  by (simp add: omap_ok_def comp_def split_def)

lemma omap_get_map: "omap_get (map (\<lambda>(k, v). (k, f k v)) m) k = map_option (f k) (omap_get m k)"
  by (induction m) auto

subsection \<open>The container interface\<close>

text \<open>
  What the clients of a keyed container rely on; \<open>std::map\<close> provides it. The client lemmas are
  about registering a whole list of entries one after the other, which is how the constructors of
  the components fill their tables.
\<close>

locale keyed_container =
  fixes put :: "'k \<Rightarrow> 'v \<Rightarrow> 'm \<Rightarrow> 'm"
    and get :: "'m \<Rightarrow> 'k \<Rightarrow> 'v option"
    and del :: "'k \<Rightarrow> 'm \<Rightarrow> 'm"
    and empty :: 'm
    and invar :: "'m \<Rightarrow> bool"
  assumes get_empty: "get empty k = None"
    and get_put: "invar m \<Longrightarrow> get (put k v m) = (get m)(k \<mapsto> v)"
    and get_del: "invar m \<Longrightarrow> get (del k m) = (get m)(k := None)"
    and invar_empty: "invar empty"
    and invar_put: "invar m \<Longrightarrow> invar (put k v m)"
    and invar_del: "invar m \<Longrightarrow> invar (del k m)"
begin

lemma invar_register: "invar m \<Longrightarrow> invar (fold (\<lambda>(k, v). put k v) kvs m)"
  by (induction kvs arbitrary: m) (auto simp: invar_put)

lemma get_register:
  "invar m \<Longrightarrow> get (fold (\<lambda>(k, v). put k v) kvs m) = get m ++ map_of (rev kvs)"
proof (induction kvs arbitrary: m)
  case Nil
  then show ?case by simp
next
  case (Cons kv kvs)
  obtain k v where kv: "kv = (k, v)" by (cases kv)
  show ?case
    using Cons.IH [OF invar_put [OF Cons.prems]] Cons.prems
    by (auto simp: kv get_put map_add_def fun_eq_iff split: option.splits)
qed

lemma get_put_del: "invar m \<Longrightarrow> get (del k (put k v m)) k = None"
  by (simp add: get_del get_put invar_put)

end

interpretation std_map: keyed_container omap_put omap_get omap_del "[]" omap_ok
  by unfold_locales (auto simp: omap_get_del)

lemma upt_split: "\<lbrakk>i \<le> j; j \<le> k\<rbrakk> \<Longrightarrow> [i..<k] = [i..<j] @ [j..<k]"
  using upt_add_eq_append [of i j "k - j"] by simp

text \<open>The index of the first element with a property, as a search loop finds it.\<close>

primrec index_of :: "('a \<Rightarrow> bool) \<Rightarrow> 'a list \<Rightarrow> nat option" where
  "index_of P [] = None"
| "index_of P (x # xs) = (if P x then Some 0 else map_option Suc (index_of P xs))"

lemma index_of_Some: "index_of P xs = Some i \<Longrightarrow> i < length xs \<and> P (xs ! i) \<and> (\<forall>j < i. \<not> P (xs ! j))"
proof (induction xs arbitrary: i)
  case Nil
  then show ?case by simp
next
  case (Cons x xs)
  then show ?case by (cases i) (auto simp: less_Suc_eq_0_disj split: if_splits)
qed

lemma index_of_None: "index_of P xs = None \<longleftrightarrow> (\<forall>x \<in> set xs. \<not> P x)"
  by (induction xs) auto

lemma index_of_at: "\<lbrakk>i < length xs; P (xs ! i); \<forall>j < i. \<not> P (xs ! j)\<rbrakk> \<Longrightarrow> index_of P xs = Some i"
proof (induction xs arbitrary: i)
  case Nil
  then show ?case by simp
next
  case (Cons x xs)
  show ?case
  proof (cases i)
    case 0
    then show ?thesis using Cons.prems by simp
  next
    case (Suc k)
    then have "\<not> P x" "\<forall>j < k. \<not> P (xs ! j)" using Cons.prems(3) by (metis nth_Cons_0 zero_less_Suc, metis Suc_less_eq nth_Cons_Suc)
    then show ?thesis using Cons Suc by simp
  qed
qed

lemma index_of_iff: "index_of P xs = Some i \<longleftrightarrow> i < length xs \<and> P (xs ! i) \<and> (\<forall>j < i. \<not> P (xs ! j))"
  using index_of_Some [of P xs i] index_of_at [of i xs P] by blast

text \<open>
  The contract of a linear search for a key: the first element with the key, or nothing when there
  is none.
\<close>

locale keyed_search =
  fixes search :: "'w \<Rightarrow> 'k \<Rightarrow> nat option"
    and items :: "'w \<Rightarrow> 'a list"
    and key :: "'a \<Rightarrow> 'k"
  assumes first: "search w k = Some i \<Longrightarrow> i < length (items w) \<and> key (items w ! i) = k \<and> (\<forall>j < i. key (items w ! j) \<noteq> k)"
    and none: "search w k = None \<Longrightarrow> k \<notin> key ` set (items w)"
begin

lemma found: "search w k = Some i \<Longrightarrow> i < length (items w) \<and> key (items w ! i) = k"
  using first by blast

lemma member: "search w k = Some i \<Longrightarrow> items w ! i \<in> set (items w) \<and> key (items w ! i) = k"
  using found nth_mem by blast

lemma missing: "search w k = None \<longleftrightarrow> k \<notin> key ` set (items w)"
  using member none by (cases "search w k") force+

lemma is_first:
  assumes "i < length (items w)" "key (items w ! i) = k" "\<forall>j < i. key (items w ! j) \<noteq> k"
  shows "search w k = Some i"
proof -
  have "search w k \<noteq> None" using assms(1,2) by (auto simp: missing)
  then obtain j where j: "search w k = Some j" by blast
  have "j = i" using first [OF j] assms by (metis linorder_neqE_nat)
  then show ?thesis using j by simp
qed

lemma unique: "\<lbrakk>distinct (map key (items w)); i < length (items w)\<rbrakk> \<Longrightarrow> search w (key (items w ! i)) = Some i"
  by (rule is_first) (auto simp: distinct_conv_nth)

lemma same_keys:
  assumes "map key (items v) = map key (items w)"
  shows "search v k = search w k"
proof -
  have len: "length (items v) = length (items w)" using assms by (metis length_map)
  have key: "key (items v ! i) = key (items w ! i)" if "i < length (items w)" for i
    using assms that len by (metis nth_map)
  show ?thesis
  proof (cases "search v k")
    case None
    then show ?thesis
      using assms missing [of v k] missing [of w k] by (metis list.set_map)
  next
    case (Some i)
    then have "search w k = Some i"
      using first [OF Some] len key by (intro is_first) auto
    then show ?thesis using Some by simp
  qed
qed

end

text \<open>The index of the last such element, as a loop from the end finds it.\<close>

definition last_index_of :: "('a \<Rightarrow> bool) \<Rightarrow> 'a list \<Rightarrow> nat option" where
  "last_index_of P xs = map_option (\<lambda>k. length xs - 1 - k) (index_of P (rev xs))"

lemma last_index_of_Some: "last_index_of P xs = Some i \<Longrightarrow> i < length xs \<and> P (xs ! i)"
  using index_of_Some [of P "rev xs"] by (fastforce simp: last_index_of_def rev_nth)

lemma last_index_of_None: "last_index_of P xs = None \<longleftrightarrow> (\<forall>x \<in> set xs. \<not> P x)"
  by (simp add: last_index_of_def index_of_None)

section \<open>\<open>std::string\<close> operations\<close>

text \<open>
  A \<open>size_t\<close> difference used as a string position. When the subtrahend is larger, the value wraps
  to at least \<open>2^64 - max_size\<close>, beyond the end of any string; \<^term>\<open>None\<close> stands for such a
  position.
\<close>

definition size_sub :: "nat \<Rightarrow> nat \<Rightarrow> nat option" where
  "size_sub a b = (if b \<le> a then Some (a - b) else None)"

text \<open>\<open>s.substr(pos)\<close>: throws \<open>std::out_of_range\<close> (\<^term>\<open>None\<close>) when \<open>pos > s.size()\<close>.\<close>

definition substr_from :: "string \<Rightarrow> nat option \<Rightarrow> string option" where
  "substr_from s pos =
     (case pos of
        None \<Rightarrow> None
      | Some p \<Rightarrow> if p \<le> length s then Some (drop p s) else None)"

text \<open>\<open>s.substr(pos, len)\<close> with \<open>pos\<close> in range.\<close>

definition substr :: "string \<Rightarrow> nat \<Rightarrow> nat \<Rightarrow> string" where
  "substr s pos len = take len (drop pos s)"

text \<open>
  \<open>s.find(p)\<close>, \<open>s.find(p, pos)\<close>, \<open>s.find_first_of(cs)\<close> and \<open>s.find_last_of(cs, pos)\<close>; \<open>npos\<close> is
  \<^term>\<open>None\<close>.
\<close>

fun findp :: "string \<Rightarrow> string \<Rightarrow> nat option" where
  "findp p s =
     (if take (length p) s = p then Some 0
      else case s of [] \<Rightarrow> None | c # r \<Rightarrow> map_option Suc (findp p r))"

declare findp.simps [simp del]

definition find_from :: "string \<Rightarrow> string \<Rightarrow> nat \<Rightarrow> nat option" where
  "find_from p s pos = (if pos \<le> length s then map_option ((+) pos) (findp p (drop pos s)) else None)"

fun find_first_of :: "(char \<Rightarrow> bool) \<Rightarrow> string \<Rightarrow> nat option" where
  "find_first_of P [] = None"
| "find_first_of P (c # s) = (if P c then Some 0 else map_option Suc (find_first_of P s))"

definition find_last_of :: "(char \<Rightarrow> bool) \<Rightarrow> string \<Rightarrow> nat \<Rightarrow> nat option" where
  "find_last_of P s pos =
     (let t = take (Suc pos) s
      in map_option (\<lambda>i. length t - 1 - i) (find_first_of P (rev t)))"

lemma findp_char_Cons [cxx_simps]:
  "findp [c] (d # s) = (if c = d then Some 0 else map_option Suc (findp [c] s))"
  by (subst findp.simps) auto

lemma findp_char_Nil [cxx_simps]: "findp [c] [] = None"
  by (subst findp.simps) simp

lemma findp_char: "c \<notin> set xs \<Longrightarrow> findp [c] (xs @ c # ys) = Some (length xs)"
  by (induction xs) (auto simp: cxx_simps)

lemma findp_char_None: "c \<notin> set xs \<Longrightarrow> findp [c] xs = None"
  by (induction xs) (auto simp: cxx_simps)

lemma findp_bound: "findp p s = Some i \<Longrightarrow> i + length p \<le> length s"
proof (induction s arbitrary: i)
  case Nil
  then show ?case by (subst (asm) findp.simps) (auto split: if_splits)
next
  case (Cons c s)
  from Cons.prems show ?case
  proof (subst (asm) findp.simps, cases "take (length p) (c # s) = p")
    case True
    then show ?thesis using Cons.prems by (subst (asm) findp.simps) (auto, metis length_take min.cobounded1 length_Cons)
  next
    case False
    then obtain j where "findp p s = Some j" "i = Suc j"
      using Cons.prems by (subst (asm) findp.simps) auto
    then show ?thesis using Cons.IH by fastforce
  qed
qed

lemma find_from_char:
  "\<lbrakk>drop pos s = xs @ c # ys; c \<notin> set xs\<rbrakk> \<Longrightarrow> find_from [c] s pos = Some (pos + length xs)"
  by (cases "pos \<le> length s") (auto simp: find_from_def findp_char)

lemma find_from_char_None: "c \<notin> set (drop pos s) \<Longrightarrow> find_from [c] s pos = None"
  by (simp add: find_from_def findp_char_None)

lemma find_from_bounds: "find_from p s pos = Some i \<Longrightarrow> pos \<le> i \<and> i + length p \<le> length s"
  using findp_bound [of p "drop pos s"]
  by (auto simp: find_from_def split: if_splits)

lemma find_first_of_char:
  "\<lbrakk>\<forall>x \<in> set xs. \<not> P x; P c\<rbrakk> \<Longrightarrow> find_first_of P (xs @ c # ys) = Some (length xs)"
  by (induction xs) auto

lemma find_first_of_None: "\<forall>x \<in> set xs. \<not> P x \<Longrightarrow> find_first_of P xs = None"
  by (induction xs) auto

lemma find_last_of_char:
  assumes "take (Suc pos) s = xs @ c # ys" "P c" "\<forall>y \<in> set ys. \<not> P y"
  shows "find_last_of P s pos = Some (length xs)"
  using assms find_first_of_char [of "rev ys" P c "rev xs"] by (simp add: find_last_of_def Let_def)

text \<open>A value between single quotes, as the error messages print it.\<close>

definition quoted :: "string \<Rightarrow> string" where
  "quoted s = CHR 0x27 # s @ [CHR 0x27]"

abbreviation endl :: string where
  "endl \<equiv> [CHR 0x0A]"

definition is_digit :: "char \<Rightarrow> bool" where
  "is_digit c \<longleftrightarrow> CHR ''0'' \<le> c \<and> c \<le> CHR ''9''"

definition is_alnum :: "char \<Rightarrow> bool" where
  "is_alnum c \<longleftrightarrow>
     (CHR ''a'' \<le> c \<and> c \<le> CHR ''z'') \<or> (CHR ''A'' \<le> c \<and> c \<le> CHR ''Z'') \<or>
     (CHR ''0'' \<le> c \<and> c \<le> CHR ''9'')"

definition digit_char :: "nat \<Rightarrow> char" where
  "digit_char d = char_of (48 + d)"

text \<open>\<open>std::to_string\<close> of an unsigned value.\<close>

fun to_string :: "nat \<Rightarrow> string" where
  "to_string n = (if n < 10 then [digit_char n] else to_string (n div 10) @ [digit_char (n mod 10)])"

declare to_string.simps [simp del]

section \<open>Machine integers\<close>

type_synonym u8 = "8 word"
type_synonym u32 = "32 word"
type_synonym u64 = "64 word"

end
