(* ===== verification/StringTools.thy ===== *)
theory StringTools
  imports Prelude
begin

text \<open>
  String conversions of \<open>otsdaq/Macros/StringMacros.cc\<close>: the URI and JSON encodings with their
  round trips, the SQL quoting, \<open>trim\<close>, the splitting of delimited lists and sets, and the
  recognition of numbers.
\<close>

section \<open>URI components\<close>

text \<open>\<open>char\<close> is signed on the supported platforms: bytes from 128 on are negative.\<close>

definition schar :: "char \<Rightarrow> int" where
  "schar c = (let n = int (of_char c :: nat) in if 128 \<le> n then n - 256 else n)"

text \<open>The nibble value of \<open>decodeURIComponent\<close>: upper case letters and digits only.\<close>

definition hex_nibble :: "char \<Rightarrow> int" where
  "hex_nibble c = (if schar c > 57 then schar c - 55 else schar c - 48)"

definition byte_char :: "int \<Rightarrow> char" where
  "byte_char v = char_of (nat (v mod 256))"

text \<open>
  \<open>decodeURIComponent\<close>. \<open>data[size()]\<close> is the NUL character; an access beyond it, for a string that
  ends in a percent sign, is outside the string (\<^term>\<open>None\<close>).
\<close>

fun decodeURIComponent :: "string \<Rightarrow> string option" where
  "decodeURIComponent [] = Some []"
| "decodeURIComponent (c # cs) =
     (if c = CHR ''%'' then
        (case cs of
           h # l # r \<Rightarrow>
             map_option ((#) (byte_char (hex_nibble h * 16 + hex_nibble l))) (decodeURIComponent r)
         | [h] \<Rightarrow> Some [byte_char (hex_nibble h * 16 + hex_nibble (CHR 0x00))]
         | [] \<Rightarrow> None)
      else map_option ((#) c) (decodeURIComponent cs))"

definition hex_digit :: "nat \<Rightarrow> char" where
  "hex_digit d = (if d < 10 then char_of (48 + d) else char_of (55 + d))"

text \<open>\<open>sprintf("%2.2X")\<close> of one byte.\<close>

definition hex_byte :: "char \<Rightarrow> string" where
  "hex_byte c = [hex_digit (of_char c div 16), hex_digit (of_char c mod 16)]"

primrec encodeURIComponent :: "string \<Rightarrow> string" where
  "encodeURIComponent [] = []"
| "encodeURIComponent (c # cs) =
     (if is_alnum c then [c] else CHR ''%'' # hex_byte c) @ encodeURIComponent cs"

section \<open>Quoting\<close>

text \<open>
  \<open>sanitizeForSQL\<close>: the replacement table and the loop that replaces in place and advances past the
  replacement; \<open>done\<close> is the part of the string before \<open>pos\<close>.
\<close>

definition sql_replacement :: "char \<Rightarrow> string option" where
  "sql_replacement c =
     (if c = CHR 0x27 then Some [CHR 0x27, CHR 0x27]
      else if c = CHR 0x5C then Some [CHR 0x5C, CHR 0x5C] else None)"

fun sanitizeLoop :: "string \<Rightarrow> string \<Rightarrow> string" where
  "sanitizeLoop before [] = before"
| "sanitizeLoop before (c # after) =
     (case sql_replacement c of
        Some r \<Rightarrow> sanitizeLoop (before @ r) after
      | None \<Rightarrow> sanitizeLoop (before @ [c]) after)"

definition sanitizeForSQL :: "string \<Rightarrow> string" where
  "sanitizeForSQL s = sanitizeLoop [] s"

definition json_escape :: "char \<Rightarrow> string" where
  "json_escape c =
     (if c = CHR 0x0A then [CHR 0x5C, CHR ''n'']
      else if c = CHR 0x22 then [CHR 0x5C, CHR 0x22]
      else if c = CHR 0x09 then [CHR 0x5C, CHR ''t'']
      else if c = CHR 0x0D then [CHR 0x5C, CHR ''r'']
      else if c = CHR 0x5C then [CHR 0x5C, CHR 0x5C]
      else [c])"

primrec escapeJSONStringEntities :: "string \<Rightarrow> string" where
  "escapeJSONStringEntities [] = []"
| "escapeJSONStringEntities (c # cs) = json_escape c @ escapeJSONStringEntities cs"

definition json_restore :: "char \<Rightarrow> char option" where
  "json_restore c =
     (if c = CHR ''n'' then Some (CHR 0x0A)
      else if c = CHR 0x22 then Some (CHR 0x22)
      else if c = CHR ''t'' then Some (CHR 0x09)
      else if c = CHR ''r'' then Some (CHR 0x0D)
      else if c = CHR 0x5C then Some (CHR 0x5C)
      else None)"

fun restoreJSONStringEntities :: "string \<Rightarrow> string" where
  "restoreJSONStringEntities [] = []"
| "restoreJSONStringEntities [c] = [c]"
| "restoreJSONStringEntities (c # d # cs) =
     (if c = CHR 0x5C then
        (case json_restore d of
           Some e \<Rightarrow> e # restoreJSONStringEntities cs
         | None \<Rightarrow> c # restoreJSONStringEntities (d # cs))
      else c # restoreJSONStringEntities (d # cs))"

text \<open>\<open>std::isspace\<close> in the C locale, and \<open>trim\<close>.\<close>

definition isspace :: "char \<Rightarrow> bool" where
  "isspace c \<longleftrightarrow> c = CHR '' '' \<or> (9 \<le> (of_char c :: nat) \<and> of_char c \<le> (13 :: nat))"

definition trim :: "string \<Rightarrow> string" where
  "trim s = rev (dropWhile isspace (rev (dropWhile isspace s)))"

section \<open>Delimited lists\<close>

text \<open>
  \<open>getSetFromString\<close>: the loop over position \<open>j\<close> with element start \<open>i\<close>. The result set is the key
  list of an ordered map.
\<close>

fun setLoop ::
  "(char \<Rightarrow> bool) \<Rightarrow> (char \<Rightarrow> bool) \<Rightarrow> string \<Rightarrow> nat \<Rightarrow> nat \<Rightarrow> string \<Rightarrow> (string, unit) omap
    \<Rightarrow> (string, unit) omap" where
  "setLoop ws dl s i j [] acc =
     (if i \<noteq> j then omap_put (substr s i (j - i)) () acc else acc)"
| "setLoop ws dl s i j (c # rest) acc =
     (if (ws c \<or> dl c) \<and> i = j then setLoop ws dl s (Suc i) (Suc j) rest acc
      else if (ws c \<or> dl c) \<and> i \<noteq> j
      then setLoop ws dl s (Suc j) (Suc j) rest (omap_put (substr s i (j - i)) () acc)
      else setLoop ws dl s i (Suc j) rest acc)"

definition getSetFromString ::
  "string \<Rightarrow> string list \<Rightarrow> (char \<Rightarrow> bool) \<Rightarrow> (char \<Rightarrow> bool) \<Rightarrow> string list" where
  "getSetFromString inputString setToReturn delimiter whitespace =
     map fst (setLoop whitespace delimiter inputString 0 0 inputString
       (map (\<lambda>x. (x, ())) setToReturn))"

text \<open>
  \<open>getVectorFromString\<close>: element bounds \<open>i\<close> and \<open>j\<close>, position \<open>c\<close>, the last delimiter seen, the
  list built so far and the list of delimiters.
\<close>

record split_state =
  sp_i :: nat
  sp_j :: nat
  sp_c :: nat
  sp_last :: char
  sp_list :: "string list"
  sp_delims :: "char list"

definition pushElement :: "string \<Rightarrow> split_state \<Rightarrow> split_state" where
  "pushElement s st =
     st\<lparr>sp_delims := (if sp_list st \<noteq> [] then sp_delims st @ [sp_last st] else sp_delims st),
        sp_list := sp_list st @ [substr s (sp_i st) (sp_j st - sp_i st)]\<rparr>"

definition splitStep ::
  "(char \<Rightarrow> bool) \<Rightarrow> (char \<Rightarrow> bool) \<Rightarrow> string \<Rightarrow> char \<Rightarrow> split_state \<Rightarrow> split_state" where
  "splitStep dl ws s ch st =
     (let st1 =
        (if ws ch \<and> sp_i st = sp_j st then st\<lparr>sp_i := Suc (sp_i st), sp_j := Suc (sp_j st)\<rparr>
         else if ws ch \<and> sp_i st \<noteq> sp_j st then st
         else if dl ch then (pushElement s st)\<lparr>sp_i := Suc (sp_c st), sp_j := Suc (sp_c st)\<rparr>
         else st\<lparr>sp_j := Suc (sp_c st)\<rparr>)
      in st1\<lparr>sp_last := (if dl ch then ch else sp_last st1), sp_c := Suc (sp_c st1)\<rparr>)"

text \<open>
  The elements are URI-decoded on request. \<^term>\<open>None\<close>: the consistency check between elements and
  delimiters throws, or a decoding runs off its element.
\<close>

definition getVectorFromString ::
  "(char \<Rightarrow> bool) \<Rightarrow> (char \<Rightarrow> bool) \<Rightarrow> bool \<Rightarrow> string \<Rightarrow> (string list \<times> char list) option" where
  "getVectorFromString delimiter whitespace decodeURIComponents inputString =
     (let st = pushElement inputString
                 (fold (splitStep delimiter whitespace inputString) inputString
                   \<lparr>sp_i = 0, sp_j = 0, sp_c = 0, sp_last = CHR 0x00, sp_list = [], sp_delims = []\<rparr>)
      in if length (sp_list st) \<noteq> Suc (length (sp_delims st)) \<and>
            length (sp_list st) \<noteq> length (sp_delims st)
         then None
         else if decodeURIComponents
         then map_option (\<lambda>l. (l, sp_delims st)) (those (map decodeURIComponent (sp_list st)))
         else Some (sp_list st, sp_delims st))"

text \<open>\<open>splitMacroArgTriple\<close>: \<open>name:init:step\<close>, split at the last two delimiters, parts trimmed.\<close>

definition rfind :: "char \<Rightarrow> string \<Rightarrow> nat option" where
  "rfind d s = (if d \<in> set s
     then Some (length s - Suc (length (takeWhile (\<lambda>c. c \<noteq> d) (rev s)))) else None)"

definition blank :: "char \<Rightarrow> bool" where
  "blank c \<longleftrightarrow> c \<in> set [CHR '' '', CHR 0x09, CHR 0x0A, CHR 0x0D]"

definition trimBlank :: "string \<Rightarrow> string" where
  "trimBlank s = rev (dropWhile blank (rev (dropWhile blank s)))"

definition splitMacroArgTriple ::
  "char \<Rightarrow> string \<Rightarrow> (string \<times> string \<times> string) option" where
  "splitMacroArgTriple delimiter inputString =
     (case rfind delimiter inputString of
        None \<Rightarrow> None
      | Some stepPos \<Rightarrow>
          if stepPos = 0 then None
          else (case rfind delimiter (take stepPos inputString) of
                  None \<Rightarrow> None
                | Some initPos \<Rightarrow>
                    (let name = trimBlank (take initPos inputString);
                         initValue = trimBlank (substr inputString (Suc initPos) (stepPos - initPos - 1));
                         stepValue = trimBlank (drop (Suc stepPos) inputString)
                     in if name \<noteq> [] then Some (name, initValue, stepValue) else None)))"

section \<open>Recognising numbers\<close>

definition math_op :: "char \<Rightarrow> bool" where
  "math_op c \<longleftrightarrow> c \<in> set ''+-*/''"

definition is_hex :: "char \<Rightarrow> bool" where
  "is_hex c \<longleftrightarrow> is_digit c \<or> (CHR ''A'' \<le> c \<and> c \<le> CHR ''F'') \<or> (CHR ''a'' \<le> c \<and> c \<le> CHR ''f'')"

definition is_base10 :: "char \<Rightarrow> bool" where
  "is_base10 c \<longleftrightarrow> is_digit c \<or> c = CHR ''.'' \<or> c = CHR ''+'' \<or> c = CHR ''-''"

text \<open>The test of one operand, the same in \<open>isNumber\<close>, \<open>getNumberType\<close> and \<open>getNumber\<close>.\<close>

definition is_hex_literal :: "string \<Rightarrow> bool" where
  "is_hex_literal n \<longleftrightarrow> take 2 n = ''0x''"

definition operandOk :: "string \<Rightarrow> bool" where
  "operandOk n =
     (if is_hex_literal n then list_all is_hex (drop 2 n)
      else if hd n = CHR ''b'' then list_all (\<lambda>c. CHR ''0'' \<le> c \<and> c \<le> CHR ''1'') (drop 1 n)
      else list_all is_base10 n)"

definition mathOperands :: "string \<Rightarrow> string list \<times> char list" where
  "mathOperands s =
     (case getVectorFromString math_op blank False s of None \<Rightarrow> ([], []) | Some r \<Rightarrow> r)"

definition isNumber :: "string \<Rightarrow> bool" where
  "isNumber s \<longleftrightarrow> s \<noteq> [] \<and> list_all (\<lambda>n. n = [] \<or> operandOk n) (fst (mathOperands s))"

fun numberTypeLoop :: "bool \<Rightarrow> string list \<Rightarrow> string" where
  "numberTypeLoop hasDecimal [] = (if hasDecimal then ''double'' else ''unsigned long long'')"
| "numberTypeLoop hasDecimal (n # ns) =
     (if n = [] then numberTypeLoop hasDecimal ns
      else if \<not> operandOk n then ''nan''
      else if is_hex_literal n \<or> hd n = CHR ''b'' then numberTypeLoop hasDecimal ns
      else numberTypeLoop (hasDecimal \<or> CHR ''.'' \<in> set n) ns)"

definition getNumberType :: "string \<Rightarrow> string" where
  "getNumberType s = numberTypeLoop False (fst (mathOperands s))"

text \<open>\<open>getNumber<bool>\<close>: \<^term>\<open>None\<close> when the string is not a bool.\<close>

definition getNumberBool :: "string \<Rightarrow> bool option" where
  "getNumberBool s =
     (if s = [] then None
      else if CHR ''1'' \<in> set s \<or> s = ''true'' \<or> s = ''True'' \<or> s = ''TRUE'' then Some True
      else if CHR ''0'' \<in> set s \<or> s = ''false'' \<or> s = ''False'' \<or> s = ''FALSE'' then Some False
      else None)"

section \<open>Round trips of the encodings\<close>

lemma schar_char_of: "k < 128 \<Longrightarrow> schar (char_of k) = int k" for k :: nat
  by (simp add: schar_def)

lemma hex_nibble_hex_digit: "d < 16 \<Longrightarrow> hex_nibble (hex_digit d) = int d"
  by (auto simp: hex_nibble_def hex_digit_def schar_char_of)

lemma byte_char_of_char: "byte_char (int (of_char c)) = c"
  by (simp add: byte_char_def nat_mod_distrib)

lemma decode_hex_byte:
  "decodeURIComponent (CHR ''%'' # hex_byte c @ r) = map_option ((#) c) (decodeURIComponent r)"
proof -
  let ?n = "of_char c :: nat"
  have "?n < 256" by simp
  then have "?n div 16 < 16" by (simp add: less_mult_imp_div_less)
  then have "hex_nibble (hex_digit (?n div 16)) * 16 + hex_nibble (hex_digit (?n mod 16)) = int ?n"
    by (simp add: hex_nibble_hex_digit zdiv_int zmod_int)
  then show ?thesis by (simp add: hex_byte_def byte_char_of_char)
qed

text \<open>
  \<open>decodeURIComponent\<close> inverts \<open>encodeURIComponent\<close> on every byte string.
\<close>

theorem decode_encode_URI: "decodeURIComponent (encodeURIComponent s) = Some s"
proof (induction s)
  case Nil
  then show ?case by simp
next
  case (Cons c s)
  have "is_alnum c \<Longrightarrow> c \<noteq> CHR ''%''" by (auto simp: is_alnum_def)
  then show ?case using Cons decode_hex_byte [of c] by simp
qed

lemma restore_literal: "c \<noteq> CHR 0x5C \<Longrightarrow>
    restoreJSONStringEntities (c # r) = c # restoreJSONStringEntities r"
  by (cases r) simp_all

lemma restore_escape_char:
  "restoreJSONStringEntities (json_escape c @ r) = c # restoreJSONStringEntities r"
  by (auto simp: json_escape_def json_restore_def restore_literal)

text \<open>
  \<open>restoreJSONStringEntities\<close> inverts \<open>escapeJSONStringEntities\<close>.
\<close>

theorem restore_escape_JSON: "restoreJSONStringEntities (escapeJSONStringEntities s) = s"
  by (induction s) (simp_all add: restore_escape_char)

lemma sanitizeLoop_eq:
  "sanitizeLoop b s =
     b @ concat (map (\<lambda>c. case sql_replacement c of Some r \<Rightarrow> r | None \<Rightarrow> [c]) s)"
  by (induction b s rule: sanitizeLoop.induct) (auto split: option.splits)

text \<open>A string in which quotes and backslashes occur in adjacent pairs only.\<close>

fun sql_safe :: "string \<Rightarrow> bool" where
  "sql_safe [] = True"
| "sql_safe (c # cs) =
     (if c = CHR 0x27 \<or> c = CHR 0x5C
      then (case cs of [] \<Rightarrow> False | d # r \<Rightarrow> d = c \<and> sql_safe r)
      else sql_safe cs)"

lemma sql_safe_append: "sql_safe s \<Longrightarrow> sql_safe t \<Longrightarrow> sql_safe (s @ t)"
  by (induction s rule: sql_safe.induct) (auto split: list.splits if_splits)

text \<open>
  \<open>sanitizeForSQL\<close> leaves no single quote or backslash outside a doubled pair, whatever the input.
\<close>

theorem sanitizeForSQL_safe: "sql_safe (sanitizeForSQL s)"
proof (induction s)
  case Nil
  then show ?case by (simp add: sanitizeForSQL_def)
next
  case (Cons c s)
  have "sanitizeForSQL (c # s) =
      (case sql_replacement c of Some r \<Rightarrow> r | None \<Rightarrow> [c]) @ sanitizeForSQL s"
    by (simp add: sanitizeForSQL_def sanitizeLoop_eq split: option.splits)
  moreover have "sql_safe (case sql_replacement c of Some r \<Rightarrow> r | None \<Rightarrow> [c])"
    by (auto simp: sql_replacement_def)
  ultimately show ?case using Cons sql_safe_append by presburger
qed

section \<open>Splitting\<close>

subsection \<open>The consistency check never fires\<close>

definition split_inv :: "(char \<Rightarrow> bool) \<Rightarrow> split_state \<Rightarrow> bool" where
  "split_inv dl st \<longleftrightarrow>
     length (sp_delims st) = length (sp_list st) - 1 \<and> list_all dl (sp_delims st) \<and>
     (sp_list st \<noteq> [] \<longrightarrow> dl (sp_last st))"

lemma split_inv_step: "split_inv dl st \<Longrightarrow> split_inv dl (splitStep dl ws s ch st)"
  by (cases "sp_list st") (auto simp: split_inv_def splitStep_def pushElement_def Let_def)

lemma split_inv_fold: "split_inv dl st \<Longrightarrow> split_inv dl (fold (splitStep dl ws s) cs st)"
  by (induction cs arbitrary: st) (simp_all add: split_inv_step)

lemma split_inv_push:
  "split_inv dl st \<Longrightarrow>
     length (sp_list (pushElement s st)) = Suc (length (sp_delims (pushElement s st))) \<and>
     list_all dl (sp_delims (pushElement s st))"
  by (cases "sp_list st") (auto simp: split_inv_def pushElement_def)

lemma getVectorFromString_lengths:
  "\<exists>vs ds. getVectorFromString dl ws False s = Some (vs, ds) \<and>
           length vs = Suc (length ds) \<and> list_all dl ds"
proof -
  let ?st = "fold (splitStep dl ws s) s
    \<lparr>sp_i = 0, sp_j = 0, sp_c = 0, sp_last = CHR 0x00, sp_list = [], sp_delims = []\<rparr>"
  have "split_inv dl ?st" by (rule split_inv_fold) (simp add: split_inv_def)
  then show ?thesis
    using split_inv_push [of dl ?st s] by (simp add: getVectorFromString_def Let_def)
qed

text \<open>
  \<open>getVectorFromString\<close> without URI decoding always returns, with exactly one more element than
  delimiters and only delimiters of the given set in the second list: its consistency check never
  throws. In particular a leading delimiter gives an empty first element, not lists of equal size.
\<close>

theorem getVectorFromString_total:
  "\<exists>vs ds. getVectorFromString dl ws False s = Some (vs, ds) \<and>
           length vs = Suc (length ds) \<and> list_all dl ds"
  by (rule getVectorFromString_lengths)

subsection \<open>Splitting inverts joining\<close>

fun joinOps :: "string \<Rightarrow> (char \<times> string) list \<Rightarrow> string" where
  "joinOps x [] = x"
| "joinOps x ((d, y) # r) = x @ d # joinOps y r"

definition element_ok :: "(char \<Rightarrow> bool) \<Rightarrow> (char \<Rightarrow> bool) \<Rightarrow> string \<Rightarrow> bool" where
  "element_ok dl ws e \<longleftrightarrow> (\<forall>c \<in> set e. \<not> dl c) \<and> (e \<noteq> [] \<longrightarrow> \<not> ws (hd e) \<and> \<not> ws (last e))"

lemma fold_inside_element:
  assumes "\<forall>c \<in> set t. \<not> dl c" "sp_i st \<le> sp_c st" "sp_i st \<noteq> sp_j st"
  shows "\<exists>j. fold (splitStep dl ws s) t st = st\<lparr>sp_j := j, sp_c := sp_c st + length t\<rparr> \<and>
             j \<noteq> sp_i st \<and> (t \<noteq> [] \<and> \<not> ws (last t) \<longrightarrow> j = sp_c st + length t)"
  using assms
proof (induction t rule: rev_induct)
  case Nil
  then show ?case by (intro exI [of _ "sp_j st"]) simp
next
  case (snoc c t)
  then obtain j where f: "fold (splitStep dl ws s) t st = st\<lparr>sp_j := j, sp_c := sp_c st + length t\<rparr>"
    and j: "sp_i st \<noteq> j" by auto
  let ?j = "if ws c then j else Suc (sp_c st + length t)"
  have "splitStep dl ws s c (st\<lparr>sp_j := j, sp_c := sp_c st + length t\<rparr>) =
      st\<lparr>sp_j := ?j, sp_c := Suc (sp_c st + length t)\<rparr>"
    using snoc.prems j by (simp add: splitStep_def)
  then show ?case using snoc.prems j by (intro exI [of _ ?j]) (simp add: f)
qed

lemma fold_element:
  assumes "element_ok dl ws e" "sp_i st = sp_c st" "sp_j st = sp_c st"
  shows "fold (splitStep dl ws s) e st =
           st\<lparr>sp_j := sp_c st + length e, sp_c := sp_c st + length e\<rparr>"
proof (cases e)
  case Nil
  then show ?thesis using assms by simp
next
  case (Cons h t)
  let ?st = "st\<lparr>sp_j := Suc (sp_c st), sp_c := Suc (sp_c st)\<rparr>"
  have "splitStep dl ws s h st = ?st"
    using assms Cons by (simp add: splitStep_def element_ok_def)
  moreover obtain j where j:
    "fold (splitStep dl ws s) t ?st = ?st\<lparr>sp_j := j, sp_c := sp_c ?st + length t\<rparr>"
    "t \<noteq> [] \<and> \<not> ws (last t) \<longrightarrow> j = sp_c ?st + length t"
    using fold_inside_element [of t dl ?st ws s] assms Cons by (auto simp: element_ok_def)
  ultimately show ?thesis using assms Cons by (cases "t = []") (auto simp: element_ok_def)
qed

lemma split_joinOps:
  assumes "element_ok dl ws x" "\<forall>(d, y) \<in> set ops. dl d \<and> \<not> ws d \<and> element_ok dl ws y"
    "sp_i st = sp_c st" "sp_j st = sp_c st" "drop (sp_c st) s = joinOps x ops"
  shows "let r = pushElement s (fold (splitStep dl ws s) (joinOps x ops) st) in
           sp_list r = sp_list st @ x # map snd ops \<and>
           sp_delims r = sp_delims st @ (if sp_list st = [] then [] else [sp_last st]) @ map fst ops"
  using assms
proof (induction ops arbitrary: x st)
  case Nil
  then show ?case by (simp add: fold_element pushElement_def substr_def)
next
  case (Cons dy ops)
  obtain d y where dy: "dy = (d, y)" by (cases dy)
  let ?st = "(pushElement s (fold (splitStep dl ws s) x st))
      \<lparr>sp_i := Suc (sp_c st + length x), sp_j := Suc (sp_c st + length x), sp_last := d,
       sp_c := Suc (sp_c st + length x)\<rparr>"
  have fx: "fold (splitStep dl ws s) x st =
      st\<lparr>sp_j := sp_c st + length x, sp_c := sp_c st + length x\<rparr>"
    using Cons.prems by (intro fold_element) simp_all
  have step: "splitStep dl ws s d (fold (splitStep dl ws s) x st) = ?st"
    using Cons.prems(2,3) by (simp add: dy splitStep_def fx pushElement_def)
  have "drop (Suc (sp_c st + length x)) s = drop (Suc (length x)) (drop (sp_c st) s)"
    by (simp add: add.commute)
  then have "drop (sp_c ?st) s = joinOps y ops" using Cons.prems(5) by (simp add: dy)
  then have "let r = pushElement s (fold (splitStep dl ws s) (joinOps y ops) ?st) in
      sp_list r = sp_list ?st @ y # map snd ops \<and>
      sp_delims r = sp_delims ?st @ (if sp_list ?st = [] then [] else [sp_last ?st]) @ map fst ops"
    using Cons.prems(2) by (intro Cons.IH) (auto simp: dy)
  moreover have "substr s (sp_c st) (length x) = x"
    using Cons.prems(5) by (simp add: substr_def dy)
  ultimately show ?case
    using step Cons.prems(3) by (simp add: dy fx pushElement_def Let_def)
qed

lemma getVectorFromString_splits:
  assumes "element_ok dl ws x" "\<forall>(d, y) \<in> set ops. dl d \<and> \<not> ws d \<and> element_ok dl ws y"
  shows "getVectorFromString dl ws False (joinOps x ops) = Some (x # map snd ops, map fst ops)"
  using split_joinOps [OF assms, of
      "\<lparr>sp_i = 0, sp_j = 0, sp_c = 0, sp_last = CHR 0x00, sp_list = [], sp_delims = []\<rparr>"
      "joinOps x ops"]
  by (simp add: getVectorFromString_def Let_def)

text \<open>
  Splitting inverts joining: elements without delimiters and without blanks at their ends, joined
  by delimiters, come back unchanged together with the delimiters between them.
\<close>

theorem getVectorFromString_join:
  assumes "element_ok dl ws x" "\<forall>(d, y) \<in> set ops. dl d \<and> \<not> ws d \<and> element_ok dl ws y"
  shows "getVectorFromString dl ws False (joinOps x ops) = Some (x # map snd ops, map fst ops)"
  using assms by (rule getVectorFromString_splits)

theorem getVectorFromString_join_witness:
  "getVectorFromString (\<lambda>c. c = CHR '','') blank False ''a b,,c'' =
     Some ([''a b'', [], ''c''], [CHR '','', CHR '',''])"
  using getVectorFromString_join [of "\<lambda>c. c = CHR '',''" blank "''a b''"
      "[(CHR '','', []), (CHR '','', ''c'')]"]
  by (simp add: element_ok_def blank_def)

section \<open>Number recognition\<close>

lemma numberTypeLoop_nan:
  "numberTypeLoop b ns = ''nan'' \<longleftrightarrow> \<not> list_all (\<lambda>n. n = [] \<or> operandOk n) ns"
  by (induction b ns rule: numberTypeLoop.induct) auto

text \<open>
  \<open>isNumber\<close> and \<open>getNumberType\<close> agree: a non-empty string is a number exactly when its type is
  not \<open>nan\<close>. They differ on the empty string, which has type \<open>unsigned long long\<close> but is no number.
\<close>

theorem isNumber_iff_type:
  "isNumber s \<longleftrightarrow> s \<noteq> [] \<and> getNumberType s \<noteq> ''nan''"
  by (simp add: isNumber_def getNumberType_def numberTypeLoop_nan)

end
