(* ===== verification/Numbers.thy ===== *)
theory Numbers
  imports StringTools
begin

text \<open>
  \<open>StringMacros::getNumber<T>\<close> of \<open>otsdaq/Macros/StringMacros.icc\<close> for the unsigned integer types
  \<open>T\<close>: operands in base 10, 16 (\<open>0x..\<close>) or 2 (\<open>b..\<close>) joined by the four operators, evaluated from
  left to right. The width of \<open>T\<close> is the type of the result word.
\<close>

section \<open>Model\<close>

text \<open>
  Unary signs: an empty token means that the operator after it is a sign of the next operand. The
  flag tells whether the previous token was empty; the operators not yet used are passed along.
\<close>

definition takeUnary :: "bool \<Rightarrow> string \<Rightarrow> char list \<Rightarrow> string \<times> char list" where
  "takeUnary prevEmpty n ops =
     (if prevEmpty \<and> ops \<noteq> []
      then (if hd ops = CHR ''-'' then CHR ''-'' # n else n, tl ops) else (n, ops))"

definition takeBinary :: "bool \<Rightarrow> char list \<Rightarrow> char list \<times> char list" where
  "takeBinary hasNext ops = (if hasNext \<and> ops \<noteq> [] then ([hd ops], tl ops) else ([], ops))"

fun unaryLoop :: "bool \<Rightarrow> string list \<Rightarrow> char list \<Rightarrow> string list \<times> char list" where
  "unaryLoop prevEmpty [] ops = ([], [])"
| "unaryLoop prevEmpty (n # ns) ops =
     (if n = [] then unaryLoop True ns ops
      else
        let (cur, ops1) = takeUnary prevEmpty n ops;
            (bin, ops2) = takeBinary (ns \<noteq> []) ops1;
            (rn, ro) = unaryLoop False ns ops2
        in (cur # rn, bin @ ro))"

definition foldUnary :: "string list \<Rightarrow> char list \<Rightarrow> string list \<times> char list" where
  "foldUnary numbers ops =
     (let (pn, po) = unaryLoop False numbers ops
      in case (numbers, ops, pn) of
           ([] # _, u # _, p # ps) \<Rightarrow>
             if u = CHR ''-'' \<and> p \<noteq> [] \<and> hd p \<noteq> CHR ''-'' then ((CHR ''-'' # p) # ps, po) else (pn, po)
         | _ \<Rightarrow> (pn, po))"

text \<open>\<open>strtol\<close>: sign, longest run of digits of the base, saturated to 64 bits.\<close>

definition digit_value :: "char \<Rightarrow> int" where
  "digit_value c =
     (if is_digit c then int (of_char c) - 48
      else if CHR ''a'' \<le> c then int (of_char c) - 87 else int (of_char c) - 55)"

definition digits_value :: "int \<Rightarrow> string \<Rightarrow> int" where
  "digits_value base ds = foldl (\<lambda>acc c. acc * base + digit_value c) 0 ds"

definition saturate :: "int \<Rightarrow> int" where
  "saturate v = max (- (2 ^ 63)) (min (2 ^ 63 - 1) v)"

definition strtol10 :: "string \<Rightarrow> int" where
  "strtol10 s =
     saturate (case s of
       c # r \<Rightarrow> if c = CHR ''-'' then - digits_value 10 (takeWhile is_digit r)
                else if c = CHR ''+'' then digits_value 10 (takeWhile is_digit r)
                else digits_value 10 (takeWhile is_digit s)
     | [] \<Rightarrow> 0)"

definition convertOperand :: "string \<Rightarrow> int" where
  "convertOperand n =
     (if is_hex_literal n \<or> hd n = CHR ''b'' then
        if 2 < length n \<and> n ! 1 = CHR ''x'' then saturate (digits_value 16 (drop 2 n))
        else if 1 < length n \<and> hd n = CHR ''b'' then saturate (digits_value 2 (drop 1 n))
        else strtol10 n
      else strtol10 n)"

text \<open>
  The result: the return value with the contents of \<open>retValue\<close>, a read past the operator list, or
  the processor's division error.
\<close>

datatype 'w num_result = Number 'w | NotANumber 'w | OpsOutOfRange | DivisionError

definition applyOp :: "char \<Rightarrow> 'a::len word \<Rightarrow> 'a word \<Rightarrow> 'a word option" where
  "applyOp op a b =
     (if op = CHR ''+'' then Some (a + b)
      else if op = CHR ''-'' then Some (a - b)
      else if op = CHR ''*'' then Some (a * b)
      else if b = 0 then None else Some (a div b))"

fun evalLoop :: "bool \<Rightarrow> 'a::len word \<Rightarrow> string list \<Rightarrow> char list \<Rightarrow> 'a word num_result" where
  "evalLoop first acc [] ops = Number acc"
| "evalLoop first acc (n # ns) ops =
     (if n = [] then evalLoop first acc ns ops
      else if \<not> operandOk n then NotANumber acc
      else
        let tmp = word_of_int (convertOperand n) in
        if first then evalLoop False tmp ns ops
        else (case ops of
                [] \<Rightarrow> OpsOutOfRange
              | op # ops' \<Rightarrow>
                  (case applyOp op acc tmp of
                     None \<Rightarrow> DivisionError
                   | Some v \<Rightarrow> evalLoop False v ns ops')))"

definition getNumber :: "string \<Rightarrow> 'a::len word num_result" where
  "getNumber s =
     (let (numbers, ops) = mathOperands s; (numbers', ops') = foldUnary numbers ops
      in evalLoop True 0 numbers' ops')"

section \<open>Decimal literals\<close>

lemma digit_char_digit: "d < 10 \<Longrightarrow> is_digit (digit_char d)"
  by (simp add: is_digit_def digit_char_def less_eq_char_def)

lemma digit_value_digit_char: "d < 10 \<Longrightarrow> digit_value (digit_char d) = int d"
  by (simp add: digit_value_def digit_char_digit) (simp add: digit_char_def)

lemma to_string_digits: "\<forall>c \<in> set (to_string n). is_digit c"
proof (induction n rule: to_string.induct)
  case (1 n)
  show ?case
    by (subst to_string.simps) (use 1 in \<open>auto simp: digit_char_digit\<close>)
qed

lemma to_string_nonempty: "to_string n \<noteq> []"
  by (subst to_string.simps) simp

lemma digits_value_to_string: "digits_value 10 (to_string n) = int n"
proof (induction n rule: to_string.induct)
  case (1 n)
  show ?case
  proof (cases "n < 10")
    case True
    then show ?thesis
      by (subst to_string.simps) (simp add: digits_value_def digit_value_digit_char)
  next
    case False
    then have "digits_value 10 (to_string (n div 10)) = int (n div 10)" using 1 by simp
    then show ?thesis using False
      by (subst to_string.simps)
         (simp add: digits_value_def digit_value_digit_char zdiv_int zmod_int)
  qed
qed

lemma digit_not:
  "is_digit c \<Longrightarrow> \<not> math_op c" "is_digit c \<Longrightarrow> \<not> blank c" "is_digit c \<Longrightarrow> is_base10 c"
  "is_digit c \<Longrightarrow> c \<noteq> CHR ''x''" "is_digit c \<Longrightarrow> c \<noteq> CHR ''b''"
  "is_digit c \<Longrightarrow> c \<noteq> CHR ''-''" "is_digit c \<Longrightarrow> c \<noteq> CHR ''+''"
  by (auto simp: is_digit_def math_op_def blank_def is_base10_def less_eq_char_def)

lemma decimal_element:
  assumes "\<forall>c \<in> set ds. is_digit c"
  shows "element_ok math_op blank ds"
  using assms digit_not by (auto simp: element_ok_def)

lemma decimal_not_literal:
  assumes "\<forall>c \<in> set ds. is_digit c" "ds \<noteq> []"
  shows "\<not> is_hex_literal ds" "hd ds \<noteq> CHR ''b''"
proof -
  have "is_hex_literal ds \<Longrightarrow> CHR ''x'' \<in> set ds"
    unfolding is_hex_literal_def by (metis in_set_takeD list.set_intros(1,2))
  then show "\<not> is_hex_literal ds" using assms digit_not(4) by blast
  show "hd ds \<noteq> CHR ''b''" using assms digit_not(5) by (metis hd_in_set)
qed

lemma decimal_operand:
  assumes "\<forall>c \<in> set ds. is_digit c" "ds \<noteq> []"
  shows "operandOk ds" "convertOperand ds = saturate (digits_value 10 ds)"
proof -
  note nl = decimal_not_literal [OF assms]
  show "operandOk ds"
    using assms nl digit_not(3) by (simp add: operandOk_def list_all_iff)
  obtain c r where ds: "ds = c # r" using assms(2) by (cases ds) auto
  have "c \<noteq> CHR ''-''" "c \<noteq> CHR ''+''" using assms(1) ds digit_not(6,7) by auto
  moreover have "takeWhile is_digit ds = ds" using assms(1) by (simp add: takeWhile_eq_all_conv)
  ultimately show "convertOperand ds = saturate (digits_value 10 ds)"
    using nl by (simp add: convertOperand_def strtol10_def ds)
qed

lemma convert_to_string:
  "n < 2 ^ 63 \<Longrightarrow> operandOk (to_string n) \<and> convertOperand (to_string n) = int n"
proof -
  assume n: "n < 2 ^ 63"
  then have "int n < 2 ^ 63" by (metis of_nat_less_iff of_nat_numeral of_nat_power)
  then have "saturate (int n) = int n" by (simp add: saturate_def)
  then show ?thesis
    using decimal_operand [OF to_string_digits to_string_nonempty] digits_value_to_string by simp
qed

section \<open>Evaluation\<close>

text \<open>Specification: fold the operators from left to right, without precedence.\<close>

definition stepOp :: "'a::len word option \<Rightarrow> char \<times> nat \<Rightarrow> 'a word option" where
  "stepOp acc opn = Option.bind acc (\<lambda>a. applyOp (fst opn) a (of_nat (snd opn)))"

lemma stepOp_simps [simp]:
  "stepOp None opn = None" "stepOp (Some a) (op, n) = applyOp op a (of_nat n)"
  by (simp_all add: stepOp_def)

lemma foldl_stepOp_None: "foldl stepOp None ops = None"
  by (induction ops) simp_all

lemma evalLoop_decimals:
  "\<forall>n \<in> snd ` set ops. n < 2 ^ 63 \<Longrightarrow>
   evalLoop False acc (map (to_string \<circ> snd) ops) (map fst ops) =
     (case foldl stepOp (Some acc) ops of None \<Rightarrow> DivisionError | Some v \<Rightarrow> Number v)"
proof (induction ops arbitrary: acc)
  case Nil
  then show ?case by simp
next
  case (Cons opn ops)
  obtain op n where opn: "opn = (op, n)" by (cases opn)
  have "operandOk (to_string n)" "convertOperand (to_string n) = int n"
    using convert_to_string [of n] Cons.prems by (simp_all add: opn)
  then show ?case
    using Cons by (cases "applyOp op acc (of_nat n)")
      (simp_all add: opn to_string_nonempty foldl_stepOp_None)
qed

lemma unaryLoop_plain:
  "\<forall>n \<in> set ns. n \<noteq> [] \<Longrightarrow> length ns = Suc (length ops) \<Longrightarrow> unaryLoop False ns ops = (ns, ops)"
proof (induction ns arbitrary: ops)
  case Nil
  then show ?case by simp
next
  case (Cons n ns)
  then show ?case by (cases ops) (auto simp: takeUnary_def takeBinary_def)
qed

lemma foldUnary_plain:
  "\<forall>n \<in> set ns. n \<noteq> [] \<Longrightarrow> length ns = Suc (length ops) \<Longrightarrow> foldUnary ns ops = (ns, ops)"
  by (auto simp: foldUnary_def unaryLoop_plain split: list.splits)

lemma getNumber_decimals:
  assumes "n0 < 2 ^ 63" "\<forall>(op, n) \<in> set ops. math_op op \<and> n < 2 ^ 63"
  shows "getNumber (joinOps (to_string n0) (map (\<lambda>(op, n). (op, to_string n)) ops)) =
    (case foldl stepOp (Some (of_nat n0 :: 'a::len word)) ops of
       None \<Rightarrow> DivisionError | Some v \<Rightarrow> Number v)"
proof -
  let ?ops = "map (\<lambda>(op, n). (op, to_string n)) ops"
  have snd_ops: "map snd ?ops = map (to_string \<circ> snd) ops" "map fst ?ops = map fst ops"
    by (auto simp: split_beta)
  have blank: "\<not> blank op" if "math_op op" for op
    using that by (auto simp: math_op_def blank_def)
  have "getVectorFromString math_op blank False (joinOps (to_string n0) ?ops) =
      Some (to_string n0 # map snd ?ops, map fst ?ops)"
    by (rule getVectorFromString_splits)
       (use assms(2) blank in \<open>auto simp: decimal_element to_string_digits\<close>)
  then have m: "mathOperands (joinOps (to_string n0) ?ops) =
      (to_string n0 # map (to_string \<circ> snd) ops, map fst ops)"
    unfolding mathOperands_def snd_ops by simp
  have "foldUnary (to_string n0 # map (to_string \<circ> snd) ops) (map fst ops) =
      (to_string n0 # map (to_string \<circ> snd) ops, map fst ops)"
    by (rule foldUnary_plain) (auto simp: to_string_nonempty)
  moreover have "operandOk (to_string n0)" "convertOperand (to_string n0) = int n0"
    using convert_to_string [OF assms(1)] by simp_all
  moreover have "\<forall>n \<in> snd ` set ops. n < 2 ^ 63" using assms(2) by auto
  ultimately show ?thesis
    using evalLoop_decimals [of ops "of_nat n0"]
    by (simp add: getNumber_def m to_string_nonempty)
qed

lemma getNumber_to_string: "n < 2 ^ 63 \<Longrightarrow> getNumber (to_string n) = Number (of_nat n :: 'a::len word)"
  using getNumber_decimals [of n "[]", where 'a = 'a] by simp

text \<open>
  \<open>getNumber\<close> on decimal operands joined by operators evaluates strictly from left to right, without
  operator precedence, modulo the width of the result type; the only failure is a division by zero.
  With no operator it is the inverse of \<open>std::to_string\<close>.
\<close>

theorem getNumber_left_to_right:
  assumes "n0 < 2 ^ 63" "\<forall>(op, n) \<in> set ops. math_op op \<and> n < 2 ^ 63"
  shows "getNumber (joinOps (to_string n0) (map (\<lambda>(op, n). (op, to_string n)) ops)) =
    (case foldl stepOp (Some (of_nat n0 :: 'a::len word)) ops of
       None \<Rightarrow> DivisionError | Some v \<Rightarrow> Number v)"
  by (rule getNumber_decimals [OF assms])

theorem getNumber_left_to_right_witness:
  "getNumber ''1+2*3'' = Number (9 :: u32)"
proof -
  have "to_string 1 = ''1''" "to_string 2 = ''2''" "to_string 3 = ''3''" by code_simp+
  then show ?thesis
    using getNumber_left_to_right [where 'a = 32, of 1 "[(CHR ''+'', 2), (CHR ''*'', 3)]"]
    by (simp add: math_op_def applyOp_def)
qed

lemma unaryLoop_ops:
  "length ns + (if pe then 1 else 0) \<le> length ops + 1 \<Longrightarrow>
   length (fst (unaryLoop pe ns ops)) \<le> length (snd (unaryLoop pe ns ops)) + 1"
proof (induction pe ns ops rule: unaryLoop.induct)
  case (1 pe ops)
  then show ?case by simp
next
  case (2 pe n ns ops)
  show ?case
  proof (cases "n = []")
    case True
    then show ?thesis using 2 by (simp split: if_splits)
  next
    case False
    define ops1 where "ops1 = snd (takeUnary pe n ops)"
    define ops2 where "ops2 = snd (takeBinary (ns \<noteq> []) ops1)"
    have l1: "length ns \<le> length ops1"
      using "2.prems" by (auto simp: ops1_def takeUnary_def split: if_splits)
    have l2: "length ns \<le> length ops2 + 1" "ns \<noteq> [] \<Longrightarrow> length (fst (takeBinary (ns \<noteq> []) ops1)) = 1"
      using l1 by (auto simp: ops2_def takeBinary_def)
    have "length (fst (unaryLoop False ns ops2)) \<le> length (snd (unaryLoop False ns ops2)) + 1"
      using "2.IH"(2) [OF False refl prod.collapse refl prod.collapse] l2(1)
      by (simp add: ops1_def ops2_def)
    then show ?thesis
      using False l2(2) by (cases "ns = []") (simp_all add: split_beta ops1_def ops2_def)
  qed
qed

lemma evalLoop_in_range:
  "length ns \<le> length ops + (if first then 1 else 0) \<Longrightarrow> evalLoop first acc ns ops \<noteq> OpsOutOfRange"
  by (induction first acc ns ops rule: evalLoop.induct)
     (auto simp: Let_def split: if_splits list.splits option.splits)


lemma foldUnary_lengths:
  "length (fst (foldUnary ns ops)) = length (fst (unaryLoop False ns ops)) \<and>
   snd (foldUnary ns ops) = snd (unaryLoop False ns ops)"
  by (auto simp: foldUnary_def split_beta Let_def split: list.splits)

text \<open>
  Whatever the string, \<open>getNumber\<close> never reads past the end of its operator list, although empty
  tokens and unary signs consume operators at their own pace.
\<close>

theorem getNumber_ops_in_range: "getNumber s \<noteq> (OpsOutOfRange :: 'a::len word num_result)"
proof -
  obtain vs ds where v: "mathOperands s = (vs, ds)" "length vs = Suc (length ds)"
    using getVectorFromString_lengths [of math_op blank s] by (auto simp: mathOperands_def)
  have "length (fst (foldUnary vs ds)) \<le> length (snd (foldUnary vs ds)) + 1"
    using unaryLoop_ops [of vs False ds] v(2) foldUnary_lengths [of vs ds] by simp
  then show ?thesis
    using evalLoop_in_range [of "fst (foldUnary vs ds)" "snd (foldUnary vs ds)" True 0]
    by (simp add: getNumber_def v(1) split_beta)
qed

text \<open>
  The recogniser and the converter disagree on signed hexadecimal: for any hexadecimal digits \<open>h\<close>,
  \<open>isNumber\<close> accepts \<open>-0xh\<close> while \<open>getNumber\<close> reports that it is not a number (the sign is folded into
  the token before the prefix test).
\<close>

theorem negative_hex_disagreement:
  assumes "list_all is_hex h"
  shows "isNumber (''-0x'' @ h) \<and> getNumber (''-0x'' @ h) = NotANumber (0 :: 'a::len word)"
proof -
  have hx: "\<not> math_op c \<and> \<not> blank c" if "is_hex c" for c
    using that by (auto simp: is_hex_def is_digit_def math_op_def blank_def less_eq_char_def)
  have e: "element_ok math_op blank (''0x'' @ h)"
    using assms hx by (auto simp: element_ok_def list_all_iff math_op_def blank_def)
  have m: "mathOperands (''-0x'' @ h) = ([[], ''0x'' @ h], [CHR ''-''])"
    using getVectorFromString_splits [of math_op blank "[]" "[(CHR ''-'', ''0x'' @ h)]"] e
    by (simp add: mathOperands_def element_ok_def math_op_def blank_def)
  have ok: "operandOk (''0x'' @ h)" using assms by (simp add: operandOk_def is_hex_literal_def)
  have bad: "\<not> operandOk (CHR ''-'' # ''0x'' @ h)"
    by (simp add: operandOk_def is_hex_literal_def is_base10_def is_digit_def less_eq_char_def)
  have "foldUnary [[], ''0x'' @ h] [CHR ''-''] = ([CHR ''-'' # ''0x'' @ h], [])"
    by (simp add: foldUnary_def takeUnary_def takeBinary_def)
  then show ?thesis using m ok bad by (simp add: isNumber_def getNumber_def)
qed

theorem negative_hex_disagreement_witness:
  "isNumber ''-0x1F'' \<and> getNumber ''-0x1F'' = NotANumber (0 :: u32)"
  using negative_hex_disagreement [of "''1F''", where 'a = 32]
  by (simp add: is_hex_def is_digit_def less_eq_char_def)

end
