(* ===== verification/SoapMessages.thy ===== *)
theory SoapMessages
  imports Numbers
begin

text \<open>
  The run control messages: \<open>SOAPUtilities/\<close> (commands, parameters, translation to and from messages)
  over the message classes of \<open>XdaqLite/include/xoap/MessageReference.h\<close>, with the wire form of
  \<open>XdaqLite/XdaqLite.cc\<close>. A message is the list of its body elements; element handles are values here
  because no code under model keeps one across a change of the message. Attachments and MIME headers
  are left out: no command carries them.
\<close>

section \<open>Exceptions\<close>

text \<open>
  What can be thrown: \<open>toolbox::fsm::exception::Exception\<close>, \<open>std::runtime_error\<close>, any other
  \<open>std::exception\<close>, anything else.
\<close>

datatype exn = FsmException string | RuntimeError string | StdException string | UnknownException

fun exn_what :: "exn \<Rightarrow> string" where
  "exn_what (FsmException w) = w"
| "exn_what (RuntimeError w) = w"
| "exn_what (StdException w) = w"
| "exn_what UnknownException = ''Caught unknown exception raised in user code''"

section \<open>Parameters and commands\<close>

type_synonym soap_parameters = "(string, string) omap"

text \<open>\<open>Parameters::getValue\<close>; \<open>ss\<close> is what the macro \<open>__SS__\<close> puts before the message.\<close>

definition getValue :: "string \<Rightarrow> soap_parameters \<Rightarrow> string \<Rightarrow> exn + string" where
  "getValue ss ps name =
     (case omap_get ps name of
        None \<Rightarrow> Inl (RuntimeError (ss @ ''Parameter '' @ quoted name @ '' not found!'' @ endl))
      | Some v \<Rightarrow> Inr v)"

definition addParameter :: "string \<Rightarrow> string \<Rightarrow> soap_parameters \<Rightarrow> soap_parameters" where
  "addParameter name value ps = omap_put name value ps"

text \<open>\<open>sValue << value\<close> for an \<open>int\<close>, and \<open>atoi\<close>.\<close>

definition int_to_string :: "32 word \<Rightarrow> string" where
  "int_to_string i =
     (if sint i < 0 then CHR ''-'' # to_string (nat (- sint i)) else to_string (nat (sint i)))"

definition addParameterInt :: "string \<Rightarrow> 32 word \<Rightarrow> soap_parameters \<Rightarrow> soap_parameters" where
  "addParameterInt name value ps = omap_put name (int_to_string value) ps"

definition atoi :: "string \<Rightarrow> 32 word" where
  "atoi s = word_of_int (strtol10 (dropWhile isspace s))"

definition getValueAsInt :: "string \<Rightarrow> soap_parameters \<Rightarrow> string \<Rightarrow> exn + 32 word" where
  "getValueAsInt ss ps name = map_sum id atoi (getValue ss ps name)"

record soap_command =
  command :: string
  parameters :: soap_parameters

definition getParameterValue :: "soap_command \<Rightarrow> string \<Rightarrow> string" where
  "getParameterValue c name = (case omap_get (parameters c) name of Some v \<Rightarrow> v | None \<Rightarrow> [])"

definition setParameter :: "string \<Rightarrow> string \<Rightarrow> soap_command \<Rightarrow> soap_command" where
  "setParameter name value c = c\<lparr>parameters := addParameter name value (parameters c)\<rparr>"

definition hasParameters :: "soap_command \<Rightarrow> bool" where
  "hasParameters c \<longleftrightarrow> length (parameters c) \<noteq> 0"

section \<open>Messages\<close>

record soap_name =
  localName :: string
  namePrefix :: string
  nameURI :: string

text \<open>Names are compared by their local part only.\<close>

definition same_name :: "soap_name \<Rightarrow> soap_name \<Rightarrow> bool" where
  "same_name a b \<longleftrightarrow> localName a = localName b"

record soap_element =
  elementName :: soap_name
  attributes :: "(string, string) omap"

type_synonym soap_message = "soap_element list"

definition XDAQ_NS_URI :: string where "XDAQ_NS_URI = ''urn:xdaq-soap:3.0''"

definition addAttribute :: "string \<Rightarrow> string \<Rightarrow> soap_element \<Rightarrow> soap_element" where
  "addAttribute name value e = e\<lparr>attributes := omap_put name value (attributes e)\<rparr>"

definition getAttributeValue :: "soap_element \<Rightarrow> string \<Rightarrow> string" where
  "getAttributeValue e name = (case omap_get (attributes e) name of None \<Rightarrow> [] | Some v \<Rightarrow> v)"

definition addBodyElement :: "soap_name \<Rightarrow> soap_message \<Rightarrow> soap_message" where
  "addBodyElement n m = m @ [\<lparr>elementName = n, attributes = []\<rparr>]"

definition xdaqName :: "string \<Rightarrow> soap_name" where
  "xdaqName c = \<lparr>localName = c, namePrefix = ''xdaq'', nameURI = XDAQ_NS_URI\<rparr>"

text \<open>The three overloads of \<open>makeSOAPMessageReference\<close>, and \<open>addParameters\<close>.\<close>

definition makeMessage :: "string \<Rightarrow> soap_message" where
  "makeMessage cmd = addBodyElement (xdaqName cmd) []"

definition makeMessageParameters :: "string \<Rightarrow> soap_parameters \<Rightarrow> soap_message" where
  "makeMessageParameters cmd ps =
     (if length ps = 0 then makeMessage cmd
      else [fold (\<lambda>(k, v). addAttribute k v) ps \<lparr>elementName = xdaqName cmd, attributes = []\<rparr>])"

definition makeSOAPMessageReference :: "soap_command \<Rightarrow> soap_message" where
  "makeSOAPMessageReference c =
     (if hasParameters c then makeMessageParameters (command c) (parameters c)
      else makeMessage (command c))"

text \<open>\<open>SOAPUtilities::translate\<close>: the last element names the command, parameters accumulate.\<close>

definition translateElement :: "soap_element \<Rightarrow> soap_command \<Rightarrow> soap_command" where
  "translateElement e c =
     fold (\<lambda>(k, v). setParameter k v) (attributes e) (c\<lparr>command := localName (elementName e)\<rparr>)"

definition translate :: "soap_message \<Rightarrow> soap_command" where
  "translate m = fold translateElement m \<lparr>command = [], parameters = []\<rparr>"

definition addParameters :: "soap_parameters \<Rightarrow> soap_message \<Rightarrow> soap_message" where
  "addParameters ps m =
     (if length ps = 0 then m
      else let name = xdaqName (command (translate m))
           in map (\<lambda>e. if same_name (elementName e) name
                       then fold (\<lambda>(k, v). addAttribute k v) ps e else e) m)"

text \<open>
  \<open>receive\<close>: the command of the first element, and the requested parameters read from its
  attributes; a missing attribute reads as the empty string. A message without a body element is
  undefined behaviour (\<^term>\<open>None\<close>).
\<close>

definition receiveParameters :: "soap_message \<Rightarrow> soap_parameters \<Rightarrow> (string \<times> soap_parameters) option" where
  "receiveParameters m ps =
     (case m of
        [] \<Rightarrow> None
      | e # _ \<Rightarrow> Some (localName (elementName e), map (\<lambda>(k, _). (k, getAttributeValue e k)) ps))"

section \<open>Wire form\<close>

definition xmlEscapeChar :: "char \<Rightarrow> string" where
  "xmlEscapeChar c =
     (if c = CHR ''&'' then ''&amp;'' else if c = CHR ''<'' then ''&lt;''
      else if c = CHR ''>'' then ''&gt;'' else if c = CHR 0x22 then ''&quot;'' else [c])"

definition xmlEscape :: "string \<Rightarrow> string" where
  "xmlEscape s = concat (map xmlEscapeChar s)"

definition dq :: string where "dq = [CHR 0x22]"

definition wireHead :: string where
  "wireHead =
     ''<SOAP-ENV:Envelope xmlns:SOAP-ENV='' @ dq @ ''http://schemas.xmlsoap.org/soap/envelope/'' @ dq
     @ '' xmlns:xdaq='' @ dq @ ''urn:xdaq-soap:3.0'' @ dq @ ''><SOAP-ENV:Header/><SOAP-ENV:''"

definition writeAttribute :: "string \<times> string \<Rightarrow> string" where
  "writeAttribute a = '' '' @ fst a @ ''='' @ dq @ xmlEscape (snd a) @ dq"

definition writeElement :: "soap_element \<Rightarrow> string" where
  "writeElement e =
     ''<xdaq:'' @ localName (elementName e) @ concat (map writeAttribute (attributes e)) @ ''/>''"

definition writeTo :: "soap_message \<Rightarrow> string" where
  "writeTo m =
     wireHead @ ''Body>'' @ concat (map writeElement m) @ ''</SOAP-ENV:Body></SOAP-ENV:Envelope>''"

text \<open>Replace every occurrence of \<open>p\<close> from left to right, continuing after the replacement.\<close>

function replaceAll :: "string \<Rightarrow> string \<Rightarrow> string \<Rightarrow> string" where
  "replaceAll p r [] = []"
| "replaceAll p r (c # s) =
     (if p \<noteq> [] \<and> take (length p) (c # s) = p then r @ replaceAll p r (drop (length p) (c # s))
      else c # replaceAll p r s)"
  by pat_completeness auto
termination
  by (relation "measure (\<lambda>(p, r, s). length s)") (auto simp: neq_Nil_conv)

definition unescapeValue :: "string \<Rightarrow> string" where
  "unescapeValue v =
     replaceAll ''&amp;'' ''&'' (replaceAll ''&gt;'' ''>'' (replaceAll ''&lt;'' ''<''
       (replaceAll ''&quot;'' dq v)))"

definition xml_ws :: "char \<Rightarrow> bool" where
  "xml_ws c \<longleftrightarrow> c \<in> {CHR '' '', CHR 0x09, CHR 0x0D, CHR 0x0A}"

text \<open>The attribute loop of \<open>readFrom\<close>.\<close>

function readAttributes :: "string \<Rightarrow> nat \<Rightarrow> soap_element \<Rightarrow> soap_element" where
  "readAttributes attrs pos e =
     (case find_from ''='' attrs pos of
        None \<Rightarrow> e
      | Some eq \<Rightarrow>
          let ks = (case find_last_of xml_ws attrs eq of None \<Rightarrow> 0 | Some k \<Rightarrow> k + 1);
              key = substr attrs ks (eq - ks)
          in case find_from dq attrs eq of
               None \<Rightarrow> e
             | Some q1 \<Rightarrow>
                 (case find_from dq attrs (q1 + 1) of
                    None \<Rightarrow> e
                  | Some q2 \<Rightarrow>
                      let val = unescapeValue (substr attrs (q1 + 1) (q2 - q1 - 1))
                      in readAttributes attrs (q2 + 1)
                           (if findp ''xmlns'' key \<noteq> Some 0 then addAttribute key val e else e)))"
  by pat_completeness auto
termination
  by (relation "measure (\<lambda>(attrs, pos, e). Suc (length attrs) - pos)")
     (auto dest!: find_from_bounds simp: dq_def)

declare readAttributes.simps [simp del]

definition readFrom :: "string \<Rightarrow> exn + soap_message" where
  "readFrom inp =
     (case findp ''Body>'' inp of
        None \<Rightarrow> Inl (StdException ''SOAP message has no Body'')
      | Some b \<Rightarrow>
          (case find_from ''<'' inp (b + 5) of
             None \<Rightarrow> Inr []
           | Some lt \<Rightarrow>
               (case find_from ''>'' inp lt of
                  None \<Rightarrow> Inl (StdException ''malformed SOAP body element'')
                | Some gt \<Rightarrow>
                    let tag0 = substr inp (lt + 1) (gt - lt - 1);
                        tag = (if tag0 \<noteq> [] \<and> last tag0 = CHR ''/'' then butlast tag0 else tag0);
                        sp = find_first_of xml_ws tag;
                        qn = (case sp of None \<Rightarrow> tag | Some i \<Rightarrow> take i tag);
                        col = findp '':'' qn;
                        name = (case col of
                                  None \<Rightarrow> \<lparr>localName = qn, namePrefix = [], nameURI = []\<rparr>
                                | Some i \<Rightarrow> \<lparr>localName = drop (i + 1) qn, namePrefix = take i qn,
                                            nameURI = []\<rparr>);
                        el = \<lparr>elementName = name, attributes = []\<rparr>
                    in Inr [case sp of None \<Rightarrow> el | Some i \<Rightarrow> readAttributes (drop i tag) 0 el])))"

text \<open>\<open>Application::dispatchSOAP\<close>: which handler a message reaches; \<open>bound\<close> are the bound commands.\<close>

definition dispatchSOAP :: "string list \<Rightarrow> string \<Rightarrow> soap_message \<Rightarrow> exn + string" where
  "dispatchSOAP bound className m =
     (case m of
        [] \<Rightarrow> Inl (StdException ''SOAP message has no body element'')
      | e # _ \<Rightarrow>
          (let cmd = localName (elementName e)
           in if cmd \<in> set bound then Inr cmd
              else Inl (StdException (''No SOAP handler bound for command '' @ quoted cmd @ '' in ''
                          @ className))))"

section \<open>Lemmas\<close>

lemma fold_omap_put_sorted:
  "omap_ok (m @ ps) \<Longrightarrow> fold (\<lambda>(k, v). omap_put k v) ps m = m @ ps"
proof (induction ps arbitrary: m)
  case Nil
  then show ?case by simp
next
  case (Cons kv ps)
  obtain k v where kv: "kv = (k, v)" by (cases kv)
  have "sorted (map fst m @ k # map fst ps)" "distinct (map fst m @ k # map fst ps)"
    using Cons.prems by (simp_all add: kv omap_ok_def)
  then have "\<forall>x \<in> fst ` set m. x < k"
    by (auto simp: sorted_append less_le)
  then have "omap_put k v m = m @ [(k, v)]" by (rule omap_put_last)
  then show ?case using Cons.IH [of "m @ [kv]"] Cons.prems by (simp add: kv)
qed

lemma fold_addAttribute:
  "fold (\<lambda>(k, v). addAttribute k v) ps e =
     e\<lparr>attributes := fold (\<lambda>(k, v). omap_put k v) ps (attributes e)\<rparr>"
  by (induction ps arbitrary: e) (auto simp: addAttribute_def)

lemma fold_setParameter:
  "fold (\<lambda>(k, v). setParameter k v) ps c =
     c\<lparr>parameters := fold (\<lambda>(k, v). omap_put k v) ps (parameters c)\<rparr>"
  by (induction ps arbitrary: c) (auto simp: setParameter_def addParameter_def)

lemma translate_element:
  assumes "omap_ok ps"
  shows "translate [\<lparr>elementName = n, attributes = ps\<rparr>] = \<lparr>command = localName n, parameters = ps\<rparr>"
  using fold_omap_put_sorted [of "[]" ps] assms
  by (simp add: translate_def translateElement_def fold_setParameter)

lemma make_element:
  assumes "omap_ok (parameters c)"
  shows "makeSOAPMessageReference c =
           [\<lparr>elementName = xdaqName (command c), attributes = parameters c\<rparr>]"
  using fold_omap_put_sorted [of "[]" "parameters c"] assms
  by (auto simp: makeSOAPMessageReference_def hasParameters_def makeMessage_def addBodyElement_def
      makeMessageParameters_def fold_addAttribute)

subsection \<open>Escaping\<close>

text \<open>The passes of \<open>unescapeValue\<close> undo the escape of one character each.\<close>

lemma unquote_pass:
  "replaceAll ''&quot;'' dq (concat (map xmlEscapeChar s)) =
   concat (map (\<lambda>c. if c = CHR 0x22 then [c] else xmlEscapeChar c) s)"
  by (induction s) (auto simp: xmlEscapeChar_def dq_def)

lemma unlt_pass:
  "replaceAll ''&lt;'' ''<'' (concat (map (\<lambda>c. if c = CHR 0x22 then [c] else xmlEscapeChar c) s)) =
   concat (map (\<lambda>c. if c \<in> {CHR 0x22, CHR ''<''} then [c] else xmlEscapeChar c) s)"
  by (induction s) (auto simp: xmlEscapeChar_def)

lemma ungt_pass:
  "replaceAll ''&gt;'' ''>'' (concat (map (\<lambda>c. if c \<in> {CHR 0x22, CHR ''<''} then [c] else xmlEscapeChar c) s)) =
   concat (map (\<lambda>c. if c = CHR ''&'' then ''&amp;'' else [c]) s)"
  by (induction s) (auto simp: xmlEscapeChar_def)

lemma unamp_pass:
  "replaceAll ''&amp;'' ''&'' (concat (map (\<lambda>c. if c = CHR ''&'' then ''&amp;'' else [c]) s)) = s"
  by (induction s) auto

lemma unescape_escape: "unescapeValue (xmlEscape s) = s"
  by (simp only: unescapeValue_def xmlEscape_def unquote_pass unlt_pass ungt_pass unamp_pass)

lemma xmlEscape_chars: "CHR 0x22 \<notin> set (xmlEscape s)" "CHR ''>'' \<notin> set (xmlEscape s)"
  by (induction s) (auto simp: xmlEscape_def xmlEscapeChar_def)

subsection \<open>Reading the wire form\<close>

definition wire_key :: "string \<Rightarrow> bool" where
  "wire_key k \<longleftrightarrow> (\<forall>c \<in> set k. \<not> xml_ws c \<and> c \<noteq> CHR ''='' \<and> c \<noteq> CHR ''>'') \<and> take 5 k \<noteq> ''xmlns''"

definition wire_name :: "string \<Rightarrow> bool" where
  "wire_name n \<longleftrightarrow> (\<forall>c \<in> set n. \<not> xml_ws c \<and> c \<noteq> CHR ''>'')"

lemma findp_xmlns: "take 5 k \<noteq> ''xmlns'' \<Longrightarrow> findp ''xmlns'' k \<noteq> Some 0"
  by (subst findp.simps) (auto simp: numeral_eq_Suc split: list.splits)

text \<open>One round of the attribute loop on text written by \<open>writeAttribute\<close>.\<close>

lemma readAttributes_step:
  assumes a: "attrs = pre @ writeAttribute (k, v) @ rest" and k: "wire_key k"
  shows "readAttributes attrs (length pre) e =
           readAttributes attrs (length (pre @ writeAttribute (k, v))) (addAttribute k v e)"
proof -
  let ?eq = "length pre + 1 + length k"
  let ?x = "xmlEscape v"
  have attrs: "attrs = pre @ CHR '' '' # k @ CHR ''='' # CHR 0x22 # ?x @ CHR 0x22 # rest"
    by (simp add: a writeAttribute_def dq_def)
  have "attrs = (pre @ CHR '' '' # k @ [CHR ''='', CHR 0x22]) @ ?x @ CHR 0x22 # rest"
    by (simp add: attrs)
  moreover have "?eq + 2 = length (pre @ CHR '' '' # k @ [CHR ''='', CHR 0x22])" by simp
  ultimately have d: "drop (?eq + 2) attrs = ?x @ CHR 0x22 # rest"
    by (metis append_eq_conv_conj)
  have f1: "find_from ''='' attrs (length pre) = Some ?eq"
    using find_from_char [of "length pre" attrs "CHR '' '' # k" "CHR ''=''" "CHR 0x22 # ?x @ CHR 0x22 # rest"] k
    by (auto simp: attrs wire_key_def)
  have f2: "find_last_of xml_ws attrs ?eq = Some (length pre)"
    using k by (intro find_last_of_char [where c = "CHR '' ''" and ys = "k @ ''=''"])
      (auto simp: attrs wire_key_def xml_ws_def)
  have f3: "find_from dq attrs ?eq = Some (?eq + 1)"
    using find_from_char [of ?eq attrs "''=''" "CHR 0x22" "?x @ CHR 0x22 # rest"]
    by (simp add: attrs dq_def)
  have f4: "find_from dq attrs (?eq + 1 + 1) = Some (?eq + 2 + length ?x)"
    using find_from_char [OF d xmlEscape_chars(1)] by (simp add: dq_def)
  have "substr attrs (length pre + 1) (?eq - (length pre + 1)) = k"
    by (simp add: attrs substr_def)
  moreover have "substr attrs (?eq + 1 + 1) (?eq + 2 + length ?x - (?eq + 1) - 1) = ?x"
    using d by (simp add: substr_def)
  moreover have "length (pre @ writeAttribute (k, v)) = ?eq + 2 + length ?x + 1"
    by (simp add: writeAttribute_def dq_def)
  ultimately show ?thesis
    using findp_xmlns [of k] k
    by (subst readAttributes.simps)
       (simp only: f1 f2 f3 f4 option.case Let_def unescape_escape wire_key_def if_True simp_thms)
qed

lemma readAttributes_all:
  assumes "attrs = pre @ concat (map writeAttribute ps)" "\<forall>(k, v) \<in> set ps. wire_key k"
  shows "readAttributes attrs (length pre) e = fold (\<lambda>(k, v). addAttribute k v) ps e"
  using assms
proof (induction ps arbitrary: pre e)
  case Nil
  then show ?case by (subst readAttributes.simps) (simp add: find_from_char_None)
next
  case (Cons kv ps)
  obtain k v where kv: "kv = (k, v)" by (cases kv)
  show ?case
    using readAttributes_step [of attrs pre k v "concat (map writeAttribute ps)" e]
      Cons.IH [of "pre @ writeAttribute (k, v)" "addAttribute k v e"] Cons.prems
    by (simp add: kv)
qed

lemma find_body: "findp ''Body>'' (wireHead @ ''Body>'' @ t) = Some (length wireHead)"
  by (simp add: wireHead_def dq_def findp.simps)

lemma attributes_text:
  assumes "\<forall>(k, v) \<in> set ps. wire_key k"
  shows "CHR ''>'' \<notin> set (concat (map writeAttribute ps))"
  using assms xmlEscape_chars
  by (induction ps) (auto simp: writeAttribute_def dq_def wire_key_def)

text \<open>The text between the angle brackets of the body element.\<close>

lemma readFrom_tag:
  assumes "CHR ''>'' \<notin> set tag"
  shows "readFrom (wireHead @ ''Body><'' @ tag @ ''/>'' @ rest) =
    (let sp = find_first_of xml_ws tag;
         qn = (case sp of None \<Rightarrow> tag | Some i \<Rightarrow> take i tag);
         name = (case findp '':'' qn of
                   None \<Rightarrow> \<lparr>localName = qn, namePrefix = [], nameURI = []\<rparr>
                 | Some i \<Rightarrow> \<lparr>localName = drop (i + 1) qn, namePrefix = take i qn, nameURI = []\<rparr>);
         el = \<lparr>elementName = name, attributes = []\<rparr>
     in Inr [case sp of None \<Rightarrow> el | Some i \<Rightarrow> readAttributes (drop i tag) 0 el])"
proof -
  let ?in = "wireHead @ ''Body><'' @ tag @ ''/>'' @ rest"
  let ?lt = "length wireHead + 5"
  have d: "drop ?lt ?in = ''<'' @ tag @ ''/>'' @ rest" by simp
  have b: "findp ''Body>'' ?in = Some (length wireHead)"
    using find_body [of "''<'' @ tag @ ''/>'' @ rest"] by simp
  have lt: "find_from ''<'' ?in ?lt = Some ?lt"
    using find_from_char [of ?lt ?in "[]"] d by simp
  have gt: "find_from ''>'' ?in ?lt = Some (?lt + (length tag + 2))"
    using find_from_char [of ?lt ?in "CHR ''<'' # tag @ ''/''" "CHR ''>''" rest] d assms by simp
  have sub: "substr ?in (?lt + 1) (?lt + (length tag + 2) - ?lt - 1) = tag @ ''/''"
    using d by (simp add: substr_def flip: drop_drop)
  have slash: "(if tag @ ''/'' \<noteq> [] \<and> last (tag @ ''/'') = CHR ''/'' then butlast (tag @ ''/'')
      else tag @ ''/'') = tag" by (simp add: butlast_append)
  show ?thesis
    by (simp only: readFrom_def b lt gt sub slash option.case Let_def)
qed

lemma readFrom_element:
  assumes n: "wire_name n" and ps: "\<forall>(k, v) \<in> set ps. wire_key k" "omap_ok ps"
  shows "readFrom (writeTo [\<lparr>elementName = \<lparr>localName = n, namePrefix = p, nameURI = u\<rparr>, attributes = ps\<rparr>]) =
     Inr [\<lparr>elementName = \<lparr>localName = n, namePrefix = ''xdaq'', nameURI = []\<rparr>, attributes = ps\<rparr>]"
proof -
  let ?A = "concat (map writeAttribute ps)" and ?q = "''xdaq:'' @ n"
  have q: "\<forall>c \<in> set ?q. \<not> xml_ws c" "CHR ''>'' \<notin> set ?q"
    using n by (auto simp: wire_name_def xml_ws_def)
  have tag: "CHR ''>'' \<notin> set (?q @ ?A)"
    using q attributes_text [OF ps(1)] by simp
  have c: "findp '':'' ?q = Some 4" by (simp add: cxx_simps)
  have sp: "find_first_of xml_ws (?q @ ?A) = (if ps = [] then None else Some (length ?q))"
  proof (cases ps)
    case Nil
    then show ?thesis using find_first_of_None [of ?q xml_ws] q(1) by simp
  next
    case (Cons kv qs)
    obtain t where "?A = CHR '' '' # t" by (cases kv) (simp add: Cons writeAttribute_def)
    then show ?thesis
      using find_first_of_char [of ?q xml_ws "CHR '' ''"] q(1) Cons by (simp add: xml_ws_def)
  qed
  have "readAttributes ?A 0 e = e\<lparr>attributes := ps\<rparr>" if "attributes e = []" for e
    using readAttributes_all [of ?A "[]" ps e] ps fold_omap_put_sorted [of "[]" ps] that
    by (simp add: fold_addAttribute)
  then show ?thesis
    using readFrom_tag [OF tag, of "''</SOAP-ENV:Body></SOAP-ENV:Envelope>''"] sp c
    by (cases "ps = []") (simp_all add: writeTo_def writeElement_def Let_def)
qed

subsection \<open>Integer parameters\<close>

lemma to_string_chars:
  "\<forall>c \<in> set (to_string n). \<not> isspace c \<and> is_digit c \<and> c \<noteq> CHR ''-'' \<and> c \<noteq> CHR ''+''"
  using to_string_digits [of n] by (auto simp: isspace_def is_digit_def less_eq_char_def)

lemma dropWhile_to_string: "dropWhile isspace (to_string n) = to_string n"
  using to_string_chars [of n] by (cases "to_string n") auto

lemma takeWhile_to_string: "takeWhile is_digit (to_string n) = to_string n"
  using to_string_chars [of n] by (simp add: takeWhile_eq_all_conv)

lemma strtol10_to_string: "strtol10 (to_string n) = saturate (int n)"
proof (cases "to_string n")
  case Nil
  then show ?thesis using to_string_nonempty by simp
next
  case (Cons c r)
  have "strtol10 (to_string n) = saturate (digits_value 10 (takeWhile is_digit (to_string n)))"
    using to_string_chars [of n] unfolding strtol10_def Cons by simp
  then show ?thesis by (simp only: takeWhile_to_string digits_value_to_string)
qed

lemma atoi_int_to_string: "atoi (int_to_string i) = i"
proof -
  have "saturate (sint i) = sint i"
    using sint_ge [of i] sint_lt [of i] by (simp add: saturate_def)
  moreover have "strtol10 (dropWhile isspace (int_to_string i)) = saturate (sint i)"
  proof (cases "sint i < 0")
    case True
    then show ?thesis
      by (simp add: int_to_string_def isspace_def strtol10_def takeWhile_to_string
          digits_value_to_string)
  next
    case False
    then show ?thesis
      by (simp add: int_to_string_def dropWhile_to_string strtol10_to_string)
  qed
  ultimately show ?thesis by (simp add: atoi_def)
qed

section \<open>Properties\<close>

text \<open>
  What \<open>makeSOAPMessageReference\<close> builds from a command, \<open>translate\<close> reads back as the same
  command with the same parameters.
\<close>

theorem translate_make:
  assumes "omap_ok (parameters c)"
  shows "translate (makeSOAPMessageReference c) = c"
  using translate_element [OF assms] make_element [OF assms] by (simp add: xdaqName_def)

theorem translate_make_witness:
  "translate (makeSOAPMessageReference
     \<lparr>command = ''Configure'', parameters = [(''ConfigurationAlias'', ''Physics'')]\<rparr>) =
   \<lparr>command = ''Configure'', parameters = [(''ConfigurationAlias'', ''Physics'')]\<rparr>"
  by (rule translate_make) (simp add: omap_ok_def)

text \<open>
  C33. A command survives the wire: serialising its message with \<open>writeTo\<close>, parsing the text with
  \<open>readFrom\<close> and translating gives the command back, for every parameter value whatsoever (markup
  characters included) and every command and parameter name without blanks and markup.
\<close>

theorem wire_roundtrip:
  assumes "omap_ok (parameters c)" "wire_name (command c)"
    "\<forall>(k, v) \<in> set (parameters c). wire_key k"
  shows "\<exists>m. readFrom (writeTo (makeSOAPMessageReference c)) = Inr m \<and> translate m = c"
  using readFrom_element [OF assms(2,3,1)] translate_element [OF assms(1)] make_element [OF assms(1)]
  by (simp add: xdaqName_def)

theorem wire_roundtrip_witness:
  "\<exists>m. readFrom (writeTo (makeSOAPMessageReference
      \<lparr>command = ''AsyncError'', parameters = [(''ErrorMessage'', ''a<b && c>&quot;d'')]\<rparr>)) = Inr m \<and>
      translate m = \<lparr>command = ''AsyncError'', parameters = [(''ErrorMessage'', ''a<b && c>&quot;d'')]\<rparr>"
  by (rule wire_roundtrip) (simp_all add: omap_ok_def wire_name_def wire_key_def xml_ws_def)

text \<open>
  Every \<open>int\<close> stored with \<open>addParameter\<close> is read back by \<open>getValueAsInt\<close>, negative ones and the
  extremes included; other parameters are not touched.
\<close>

theorem int_parameter_roundtrip:
  "getValueAsInt ss (addParameterInt name i ps) name = Inr i \<and>
   (\<forall>n. n = name \<or> getValue ss (addParameterInt name i ps) n = getValue ss ps n)"
  by (simp add: getValueAsInt_def getValue_def addParameterInt_def atoi_int_to_string)

end
