(* ===== verification/FiniteStateMachines.thy ===== *)
theory FiniteStateMachines
  imports SoapMessages
begin

text \<open>
  The finite state machine under run control: the \<open>toolbox::fsm::FiniteStateMachine\<close> of
  \<open>XdaqLite/include/toolbox/fsm/FiniteStateMachine.h\<close> and its subclass \<open>ots::FiniteStateMachine\<close>
  of \<open>FiniteStateMachine/FiniteStateMachine.cc\<close>. Inheritance is record extension. The transition
  and state handlers are virtual functions of the supervisors: they are a parameter of the model
  (\<open>env\<close>), which may change the whole object and may throw.
\<close>

section \<open>Data\<close>

text \<open>The member functions registered in the tables by \<open>RunControlStateMachine\<close>.\<close>

datatype rc_fn =
    StateInitial | StateHalted | StateConfigured | StateRunning | StatePaused | StateShutdown
  | InError
  | TransitionConfiguring | TransitionHalting | TransitionShuttingDown | TransitionStartingUp
  | TransitionInitializing | TransitionPausing | TransitionResuming | TransitionStarting
  | TransitionStopping | EnteringError

text \<open>\<open>toolbox::Event\<close> and \<open>toolbox::fsm::FailedEvent\<close> (message, from state, to state).\<close>

datatype fsm_event = Event string | FailedEvent string char char

fun event_type :: "fsm_event \<Rightarrow> string" where
  "event_type (Event t) = t"
| "event_type (FailedEvent _ _ _) = ''Fail''"

record toolbox_fsm =
  currentState :: char
  initialState :: char
  states :: "char list"
  stateNames :: "(char, string) omap"
  stateTransitionTable :: "(char, (string, char) omap) omap"
  stateActions :: "(char, rc_fn) omap"
  transitionActions :: "(char, (string, rc_fn) omap) omap"
  failedAction :: "rc_fn option"
  failedChanged :: "rc_fn option"

text \<open>
  User code: the effect of calling a registered function with an event (or, for a state hook,
  without one) on the whole object, and the exception it throws, if any.
\<close>

type_synonym 'o handlers = "rc_fn \<Rightarrow> fsm_event option \<Rightarrow> 'o \<Rightarrow> 'o \<times> exn option"

section \<open>\<open>toolbox::fsm::FiniteStateMachine\<close>\<close>

definition FAILED_STATE :: char where
  "FAILED_STATE = CHR ''F''"

definition addStateName :: "char \<Rightarrow> string \<Rightarrow> 'z toolbox_fsm_scheme \<Rightarrow> 'z toolbox_fsm_scheme" where
  "addStateName st name s =
     s\<lparr>states := (if st \<in> set (states s) then states s else states s @ [st]),
       stateNames := omap_put st name (stateNames s)\<rparr>"

definition addState ::
  "char \<Rightarrow> string \<Rightarrow> rc_fn \<Rightarrow> 'z toolbox_fsm_scheme \<Rightarrow> 'z toolbox_fsm_scheme" where
  "addState st name func s =
     (let s1 = addStateName st name s in s1\<lparr>stateActions := omap_put st func (stateActions s1)\<rparr>)"

definition setStateName :: "char \<Rightarrow> string \<Rightarrow> 'z toolbox_fsm_scheme \<Rightarrow> 'z toolbox_fsm_scheme" where
  "setStateName st name s = s\<lparr>stateNames := omap_put st name (stateNames s)\<rparr>"

text \<open>\<open>table[from][input] = x\<close> on a map of maps.\<close>

definition put2 :: "char \<Rightarrow> string \<Rightarrow> 'v \<Rightarrow> (char, (string, 'v) omap) omap
    \<Rightarrow> (char, (string, 'v) omap) omap" where
  "put2 from input x t =
     omap_put from (omap_put input x (case omap_get t from of None \<Rightarrow> [] | Some r \<Rightarrow> r)) t"

definition get2 :: "(char, (string, 'v) omap) omap \<Rightarrow> char \<Rightarrow> string \<Rightarrow> 'v option" where
  "get2 t from input = Option.bind (omap_get t from) (\<lambda>r. omap_get r input)"

definition toolbox_addStateTransition ::
  "char \<Rightarrow> char \<Rightarrow> string \<Rightarrow> rc_fn \<Rightarrow> 'z toolbox_fsm_scheme \<Rightarrow> 'z toolbox_fsm_scheme" where
  "toolbox_addStateTransition from to input func s =
     s\<lparr>stateTransitionTable := put2 from input to (stateTransitionTable s),
       transitionActions := put2 from input func (transitionActions s)\<rparr>"

definition getStateName :: "'z toolbox_fsm_scheme \<Rightarrow> char \<Rightarrow> string" where
  "getStateName s st = (case omap_get (stateNames s) st of None \<Rightarrow> [st] | Some n \<Rightarrow> n)"

definition getTransitions :: "'z toolbox_fsm_scheme \<Rightarrow> char \<Rightarrow> (string, char) omap" where
  "getTransitions s st =
     (case omap_get (stateTransitionTable s) st of None \<Rightarrow> [] | Some row \<Rightarrow> row)"

definition getInputs :: "'z toolbox_fsm_scheme \<Rightarrow> char \<Rightarrow> string list" where
  "getInputs s st = map fst (getTransitions s st)"

text \<open>Run a hook if one is registered.\<close>

definition callHook ::
  "'o handlers \<Rightarrow> rc_fn option \<Rightarrow> fsm_event option \<Rightarrow> 'o \<Rightarrow> 'o \<times> exn option" where
  "callHook env f e s = (case f of None \<Rightarrow> (s, None) | Some g \<Rightarrow> env g e s)"

definition reset ::
  "'z toolbox_fsm_scheme handlers \<Rightarrow> 'z toolbox_fsm_scheme
    \<Rightarrow> 'z toolbox_fsm_scheme \<times> exn option" where
  "reset env s =
     (let s1 = s\<lparr>currentState := initialState s\<rparr>
      in callHook env (omap_get (stateActions s1) (currentState s1)) None s1)"

definition enterFailedState ::
  "'z toolbox_fsm_scheme handlers \<Rightarrow> string \<Rightarrow> char \<Rightarrow> char \<Rightarrow> 'z toolbox_fsm_scheme
    \<Rightarrow> 'z toolbox_fsm_scheme \<times> exn option" where
  "enterFailedState env msg from to s =
     (let s1 = s\<lparr>currentState := FAILED_STATE\<rparr>;
          (s2, r) = callHook env (failedAction s1) (Some (FailedEvent msg from to)) s1
      in case r of Some x \<Rightarrow> (s2, Some x) | None \<Rightarrow> callHook env (failedChanged s2) None s2)"

text \<open>
  \<open>fireEvent\<close>: an unknown input raises; an exception of the transition handler sends the machine
  to the failed state and is consumed; an exception of a state hook escapes.
\<close>

definition fireEvent ::
  "'z toolbox_fsm_scheme handlers \<Rightarrow> fsm_event \<Rightarrow> 'z toolbox_fsm_scheme
    \<Rightarrow> 'z toolbox_fsm_scheme \<times> exn option" where
  "fireEvent env e s =
     (let input = event_type e; from = currentState s in
      case get2 (stateTransitionTable s) from input of
        None \<Rightarrow>
          (s, Some (FsmException (''Invalid input '' @ quoted input @ '' for state ''
                                   @ quoted (getStateName s from))))
      | Some to \<Rightarrow>
          (let (s1, r) = callHook env (get2 (transitionActions s) from input) (Some e) s
           in case r of
                Some x \<Rightarrow> enterFailedState env (exn_what x) from to s1
              | None \<Rightarrow>
                  (let s2 = s1\<lparr>currentState := to\<rparr>
                   in callHook env (omap_get (stateActions s2) to) None s2)))"

section \<open>\<open>ots::FiniteStateMachine\<close>\<close>

text \<open>
  A run control message is represented by the command it translates to; a default constructed
  \<open>xoap::MessageReference\<close> is \<^term>\<open>None\<close>.
\<close>

record ots_fsm = toolbox_fsm +
  stateEntranceTime :: int
  inTransition :: bool
  provenanceState :: char
  currentTransition :: string
  stateTransitionNameTable :: "(char, (string, string) omap) omap"
  stateTransitionParameterTable :: "(char, (string, string) omap) omap"
  theMessage :: "soap_command option"
  theErrorMessage :: string
  stateMachineName :: string

definition FAILED_STATE_NAME :: string where "FAILED_STATE_NAME = ''Failed''"
definition ERROR_TRANSITION_NAME :: string where "ERROR_TRANSITION_NAME = ''Error''"

text \<open>Both overloads of \<open>addStateTransition\<close>; the second also records a parameter name.\<close>

definition addStateTransition ::
  "char \<Rightarrow> char \<Rightarrow> string \<Rightarrow> string \<Rightarrow> rc_fn \<Rightarrow> 'z ots_fsm_scheme \<Rightarrow> 'z ots_fsm_scheme" where
  "addStateTransition from to input transitionName func s =
     toolbox_addStateTransition from to input func
       (s\<lparr>stateTransitionNameTable :=
            put2 from input transitionName (stateTransitionNameTable s)\<rparr>)"

definition addStateTransitionParameter ::
  "char \<Rightarrow> char \<Rightarrow> string \<Rightarrow> string \<Rightarrow> string \<Rightarrow> rc_fn \<Rightarrow> 'z ots_fsm_scheme
    \<Rightarrow> 'z ots_fsm_scheme" where
  "addStateTransitionParameter from to input transitionName transitionParameter func s =
     addStateTransition from to input transitionName func
       (s\<lparr>stateTransitionParameterTable :=
            put2 from input transitionParameter (stateTransitionParameterTable s)\<rparr>)"

text \<open>
  \<open>getTransitionFinalState\<close>. Its \<open>operator[]\<close> accesses insert an empty row for a state without
  one and, for the error transition, a NUL state when the failed state has no such row entry.
\<close>

definition getTransitionFinalState ::
  "(nat \<Rightarrow> string) \<Rightarrow> string \<Rightarrow> 'z ots_fsm_scheme \<Rightarrow> 'z ots_fsm_scheme \<times> (exn + char)" where
  "getTransitionFinalState hdr tr s =
     (let (row, t1) = at_ins [] (stateTransitionTable s) (currentState s);
          s1 = s\<lparr>stateTransitionTable := t1\<rparr>
      in case omap_get row tr of
           Some to \<Rightarrow> (s1, Inr to)
         | None \<Rightarrow>
             if tr = ERROR_TRANSITION_NAME then
               (let (frow, t2) = at_ins [] t1 FAILED_STATE;
                    (to, frow') = at_ins (CHR 0x00) frow ERROR_TRANSITION_NAME
                in (s1\<lparr>stateTransitionTable := omap_put FAILED_STATE frow' t2\<rparr>, Inr to))
             else (s1, Inl (FsmException (hdr 57 @ ''Cannot find transition name for transition ''
                     @ quoted tr @ '' from current state '' @ quoted (currentState s # ''.'') @ endl))))"

definition getProvenanceStateName :: "'z ots_fsm_scheme \<Rightarrow> string" where
  "getProvenanceStateName s = getStateName s (provenanceState s)"

definition getCurrentStateName :: "'z ots_fsm_scheme \<Rightarrow> string" where
  "getCurrentStateName s = getStateName s (currentState s)"

definition getTimeInState :: "int \<Rightarrow> 'z ots_fsm_scheme \<Rightarrow> int" where
  "getTimeInState now s = (if stateEntranceTime s \<noteq> 0 then now - stateEntranceTime s else 0)"

text \<open>
  \<open>getCurrentTransitionName\<close>: the empty argument asks for the transition in progress, looked up from
  the provenance state. \<open>map::at\<close> throws \<open>std::out_of_range\<close> for a state without named transitions;
  an unknown command is echoed back.
\<close>

definition getCurrentTransitionName :: "string \<Rightarrow> 'z ots_fsm_scheme \<Rightarrow> exn + string" where
  "getCurrentTransitionName tr s =
     (let (st, cmd) = (if tr = [] then (provenanceState s, currentTransition s)
                       else (currentState s, tr))
      in case omap_get (stateTransitionNameTable s) st of
           None \<Rightarrow> Inl (StdException ''map::at'')
         | Some row \<Rightarrow> Inr (case omap_get row cmd of Some name \<Rightarrow> name | None \<Rightarrow> cmd))"

definition getTransitionName ::
  "char \<Rightarrow> string \<Rightarrow> 'z ots_fsm_scheme \<Rightarrow> 'z ots_fsm_scheme \<times> (exn + string)" where
  "getTransitionName from tr s =
     (let (row, t1) = at_ins [] (stateTransitionNameTable s) from;
          s1 = s\<lparr>stateTransitionNameTable := t1\<rparr>
      in case omap_get row tr of
           Some name \<Rightarrow> (s1, Inr name)
         | None \<Rightarrow>
             if tr = ERROR_TRANSITION_NAME then (s1, Inr tr)
             else (s1, Inl (FsmException (''Cannot find transition name from ''
                     @ quoted [from] @ '' for command: '' @ tr @ endl))))"

definition getTransitionParameter ::
  "char \<Rightarrow> string \<Rightarrow> 'z ots_fsm_scheme \<Rightarrow> 'z ots_fsm_scheme \<times> string" where
  "getTransitionParameter from tr s =
     (let (row, t1) = at_ins [] (stateTransitionParameterTable s) from
      in (s\<lparr>stateTransitionParameterTable := t1\<rparr>,
          case omap_get row tr of Some p \<Rightarrow> p | None \<Rightarrow> []))"

definition getTransitionFinalStateName ::
  "(nat \<Rightarrow> string) \<Rightarrow> string \<Rightarrow> 'z ots_fsm_scheme \<Rightarrow> 'z ots_fsm_scheme \<times> (exn + string)" where
  "getTransitionFinalStateName hdr tr s =
     (let (s1, r) = getTransitionFinalState hdr tr s
      in (s1, case r of Inl x \<Rightarrow> Inl x | Inr st \<Rightarrow> Inr (getStateName s1 st)))"

text \<open>
  Outcome of \<open>execTransition\<close>: its return value, the exception it throws, or \<open>Waiting\<close>: the loop
  \<open>while(inTransition_) sleep(1)\<close> of the \<open>fail\<close> command is still waiting for another thread.
\<close>

text \<open>
  The macro \<open>__GEN_SS__\<close> starts a message with the subject, file and line where it stands; \<open>hdr\<close> gives
  that text for a source line. \<open>now\<close> is \<open>time(0)\<close>.
\<close>

datatype exec_outcome = Returned bool | Raised exn | Waiting

definition execTransition ::
  "'z ots_fsm_scheme handlers \<Rightarrow> (nat \<Rightarrow> string) \<Rightarrow> int \<Rightarrow> string \<Rightarrow> soap_command option
    \<Rightarrow> 'z ots_fsm_scheme \<Rightarrow> 'z ots_fsm_scheme \<times> exec_outcome" where
  "execTransition env hdr now tr msg s =
     (let
        normal =
          (if inTransition s then (s, Returned False)
           else
             let s1 = s\<lparr>inTransition := True, provenanceState := currentState s\<rparr> in
             case omap_get (getTransitions s1 (currentState s1)) tr of
               None \<Rightarrow>
                 (s1\<lparr>inTransition := False\<rparr>,
                  Raised (FsmException (tr @ '' is not in the list of the transitions from current state ''
                            @ getStateName s1 (currentState s1))))
             | Some _ \<Rightarrow>
                 let (s2, r) = fireEvent env (Event tr) (s1\<lparr>theMessage := msg, currentTransition := tr\<rparr>)
                 in case r of
                      None \<Rightarrow> (s2\<lparr>inTransition := False, stateEntranceTime := now\<rparr>, Returned True)
                    | Some x \<Rightarrow>
                        (s2\<lparr>inTransition := False\<rparr>,
                         Raised (FsmException (case x of
                           FsmException w \<Rightarrow>
                             hdr 322 @ ''Transition '' @ tr @ '' was not executed from current state ''
                             @ getStateName s2 (currentState s2) @ ''. There was an error: '' @ w
                         | _ \<Rightarrow>
                             hdr 336 @ ''Transition '' @ tr @ '' was not executed from current state ''
                             @ getStateName s2 (currentState s2) @ ''. There was an unknown error.''
                             @ (if x = UnknownException then [] else ''Exception message: '' @ exn_what x)))))
      in
        if tr = ''fail'' then
          if inTransition s then (s, Waiting)
          else if getStateName s (currentState s) = FAILED_STATE_NAME then (s, Returned True)
          else
            case getTransitions s (currentState s) of
              [] \<Rightarrow> normal
            | (input, _) # _ \<Rightarrow>
                let (s1, r) = fireEvent env (Event input) s
                in case r of
                     Some (RuntimeError w) \<Rightarrow> (s1, Raised (RuntimeError w))
                   | Some (StdException w) \<Rightarrow> (s1, Raised (StdException w))
                   | Some UnknownException \<Rightarrow> (s1, Raised UnknownException)
                   | _ \<Rightarrow> (s1\<lparr>inTransition := False, stateEntranceTime := now\<rparr>, Returned True)
        else normal)"

definition setErrorMessage :: "string \<Rightarrow> bool \<Rightarrow> 'z ots_fsm_scheme \<Rightarrow> 'z ots_fsm_scheme" where
  "setErrorMessage errMessage doAppend s =
     s\<lparr>theErrorMessage := (if doAppend then theErrorMessage s @ errMessage else errMessage)\<rparr>"

definition setInitialState :: "int \<Rightarrow> char \<Rightarrow> 'z ots_fsm_scheme \<Rightarrow> 'z ots_fsm_scheme" where
  "setInitialState now st s =
     s\<lparr>initialState := st, provenanceState := st, stateEntranceTime := now\<rparr>"

lemma getTransitions_get2: "omap_get (getTransitions s st) tr = get2 (stateTransitionTable s) st tr"
  by (simp add: getTransitions_def get2_def split: option.splits)

lemma get2_put2: "get2 (put2 from input x t) st tr =
    (if st = from \<and> tr = input then Some x else get2 t st tr)"
  by (auto simp: get2_def put2_def split: option.splits)

text \<open>
  The machine is well formed: the current state and every target of its table are declared states,
  the failed state among them. Between transitions it is idle as well.
\<close>

definition machine_wf :: "'z ots_fsm_scheme \<Rightarrow> bool" where
  "machine_wf s \<longleftrightarrow>
     currentState s \<in> set (states s) \<and> FAILED_STATE \<in> set (states s) \<and>
     (\<forall>from input to. get2 (stateTransitionTable s) from input = Some to \<longrightarrow> to \<in> set (states s))"

definition machine_ok :: "'z ots_fsm_scheme \<Rightarrow> bool" where
  "machine_ok s \<longleftrightarrow> machine_wf s \<and> \<not> inTransition s"

lemma machine_wf_irrelevant [simp]:
  "machine_wf (s\<lparr>inTransition := b\<rparr>) = machine_wf s"
  "machine_wf (s\<lparr>stateEntranceTime := n\<rparr>) = machine_wf s"
  "machine_wf (s\<lparr>provenanceState := p\<rparr>) = machine_wf s"
  "machine_wf (s\<lparr>theMessage := m\<rparr>) = machine_wf s"
  "machine_wf (s\<lparr>currentTransition := c\<rparr>) = machine_wf s"
  by (simp_all add: machine_wf_def)

text \<open>The exception, if any, of the transition handler that \<open>fireEvent\<close> runs for an input.\<close>

definition handlerResult ::
  "'z ots_fsm_scheme handlers \<Rightarrow> string \<Rightarrow> 'z ots_fsm_scheme \<Rightarrow> exn option" where
  "handlerResult env input s =
     snd (callHook env (get2 (transitionActions s) (currentState s) input) (Some (Event input)) s)"

text \<open>The state in which a handler of a normal transition runs.\<close>

definition entered ::
  "string \<Rightarrow> soap_command option \<Rightarrow> 'z ots_fsm_scheme \<Rightarrow> 'z ots_fsm_scheme" where
  "entered tr msg s =
     s\<lparr>inTransition := True, provenanceState := currentState s, theMessage := msg,
       currentTransition := tr\<rparr>"

section \<open>The handler interface\<close>

text \<open>
  What the machine relies on from the supervisors' handlers: they do their work (and may record
  errors, flags, messages) but leave the machine's control fields and its tables alone.
\<close>

locale machine_handlers =
  fixes env :: "'z ots_fsm_scheme handlers"
  assumes env_currentState: "currentState (fst (env f e s)) = currentState s"
    and env_inTransition: "inTransition (fst (env f e s)) = inTransition s"
    and env_provenanceState: "provenanceState (fst (env f e s)) = provenanceState s"
    and env_states: "states (fst (env f e s)) = states s"
    and env_stateNames: "stateNames (fst (env f e s)) = stateNames s"
    and env_table: "stateTransitionTable (fst (env f e s)) = stateTransitionTable s"
    and env_actions: "transitionActions (fst (env f e s)) = transitionActions s"
begin

lemmas env_frame =
  env_currentState env_inTransition env_provenanceState env_states env_stateNames env_table
  env_actions

lemma callHook_frame:
  "currentState (fst (callHook env f e s)) = currentState s"
  "inTransition (fst (callHook env f e s)) = inTransition s"
  "provenanceState (fst (callHook env f e s)) = provenanceState s"
  "states (fst (callHook env f e s)) = states s"
  "stateNames (fst (callHook env f e s)) = stateNames s"
  "stateTransitionTable (fst (callHook env f e s)) = stateTransitionTable s"
  "transitionActions (fst (callHook env f e s)) = transitionActions s"
  by (cases f; simp add: callHook_def env_frame)+

lemma enterFailedState_frame:
  "currentState (fst (enterFailedState env m a b s)) = FAILED_STATE"
  "inTransition (fst (enterFailedState env m a b s)) = inTransition s"
  "provenanceState (fst (enterFailedState env m a b s)) = provenanceState s"
  "states (fst (enterFailedState env m a b s)) = states s"
  "stateNames (fst (enterFailedState env m a b s)) = stateNames s"
  "stateTransitionTable (fst (enterFailedState env m a b s)) = stateTransitionTable s"
  "transitionActions (fst (enterFailedState env m a b s)) = transitionActions s"
  by (simp_all add: enterFailedState_def Let_def split_beta callHook_frame split: option.splits)

lemma fireEvent_frame:
  "inTransition (fst (fireEvent env e s)) = inTransition s"
  "provenanceState (fst (fireEvent env e s)) = provenanceState s"
  "states (fst (fireEvent env e s)) = states s"
  "stateNames (fst (fireEvent env e s)) = stateNames s"
  "stateTransitionTable (fst (fireEvent env e s)) = stateTransitionTable s"
  "transitionActions (fst (fireEvent env e s)) = transitionActions s"
  by (simp_all add: fireEvent_def Let_def split_beta callHook_frame enterFailedState_frame
      split: option.splits)

lemma fireEvent_target:
  "get2 (stateTransitionTable s) (currentState s) input = Some to \<Longrightarrow>
   currentState (fst (fireEvent env (Event input) s)) =
     (if handlerResult env input s = None then to else FAILED_STATE)"
  by (auto simp: fireEvent_def Let_def split_beta callHook_frame enterFailedState_frame
      handlerResult_def split: option.splits)

lemma fireEvent_unknown_input:
  "get2 (stateTransitionTable s) (currentState s) input = None \<Longrightarrow>
   fst (fireEvent env (Event input) s) = s"
  by (simp add: fireEvent_def)

lemma fireEvent_wf:
  assumes "machine_wf s"
  shows "machine_wf (fst (fireEvent env (Event input) s))"
proof (cases "get2 (stateTransitionTable s) (currentState s) input")
  case None
  then show ?thesis using assms fireEvent_unknown_input by simp
next
  case (Some to)
  then show ?thesis
    using assms fireEvent_target [OF Some] by (auto simp: machine_wf_def fireEvent_frame)
qed

lemma execTransition_normal:
  assumes "\<not> inTransition s" "tr \<noteq> ''fail''"
    "get2 (stateTransitionTable s) (currentState s) tr = Some to"
  shows "fst (execTransition env hdr now tr msg s) =
     (let (s2, r) = fireEvent env (Event tr) (entered tr msg s)
      in if r = None then s2\<lparr>inTransition := False, stateEntranceTime := now\<rparr>
         else s2\<lparr>inTransition := False\<rparr>)"
  using assms getTransitions_get2 [of s "currentState s" tr]
  by (auto simp: execTransition_def entered_def Let_def split_beta getTransitions_def
      split: option.splits)

lemma execTransition_target:
  assumes "\<not> inTransition s" "tr \<noteq> ''fail''"
    "get2 (stateTransitionTable s) (currentState s) tr = Some to"
  shows "currentState (fst (execTransition env hdr now tr msg s)) =
           (if handlerResult env tr (entered tr msg s) = None then to else FAILED_STATE)"
    and "\<not> inTransition (fst (execTransition env hdr now tr msg s))"
    and "provenanceState (fst (execTransition env hdr now tr msg s)) = currentState s"
  using fireEvent_target [of "entered tr msg s" tr to] assms
  by (simp_all add: execTransition_normal Let_def split_beta fireEvent_frame)
     (simp_all add: entered_def)

lemma execTransition_wf:
  "machine_wf s \<Longrightarrow> machine_wf (fst (execTransition env hdr now tr msg s))"
  by (auto simp: execTransition_def Let_def split_beta fireEvent_wf
      split: option.splits exn.splits list.splits prod.splits)

lemma execTransition_idle:
  "\<not> inTransition s \<Longrightarrow> \<not> inTransition (fst (execTransition env hdr now tr msg s))"
  by (auto simp: execTransition_def Let_def split_beta fireEvent_frame
      split: option.splits exn.splits list.splits prod.splits)

text \<open>
  The command \<open>fail\<close> when every handler notices the failure flag and throws: the first transition
  of the current state is taken and the machine lands in the failed state.
\<close>

lemma execTransition_fail:
  assumes "\<not> inTransition s" "getStateName s (currentState s) \<noteq> FAILED_STATE_NAME"
    "getTransitions s (currentState s) = (input, to) # rest"
    "handlerResult env input s \<noteq> None"
  shows "currentState (fst (execTransition env hdr now ''fail'' msg s)) = FAILED_STATE"
proof -
  have "get2 (stateTransitionTable s) (currentState s) input = Some to"
    using getTransitions_get2 [of s "currentState s" input] assms(3) by simp
  then have "currentState (fst (fireEvent env (Event input) s)) = FAILED_STATE"
    using fireEvent_target [of s input to] assms(4) by auto
  then show ?thesis
    using assms(1-3)
    by (auto simp: execTransition_def Let_def split_beta split: option.splits exn.splits)
qed

end

end
