(* ===== verification/ProgressBars.thy ===== *)
theory ProgressBars
  imports Prelude
begin

text \<open>
  \<open>otsdaq/ProgressBar/ProgressBar.cc\<close>: a step counter that learns the total number of steps of an
  activity by saving it to a file named after the activity. The directory of the files is part of the
  state (file name to its number, \<^term>\<open>None\<close> when \<open>fscanf\<close> finds no number in it); whether a file can be
  opened for writing is an argument.
\<close>

section \<open>Model\<close>

record progress_bar =
  filePath :: string
  totalStepsFileName :: string
  stepCount :: int
  stepsToComplete :: int
  started :: bool

type_synonym step_files = "(string, int option) omap"

definition newProgressBar :: "string \<Rightarrow> progress_bar" where
  "newProgressBar path =
     \<lparr>filePath = path @ ''/ProgressBarData/'', totalStepsFileName = [], stepCount = 0,
      stepsToComplete = 0, started = False\<rparr>"

text \<open>\<open>sprintf("%s_%s_%d")\<close> for a non-negative id, every other character mapped to underscore.\<close>

definition stepsFileName :: "string \<Rightarrow> string \<Rightarrow> nat \<Rightarrow> string" where
  "stepsFileName file lineNumber ident =
     map (\<lambda>c. if is_alnum c then c else CHR ''_'')
       (file @ ''_'' @ lineNumber @ ''_'' @ to_string ident)"

definition resetBar ::
  "step_files \<Rightarrow> string \<Rightarrow> string \<Rightarrow> nat \<Rightarrow> progress_bar \<Rightarrow> progress_bar" where
  "resetBar files file lineNumber ident pb =
     (let fn = filePath pb @ stepsFileName file lineNumber ident @ ''.txt''
      in pb\<lparr>stepCount := 0,
            stepsToComplete := (case omap_get files fn of Some (Some n) \<Rightarrow> n | _ \<Rightarrow> 0),
            totalStepsFileName := fn, started := True\<rparr>)"

definition stepBar :: "progress_bar \<Rightarrow> progress_bar" where
  "stepBar pb =
     (let pb1 = pb\<lparr>stepCount := stepCount pb + 1\<rparr>
      in if stepsToComplete pb1 \<noteq> 0 \<and> stepsToComplete pb1 \<le> stepCount pb1
         then pb1\<lparr>stepsToComplete := stepCount pb1 + 1\<rparr> else pb1)"

definition isComplete :: "progress_bar \<Rightarrow> bool" where
  "isComplete pb \<longleftrightarrow> \<not> started pb"

definition completeBar :: "bool \<Rightarrow> progress_bar \<Rightarrow> step_files \<Rightarrow> progress_bar \<times> step_files" where
  "completeBar writable pb files =
     (let pb1 = stepBar pb; pb2 = pb1\<lparr>stepsToComplete := stepCount pb1, started := False\<rparr>
      in (pb2, if writable
               then omap_put (totalStepsFileName pb2) (Some (stepsToComplete pb2)) files else files))"

text \<open>C++ conversion of a quotient to \<open>int\<close> truncates towards zero.\<close>

definition trunc_div :: "int \<Rightarrow> int \<Rightarrow> int" where
  "trunc_div a b = sgn a * sgn b * (\<bar>a\<bar> div \<bar>b\<bar>)"

definition readBar :: "progress_bar \<Rightarrow> int" where
  "readBar pb =
     (if \<not> started pb then 100
      else if stepsToComplete pb \<noteq> 0 then trunc_div (stepCount pb * 100) (stepsToComplete pb)
      else if stepCount pb \<noteq> 0 then 50 else 0)"

section \<open>Properties\<close>

definition bar_ok :: "progress_bar \<Rightarrow> bool" where
  "bar_ok pb \<longleftrightarrow> 0 \<le> stepCount pb \<and> (stepsToComplete pb = 0 \<or> stepCount pb < stepsToComplete pb)"

lemma bar_ok_reset:
  "\<forall>n. omap_get files (filePath pb @ stepsFileName f l i @ ''.txt'') = Some (Some n) \<longrightarrow> 0 \<le> n \<Longrightarrow>
     bar_ok (resetBar files f l i pb)"
  by (auto simp: bar_ok_def resetBar_def Let_def split: option.splits)

lemma bar_ok_step: "bar_ok pb \<Longrightarrow> bar_ok (stepBar pb)"
  by (auto simp: bar_ok_def stepBar_def Let_def)

lemma steps_ok: "bar_ok pb \<Longrightarrow> bar_ok ((stepBar ^^ n) pb)"
  by (induction n) (simp_all add: bar_ok_step)

lemma steps_started: "started ((stepBar ^^ n) pb) = started pb"
  by (induction n) (simp_all add: stepBar_def Let_def)

lemma steps_count: "stepCount ((stepBar ^^ n) pb) = stepCount pb + int n"
  by (induction n) (simp_all add: stepBar_def Let_def)

lemma steps_file: "totalStepsFileName ((stepBar ^^ n) pb) = totalStepsFileName pb"
  by (induction n) (simp_all add: stepBar_def Let_def)

lemma readBar_bounds:
  assumes "bar_ok pb" "started pb"
  shows "0 \<le> readBar pb \<and> readBar pb \<le> 99"
proof (cases "stepsToComplete pb = 0")
  case True
  then show ?thesis using assms by (simp add: readBar_def)
next
  case False
  then have b: "0 \<le> stepCount pb" "stepCount pb < stepsToComplete pb" "0 < stepsToComplete pb"
    using assms by (auto simp: bar_ok_def)
  then have "readBar pb = stepCount pb * 100 div stepsToComplete pb"
    using False assms(2) by (simp add: readBar_def trunc_div_def sgn_if)
  moreover have "stepCount pb * 100 div stepsToComplete pb \<le> (stepsToComplete pb * 100 - 1) div stepsToComplete pb"
    using b by (intro zdiv_mono1) simp_all
  moreover have "(stepsToComplete pb * 100 - 1) div stepsToComplete pb = 99"
    using b(3) by (intro int_div_pos_eq [of _ _ _ "stepsToComplete pb - 1"]) simp_all
  ultimately show ?thesis using b by (simp add: pos_imp_zdiv_nonneg_iff)
qed

text \<open>
  From a reset on, whatever total an earlier run saved and however many steps are made, the bar
  reads between 0 and 99 percent until \<open>complete\<close> is called, and 100 percent afterwards.
\<close>

theorem progress_below_100_until_complete:
  assumes "\<forall>n. omap_get files (filePath pb @ stepsFileName f l i @ ''.txt'') = Some (Some n) \<longrightarrow> 0 \<le> n"
  shows "0 \<le> readBar ((stepBar ^^ k) (resetBar files f l i pb)) \<and>
         readBar ((stepBar ^^ k) (resetBar files f l i pb)) \<le> 99 \<and>
         readBar (fst (completeBar w ((stepBar ^^ k) (resetBar files f l i pb)) files)) = 100"
proof -
  let ?pb = "(stepBar ^^ k) (resetBar files f l i pb)"
  have "bar_ok ?pb" by (intro steps_ok bar_ok_reset assms)
  moreover have "started ?pb" by (simp add: steps_started) (simp add: resetBar_def Let_def)
  ultimately show ?thesis
    using readBar_bounds by (simp add: readBar_def completeBar_def Let_def)
qed

theorem progress_below_100_until_complete_witness:
  "readBar ((stepBar ^^ 7) (resetBar [(''d/ProgressBarData/Configure_FSM_0.txt'', Some 3)]
      ''Configure'' ''FSM'' 0 (newProgressBar ''d''))) \<le> 99"
proof -
  have "stepsFileName ''Configure'' ''FSM'' 0 = ''Configure_FSM_0''" by code_simp
  then show ?thesis
    using progress_below_100_until_complete [of
        "[(''d/ProgressBarData/Configure_FSM_0.txt'', Some 3)]" "newProgressBar ''d''"
        "''Configure''" "''FSM''" 0 7]
    by (simp add: newProgressBar_def)
qed

lemma steps_within_total:
  "stepCount pb = 0 \<Longrightarrow> stepsToComplete pb = int (Suc k) \<Longrightarrow> j \<le> k \<Longrightarrow>
     stepsToComplete ((stepBar ^^ j) pb) = int (Suc k)"
  by (induction j) (simp_all add: stepBar_def Let_def steps_count)

text \<open>
  The bar learns: after a run of \<open>k\<close> steps is completed and its file could be written, a reset of the
  same activity expects \<open>k + 1\<close> steps, so the next run shows after \<open>j \<le> k\<close> steps the exact
  percentage of \<open>j / (k + 1)\<close>, rounded down.
\<close>

theorem progress_learns_total:
  assumes "j \<le> k"
  shows "let (bar, files') = completeBar True ((stepBar ^^ k) (resetBar files f l i pb)) files in
         readBar ((stepBar ^^ j) (resetBar files' f l i bar)) = int (j * 100 div Suc k)"
proof -
  let ?fn = "filePath pb @ stepsFileName f l i @ ''.txt''"
  let ?run = "(stepBar ^^ k) (resetBar files f l i pb)"
  obtain bar files' where c: "completeBar True ?run files = (bar, files')" by fastforce
  have path: "filePath ((stepBar ^^ m) q) = filePath q" for m q
    by (induction m) (simp_all add: stepBar_def Let_def)
  have r: "totalStepsFileName ?run = ?fn" "filePath ?run = filePath pb" "stepCount ?run = int k"
    by (simp_all add: steps_file steps_count path) (simp_all add: resetBar_def Let_def)
  have b: "filePath bar = filePath pb" "omap_get files' ?fn = Some (Some (int (Suc k)))"
    using c r by (auto simp: completeBar_def stepBar_def Let_def split: if_splits)
  let ?new = "resetBar files' f l i bar"
  have n: "stepCount ?new = 0" "stepsToComplete ?new = int (Suc k)" "started ?new"
    using b by (simp_all add: resetBar_def Let_def)
  have "readBar ((stepBar ^^ j) ?new) = trunc_div (int j * 100) (int (Suc k))"
    using n steps_within_total [OF n(1,2) assms] steps_count [of j ?new] steps_started [of j ?new]
    by (simp add: readBar_def)
  also have "\<dots> = int (j * 100 div Suc k)"
    by (cases "j = 0") (simp_all add: trunc_div_def zdiv_int sgn_if)
  finally show ?thesis by (simp add: c)
qed

theorem progress_learns_total_witness:
  "let (bar, files') =
      completeBar True ((stepBar ^^ 3) (resetBar [] ''a'' ''b'' 0 (newProgressBar ''d''))) [] in
     readBar ((stepBar ^^ 2) (resetBar files' ''a'' ''b'' 0 bar)) = 50"
  using progress_learns_total [of 2 3 "[]" "''a''" "''b''" 0 "newProgressBar ''d''"] by simp

end
