(* ===== verification/RunControl.thy ===== *)
theory RunControl
  imports FiniteStateMachines ProgressBars
begin

text \<open>
  \<open>FiniteStateMachine/RunControlStateMachine.cc\<close>: the state machine every supervisor carries, its
  transition table, and the handler of the command messages that the Gateway sends. The members of
  \<open>theStateMachine_\<close> and of the object itself form one record, because the registered functions are
  members of the object and may change all of it. One handler call, and the body of one detached
  thread, is an atomic step.
\<close>

section \<open>State\<close>

record rc = ots_fsm +
  theProgressBar :: progress_bar
  stepFiles :: step_files
  asyncFailureReceived :: bool
  asyncPauseExceptionReceived :: bool
  asyncStopExceptionReceived :: bool
  subsystemIterationIndex :: u32
  iterationIndex :: u32
  subIterationIndex :: u32
  subsystemIterationWorkFlag :: bool
  iterationWorkFlag :: bool
  subIterationWorkFlag :: bool
  minReadyForEventGenerationStartIteration :: u32
  lastIterationState :: char
  lastIterationCommand :: string
  lastAttemptedConfigureGroup :: string
  configuredGroup :: string
  lastIterationResult :: string
  lastSubsystemIterationIndex :: u32
  lastIterationIndex :: u32
  lastSubIterationIndex :: u32
  stateTransitionFunctionTable :: "(char, (string, rc_fn) omap) omap"
  detachedThreads :: "string list"

text \<open>
  What a call takes from its surroundings: the text \<open>__GEN_SS__\<close> puts before a message in
  \<open>FiniteStateMachine.cc\<close>, \<open>RunControlStateMachine.cc\<close> and \<open>DataStructs.h\<close> (by line), the time, and
  whether the file of the progress bar can be written.
\<close>

record rc_io =
  fsmHdr :: "nat \<Rightarrow> string"
  rcHdr :: "nat \<Rightarrow> string"
  parHdr :: string
  timeNow :: int
  canWrite :: bool

section \<open>Construction\<close>

definition rc_states :: "(char \<times> string \<times> rc_fn) list" where
  "rc_states =
     [(CHR ''I'', ''Initial'', StateInitial), (CHR ''H'', ''Halted'', StateHalted),
      (CHR ''C'', ''Configured'', StateConfigured), (CHR ''R'', ''Running'', StateRunning),
      (CHR ''P'', ''Paused'', StatePaused), (CHR ''X'', ''Shutdown'', StateShutdown)]"

text \<open>From, to, input, name shown while it runs, parameter, function.\<close>

definition rc_transitions ::
  "(char \<times> char \<times> string \<times> string \<times> string option \<times> rc_fn) list" where
  "rc_transitions =
     [(FAILED_STATE, CHR ''H'', ''Halt'', ''Halting'', None, TransitionHalting),
      (FAILED_STATE, CHR ''X'', ''Shutdown'', ''Shutting Down'', None, TransitionShuttingDown),
      (FAILED_STATE, FAILED_STATE, ''Error'', ''Erroring'', None, EnteringError),
      (FAILED_STATE, FAILED_STATE, ''Fail'', ''Failing'', None, TransitionShuttingDown),
      (CHR ''H'', CHR ''C'', ''Configure'', ''Configuring'', Some ''ConfigurationAlias'',
         TransitionConfiguring),
      (CHR ''H'', CHR ''X'', ''Shutdown'', ''Shutting Down'', None, TransitionShuttingDown),
      (CHR ''X'', CHR ''I'', ''Startup'', ''Starting Up'', None, TransitionStartingUp),
      (CHR ''I'', CHR ''H'', ''Initialize'', ''Initializing'', None, TransitionInitializing),
      (CHR ''H'', CHR ''H'', ''Halt'', ''Halting'', None, TransitionHalting),
      (CHR ''C'', CHR ''H'', ''Halt'', ''Halting'', None, TransitionHalting),
      (CHR ''R'', CHR ''H'', ''Abort'', ''Aborting'', None, TransitionHalting),
      (CHR ''P'', CHR ''H'', ''Abort'', ''Aborting'', None, TransitionHalting),
      (CHR ''R'', CHR ''P'', ''Pause'', ''Pausing'', None, TransitionPausing),
      (CHR ''P'', CHR ''R'', ''Resume'', ''Resuming'', None, TransitionResuming),
      (CHR ''C'', CHR ''R'', ''Start'', ''Starting'', None, TransitionStarting),
      (CHR ''R'', CHR ''C'', ''Stop'', ''Stopping'', None, TransitionStopping),
      (CHR ''P'', CHR ''C'', ''Stop'', ''Stopping'', None, TransitionStopping)]"

definition rc_addStateTransition ::
  "char \<times> char \<times> string \<times> string \<times> string option \<times> rc_fn \<Rightarrow> 'z rc_scheme \<Rightarrow> 'z rc_scheme" where
  "rc_addStateTransition t s =
     (let (from, to, input, name, par, func) = t;
          s1 = s\<lparr>stateTransitionFunctionTable :=
                   put2 from input func (stateTransitionFunctionTable s)\<rparr>
      in case par of
           None \<Rightarrow> addStateTransition from to input name func s1
         | Some p \<Rightarrow> addStateTransitionParameter from to input name p func s1)"

text \<open>The commands bound to \<open>runControlMessageHandler\<close>.\<close>

definition rc_bound :: "string list" where
  "rc_bound =
     [''Initialize'', ''Configure'', ''Start'', ''Stop'', ''Pause'', ''Resume'', ''Halt'', ''Abort'',
      ''Shutdown'', ''Startup'', ''Fail'', ''Error'', ''AsyncError'', ''AsyncPauseException'']"

text \<open>\<open>RunControlStateMachine::reset\<close>; an exception of the state hook ends it.\<close>

definition rc_reset ::
  "'z rc_scheme handlers \<Rightarrow> rc_io \<Rightarrow> 'z rc_scheme \<Rightarrow> 'z rc_scheme \<times> exn option" where
  "rc_reset env io s =
     (let (s1, r) = reset env (setInitialState (timeNow io) (CHR ''I'') s)
      in case r of
           Some x \<Rightarrow> (s1, Some x)
         | None \<Rightarrow>
             ((setErrorMessage [] False s1)
                \<lparr>asyncFailureReceived := False, asyncPauseExceptionReceived := False,
                 asyncStopExceptionReceived := False\<rparr>, None))"

text \<open>
  Member initialisation: \<open>mem\<close> supplies the members the constructors leave unset (the work flags and
  the \<open>last...\<close> indices and state).
\<close>

definition rc_members :: "rc \<Rightarrow> string \<Rightarrow> string \<Rightarrow> rc" where
  "rc_members mem name userData =
     addStateName FAILED_STATE ''failed''
       (mem\<lparr>currentState := CHR 0x00, initialState := CHR 0x00, states := [], stateNames := [],
            stateTransitionTable := [], stateActions := [], transitionActions := [],
            failedAction := None, failedChanged := None,
            stateEntranceTime := 0, inTransition := False, provenanceState := CHR ''X'',
            currentTransition := [], stateTransitionNameTable := [],
            stateTransitionParameterTable := [], theMessage := None, theErrorMessage := [],
            stateMachineName := name, theProgressBar := newProgressBar userData,
            asyncFailureReceived := False, asyncPauseExceptionReceived := False,
            asyncStopExceptionReceived := False, subsystemIterationIndex := 0,
            iterationIndex := 0, subIterationIndex := 0,
            minReadyForEventGenerationStartIteration := 0, lastIterationCommand := [],
            lastAttemptedConfigureGroup := [], configuredGroup := [], lastIterationResult := [],
            stateTransitionFunctionTable := [], detachedThreads := []\<rparr>)"

text \<open>
  The constructor. A virtual call from it runs the base class's function, so the hook of the initial
  state does nothing.
\<close>

definition rc_base_handlers :: "'z rc_scheme handlers" where
  "rc_base_handlers f e s = (s, None)"

definition newRunControl :: "rc_io \<Rightarrow> rc \<Rightarrow> string \<Rightarrow> string \<Rightarrow> rc" where
  "newRunControl io mem name userData =
     (let s0 = rc_members mem name userData;
          s1 = fold (\<lambda>(st, nm, func). addState st nm func) rc_states s0;
          s2 = (setStateName FAILED_STATE FAILED_STATE_NAME s1)
                 \<lparr>failedAction := Some EnteringError, failedChanged := Some InError\<rparr>;
          s3 = fold rc_addStateTransition rc_transitions s2
      in fst (rc_reset rc_base_handlers io s3))"

section \<open>Iterations\<close>

definition SUBSYSTEM_ITERATION_STANDALONE :: u32 where
  "SUBSYSTEM_ITERATION_STANDALONE = - 1"

definition isStandaloneSubsystem :: "'z rc_scheme \<Rightarrow> bool" where
  "isStandaloneSubsystem s \<longleftrightarrow> subsystemIterationIndex s = SUBSYSTEM_ITERATION_STANDALONE"

definition isFirstIteration :: "'z rc_scheme \<Rightarrow> bool" where
  "isFirstIteration s \<longleftrightarrow>
     (subsystemIterationIndex s = 0 \<or> isStandaloneSubsystem s) \<and>
     iterationIndex s = 0 \<and> subIterationIndex s = 0"

definition getSubsystemSyncStepIndex :: "'z rc_scheme \<Rightarrow> u32" where
  "getSubsystemSyncStepIndex s =
     (if isStandaloneSubsystem s then iterationIndex s else subsystemIterationIndex s)"

definition indicateSubsystemSyncStepWork :: "'z rc_scheme \<Rightarrow> 'z rc_scheme" where
  "indicateSubsystemSyncStepWork s =
     (if isStandaloneSubsystem s then s\<lparr>iterationWorkFlag := True\<rparr>
      else s\<lparr>subsystemIterationWorkFlag := True\<rparr>)"

definition setAsyncPauseExceptionMessage :: "string \<Rightarrow> 'z rc_scheme \<Rightarrow> 'z rc_scheme" where
  "setAsyncPauseExceptionMessage err s =
     setErrorMessage err True (s\<lparr>asyncPauseExceptionReceived := True\<rparr>)"

definition setAsyncStopExceptionMessage :: "string \<Rightarrow> 'z rc_scheme \<Rightarrow> 'z rc_scheme" where
  "setAsyncStopExceptionMessage err s =
     setErrorMessage err True (s\<lparr>asyncStopExceptionReceived := True\<rparr>)"

section \<open>The message handler\<close>

text \<open>
  A numeric parameter: missing reads as 0; text that is no number leaves what \<open>getNumber\<close> stored.
  \<^term>\<open>None\<close> is undefined behaviour of the conversion (a division by zero in the text).
\<close>

definition readIndex :: "rc_io \<Rightarrow> soap_command \<Rightarrow> string \<Rightarrow> u32 option" where
  "readIndex io m name =
     (case getValue (parHdr io) (parameters m) name of
        Inl _ \<Rightarrow> Some 0
      | Inr v \<Rightarrow>
          (case getNumber v of
             Number w \<Rightarrow> Some w | NotANumber w \<Rightarrow> Some w
           | OpsOutOfRange \<Rightarrow> None | DivisionError \<Rightarrow> None))"

definition receiveIndices ::
  "rc_io \<Rightarrow> soap_command \<Rightarrow> 'z rc_scheme \<Rightarrow> 'z rc_scheme option" where
  "receiveIndices io m s =
     (case (readIndex io m ''subsystemIterationIndex'', readIndex io m ''iterationIndex'',
            readIndex io m ''subIterationIndex'',
            readIndex io m ''MinReadyForEventGenerationStartIteration'') of
        (Some a, Some b, Some c, Some d) \<Rightarrow>
          Some (s\<lparr>subsystemIterationIndex := a, iterationIndex := b, subIterationIndex := c,
                  minReadyForEventGenerationStartIteration := d\<rparr>)
      | _ \<Rightarrow> None)"

definition retransmitted :: "rc_io \<Rightarrow> soap_command \<Rightarrow> bool" where
  "retransmitted io m \<longleftrightarrow>
     (case getValue (parHdr io) (parameters m) ''retransmission'' of
        Inl _ \<Rightarrow> False | Inr v \<Rightarrow> v = ''1'')"

definition isRepetition :: "soap_command \<Rightarrow> 'z rc_scheme \<Rightarrow> bool" where
  "isRepetition m s \<longleftrightarrow>
     lastIterationCommand s = command m \<and>
     lastSubsystemIterationIndex s = subsystemIterationIndex s \<and>
     lastIterationIndex s = iterationIndex s \<and>
     lastSubIterationIndex s = subIterationIndex s"

definition stepProgress :: "'z rc_scheme \<Rightarrow> 'z rc_scheme" where
  "stepProgress s = s\<lparr>theProgressBar := stepBar (theProgressBar s)\<rparr>"

definition completeProgress :: "rc_io \<Rightarrow> 'z rc_scheme \<Rightarrow> 'z rc_scheme" where
  "completeProgress io s =
     (let (pb, fs) = completeBar (canWrite io) (theProgressBar s) (stepFiles s)
      in s\<lparr>theProgressBar := pb, stepFiles := fs\<rparr>)"

text \<open>Lines 439 to 469: remember the indices, find the starting state, start the progress bar.\<close>

definition beginIteration :: "string \<Rightarrow> 'z rc_scheme \<Rightarrow> 'z rc_scheme \<times> string" where
  "beginIteration cmd s =
     (let s1 = s\<lparr>lastSubsystemIterationIndex := subsystemIterationIndex s,
                 lastIterationIndex := iterationIndex s,
                 lastSubIterationIndex := subIterationIndex s\<rparr>;
          (s2, cur) =
            (if isFirstIteration s1
             then (s1\<lparr>theProgressBar :=
                        resetBar (stepFiles s1) cmd (stateMachineName s1) 0 (theProgressBar s1)\<rparr>,
                   getCurrentStateName s1)
             else (s1, getStateName s1 (lastIterationState s1)))
      in ((stepProgress s2)\<lparr>lastIterationResult := cmd @ ''Done''\<rparr>, cur))"

text \<open>Outcome of a handler call: the command of its reply, an exception, undefined behaviour, waiting.\<close>

datatype rc_outcome = Reply string | Threw exn | Undefined | Blocked

text \<open>Lines 473 to 494.\<close>

definition handleError ::
  "'z rc_scheme handlers \<Rightarrow> rc_io \<Rightarrow> soap_command \<Rightarrow> string \<Rightarrow> 'z rc_scheme
    \<Rightarrow> 'z rc_scheme \<times> rc_outcome" where
  "handleError env io m cur s =
     (let s1 =
        (if cur = ''Configured'' then
           fst (execTransition env (fsmHdr io) (timeNow io) ''Halt'' (Some m) s)
         else if cur = ''Running'' \<or> cur = ''Paused'' then
           fst (execTransition env (fsmHdr io) (timeNow io) ''Abort'' (Some m) s)
         else s)
      in (completeProgress io s1, Reply (command m @ ''Done'')))"

text \<open>
  Lines 495 to 582: record the message once; the first report of its kind starts a thread that
  executes a transition.
\<close>

definition handleAsync ::
  "rc_io \<Rightarrow> nat \<Rightarrow> string \<Rightarrow> bool \<Rightarrow> ('z rc_scheme \<Rightarrow> 'z rc_scheme) \<Rightarrow> string \<Rightarrow> soap_command
    \<Rightarrow> 'z rc_scheme \<Rightarrow> 'z rc_scheme \<times> rc_outcome" where
  "handleAsync io line verb received setReceived tr m s =
     (case getValue (parHdr io) (parameters m) ''ErrorMessage'' of
        Inl x \<Rightarrow> (s, Threw x)
      | Inr err \<Rightarrow>
          (let s1 = setErrorMessage (rcHdr io line @ command m @ '' was received! '' @ verb
                      @ CHR 0x27 # ''ing immediately: '' @ err @ endl) True s;
               s2 = (if received then s1
                     else (setReceived s1)\<lparr>detachedThreads := detachedThreads s1 @ [tr]\<rparr>)
           in (s2, Reply (command m @ ''Done''))))"

text \<open>Lines 604 to 618: errors and flags that a command clears.\<close>

definition clearFlags :: "string \<Rightarrow> string \<Rightarrow> 'z rc_scheme \<Rightarrow> 'z rc_scheme" where
  "clearFlags cmd cur s =
     (let s1 = (if (cmd = ''Halt'' \<or> cmd = ''Shutdown'') \<and> cur = FAILED_STATE_NAME
                then (setErrorMessage [] False s)
                       \<lparr>asyncFailureReceived := False, asyncPauseExceptionReceived := False,
                        asyncStopExceptionReceived := False\<rparr>
                else s);
          s2 = (if cmd = ''Resume'' then s1\<lparr>asyncPauseExceptionReceived := False\<rparr> else s1)
      in if cmd = ''Start'' then s2\<lparr>asyncStopExceptionReceived := False\<rparr> else s2)"

text \<open>Lines 634 to 659: the command that is executed for a command.\<close>

definition clearMessage :: "string \<Rightarrow> 'z rc_scheme \<Rightarrow> 'z rc_scheme" where
  "clearMessage cmd s =
     (if (asyncPauseExceptionReceived s \<and> cmd = ''Pause'') \<or>
         (asyncStopExceptionReceived s \<and> cmd = ''Stop'')
      then s else setErrorMessage [] False s)"

definition effectiveCommand :: "string \<Rightarrow> string \<Rightarrow> string" where
  "effectiveCommand cmd cur =
     (if cmd = ''Halt'' \<and> cur = ''Initial'' then ''Initialize''
      else if cmd = ''Halt'' \<and> (cur = ''Paused'' \<or> cur = ''Running'') then ''Abort'' else cmd)"

datatype flow = Proceed | Throw exn | Wait

fun flow_of :: "exec_outcome \<Rightarrow> flow" where
  "flow_of (Returned _) = Proceed"
| "flow_of (Raised x) = Throw x"
| "flow_of Waiting = Wait"

text \<open>Lines 660 to 671: Configure from the initial state initialises first.\<close>

definition preInitialize ::
  "'z rc_scheme handlers \<Rightarrow> rc_io \<Rightarrow> string \<Rightarrow> string \<Rightarrow> 'z rc_scheme \<Rightarrow> 'z rc_scheme \<times> flow" where
  "preInitialize env io cmd cur s =
     (if cmd = ''Configure'' \<and> cur = ''Initial'' then
        map_prod id flow_of (execTransition env (fsmHdr io) (timeNow io) ''Initialize''
          (Some \<lparr>command = ''Initialize'', parameters = []\<rparr>) s)
      else (s, Proceed))"

text \<open>Lines 684 to 714: call the transition function of the last command again.\<close>

definition iterateTransition ::
  "'z rc_scheme handlers \<Rightarrow> rc_io \<Rightarrow> string \<Rightarrow> string \<Rightarrow> 'z rc_scheme \<Rightarrow> 'z rc_scheme \<times> flow" where
  "iterateTransition env io cmd cur s =
     (let missing = (\<lambda>line. Throw (FsmException (rcHdr io line @ ''Cannot find transition function from ''
            @ quoted cur @ '' with transition '' @ quoted (lastIterationCommand s @ ''!'') @ endl)))
      in case omap_get (stateTransitionFunctionTable s) (lastIterationState s) of
           None \<Rightarrow> (s, missing 696)
         | Some row \<Rightarrow>
             (case omap_get row (lastIterationCommand s) of
                None \<Rightarrow> (s, missing 706)
              | Some func \<Rightarrow>
                  (let (s1, r) = env func (Some (Event cmd)) s
                   in (s1, case r of None \<Rightarrow> Proceed | Some x \<Rightarrow> Throw x))))"

text \<open>Lines 718 to 745: remember the transition and execute it.\<close>

definition groupNameKey :: "rc_io \<Rightarrow> soap_command \<Rightarrow> string option" where
  "groupNameKey io m =
     (case (getValue (parHdr io) (parameters m) ''ConfigurationTableGroupName'',
            getValue (parHdr io) (parameters m) ''ConfigurationTableGroupKey'') of
        (Inr name, Inr key) \<Rightarrow> Some (name @ ''('' @ key @ '')'')
      | _ \<Rightarrow> None)"

definition firstTransition ::
  "'z rc_scheme handlers \<Rightarrow> rc_io \<Rightarrow> string \<Rightarrow> soap_command \<Rightarrow> 'z rc_scheme
    \<Rightarrow> 'z rc_scheme \<times> flow" where
  "firstTransition env io cmd m s =
     (let s1 = s\<lparr>lastIterationState := currentState s, lastIterationCommand := cmd\<rparr>;
          run = (\<lambda>s. map_prod id flow_of (execTransition env (fsmHdr io) (timeNow io) cmd (Some m) s))
      in if cmd = ''Configure'' then
           (case getValue (parHdr io) (parameters m) ''ConfigurationAlias'' of
              Inl x \<Rightarrow> (s1, Throw x)
            | Inr alias \<Rightarrow>
                run (s1\<lparr>lastAttemptedConfigureGroup :=
                          alias @ (case groupNameKey io m of None \<Rightarrow> [] | Some g \<Rightarrow> '' '' @ g)\<rparr>))
         else run s1)"

text \<open>Lines 749 to 773.\<close>

definition updateConfiguredGroup ::
  "rc_io \<Rightarrow> string \<Rightarrow> soap_command \<Rightarrow> 'z rc_scheme \<Rightarrow> 'z rc_scheme" where
  "updateConfiguredGroup io cmd m s =
     (if cmd = ''Halt'' \<or> cmd = ''Abort'' \<or> cmd = ''Initialize'' then s\<lparr>configuredGroup := []\<rparr>
      else if cmd = ''Configure'' \<and> \<not> subIterationWorkFlag s \<and> \<not> iterationWorkFlag s \<and>
              \<not> subsystemIterationWorkFlag s \<and> getCurrentStateName s = ''Configured''
      then s\<lparr>configuredGroup := (case groupNameKey io m of None \<Rightarrow> [] | Some g \<Rightarrow> g)\<rparr>
      else s)"

text \<open>Lines 775 to 793.\<close>

definition workResult :: "string \<Rightarrow> string \<Rightarrow> 'z rc_scheme \<Rightarrow> string" where
  "workResult cmd result s =
     (if subIterationWorkFlag s then cmd @ ''SubIterate''
      else if iterationWorkFlag s then cmd @ ''Iterate''
      else if subsystemIterationWorkFlag s then cmd @ ''SubsystemIterate''
      else result)"

text \<open>Lines 795 to 835: what the catch blocks append to the error message.\<close>

definition failureText :: "rc_io \<Rightarrow> string \<Rightarrow> exn \<Rightarrow> 'z rc_scheme \<Rightarrow> string" where
  "failureText io cmd x s =
     (let known = (\<lambda>line w. rcHdr io line @ ''Run Control Message Handling Failed with command '' @ quoted cmd
                     @ '': '' @ w @ '' '' @ theErrorMessage s @ endl);
          unknown = rcHdr io 817 @ ''Run Control Message Handling Failed  with command '' @ quoted cmd
                     @ '' and encountered an unknown error.'' @ theErrorMessage s @ endl
      in case x of
           RuntimeError w \<Rightarrow> known 797 w
         | FsmException w \<Rightarrow> known 807 w
         | StdException w \<Rightarrow> unknown @ ''Exception message: '' @ w
         | UnknownException \<Rightarrow> unknown)"

text \<open>
  Lines 628 to 835: the command that was executed and the result (\<^term>\<open>None\<close> when waiting);
  \<open>result\<close> is the result set before.
\<close>

definition normalTransition ::
  "'z rc_scheme handlers \<Rightarrow> rc_io \<Rightarrow> string \<Rightarrow> string \<Rightarrow> soap_command \<Rightarrow> string \<Rightarrow> 'z rc_scheme
    \<Rightarrow> 'z rc_scheme \<times> string \<times> string option" where
  "normalTransition env io result cmd0 m0 cur s0 =
     (let s = clearMessage cmd0 s0;
          cmd = effectiveCommand cmd0 cur;
          m = (if cmd = cmd0 then m0 else \<lparr>command = cmd, parameters = []\<rparr>);
          failed = (\<lambda>x s. (setErrorMessage (failureText io cmd x s) True s, cmd,
                           Some (cmd @ FAILED_STATE_NAME)));
          (s1, r1) = preInitialize env io cmd cur s
      in case r1 of
           Throw x \<Rightarrow> failed x s1
         | Wait \<Rightarrow> (s1, cmd, None)
         | Proceed \<Rightarrow>
             (let s2 = s1\<lparr>subsystemIterationWorkFlag := False, iterationWorkFlag := False,
                          subIterationWorkFlag := False\<rparr>;
                  (s3, r3) = (if isFirstIteration s2 then firstTransition env io cmd m s2
                              else iterateTransition env io cmd cur s2)
              in case r3 of
                   Throw x \<Rightarrow> failed x s3
                 | Wait \<Rightarrow> (s3, cmd, None)
                 | Proceed \<Rightarrow>
                     (let s4 = updateConfiguredGroup io cmd m s3
                      in (s4, cmd, Some (workResult cmd result s4)))))"

text \<open>Lines 837 to 866.\<close>

definition finishIteration ::
  "rc_io \<Rightarrow> string \<Rightarrow> string \<Rightarrow> 'z rc_scheme \<Rightarrow> 'z rc_scheme \<times> rc_outcome" where
  "finishIteration io cmd result0 s =
     (let s1 = stepProgress s;
          result = (if getCurrentStateName s1 = FAILED_STATE_NAME then cmd @ FAILED_STATE_NAME
                    else result0);
          s2 = stepProgress s1;
          s3 = (if \<not> subsystemIterationWorkFlag s2 \<and> \<not> iterationWorkFlag s2 \<and> \<not> subIterationWorkFlag s2
                then completeProgress io s2 else s2)
      in (s3\<lparr>lastIterationResult := result\<rparr>, Reply result))"

text \<open>Lines 584 to 866: every command but the error reports.\<close>

definition handleCommand ::
  "'z rc_scheme handlers \<Rightarrow> rc_io \<Rightarrow> soap_command \<Rightarrow> string \<Rightarrow> 'z rc_scheme
    \<Rightarrow> 'z rc_scheme \<times> rc_outcome" where
  "handleCommand env io m cur s =
     (if command m = ''Initialize'' \<and> cur = ''Halted'' then
        (setErrorMessage [] False s, Reply (command m @ ''Done''))
      else
        (let m1 = (if command m = ''Initialize'' \<and> cur = FAILED_STATE_NAME
                   then \<lparr>command = ''Halt'', parameters = []\<rparr> else m);
             s1 = clearFlags (command m1) cur s;
             (s2, cmd, r) = normalTransition env io (command m @ ''Done'') (command m1) m1 cur s1
         in case r of None \<Rightarrow> (s2, Blocked) | Some result \<Rightarrow> finishIteration io cmd result s2))"

definition runControlMessageHandler ::
  "'z rc_scheme handlers \<Rightarrow> rc_io \<Rightarrow> soap_command \<Rightarrow> 'z rc_scheme
    \<Rightarrow> 'z rc_scheme \<times> rc_outcome" where
  "runControlMessageHandler env io m s0 =
     (case receiveIndices io m s0 of
        None \<Rightarrow> (s0, Undefined)
      | Some s1 \<Rightarrow>
          if retransmitted io m \<and> isRepetition m s1 then (s1, Reply (lastIterationResult s1))
          else
            (let (s2, cur) = beginIteration (command m) s1; cmd = command m
             in if cmd = ''Error'' \<or> cmd = ''Fail'' then handleError env io m cur s2
                else if cmd = ''AsyncError'' then
                  handleAsync io 500 ''Error'' (asyncFailureReceived s2)
                    (\<lambda>s. s\<lparr>asyncFailureReceived := True\<rparr>) ''fail'' m s2
                else if cmd = ''AsyncPauseException'' then
                  handleAsync io 530 ''Pause'' (asyncPauseExceptionReceived s2)
                    (\<lambda>s. s\<lparr>asyncPauseExceptionReceived := True\<rparr>) ''Pause'' m s2
                else if cmd = ''AsyncStopException'' then
                  handleAsync io 559 ''Stop'' (asyncStopExceptionReceived s2)
                    (\<lambda>s. s\<lparr>asyncStopExceptionReceived := True\<rparr>) ''Stop'' m s2
                else handleCommand env io m cur s2))"

text \<open>
  The body of a detached thread: execute the transition with a default message, ignore what it
  throws; the thread of \<open>fail\<close> stays while a transition is running.
\<close>

definition runThread :: "'z rc_scheme handlers \<Rightarrow> rc_io \<Rightarrow> nat \<Rightarrow> 'z rc_scheme \<Rightarrow> 'z rc_scheme" where
  "runThread env io i s =
     (if i < length (detachedThreads s) then
        (let ts = detachedThreads s;
             (s1, r) = execTransition env (fsmHdr io) (timeNow io) (ts ! i) None
                         (s\<lparr>detachedThreads := take i ts @ drop (i + 1) ts\<rparr>)
         in if r = Waiting then s else s1)
      else s)"

end
