(* ===== verification/RunControlProps.thy ===== *)
theory RunControlProps
  imports RunControl
begin

text \<open>
  What run control guarantees: the constructed machine is the documented one, every command keeps it
  well formed, commands lead where they should, errors are reported and recoverable, repeated
  commands are answered without being executed twice.
\<close>

section \<open>Frames\<close>

text \<open>The fields that only construction writes, and with them the fields that drive the machine.\<close>

definition shape ::
  "'z ots_fsm_scheme \<Rightarrow> char list \<times> (char, string) omap \<times> (char, (string, char) omap) omap
    \<times> (char, (string, rc_fn) omap) omap" where
  "shape s = (states s, stateNames s, stateTransitionTable s, transitionActions s)"

definition control where
  "control s = (shape s, currentState s, inTransition s)"

lemmas frame_defs = shape_def control_def

lemma machine_ok_control: "control s = control s' \<Longrightarrow> machine_ok s = machine_ok s'"
  by (simp add: machine_ok_def machine_wf_def frame_defs)

lemma control_setErrorMessage [simp]: "control (setErrorMessage e a s) = control s"
  by (simp add: frame_defs setErrorMessage_def)

lemma control_stepProgress [simp]: "control (stepProgress s) = control s"
  by (simp add: frame_defs stepProgress_def)

lemma name_control: "control s = control t \<Longrightarrow> getCurrentStateName s = getCurrentStateName t"
  by (simp add: frame_defs getCurrentStateName_def getStateName_def)

lemma name_stepProgress [simp]: "getCurrentStateName (stepProgress s) = getCurrentStateName s"
  by (rule name_control) simp

lemma control_completeProgress [simp]: "control (completeProgress io s) = control s"
  by (simp add: frame_defs completeProgress_def split_beta)

lemma control_fields [simp]:
  "control (s\<lparr>lastIterationResult := r\<rparr>) = control s"
  "control (s\<lparr>detachedThreads := ts\<rparr>) = control s"
  "control (s\<lparr>configuredGroup := g\<rparr>) = control s"
  "control (s\<lparr>asyncFailureReceived := b\<rparr>) = control s"
  "control (s\<lparr>asyncPauseExceptionReceived := b\<rparr>) = control s"
  "control (s\<lparr>asyncStopExceptionReceived := b\<rparr>) = control s"
  "control (s\<lparr>subsystemIterationWorkFlag := b\<rparr>) = control s"
  "control (s\<lparr>iterationWorkFlag := b\<rparr>) = control s"
  "control (s\<lparr>subIterationWorkFlag := b\<rparr>) = control s"
  "control (s\<lparr>lastIterationState := c\<rparr>) = control s"
  "control (s\<lparr>lastIterationCommand := g\<rparr>) = control s"
  "control (s\<lparr>lastAttemptedConfigureGroup := g\<rparr>) = control s"
  by (simp_all add: frame_defs)

lemma control_receiveIndices: "receiveIndices io m s = Some s1 \<Longrightarrow> control s1 = control s"
  by (auto simp: receiveIndices_def frame_defs split: option.splits)

lemma control_beginIteration [simp]: "control (fst (beginIteration c s)) = control s"
  by (simp add: beginIteration_def stepProgress_def Let_def frame_defs)

lemma control_clearFlags [simp]: "control (clearFlags c cur s) = control s"
  by (simp add: clearFlags_def Let_def)

lemma control_clearMessage [simp]: "control (clearMessage c s) = control s"
  by (simp add: clearMessage_def)

lemma control_updateConfiguredGroup [simp]: "control (updateConfiguredGroup io c m s) = control s"
  by (simp add: updateConfiguredGroup_def)

lemma control_finishIteration [simp]: "control (fst (finishIteration io c r s)) = control s"
  by (simp add: finishIteration_def Let_def)

lemma control_handleAsync:
  "(\<And>s. control (f s) = control s) \<Longrightarrow> control (fst (handleAsync io l v b f t m s)) = control s"
  by (simp add: handleAsync_def Let_def split: sum.splits)

lemma finishIteration_reply [simp]: "\<exists>r. snd (finishIteration io c r0 s) = Reply r"
  by (simp add: finishIteration_def Let_def)

section \<open>Any handlers that respect the machine\<close>

context machine_handlers
begin

lemma execTransition_shape: "shape (fst (execTransition env hdr now tr msg s)) = shape s"
  by (auto simp: shape_def execTransition_def Let_def split_beta fireEvent_frame
      split: option.splits exn.splits list.splits prod.splits)

lemma execTransition_ok: "machine_ok s \<Longrightarrow> machine_ok (fst (execTransition env hdr now tr msg s))"
  using execTransition_wf execTransition_idle by (auto simp: machine_ok_def)

lemma execTransition_returns:
  "\<not> inTransition s \<Longrightarrow> snd (execTransition env hdr now tr msg s) \<noteq> Waiting"
  by (auto simp: execTransition_def Let_def split_beta
      split: option.splits exn.splits list.splits prod.splits)

lemma env_control: "control (fst (env f e s)) = control s"
  by (simp add: frame_defs env_frame)

end

text \<open>
  The members that identify a command: its indices and what is remembered of the last one. The
  supervisors' handlers read them through accessors and never write them.
\<close>

definition rc_frame where
  "rc_frame s =
     (subsystemIterationIndex s, iterationIndex s, subIterationIndex s,
      minReadyForEventGenerationStartIteration s, lastIterationCommand s, lastSubsystemIterationIndex s, lastIterationIndex s, lastSubIterationIndex s)"

text \<open>The machine stays as constructed, and well formed and idle if it was.\<close>

definition keeps :: "'y ots_fsm_scheme \<Rightarrow> 'z ots_fsm_scheme \<Rightarrow> bool" where
  "keeps s s' \<longleftrightarrow> shape s' = shape s \<and> (machine_ok s \<longrightarrow> machine_ok s')"

lemma keeps_refl [simp]: "keeps s s"
  by (simp add: keeps_def)

lemma keeps_trans: "keeps s s' \<Longrightarrow> keeps s' s'' \<Longrightarrow> keeps s s''"
  by (simp add: keeps_def)

lemma keeps_control: "control s' = control s \<Longrightarrow> keeps s s'"
  using machine_ok_control by (auto simp: keeps_def control_def)

lemma keeps_right: "control t' = control t \<Longrightarrow> keeps s t' = keeps s t"
  using machine_ok_control by (auto simp: keeps_def control_def)

lemma keeps_left: "control s' = control s \<Longrightarrow> keeps s' t = keeps s t"
  using machine_ok_control by (auto simp: keeps_def control_def)

lemma keeps_simps [simp]:
  "keeps s (setErrorMessage e a t) = keeps s t"
  "keeps s (updateConfiguredGroup io c m t') = keeps s t'"
  "keeps s (fst (finishIteration io c r t')) = keeps s t'"
  "keeps s (completeProgress io t') = keeps s t'"
  "keeps (clearFlags c cur s') t = keeps s' t"
  "keeps (clearMessage c s') t = keeps s' t"
  "keeps (fst (beginIteration c s')) t = keeps s' t"
  by (rule keeps_right keeps_left; simp)+

locale rc_handlers = machine_handlers env
  for env :: "'y rc_scheme handlers" +
  assumes env_rc: "rc_frame (fst (env f e s)) = rc_frame s"
begin

lemma keeps_exec: "keeps s (fst (execTransition env hdr now tr msg s))"
  by (simp add: keeps_def execTransition_shape execTransition_ok)

lemma keeps_preInitialize: "keeps s (fst (preInitialize env io c cur s))"
  by (simp add: preInitialize_def keeps_exec)

lemma keeps_iterate: "keeps s (fst (iterateTransition env io c cur s))"
  using keeps_control [OF env_control]
  by (auto simp: iterateTransition_def Let_def split_beta split: option.splits)

lemma keeps_first: "keeps s (fst (firstTransition env io c m s))"
  by (auto simp: firstTransition_def Let_def split: sum.splits
      intro: keeps_trans [OF keeps_control keeps_exec] keeps_control)

lemma keeps_normal: "keeps s (fst (normalTransition env io r c m cur s))"
proof -
  let ?s1 = "\<lambda>d. fst (preInitialize env io d cur (clearMessage c s))"
  let ?s2 = "\<lambda>d. ?s1 d\<lparr>subsystemIterationWorkFlag := False, iterationWorkFlag := False,
                 subIterationWorkFlag := False\<rparr>"
  have k1: "keeps s (?s1 d)" for d using keeps_preInitialize [of "clearMessage c s" io d cur] by simp
  then have "keeps s (?s2 d)" for d by (subst keeps_right [of _ "?s1 d"]) simp_all
  then have "keeps s (fst (firstTransition env io d n (?s2 d)))"
    "keeps s (fst (iterateTransition env io d cur (?s2 d)))" for d n
    using keeps_first keeps_iterate by (blast intro: keeps_trans)+
  then show ?thesis
    using k1 by (simp add: normalTransition_def Let_def split_beta split: flow.splits)
qed

lemma keeps_handleCommand: "keeps s (fst (handleCommand env io m cur s))"
proof -
  have k: "keeps s (fst (normalTransition env io r c m' d (clearFlags c d s)))" for r c m' d
    using keeps_normal [of "clearFlags c d s"] by simp
  show ?thesis
    by (simp add: handleCommand_def Let_def split_beta k split: option.splits)
qed

lemma keeps_handleError: "keeps s (fst (handleError env io m cur s))"
  by (simp add: handleError_def Let_def keeps_exec)

lemma keeps_handler: "keeps s (fst (runControlMessageHandler env io m s))"
proof (cases "receiveIndices io m s")
  case None
  then show ?thesis by (simp add: runControlMessageHandler_def)
next
  case (Some s1)
  have k: "keeps s s1" using control_receiveIndices [OF Some] by (rule keeps_control)
  have "keeps s1 (fst (handleError env io m cur (fst (beginIteration c s1))))"
    "keeps s1 (fst (handleCommand env io m cur (fst (beginIteration c s1))))" for c cur
    using keeps_handleError keeps_handleCommand keeps_simps(7) by blast+
  moreover have "keeps s1 (fst (handleAsync io l v a f t m (fst (beginIteration c s1))))"
    if "\<And>s :: 'y rc_scheme. control (f s) = control s" for l v a f t c
    using control_handleAsync [OF that] by (simp add: keeps_control)
  ultimately have "keeps s1 (fst (runControlMessageHandler env io m s))"
    using Some by (simp add: runControlMessageHandler_def Let_def split_beta)
  then show ?thesis using k by (rule keeps_trans [rotated])
qed

end

section \<open>The constructed machine\<close>

text \<open>
  The specification: the documented graph (from, input, to and the function that does the work) and
  the state names, as finite maps.
\<close>

definition rc_graph :: "char \<times> string \<Rightarrow> (char \<times> rc_fn) option" where
  "rc_graph = map_of
     [((CHR ''X'', ''Startup''), (CHR ''I'', TransitionStartingUp)),
      ((CHR ''I'', ''Initialize''), (CHR ''H'', TransitionInitializing)),
      ((CHR ''H'', ''Configure''), (CHR ''C'', TransitionConfiguring)),
      ((CHR ''H'', ''Halt''), (CHR ''H'', TransitionHalting)),
      ((CHR ''H'', ''Shutdown''), (CHR ''X'', TransitionShuttingDown)),
      ((CHR ''C'', ''Start''), (CHR ''R'', TransitionStarting)),
      ((CHR ''C'', ''Halt''), (CHR ''H'', TransitionHalting)),
      ((CHR ''R'', ''Pause''), (CHR ''P'', TransitionPausing)),
      ((CHR ''R'', ''Stop''), (CHR ''C'', TransitionStopping)),
      ((CHR ''R'', ''Abort''), (CHR ''H'', TransitionHalting)),
      ((CHR ''P'', ''Resume''), (CHR ''R'', TransitionResuming)),
      ((CHR ''P'', ''Stop''), (CHR ''C'', TransitionStopping)),
      ((CHR ''P'', ''Abort''), (CHR ''H'', TransitionHalting)),
      ((CHR ''F'', ''Halt''), (CHR ''H'', TransitionHalting)),
      ((CHR ''F'', ''Shutdown''), (CHR ''X'', TransitionShuttingDown)),
      ((CHR ''F'', ''Error''), (CHR ''F'', EnteringError)),
      ((CHR ''F'', ''Fail''), (CHR ''F'', TransitionShuttingDown))]"

definition edge where
  "edge t = (let (from, to, input, nm, par, func) = t in ((from, input), (to, func)))"

lemma edge_simp: "edge (a, b, i, nm, par, func) = ((a, i), (b, func))"
  by (simp add: edge_def)

lemma rc_graph_transitions: "map_of (map edge rc_transitions) = rc_graph"
  by (rule ext) (auto simp: rc_graph_def edge_def rc_transitions_def FAILED_STATE_def)

definition rc_names :: "char \<Rightarrow> string option" where
  "rc_names =
     map_of ((FAILED_STATE, FAILED_STATE_NAME) # map (\<lambda>(st, name, _). (st, name)) rc_states)"

lemma fold_transitions_frame:
  "states (fold rc_addStateTransition ts s) = states s \<and>
   stateNames (fold rc_addStateTransition ts s) = stateNames s \<and>
   inTransition (fold rc_addStateTransition ts s) = inTransition s"
proof (induction ts arbitrary: s)
  case Nil
  then show ?case by simp
next
  case (Cons t ts)
  have "states (rc_addStateTransition t s) = states s \<and>
    stateNames (rc_addStateTransition t s) = stateNames s \<and>
    inTransition (rc_addStateTransition t s) = inTransition s"
    by (simp add: rc_addStateTransition_def addStateTransition_def addStateTransitionParameter_def
        toolbox_addStateTransition_def Let_def split_beta split: option.splits)
  then show ?case using Cons by simp
qed

lemma table_add:
  "get2 (stateTransitionTable (rc_addStateTransition (from, to, input, nm, par, func) s)) st tr =
     (if st = from \<and> tr = input then Some to else get2 (stateTransitionTable s) st tr)"
  by (simp add: rc_addStateTransition_def addStateTransition_def addStateTransitionParameter_def
      toolbox_addStateTransition_def get2_put2 Let_def split: option.splits)

lemma actions_add:
  "get2 (transitionActions (rc_addStateTransition (from, to, input, nm, par, func) s)) st tr =
     (if st = from \<and> tr = input then Some func else get2 (transitionActions s) st tr)"
  by (simp add: rc_addStateTransition_def addStateTransition_def addStateTransitionParameter_def
      toolbox_addStateTransition_def get2_put2 Let_def split: option.splits)

lemma fold_transitions_tables:
  "distinct (map (\<lambda>(from, to, input, _). (from, input)) ts) \<Longrightarrow>
   get2 (stateTransitionTable (fold rc_addStateTransition ts s)) st tr =
     (case map_of (map edge ts) (st, tr) of
        Some (to, _) \<Rightarrow> Some to | None \<Rightarrow> get2 (stateTransitionTable s) st tr) \<and>
   get2 (transitionActions (fold rc_addStateTransition ts s)) st tr =
     (case map_of (map edge ts) (st, tr) of
        Some (_, func) \<Rightarrow> Some func | None \<Rightarrow> get2 (transitionActions s) st tr)"
proof (induction ts arbitrary: s)
  case Nil
  then show ?case by simp
next
  case (Cons t ts)
  obtain a b i nm par func where t: "t = (a, b, i, nm, par, func)" by (cases t)
  have "map_of (map edge ts) (a, i) = None"
    using Cons.prems by (force simp: t edge_def map_of_eq_None_iff)
  then show ?case using Cons by (auto simp: t edge_simp table_add actions_add split: option.splits)
qed

lemma rc_transitions_distinct: "distinct (map (\<lambda>(from, to, input, _). (from, input)) rc_transitions)"
  by (simp add: rc_transitions_def FAILED_STATE_def)

text \<open>The constructor, step by step.\<close>

lemma rc_members_fields:
  "states (rc_members mem name ud) = [FAILED_STATE]"
  "stateNames (rc_members mem name ud) = [(FAILED_STATE, ''failed'')]"
  "stateTransitionTable (rc_members mem name ud) = []"
  "transitionActions (rc_members mem name ud) = []"
  "inTransition (rc_members mem name ud) = False"
  by (simp_all add: rc_members_def addStateName_def)

lemma addState_fields:
  "states (addState st nm f s) = (if st \<in> set (states s) then states s else states s @ [st])"
  "stateNames (addState st nm f s) = omap_put st nm (stateNames s)"
  "stateTransitionTable (addState st nm f s) = stateTransitionTable s"
  "transitionActions (addState st nm f s) = transitionActions s"
  "inTransition (addState st nm f t) = inTransition t"
  by (simp_all add: addState_def addStateName_def)

lemma rc_reset_fields:
  "states (fst (rc_reset rc_base_handlers io s)) = states s"
  "stateNames (fst (rc_reset rc_base_handlers io s)) = stateNames s"
  "stateTransitionTable (fst (rc_reset rc_base_handlers io s)) = stateTransitionTable s"
  "transitionActions (fst (rc_reset rc_base_handlers io s)) = transitionActions s"
  "inTransition (fst (rc_reset rc_base_handlers io s)) = inTransition s"
  "currentState (fst (rc_reset rc_base_handlers io s)) = CHR ''I''"
  by (simp_all add: rc_reset_def reset_def setInitialState_def callHook_def rc_base_handlers_def
      setErrorMessage_def Let_def split: option.splits)

lemmas construction = newRunControl_def Let_def rc_reset_fields fold_transitions_frame
  setStateName_def rc_states_def addState_fields rc_members_fields

lemma get2_Nil: "get2 [] st tr = None"
  by (simp add: get2_def)

lemma newRunControl_tables:
  "get2 (stateTransitionTable (newRunControl io mem name ud)) st tr = map_option fst (rc_graph (st, tr))"
  "get2 (transitionActions (newRunControl io mem name ud)) st tr = map_option snd (rc_graph (st, tr))"
proof -
  have "stateTransitionTable (fold (\<lambda>(st, nm, func). addState st nm func) ss s) = stateTransitionTable s \<and>
    transitionActions (fold (\<lambda>(st, nm, func). addState st nm func) ss s) = transitionActions s"
    for ss and s :: rc
    by (induction ss arbitrary: s) (auto simp: addState_fields)
  then show "get2 (stateTransitionTable (newRunControl io mem name ud)) st tr = map_option fst (rc_graph (st, tr))"
    "get2 (transitionActions (newRunControl io mem name ud)) st tr = map_option snd (rc_graph (st, tr))"
    by (simp_all add: newRunControl_def Let_def rc_reset_fields setStateName_def rc_members_fields
        fold_transitions_tables [OF rc_transitions_distinct] rc_graph_transitions get2_Nil
        split: option.splits)
qed

lemma newRunControl_states:
  "states (newRunControl io mem name ud) = FAILED_STATE # map fst rc_states"
  "currentState (newRunControl io mem name ud) = CHR ''I''"
  "inTransition (newRunControl io mem name ud) = False"
  by (simp_all add: construction FAILED_STATE_def)

lemma newRunControl_names: "omap_get (stateNames (newRunControl io mem name ud)) = rc_names"
  by (auto simp: construction rc_names_def FAILED_STATE_def fun_eq_iff)

text \<open>The invariant of run control: the documented machine, in a declared state, idle.\<close>

definition rc_ok :: "'z ots_fsm_scheme \<Rightarrow> bool" where
  "rc_ok s \<longleftrightarrow>
     machine_ok s \<and> states s = FAILED_STATE # map fst rc_states \<and> omap_get (stateNames s) = rc_names \<and>
     (\<forall>st tr. get2 (stateTransitionTable s) st tr = map_option fst (rc_graph (st, tr)) \<and>
              get2 (transitionActions s) st tr = map_option snd (rc_graph (st, tr)))"

lemma rc_graph_closed:
  "rc_graph (st, tr) = Some (to, f) \<Longrightarrow> to \<in> set (FAILED_STATE # map fst rc_states)"
  unfolding rc_graph_def by (drule map_of_SomeD) (auto simp: rc_states_def FAILED_STATE_def)

lemma rc_ok_new: "rc_ok (newRunControl io mem name ud)"
  using rc_graph_closed
  by (auto simp: rc_ok_def machine_ok_def machine_wf_def newRunControl_tables newRunControl_states
      newRunControl_names) (simp add: rc_states_def)

lemma rc_ok_keeps: "keeps s s' \<Longrightarrow> rc_ok s \<Longrightarrow> rc_ok s'"
  by (simp add: keeps_def rc_ok_def shape_def)

lemma rc_ok_state: "rc_ok s \<Longrightarrow> currentState s \<in> {CHR ''F'', CHR ''I'', CHR ''H'', CHR ''C'', CHR ''R'', CHR ''P'', CHR ''X''}"
  by (auto simp: rc_ok_def machine_ok_def machine_wf_def rc_states_def FAILED_STATE_def)

lemma rc_ok_name:
  assumes "rc_ok s"
  shows "getStateName s (CHR ''F'') = ''Failed''" "getStateName s (CHR ''I'') = ''Initial''"
    "getStateName s (CHR ''H'') = ''Halted''" "getStateName s (CHR ''C'') = ''Configured''"
    "getStateName s (CHR ''R'') = ''Running''" "getStateName s (CHR ''P'') = ''Paused''"
    "getStateName s (CHR ''X'') = ''Shutdown''"
  using assms
  by (simp_all add: rc_ok_def getStateName_def rc_names_def rc_states_def FAILED_STATE_def
      FAILED_STATE_NAME_def)

section \<open>Executing a command\<close>

text \<open>
  A message that starts a transition: its indices read as a first iteration and it is not answered
  as a repetition.
\<close>

definition starts :: "rc_io \<Rightarrow> soap_command \<Rightarrow> 'z rc_scheme \<Rightarrow> bool" where
  "starts io m s \<longleftrightarrow>
     (\<exists>s1. receiveIndices io m s = Some s1 \<and> isFirstIteration s1 \<and>
           \<not> (retransmitted io m \<and> isRepetition m s1))"

definition reports :: "string set" where
  "reports = {''Error'', ''Fail'', ''AsyncError'', ''AsyncPauseException'', ''AsyncStopException''}"

text \<open>The control part of the machine after a transition does not depend on anything else.\<close>

lemma first_begin:
  assumes "isFirstIteration s"
  shows "isFirstIteration (fst (beginIteration c s))"
    "snd (beginIteration c s) = getStateName s (currentState s)"
  using assms
  by (simp_all add: beginIteration_def stepProgress_def isFirstIteration_def isStandaloneSubsystem_def
      getCurrentStateName_def getStateName_def Let_def)

lemma first_clear [simp]:
  "isFirstIteration (clearFlags c cur s) = isFirstIteration s"
  "isFirstIteration (clearMessage c s) = isFirstIteration s"
  "isFirstIteration (s\<lparr>subsystemIterationWorkFlag := a, iterationWorkFlag := b, subIterationWorkFlag := d\<rparr>) =
     isFirstIteration s"
  by (simp_all add: clearFlags_def clearMessage_def setErrorMessage_def isFirstIteration_def
      isStandaloneSubsystem_def Let_def)

lemma first_exec:
  assumes "c = ''Configure'' \<Longrightarrow> omap_get (parameters m) ''ConfigurationAlias'' \<noteq> None"
  obtains t where "control t = control s"
    "firstTransition env io c m s =
       map_prod id flow_of (execTransition env (fsmHdr io) (timeNow io) c (Some m) t)"
proof (cases "c = ''Configure''")
  case True
  then obtain al where "omap_get (parameters m) ''ConfigurationAlias'' = Some al" using assms by auto
  then show thesis
    by (intro that [of "s\<lparr>lastIterationState := currentState s, lastIterationCommand := c,
          lastAttemptedConfigureGroup := al @ (case groupNameKey io m of None \<Rightarrow> [] | Some g \<Rightarrow> '' '' @ g)\<rparr>"])
       (simp_all add: firstTransition_def getValue_def True Let_def)
next
  case False
  then show thesis
    by (intro that [of "s\<lparr>lastIterationState := currentState s, lastIterationCommand := c\<rparr>"])
       (simp_all add: firstTransition_def Let_def)
qed

lemma starts_handler:
  assumes "starts io m s" "command m \<notin> reports"
  obtains t where "control t = control s" "isFirstIteration t"
    "runControlMessageHandler env io m s = handleCommand env io m (getStateName s (currentState s)) t"
proof -
  obtain s1 where s1: "receiveIndices io m s = Some s1" "isFirstIteration s1"
    "\<not> (retransmitted io m \<and> isRepetition m s1)"
    using assms(1) by (auto simp: starts_def)
  have c: "control s1 = control s" using control_receiveIndices [OF s1(1)] .
  then have "getStateName s1 (currentState s1) = getStateName s (currentState s)"
    by (simp add: getStateName_def frame_defs)
  then show thesis
    using that [of "fst (beginIteration (command m) s1)"] first_begin [OF s1(2)] c s1 assms(2)
    by (simp add: runControlMessageHandler_def reports_def split_beta)
qed

lemma normal_exec:
  assumes first: "isFirstIteration s" and d: "effectiveCommand c cur = d"
    and conf: "\<not> (d = ''Configure'' \<and> cur = ''Initial'')"
    and al: "d = ''Configure'' \<Longrightarrow> omap_get (parameters m) ''ConfigurationAlias'' \<noteq> None"
  obtains t msg where "control t = control s"
    "control (fst (normalTransition env io r c m cur s)) =
       control (fst (execTransition env (fsmHdr io) (timeNow io) d (Some msg) t))"
    "fst (snd (normalTransition env io r c m cur s)) = d"
    "case snd (execTransition env (fsmHdr io) (timeNow io) d (Some msg) t) of
       Returned _ \<Rightarrow> snd (snd (normalTransition env io r c m cur s)) \<noteq> None
     | Raised _ \<Rightarrow> snd (snd (normalTransition env io r c m cur s)) = Some (d @ FAILED_STATE_NAME)
     | Waiting \<Rightarrow> snd (snd (normalTransition env io r c m cur s)) = None"
proof -
  let ?m = "if d = c then m else \<lparr>command = d, parameters = []\<rparr>"
  let ?s = "(clearMessage c s)\<lparr>subsystemIterationWorkFlag := False, iterationWorkFlag := False,
              subIterationWorkFlag := False\<rparr>"
  have "d = ''Configure'' \<Longrightarrow> omap_get (parameters ?m) ''ConfigurationAlias'' \<noteq> None"
    using al d by (auto simp: effectiveCommand_def split: if_splits)
  then obtain t where t: "control t = control ?s"
    "firstTransition env io d ?m ?s =
       map_prod id flow_of (execTransition env (fsmHdr io) (timeNow io) d (Some ?m) t)"
    by (rule first_exec)
  obtain u q where e: "execTransition env (fsmHdr io) (timeNow io) d (Some ?m) t = (u, q)"
    by fastforce
  have "normalTransition env io r c m cur s =
     (case flow_of q of
        Throw x \<Rightarrow> (setErrorMessage (failureText io d x u) True u, d, Some (d @ FAILED_STATE_NAME))
      | Wait \<Rightarrow> (u, d, None)
      | Proceed \<Rightarrow> (let s4 = updateConfiguredGroup io d ?m u in (s4, d, Some (workResult d r s4))))"
    using first conf t(2)
    by (simp only: normalTransition_def d e preInitialize_def Let_def split_beta if_False fst_conv snd_conv
        flow.case first_clear if_True map_prod_simp id_apply)
  then show thesis
    by (intro that [of t ?m]) (cases q; simp add: t(1) e Let_def)+
qed

text \<open>The command that is executed for a message, and when the handler executes one at all.\<close>

definition executes :: "rc_io \<Rightarrow> soap_command \<Rightarrow> string \<Rightarrow> 'z rc_scheme \<Rightarrow> bool" where
  "executes io m d s \<longleftrightarrow>
     (let cur = getStateName s (currentState s) in
      starts io m s \<and> command m \<notin> reports \<and> effectiveCommand (command m) cur = d \<and>
      \<not> (command m = ''Initialize'' \<and> (cur = ''Halted'' \<or> cur = FAILED_STATE_NAME)) \<and>
      \<not> (d = ''Configure'' \<and> cur = ''Initial'') \<and>
      (d = ''Configure'' \<longrightarrow> omap_get (parameters m) ''ConfigurationAlias'' \<noteq> None))"

abbreviation rc_exec ::
  "'z rc_scheme handlers \<Rightarrow> rc_io \<Rightarrow> string \<Rightarrow> soap_command \<Rightarrow> 'z rc_scheme \<Rightarrow> 'z rc_scheme \<times> exec_outcome" where
  "rc_exec env io d m s \<equiv> execTransition env (fsmHdr io) (timeNow io) d (Some m) s"

lemma handle_exec:
  assumes ex: "executes io m d s"
  obtains t msg where "control t = control s"
    "control (fst (runControlMessageHandler env io m s)) = control (fst (rc_exec env io d msg t))"
    "(\<exists>x. snd (rc_exec env io d msg t) = Raised x) \<or>
     getCurrentStateName (fst (rc_exec env io d msg t)) = FAILED_STATE_NAME \<and>
     snd (rc_exec env io d msg t) \<noteq> Waiting \<longrightarrow>
     snd (runControlMessageHandler env io m s) = Reply (d @ FAILED_STATE_NAME)"
    "snd (rc_exec env io d msg t) \<noteq> Waiting \<longrightarrow> (\<exists>r. snd (runControlMessageHandler env io m s) = Reply r)"
proof -
  let ?cur = "getStateName s (currentState s)"
  have assms: "starts io m s" "command m \<notin> reports" "?cur = ?cur"
    "effectiveCommand (command m) ?cur = d"
    "\<not> (command m = ''Initialize'' \<and> (?cur = ''Halted'' \<or> ?cur = FAILED_STATE_NAME))"
    "\<not> (d = ''Configure'' \<and> ?cur = ''Initial'')"
    "d = ''Configure'' \<Longrightarrow> omap_get (parameters m) ''ConfigurationAlias'' \<noteq> None"
    using ex unfolding executes_def Let_def by blast+
  obtain t0 where t0: "control t0 = control s" "isFirstIteration t0"
    "runControlMessageHandler env io m s = handleCommand env io m ?cur t0"
    using starts_handler [OF assms(1,2)] by metis
  have first: "isFirstIteration (clearFlags (command m) ?cur t0)" using t0(2) by simp
  let ?n = "normalTransition env io (command m @ ''Done'') (command m) m ?cur (clearFlags (command m) ?cur t0)"
  obtain t msg where t: "control t = control (clearFlags (command m) ?cur t0)"
    "control (fst ?n) = control (fst (rc_exec env io d msg t))"
    "fst (snd ?n) = d"
    "case snd (rc_exec env io d msg t) of
       Returned _ \<Rightarrow> snd (snd ?n) \<noteq> None
     | Raised _ \<Rightarrow> snd (snd ?n) = Some (d @ FAILED_STATE_NAME)
     | Waiting \<Rightarrow> snd (snd ?n) = None"
    by (rule normal_exec [OF first assms(4,6,7), where r = "command m @ ''Done''"])
  have name: "getCurrentStateName (fst ?n) =
      getCurrentStateName (fst (rc_exec env io d msg t))"
    using t(2) by (rule name_control)
  have h: "runControlMessageHandler env io m s =
     (case snd (snd ?n) of None \<Rightarrow> (fst ?n, Blocked) | Some result \<Rightarrow> finishIteration io d result (fst ?n))"
    using t0(3) t(3) assms(5) by (auto simp: handleCommand_def Let_def split_beta split: option.splits)
  have fin: "snd (finishIteration io d r u) = Reply (d @ FAILED_STATE_NAME)"
    if "r = d @ FAILED_STATE_NAME \<or> getCurrentStateName u = FAILED_STATE_NAME" for r and u :: "'a rc_scheme"
    using that by (auto simp: finishIteration_def Let_def)
  show thesis
  proof (rule that [of t msg])
    show "control t = control s" using t(1) t0(1) by simp
    show "control (fst (runControlMessageHandler env io m s)) =
        control (fst (rc_exec env io d msg t))"
      using t(2) by (simp add: h split: option.splits)
    show "(\<exists>x. snd (rc_exec env io d msg t) = Raised x) \<or>
      getCurrentStateName (fst (rc_exec env io d msg t)) = FAILED_STATE_NAME \<and>
      snd (rc_exec env io d msg t) \<noteq> Waiting \<longrightarrow>
      snd (runControlMessageHandler env io m s) = Reply (d @ FAILED_STATE_NAME)"
      using t(4) fin name by (auto simp: h split: exec_outcome.splits option.splits)
    show "snd (rc_exec env io d msg t) \<noteq> Waiting \<longrightarrow> (\<exists>r. snd (runControlMessageHandler env io m s) = Reply r)"
      using t(4) finishIteration_reply by (auto simp: h split: exec_outcome.splits option.splits)
  qed
qed

lemma rc_ok_control: "control t = control s \<Longrightarrow> rc_ok t = rc_ok s"
  using machine_ok_control [of t s] by (auto simp: rc_ok_def frame_defs)

lemma rc_ok_shape:
  "\<lbrakk>shape t = shape s; rc_ok s; \<not> inTransition t; currentState t \<in> set (states s)\<rbrakk> \<Longrightarrow> rc_ok t"
  using rc_graph_closed by (simp add: rc_ok_def machine_ok_def machine_wf_def shape_def) blast

lemma rc_graph_fail: "rc_graph (st, tr) = Some x \<Longrightarrow> tr \<noteq> ''fail''"
  unfolding rc_graph_def by (drule map_of_SomeD) auto

context rc_handlers
begin

lemma command_effect:
  assumes ok: "rc_ok s" and ex: "executes io m d s"
    and edge: "rc_graph (currentState s, d) = Some (to, f)"
    and good: "\<And>t. (snd (env f (Some (Event d)) t) = None) = good"
  shows "currentState (fst (runControlMessageHandler env io m s)) = (if good then to else FAILED_STATE)"
    and "\<not> good \<Longrightarrow> snd (runControlMessageHandler env io m s) = Reply (d @ FAILED_STATE_NAME)"
proof -
  obtain t msg where t: "control t = control s"
    "control (fst (runControlMessageHandler env io m s)) =
       control (fst (rc_exec env io d msg t))"
    "(\<exists>x. snd (rc_exec env io d msg t) = Raised x) \<or>
     getCurrentStateName (fst (rc_exec env io d msg t)) = FAILED_STATE_NAME \<and>
     snd (rc_exec env io d msg t) \<noteq> Waiting \<longrightarrow>
     snd (runControlMessageHandler env io m s) = Reply (d @ FAILED_STATE_NAME)"
    "snd (rc_exec env io d msg t) \<noteq> Waiting \<longrightarrow> (\<exists>r. snd (runControlMessageHandler env io m s) = Reply r)"
    by (rule handle_exec [OF ex, where env = env])
  let ?x = "rc_exec env io d msg t"
  have okt: "rc_ok t" and idle: "\<not> inTransition t"
    using rc_ok_control [OF t(1)] ok by (auto simp: rc_ok_def machine_ok_def)
  have tab: "get2 (stateTransitionTable t) (currentState t) d = Some to"
    "get2 (transitionActions t) (currentState t) d = Some f"
    using okt edge t(1) by (auto simp: rc_ok_def control_def)
  have "(handlerResult env d (entered d (Some msg) t) = None) = good"
    using good tab(2) by (simp add: handlerResult_def entered_def callHook_def)
  then have st: "currentState (fst ?x) = (if good then to else FAILED_STATE)"
    using execTransition_target(1) [OF idle rc_graph_fail [OF edge] tab(1)] by simp
  then show "currentState (fst (runControlMessageHandler env io m s)) = (if good then to else FAILED_STATE)"
    using t(2) by (simp add: control_def)
  assume "\<not> good"
  then have "getCurrentStateName (fst ?x) = FAILED_STATE_NAME"
    using st rc_ok_name(1) [OF rc_ok_keeps [OF keeps_exec okt]]
    by (simp add: getCurrentStateName_def FAILED_STATE_def FAILED_STATE_NAME_def)
  then show "snd (runControlMessageHandler env io m s) = Reply (d @ FAILED_STATE_NAME)"
    using t(3) execTransition_returns [OF idle] by simp
qed

lemma command_reply:
  assumes ok: "rc_ok s" and ex: "executes io m d s"
  shows "\<exists>r. snd (runControlMessageHandler env io m s) = Reply r"
proof -
  obtain t msg where t: "control t = control s"
    "snd (rc_exec env io d msg t) \<noteq> Waiting \<longrightarrow> (\<exists>r. snd (runControlMessageHandler env io m s) = Reply r)"
    by (rule handle_exec [OF ex, where env = env])
  have "\<not> inTransition t"
    using rc_ok_control [OF t(1)] ok by (auto simp: rc_ok_def machine_ok_def)
  then show ?thesis using t(2) execTransition_returns by blast
qed

lemma command_refused:
  assumes ok: "rc_ok s" and ex: "executes io m d s"
    and no: "rc_graph (currentState s, d) = None" "d \<noteq> ''fail''"
  shows "control (fst (runControlMessageHandler env io m s)) = control s"
    and "snd (runControlMessageHandler env io m s) = Reply (d @ FAILED_STATE_NAME)"
proof -
  obtain t msg where t: "control t = control s"
    "control (fst (runControlMessageHandler env io m s)) =
       control (fst (rc_exec env io d msg t))"
    "(\<exists>x. snd (rc_exec env io d msg t) = Raised x) \<or>
     getCurrentStateName (fst (rc_exec env io d msg t)) = FAILED_STATE_NAME \<and>
     snd (rc_exec env io d msg t) \<noteq> Waiting \<longrightarrow>
     snd (runControlMessageHandler env io m s) = Reply (d @ FAILED_STATE_NAME)"
    "snd (rc_exec env io d msg t) \<noteq> Waiting \<longrightarrow> (\<exists>r. snd (runControlMessageHandler env io m s) = Reply r)"
    by (rule handle_exec [OF ex, where env = env])
  let ?x = "rc_exec env io d msg t"
  have "\<not> inTransition t" "get2 (stateTransitionTable t) (currentState t) d = None"
    using rc_ok_control [OF t(1)] ok no(1) t(1) by (auto simp: rc_ok_def machine_ok_def control_def)
  then have "control (fst ?x) = control t \<and> (\<exists>x. snd ?x = Raised x)"
    using no(2) getTransitions_get2 [of t "currentState t" d]
    by (auto simp: execTransition_def Let_def frame_defs getTransitions_def)
  then show "control (fst (runControlMessageHandler env io m s)) = control s"
    "snd (runControlMessageHandler env io m s) = Reply (d @ FAILED_STATE_NAME)"
    using t by auto
qed

end

section \<open>Concrete handlers\<close>

text \<open>The base class's own handlers, and handlers that do nothing but throw as scripted.\<close>

interpretation rc_base: rc_handlers rc_base_handlers
  by unfold_locales (simp_all add: rc_base_handlers_def)

definition scripted_handlers :: "(rc_fn \<Rightarrow> exn option) \<Rightarrow> 'z rc_scheme handlers" where
  "scripted_handlers script f e s = (s, script f)"

interpretation rc_scripted: rc_handlers "scripted_handlers script" for script
  by unfold_locales (simp_all add: scripted_handlers_def)

definition blank_io :: rc_io where
  "blank_io = \<lparr>fsmHdr = (\<lambda>_. []), rcHdr = (\<lambda>_. []), parHdr = [], timeNow = 1, canWrite = True\<rparr>"

definition blank_memory :: rc where
  "blank_memory =
     \<lparr>currentState = CHR 0x00, initialState = CHR 0x00, states = [], stateNames = [],
      stateTransitionTable = [], stateActions = [], transitionActions = [], failedAction = None,
      failedChanged = None, stateEntranceTime = 0, inTransition = False, provenanceState = CHR 0x00,
      currentTransition = [], stateTransitionNameTable = [], stateTransitionParameterTable = [],
      theMessage = None, theErrorMessage = [], stateMachineName = [],
      theProgressBar = newProgressBar [], stepFiles = [], asyncFailureReceived = False,
      asyncPauseExceptionReceived = False, asyncStopExceptionReceived = False,
      subsystemIterationIndex = 0, iterationIndex = 0, subIterationIndex = 0,
      subsystemIterationWorkFlag = False, iterationWorkFlag = False, subIterationWorkFlag = False,
      minReadyForEventGenerationStartIteration = 0, lastIterationState = CHR 0x00,
      lastIterationCommand = [], lastAttemptedConfigureGroup = [], configuredGroup = [],
      lastIterationResult = [], lastSubsystemIterationIndex = 0, lastIterationIndex = 0,
      lastSubIterationIndex = 0, stateTransitionFunctionTable = [], detachedThreads = []\<rparr>"

definition fresh :: rc where
  "fresh = newRunControl blank_io blank_memory ''FE'' ''/data''"

definition plain :: "string \<Rightarrow> soap_command" where
  "plain c = \<lparr>command = c, parameters = []\<rparr>"

lemma fresh_ok: "rc_ok fresh" and fresh_state: "currentState fresh = CHR ''I''"
  by (simp_all add: fresh_def rc_ok_new newRunControl_states)

lemma fresh_async: "\<not> asyncFailureReceived fresh" "detachedThreads fresh = []"
proof -
  have "detachedThreads (fold rc_addStateTransition ts s) = detachedThreads s" for ts and s :: rc
    by (induction ts arbitrary: s)
       (auto simp: rc_addStateTransition_def addStateTransition_def addStateTransitionParameter_def
          toolbox_addStateTransition_def Let_def split: option.splits)
  moreover have "detachedThreads (fold (\<lambda>(st, nm, func). addState st nm func) ss s) = detachedThreads s"
    for ss and s :: rc
    by (induction ss arbitrary: s) (auto simp: addState_def addStateName_def Let_def)
  ultimately show "\<not> asyncFailureReceived fresh" "detachedThreads fresh = []"
    by (simp_all add: fresh_def newRunControl_def rc_reset_def reset_def setInitialState_def callHook_def
        rc_base_handlers_def setErrorMessage_def setStateName_def rc_members_def addStateName_def Let_def
        split: option.splits)
qed

text \<open>A message without parameters starts a transition.\<close>

lemma plain_starts: "starts io (plain c) s"
  by (simp add: starts_def receiveIndices_def readIndex_def getValue_def plain_def isFirstIteration_def
      retransmitted_def)

section \<open>Reachable states\<close>

text \<open>
  Everything that happens to a supervisor's run control: construction, messages, its detached
  threads, asynchronous errors of its front ends, resets.
\<close>

inductive reachable :: "rc handlers \<Rightarrow> rc \<Rightarrow> bool" for env where
  construct: "reachable env (newRunControl io mem name ud)"
| message: "reachable env s \<Longrightarrow> reachable env (fst (runControlMessageHandler env io m s))"
| thread: "reachable env s \<Longrightarrow> reachable env (runThread env io i s)"
| pause: "reachable env s \<Longrightarrow> reachable env (setAsyncPauseExceptionMessage e s)"
| stop: "reachable env s \<Longrightarrow> reachable env (setAsyncStopExceptionMessage e s)"
| again: "reachable env s \<Longrightarrow> reachable env (fst (rc_reset env io s))"

lemma control_async [simp]:
  "control (setAsyncPauseExceptionMessage e s) = control s"
  "control (setAsyncStopExceptionMessage e s) = control s"
  by (simp_all add: setAsyncPauseExceptionMessage_def setAsyncStopExceptionMessage_def)

context rc_handlers
begin

lemma keeps_thread: "keeps s (runThread env io i s)"
proof -
  have "keeps s (fst (execTransition env h n tr msg (s\<lparr>detachedThreads := ts\<rparr>)))" for h n tr msg ts
    using keeps_left [OF control_fields(2)] keeps_exec by blast
  then show ?thesis by (simp add: runThread_def Let_def split_beta)
qed

lemma reset_ok:
  assumes "rc_ok s"
  shows "rc_ok (fst (rc_reset env io s))"
proof -
  have "shape (fst (rc_reset env io s)) = shape s \<and> inTransition (fst (rc_reset env io s)) = inTransition s
    \<and> currentState (fst (rc_reset env io s)) = CHR ''I''"
    by (simp add: rc_reset_def reset_def setInitialState_def setErrorMessage_def callHook_frame shape_def
        Let_def split_beta split: option.splits)
  moreover have "\<not> inTransition s" "CHR ''I'' \<in> set (states s)"
    using assms by (simp_all add: rc_ok_def machine_ok_def rc_states_def)
  ultimately show ?thesis using assms rc_ok_shape [of "fst (rc_reset env io s)" s] by simp
qed

end

lemma reachable_rc_ok:
  assumes "rc_handlers env" "reachable env s"
  shows "rc_ok s"
  using assms(2)
proof induction
  case (message s io m)
  then show ?case using rc_ok_keeps [OF rc_handlers.keeps_handler [OF assms(1)]] by blast
next
  case (thread s io i)
  then show ?case using rc_ok_keeps [OF rc_handlers.keeps_thread [OF assms(1)]] by blast
next
  case (again s io)
  then show ?case using rc_handlers.reset_ok [OF assms(1)] by blast
next
  case (pause s e)
  then show ?case using rc_ok_control [OF control_async(1)] by blast
next
  case (stop s e)
  then show ?case using rc_ok_control [OF control_async(2)] by blast
qed (rule rc_ok_new)

lemma executes_plain:
  "\<lbrakk>c \<notin> reports; effectiveCommand c (getStateName s (currentState s)) = d; c \<noteq> ''Initialize''; d \<noteq> ''Configure''\<rbrakk>
   \<Longrightarrow> executes io (plain c) d s"
  using plain_starts [of io c s] by (auto simp: executes_def plain_def Let_def)

text \<open>Handlers that never throw.\<close>

definition quiet :: "'z rc_scheme handlers \<Rightarrow> bool" where
  "quiet env \<longleftrightarrow> (\<forall>f e s. snd (env f e s) = None)"

context rc_handlers
begin

lemma quiet_move:
  assumes "rc_ok s" "quiet env" "executes io m d s" "rc_graph (currentState s, d) = Some (to, f)"
  shows "currentState (fst (runControlMessageHandler env io m s)) = to"
  using command_effect(1) [OF assms(1,3,4), of True] assms(2) by (simp add: quiet_def)

lemma halt_state:
  assumes ok: "rc_ok s" and q: "quiet env" and x: "currentState s \<noteq> CHR ''X''"
  shows "currentState (fst (runControlMessageHandler env io (plain ''Halt'') s)) = CHR ''H''"
proof -
  let ?d = "effectiveCommand ''Halt'' (getStateName s (currentState s))"
  have d: "?d \<noteq> ''Configure''" by (simp add: effectiveCommand_def)
  have "\<exists>f. rc_graph (currentState s, ?d) = Some (CHR ''H'', f)"
    using rc_ok_state [OF ok] x rc_ok_name [OF ok] by (auto simp: effectiveCommand_def rc_graph_def)
  then show ?thesis
    using quiet_move [OF ok q executes_plain] d by (auto simp: reports_def)
qed

lemma startup_state:
  assumes ok: "rc_ok s" and q: "quiet env" and x: "currentState s = CHR ''X''"
  shows "currentState (fst (runControlMessageHandler env io (plain ''Startup'') s)) = CHR ''I''"
  using quiet_move [OF ok q executes_plain, of "''Startup''" "''Startup''"] x
  by (simp add: effectiveCommand_def reports_def rc_graph_def)

end

section \<open>Repeated commands\<close>

lemma rc_frame_simps [simp]:
  "rc_frame (setErrorMessage e a s) = rc_frame s"
  "rc_frame (stepProgress s) = rc_frame s"
  "rc_frame (completeProgress io s) = rc_frame s"
  "rc_frame (clearFlags c cur s) = rc_frame s"
  "rc_frame (clearMessage c s) = rc_frame s"
  "rc_frame (updateConfiguredGroup io c m s) = rc_frame s"
  "rc_frame (fst (finishIteration io c r s)) = rc_frame s"
  by (simp_all add: rc_frame_def setErrorMessage_def stepProgress_def completeProgress_def clearFlags_def
      clearMessage_def updateConfiguredGroup_def finishIteration_def Let_def split_beta)

text \<open>A state whose last command was \<open>c\<close>, with the given indices.\<close>

definition remembers :: "string \<Rightarrow> 'z rc_scheme \<Rightarrow> 'y rc_scheme \<Rightarrow> bool" where
  "remembers c s t \<longleftrightarrow> rc_frame t =
     (subsystemIterationIndex s, iterationIndex s, subIterationIndex s,
      minReadyForEventGenerationStartIteration s, c,
      subsystemIterationIndex s, iterationIndex s, subIterationIndex s)"

context rc_handlers
begin

lemma frame_callHook: "rc_frame (fst (callHook env f e s)) = rc_frame s"
  by (cases f) (simp_all add: callHook_def env_rc)

lemma frame_fireEvent: "rc_frame (fst (fireEvent env e s)) = rc_frame s"
proof -
  have c: "rc_frame (fst (callHook env f e' (u\<lparr>currentState := c\<rparr>))) = rc_frame u" for f e' u c
    using frame_callHook [of f e' "u\<lparr>currentState := c\<rparr>"] by (simp add: rc_frame_def)
  then have "rc_frame (fst (enterFailedState env w a b u)) = rc_frame u" for w a b u
    by (simp add: enterFailedState_def Let_def split_beta frame_callHook split: option.splits)
  then show ?thesis
    using c by (simp add: fireEvent_def Let_def split_beta frame_callHook split: option.splits)
qed

lemma frame_exec: "rc_frame (fst (execTransition env h n tr msg s)) = rc_frame s"
proof -
  have u: "rc_frame (u\<lparr>inTransition := b\<rparr>) = rc_frame u" "rc_frame (u\<lparr>stateEntranceTime := i\<rparr>) = rc_frame u"
    "rc_frame (u\<lparr>provenanceState := p\<rparr>) = rc_frame u" "rc_frame (u\<lparr>theMessage := m\<rparr>) = rc_frame u"
    "rc_frame (u\<lparr>currentTransition := t\<rparr>) = rc_frame u"
    for u :: "'y rc_scheme" and b i p m t
    by (simp_all add: rc_frame_def)
  show ?thesis
    by (simp add: execTransition_def Let_def split_beta frame_fireEvent u
        split: option.splits exn.splits list.splits)
qed

lemma frame_first: "rc_frame (fst (firstTransition env io c m s)) = rc_frame (s\<lparr>lastIterationCommand := c\<rparr>)"
  by (simp add: firstTransition_def frame_exec Let_def split: sum.splits) (simp add: rc_frame_def)

lemma frame_normal:
  assumes "isFirstIteration s" "effectiveCommand c cur = d" "\<not> (d = ''Configure'' \<and> cur = ''Initial'')"
  shows "rc_frame (fst (normalTransition env io r c m cur s)) = rc_frame (s\<lparr>lastIterationCommand := d\<rparr>)"
proof -
  have "rc_frame ((clearMessage c s)\<lparr>subsystemIterationWorkFlag := False, iterationWorkFlag := False,
      subIterationWorkFlag := False, lastIterationCommand := e\<rparr>) = rc_frame (s\<lparr>lastIterationCommand := e\<rparr>)" for e
    by (simp add: rc_frame_def clearMessage_def setErrorMessage_def)
  then have u: "rc_frame (fst (firstTransition env io e n ((clearMessage c s)
      \<lparr>subsystemIterationWorkFlag := False, iterationWorkFlag := False, subIterationWorkFlag := False\<rparr>))) =
      rc_frame (s\<lparr>lastIterationCommand := e\<rparr>)" for n e
    by (simp add: frame_first)
  show ?thesis
    using assms(1,3)
    by (simp only: normalTransition_def assms(2) preInitialize_def Let_def split_beta if_False fst_conv
        snd_conv flow.case first_clear if_True)
       (simp add: u split: flow.splits)
qed

lemma frame_handler:
  assumes ex: "executes io m d s" and s1: "receiveIndices io m s = Some s1"
    and h: "runControlMessageHandler env io m s = (t, Reply r)"
  shows "remembers d s1 t \<and> lastIterationResult t = r"
proof -
  let ?cur = "getStateName s (currentState s)" and ?b = "fst (beginIteration (command m) s1)"
  let ?n = "normalTransition env io (command m @ ''Done'') (command m) m ?cur (clearFlags (command m) ?cur ?b)"
  have e: "starts io m s" "command m \<notin> reports" "effectiveCommand (command m) ?cur = d"
    "\<not> (command m = ''Initialize'' \<and> (?cur = ''Halted'' \<or> ?cur = FAILED_STATE_NAME))"
    "\<not> (d = ''Configure'' \<and> ?cur = ''Initial'')"
    using ex unfolding executes_def Let_def by blast+
  have f: "isFirstIteration s1" "\<not> (retransmitted io m \<and> isRepetition m s1)"
    using e(1) s1 by (auto simp: starts_def)
  have cur: "snd (beginIteration (command m) s1) = ?cur"
    using first_begin(2) [OF f(1)] name_control [OF control_receiveIndices [OF s1]]
    by (simp add: getCurrentStateName_def)
  have "runControlMessageHandler env io m s = handleCommand env io m ?cur ?b"
    using s1 f(2) e(2) cur by (auto simp: runControlMessageHandler_def reports_def split_beta)
  also have "\<dots> = (case snd (snd ?n) of None \<Rightarrow> (fst ?n, Blocked)
      | Some result \<Rightarrow> finishIteration io (fst (snd ?n)) result (fst ?n))"
    using e(4) by (auto simp: handleCommand_def Let_def split_beta split: option.splits)
  finally obtain q where q: "finishIteration io (fst (snd ?n)) q (fst ?n) = (t, Reply r)"
    using h by (auto split: option.splits)
  then have "rc_frame t = rc_frame (fst ?n)" "lastIterationResult t = r"
    using rc_frame_simps(7) [of io "fst (snd ?n)" q "fst ?n"]
    by (simp_all add: finishIteration_def Let_def) auto
  moreover have "rc_frame (fst ?n) = rc_frame ((clearFlags (command m) ?cur ?b)\<lparr>lastIterationCommand := d\<rparr>)"
    using first_begin(1) [OF f(1)] by (intro frame_normal [OF _ e(3,5)]) simp
  moreover have "remembers d s1 ((clearFlags c cur ?b)\<lparr>lastIterationCommand := d\<rparr>)" for c cur
    by (simp add: remembers_def rc_frame_def clearFlags_def setErrorMessage_def beginIteration_def
        stepProgress_def Let_def)
  ultimately show ?thesis by (simp add: remembers_def)
qed

end

text \<open>The same message, marked as a retransmission.\<close>

definition resend :: "soap_command \<Rightarrow> soap_command" where
  "resend m = m\<lparr>parameters := omap_put ''retransmission'' ''1'' (parameters m)\<rparr>"

lemma resend_indices:
  assumes "receiveIndices io m s = Some s1" "remembers c s1 t"
  shows "receiveIndices io (resend m) t = Some t"
proof -
  have "readIndex io (resend m) n = readIndex io m n" if "n \<noteq> ''retransmission''" for n
    using that by (simp add: readIndex_def getValue_def resend_def)
  then have "receiveIndices io (resend m) t = receiveIndices io m t" by (simp add: receiveIndices_def)
  also have "\<dots> = Some t"
    using assms
    by (auto simp: receiveIndices_def remembers_def rc_frame_def split: option.splits intro!: rc.equality)
  finally show ?thesis .
qed

section \<open>The error command\<close>

lemma error_transition:
  assumes "rc_ok s" "currentState s \<in> {CHR ''C'', CHR ''R'', CHR ''P''}"
  obtains tr f where "tr \<noteq> ''fail''" "rc_graph (currentState s, tr) = Some (CHR ''H'', f)"
    "handleError env io (plain ''Error'') (getStateName s (currentState s)) b =
       (completeProgress io (fst (rc_exec env io tr (plain ''Error'') b)), Reply ''ErrorDone'')"
proof (cases "currentState s = CHR ''C''")
  case True
  then show thesis
    using rc_ok_name [OF assms(1)]
    by (intro that [of "''Halt''" TransitionHalting]) (simp_all add: rc_graph_def handleError_def plain_def)
next
  case False
  then show thesis
    using rc_ok_name [OF assms(1)] assms(2)
    by (intro that [of "''Abort''" TransitionHalting])
       (auto simp: rc_graph_def handleError_def plain_def)
qed

text \<open>A configured machine.\<close>

definition configure :: soap_command where
  "configure = \<lparr>command = ''Configure'', parameters = [(''ConfigurationAlias'', ''Physics'')]\<rparr>"

definition halted :: rc where
  "halted = fst (runControlMessageHandler rc_base_handlers blank_io (plain ''Halt'') fresh)"

definition configured :: rc where
  "configured = fst (runControlMessageHandler rc_base_handlers blank_io configure halted)"

lemma base_quiet: "quiet rc_base_handlers"
  by (simp add: quiet_def rc_base_handlers_def)

lemma halted_ok: "rc_ok halted" "currentState halted = CHR ''H''"
  unfolding halted_def using fresh_ok
  by (auto intro: rc_ok_keeps [OF rc_base.keeps_handler] rc_base.halt_state base_quiet simp: fresh_state)

lemma configure_executes: "executes blank_io configure ''Configure'' halted"
  using rc_ok_name(3) [OF halted_ok(1)]
  by (simp add: executes_def starts_def configure_def receiveIndices_def readIndex_def getValue_def
      isFirstIteration_def retransmitted_def reports_def effectiveCommand_def halted_ok(2))

lemma configured_ok: "rc_ok configured" "currentState configured = CHR ''C''"
  unfolding configured_def
  using rc_ok_keeps [OF rc_base.keeps_handler halted_ok(1)]
    rc_base.quiet_move [OF halted_ok(1) base_quiet configure_executes, of "CHR ''C''" TransitionConfiguring]
  by (simp_all add: halted_ok(2) rc_graph_def)

section \<open>Asynchronous errors\<close>

definition asyncError :: "string \<Rightarrow> soap_command" where
  "asyncError e = \<lparr>command = ''AsyncError'', parameters = [(''ErrorMessage'', e)]\<rparr>"

lemma asyncError_step:
  assumes t_def: "t = fst (runControlMessageHandler env io (asyncError e) s)"
  shows "snd (runControlMessageHandler env io (asyncError e) s) = Reply ''AsyncErrorDone''"
    and "asyncFailureReceived t"
    and "detachedThreads t = detachedThreads s @ (if asyncFailureReceived s then [] else [''fail''])"
    and "control t = control s"
proof -
  obtain s1 where s1: "receiveIndices io (asyncError e) s = Some s1"
    "asyncFailureReceived s1 = asyncFailureReceived s" "detachedThreads s1 = detachedThreads s"
    by (simp add: receiveIndices_def readIndex_def getValue_def asyncError_def)
  let ?b = "fst (beginIteration ''AsyncError'' s1)"
  have b: "asyncFailureReceived ?b = asyncFailureReceived s" "detachedThreads ?b = detachedThreads s"
    "control ?b = control s"
    using s1 control_receiveIndices [OF s1(1)]
    by (simp_all add: beginIteration_def stepProgress_def Let_def)
       (simp_all add: frame_defs)
  have h: "runControlMessageHandler env io (asyncError e) s =
      handleAsync io 500 ''Error'' (asyncFailureReceived ?b) (\<lambda>s. s\<lparr>asyncFailureReceived := True\<rparr>) ''fail''
        (asyncError e) ?b"
    using s1(1) by (simp add: runControlMessageHandler_def split_beta retransmitted_def getValue_def asyncError_def)
  have v: "getValue (parHdr io) (parameters (asyncError e)) ''ErrorMessage'' = Inr e"
    and cmd: "command (asyncError e) = ''AsyncError''"
    by (simp_all add: getValue_def asyncError_def)
  show "snd (runControlMessageHandler env io (asyncError e) s) = Reply ''AsyncErrorDone''"
    "asyncFailureReceived t"
    "detachedThreads t = detachedThreads s @ (if asyncFailureReceived s then [] else [''fail''])"
    using b by (simp_all add: t_def h handleAsync_def v setErrorMessage_def cmd Let_def)
  show "control t = control s"
    using b(3) by (simp add: t_def h control_handleAsync)
qed

lemma asyncErrors:
  "control (fold (\<lambda>e s. fst (runControlMessageHandler env io (asyncError e) s)) es s) = control s \<and>
   detachedThreads (fold (\<lambda>e s. fst (runControlMessageHandler env io (asyncError e) s)) es s) =
     detachedThreads s @ (if es = [] \<or> asyncFailureReceived s then [] else [''fail''])"
  by (induction es arbitrary: s) (simp_all add: asyncError_step [OF refl])

lemma row_edge:
  assumes "rc_ok s" "getTransitions s (currentState s) = (input, to) # rest"
  shows "\<exists>f. rc_graph (currentState s, input) = Some (to, f) \<and>
    get2 (transitionActions s) (currentState s) input = Some f"
proof -
  have "get2 (stateTransitionTable s) (currentState s) input = Some to"
    using assms(2) getTransitions_get2 [of s "currentState s" input] by simp
  then show ?thesis using assms(1) by (auto simp: rc_ok_def)
qed

lemma row_nonempty:
  assumes "rc_ok s"
  shows "getTransitions s (currentState s) \<noteq> []"
proof -
  let ?tr = "if currentState s = CHR ''I'' then ''Initialize''
             else if currentState s = CHR ''X'' then ''Startup''
             else if currentState s \<in> {CHR ''R'', CHR ''P''} then ''Stop'' else ''Halt''"
  have "rc_graph (currentState s, ?tr) \<noteq> None"
    using rc_ok_state [OF assms] by (elim insertE) (simp_all add: rc_graph_def)
  then obtain tr to where "omap_get (getTransitions s (currentState s)) tr = Some to"
    using assms by (auto simp: rc_ok_def getTransitions_get2)
  then show ?thesis by auto
qed

context rc_handlers
begin

lemma fail_thread:
  assumes ok: "rc_ok s" and throw: "\<And>f e t. snd (env f e t) \<noteq> None"
    and i: "i < length (detachedThreads s)" "detachedThreads s ! i = ''fail''"
  shows "currentState (runThread env io i s) = FAILED_STATE"
proof -
  let ?s = "s\<lparr>detachedThreads := take i (detachedThreads s) @ drop (i + 1) (detachedThreads s)\<rparr>"
  let ?x = "execTransition env (fsmHdr io) (timeNow io) ''fail'' None ?s"
  have oks: "rc_ok ?s" using rc_ok_control [of ?s s] ok by simp
  have idle: "\<not> inTransition ?s" using oks by (simp add: rc_ok_def machine_ok_def)
  have "currentState (fst ?x) = FAILED_STATE"
  proof (cases "getStateName ?s (currentState ?s) = FAILED_STATE_NAME")
    case True
    then have "currentState ?s = FAILED_STATE"
      using rc_ok_state [OF oks] rc_ok_name [OF oks] by (auto simp: FAILED_STATE_def FAILED_STATE_NAME_def)
    then show ?thesis using True idle by (simp add: execTransition_def)
  next
    case False
    obtain input to rest where row: "getTransitions ?s (currentState ?s) = (input, to) # rest"
      using row_nonempty [OF oks] by (metis neq_Nil_conv surj_pair)
    then obtain f where "get2 (transitionActions ?s) (currentState ?s) input = Some f"
      using row_edge [OF oks] by blast
    then have "handlerResult env input ?s \<noteq> None"
      using throw by (simp add: handlerResult_def callHook_def)
    then show ?thesis using execTransition_fail [OF idle False row] by blast
  qed
  then show ?thesis
    using i execTransition_returns [OF idle] by (simp add: runThread_def Let_def split_beta)
qed

end

section \<open>Properties of the state machine\<close>

text \<open>
  Every call of \<open>execTransition\<close>, whatever the command and the exceptions thrown, leaves the
  machine well formed and not in transition: the state is a declared one, so a supervisor never ends
  up in an unnamed state and never locks out later commands.
\<close>

theorem execTransition_preserves_ok:
  assumes "machine_handlers env" "machine_ok s"
  shows "machine_ok (fst (execTransition env hdr now tr msg s))"
  by (rule machine_handlers.execTransition_ok [OF assms])

theorem execTransition_preserves_ok_witness:
  "machine_ok (fst (execTransition (scripted_handlers (\<lambda>_. Some UnknownException)) (\<lambda>_. []) 5
     ''Initialize'' None fresh))"
  using fresh_ok
  by (intro execTransition_preserves_ok rc_scripted.machine_handlers_axioms) (simp add: rc_ok_def)

text \<open>
  C29. A command that the table lists for the current state, sent to an idle machine, moves it to the
  target of the table when the handler returns and to the failed state when the handler throws; the
  state it came from is recorded as provenance.
\<close>

theorem execTransition_effect:
  assumes "machine_handlers env" "\<not> inTransition s" "tr \<noteq> ''fail''"
    "get2 (stateTransitionTable s) (currentState s) tr = Some to"
  shows "currentState (fst (execTransition env hdr now tr msg s)) =
           (if handlerResult env tr (entered tr msg s) = None then to else FAILED_STATE) \<and>
         provenanceState (fst (execTransition env hdr now tr msg s)) = currentState s"
  using machine_handlers.execTransition_target [OF assms] by simp

theorem execTransition_effect_witness:
  "currentState (fst (execTransition rc_base_handlers (\<lambda>_. []) 5 ''Initialize'' None fresh)) =
     (if handlerResult rc_base_handlers ''Initialize'' (entered ''Initialize'' None fresh) = None
      then CHR ''H'' else FAILED_STATE) \<and>
   provenanceState (fst (execTransition rc_base_handlers (\<lambda>_. []) 5 ''Initialize'' None fresh)) = currentState fresh"
  by (intro execTransition_effect rc_base.machine_handlers_axioms)
     (simp_all add: fresh_def newRunControl_states newRunControl_tables rc_graph_def)

text \<open>
  C40. A command that cannot be taken changes nothing that matters: while a transition is running it
  is ignored (false is returned, the machine is untouched), and a command that the table does not
  list for the current state raises, keeps the state and only records the provenance.
\<close>

theorem execTransition_refused:
  assumes "tr \<noteq> ''fail''"
  shows "(inTransition s \<longrightarrow> execTransition env hdr now tr msg s = (s, Returned False)) \<and>
         (\<not> inTransition s \<and> get2 (stateTransitionTable s) (currentState s) tr = None \<longrightarrow>
            (\<exists>w. execTransition env hdr now tr msg s =
              (s\<lparr>provenanceState := currentState s, inTransition := False\<rparr>,
               Raised (FsmException w))))"
  using assms getTransitions_get2 [of s "currentState s" tr]
  by (auto simp: execTransition_def Let_def getTransitions_def)

theorem execTransition_refused_witness:
  "\<exists>w. execTransition rc_base_handlers (\<lambda>_. []) 5 ''Start'' None fresh =
     (fresh\<lparr>provenanceState := currentState fresh, inTransition := False\<rparr>, Raised (FsmException w))"
  using execTransition_refused [of "''Start''" fresh rc_base_handlers "\<lambda>_. []" 5 None]
  by (simp add: fresh_def newRunControl_states newRunControl_tables rc_graph_def)

section \<open>Properties of run control\<close>


text \<open>
  C1. Whatever sequence of messages, asynchronous errors, thread executions and resets a supervisor
  sees, with handlers that may throw anything: its machine is the documented one, in a documented
  state, and idle, so the next command is accepted.
\<close>

theorem reachable_ok:
  assumes "rc_handlers env" "reachable env s"
  shows "rc_ok s"
  by (rule reachable_rc_ok [OF assms])

theorem reachable_ok_witness:
  "rc_ok (runThread (scripted_handlers (\<lambda>_. Some UnknownException)) blank_io 0
     (fst (runControlMessageHandler (scripted_handlers (\<lambda>_. Some UnknownException))
        blank_io (plain ''AsyncError'') fresh)))"
  by (rule reachable_ok [of "scripted_handlers (\<lambda>_. Some UnknownException)"])
     (rule rc_scripted.rc_handlers_axioms, unfold fresh_def, intro reachable.intros)



text \<open>
  C2. A command listed for the current state is carried out: the machine moves along the documented
  edge if the supervisor's function for it returns, and to the failed state, with a reply that says
  so, if the function throws.
\<close>

theorem command_outcome:
  assumes "rc_handlers env" "rc_ok s" "executes io m d s"
    "rc_graph (currentState s, d) = Some (to, f)"
    "\<forall>t. (snd (env f (Some (Event d)) t) = None) = good"
  shows "currentState (fst (runControlMessageHandler env io m s)) = (if good then to else FAILED_STATE) \<and>
    (good \<or> snd (runControlMessageHandler env io m s) = Reply (d @ ''Failed''))"
  using rc_handlers.command_effect [OF assms(1-4), of good] assms(5) by (auto simp: FAILED_STATE_NAME_def)

theorem command_outcome_witness:
  "currentState (fst (runControlMessageHandler (scripted_handlers (\<lambda>_. Some (RuntimeError ''no link'')))
     blank_io (plain ''Halt'') fresh)) = (if False then CHR ''H'' else FAILED_STATE) \<and>
   (False \<or> snd (runControlMessageHandler (scripted_handlers (\<lambda>_. Some (RuntimeError ''no link'')))
     blank_io (plain ''Halt'') fresh) = Reply (''Initialize'' @ ''Failed''))"
proof (rule command_outcome [OF rc_scripted.rc_handlers_axioms fresh_ok, where f = TransitionInitializing])
  show "executes blank_io (plain ''Halt'') ''Initialize'' fresh"
    using rc_ok_name(2) [OF fresh_ok]
    by (intro executes_plain) (simp_all add: reports_def effectiveCommand_def fresh_state)
qed (simp_all add: fresh_state rc_graph_def scripted_handlers_def)

text \<open>
  A command that the current state does not know is refused: the reply reports a failure and the
  state does not change, whatever the handlers.
\<close>

theorem command_not_listed:
  assumes "rc_handlers env" "rc_ok s" "executes io m d s" "rc_graph (currentState s, d) = None" "d \<noteq> ''fail''"
  shows "snd (runControlMessageHandler env io m s) = Reply (d @ ''Failed'') \<and>
    currentState (fst (runControlMessageHandler env io m s)) = currentState s"
  using rc_handlers.command_refused [OF assms] by (simp add: FAILED_STATE_NAME_def control_def)

theorem command_not_listed_witness:
  "snd (runControlMessageHandler rc_base_handlers blank_io (plain ''Start'') fresh) = Reply (''Start'' @ ''Failed'') \<and>
    currentState (fst (runControlMessageHandler rc_base_handlers blank_io (plain ''Start'') fresh)) = currentState fresh"
  by (rule command_not_listed [OF rc_base.rc_handlers_axioms fresh_ok executes_plain])
     (simp_all add: reports_def effectiveCommand_def fresh_state rc_graph_def)



lemma rc_graph_bound: "rc_graph (st, c) = Some x \<Longrightarrow> c \<in> set rc_bound"
  unfolding rc_graph_def by (drule map_of_SomeD) (auto simp: rc_bound_def)

text \<open>
  Every command of the documented graph is bound to the message handler, as the constructor's
  note demands. The report \<open>AsyncStopException\<close>, which the handler implements and
  \<open>CoreSupervisorBase::sendAsyncExceptionToGateway\<close> sends, is not: its message is answered with an
  exception.
\<close>

theorem graph_commands_bound:
  "snd ` dom rc_graph \<subseteq> {c. dispatchSOAP rc_bound cls (makeSOAPMessageReference (plain c)) = Inr c} \<and>
   (\<exists>w. dispatchSOAP rc_bound cls (makeSOAPMessageReference (plain ''AsyncStopException'')) = Inl (StdException w))"
proof -
  have d: "dispatchSOAP rc_bound cls (makeSOAPMessageReference (plain c)) =
      (if c \<in> set rc_bound then Inr c else Inl (StdException (''No SOAP handler bound for command ''
        @ quoted c @ '' in '' @ cls)))" for c
    by (simp add: dispatchSOAP_def makeSOAPMessageReference_def hasParameters_def plain_def makeMessage_def
        addBodyElement_def xdaqName_def)
  have "snd ` dom rc_graph \<subseteq> set rc_bound" using rc_graph_bound by auto
  then show ?thesis by (auto simp: d) (simp add: rc_bound_def)
qed

text \<open>
  The command \<open>Error\<close> takes a configured, running or paused supervisor to Halted, not to the failed
  state, and keeps \<open>configuredGroup_\<close>: the halted supervisor goes on reporting the group as configured.
\<close>

theorem error_keeps_configuredGroup:
  assumes "rc_ok s" "currentState s \<in> {CHR ''C'', CHR ''R'', CHR ''P''}"
  shows "currentState (fst (runControlMessageHandler rc_base_handlers io (plain ''Error'') s)) = CHR ''H'' \<and>
    configuredGroup (fst (runControlMessageHandler rc_base_handlers io (plain ''Error'') s)) = configuredGroup s"
proof -
  obtain s1 where s1: "receiveIndices io (plain ''Error'') s = Some s1" "isFirstIteration s1"
    "\<not> (retransmitted io (plain ''Error'') \<and> isRepetition (plain ''Error'') s1)"
    using plain_starts [of io "''Error''" s] by (auto simp: starts_def)
  let ?b = "fst (beginIteration ''Error'' s1)" and ?n = "getStateName s (currentState s)"
  have c: "control ?b = control s" using control_receiveIndices [OF s1(1)] by simp
  have g: "configuredGroup ?b = configuredGroup s"
    using s1(1) by (auto simp: beginIteration_def stepProgress_def receiveIndices_def Let_def split: option.splits)
  have h: "runControlMessageHandler rc_base_handlers io (plain ''Error'') s =
      handleError rc_base_handlers io (plain ''Error'') ?n ?b"
    using s1 first_begin(2) [OF s1(2)] name_control [OF control_receiveIndices [OF s1(1)]]
    by (auto simp: runControlMessageHandler_def split_beta plain_def getCurrentStateName_def)
  have grp: "configuredGroup (fst (execTransition rc_base_handlers hd n tr msg t)) = configuredGroup t"
    for hd n tr msg and t :: "'a rc_scheme"
    by (simp add: execTransition_def fireEvent_def callHook_def rc_base_handlers_def enterFailedState_def Let_def
        split: option.splits list.splits)
  obtain tr f where tr: "tr \<noteq> ''fail''" "rc_graph (currentState s, tr) = Some (CHR ''H'', f)"
    "handleError rc_base_handlers io (plain ''Error'') ?n ?b =
       (completeProgress io (fst (rc_exec rc_base_handlers io tr (plain ''Error'') ?b)), Reply ''ErrorDone'')"
    by (rule error_transition [OF assms])
  have "rc_ok ?b" using rc_ok_control [OF c] assms(1) by simp
  then have "currentState (fst (rc_exec rc_base_handlers io tr (plain ''Error'') ?b)) = CHR ''H''"
    using rc_base.execTransition_target(1) [of ?b tr "CHR ''H''"] tr(1,2) c
    by (auto simp: rc_ok_def machine_ok_def control_def handlerResult_def callHook_def rc_base_handlers_def
        split: option.splits)
  then show ?thesis
    using g by (simp add: h tr(3) grp completeProgress_def split_beta)
qed

theorem error_keeps_configuredGroup_witness:
  "currentState (fst (runControlMessageHandler rc_base_handlers blank_io (plain ''Error'') configured)) = CHR ''H'' \<and>
    configuredGroup (fst (runControlMessageHandler rc_base_handlers blank_io (plain ''Error'') configured)) =
      configuredGroup configured"
  by (rule error_keeps_configuredGroup) (simp_all add: configured_ok)

text \<open>
  However many \<open>AsyncError\<close> messages arrive, one thread is started to fail the machine, and the
  machine itself is not touched by the messages; when that thread runs and the supervisor's functions
  throw, the machine ends in the failed state.
\<close>

theorem asyncErrors_fail_once:
  assumes "rc_handlers env" "rc_ok s" "\<not> asyncFailureReceived s" "detachedThreads s = []" "es \<noteq> []"
    "\<forall>f e t. snd (env f e t) \<noteq> None"
  shows "detachedThreads (fold (\<lambda>e s. fst (runControlMessageHandler env io (asyncError e) s)) es s) = [''fail''] \<and>
    currentState (fold (\<lambda>e s. fst (runControlMessageHandler env io (asyncError e) s)) es s) = currentState s \<and>
    currentState (runThread env io 0 (fold (\<lambda>e s. fst (runControlMessageHandler env io (asyncError e) s)) es s)) =
      FAILED_STATE"
proof -
  let ?t = "fold (\<lambda>e s. fst (runControlMessageHandler env io (asyncError e) s)) es s"
  have t: "control ?t = control s" "detachedThreads ?t = [''fail'']"
    using asyncErrors [of env io es s] assms(3-5) by simp_all
  then have "rc_ok ?t" using rc_ok_control [OF t(1)] assms(2) by simp
  then show ?thesis
    using rc_handlers.fail_thread [OF assms(1), of ?t 0 io] t assms(6) by (simp add: control_def)
qed

theorem asyncErrors_fail_once_witness:
  "detachedThreads (fold (\<lambda>e s. fst (runControlMessageHandler (scripted_handlers (\<lambda>_. Some UnknownException))
       blank_io (asyncError e) s)) [''hot'', ''hotter''] fresh) = [''fail''] \<and>
   currentState (fold (\<lambda>e s. fst (runControlMessageHandler (scripted_handlers (\<lambda>_. Some UnknownException))
       blank_io (asyncError e) s)) [''hot'', ''hotter''] fresh) = currentState fresh \<and>
   currentState (runThread (scripted_handlers (\<lambda>_. Some UnknownException)) blank_io 0
     (fold (\<lambda>e s. fst (runControlMessageHandler (scripted_handlers (\<lambda>_. Some UnknownException))
       blank_io (asyncError e) s)) [''hot'', ''hotter''] fresh)) = FAILED_STATE"
  by (rule asyncErrors_fail_once
        [OF rc_scripted.rc_handlers_axioms [of "\<lambda>_. Some UnknownException"] fresh_ok fresh_async])
     (simp_all add: scripted_handlers_def)

end
