(* ===== verification/RingBuffers.thy ===== *)
theory RingBuffers
  imports Prelude
begin

text \<open>
  \<open>DataManager/BufferImplementation.icc\<close>: the ring of sub-buffers between one producer and its
  consumers. A status is true when the sub-buffer is free; the status array of a consumer that was
  never registered is a null pointer (\<^term>\<open>None\<close>). Dereferencing it, an index out of range and a ring
  of size zero are undefined behaviour: the operation is \<^term>\<open>None\<close>. Sizes and indices are below
  \<open>2^31\<close>, so \<^typ>\<open>nat\<close> and \<^typ>\<open>int\<close> do not wrap differently from the \<open>int\<close> and \<open>unsigned int\<close> members.
\<close>

section \<open>Model\<close>

datatype consumer_priority = LowConsumerPriority | HighConsumerPriority

record consumer =
  priority :: consumer_priority
  readPointer :: nat
  consumerStatus :: "bool list option"

definition newConsumer :: consumer where
  "newConsumer = \<lparr>priority = LowConsumerPriority, readPointer = 0, consumerStatus = None\<rparr>"

record ('d, 'h) ring =
  producerName :: string
  numberOfSubBuffers :: nat
  consumers :: "(string, consumer) omap"
  writePointer :: int
  subBuffersStatus :: "bool list"
  headers :: "'h list"
  subBuffers :: "'d list"

definition resetRing :: "('d, 'h) ring \<Rightarrow> ('d, 'h) ring" where
  "resetRing b =
     b\<lparr>writePointer := - 1, subBuffersStatus := replicate (numberOfSubBuffers b) True,
       consumers := map (\<lambda>(k, x). (k, x\<lparr>readPointer := 0,
                       consumerStatus := Some (replicate (numberOfSubBuffers b) True)\<rparr>)) (consumers b)\<rparr>"

text \<open>\<open>d0\<close> and \<open>h0\<close> are \<open>D()\<close> and \<open>H()\<close>.\<close>

definition newRing :: "'d \<Rightarrow> 'h \<Rightarrow> string \<Rightarrow> nat \<Rightarrow> ('d, 'h) ring" where
  "newRing d0 h0 name n =
     resetRing \<lparr>producerName = name, numberOfSubBuffers = n, consumers = [], writePointer = - 1,
                subBuffersStatus = [], headers = replicate n h0, subBuffers = replicate n d0\<rparr>"

definition registerConsumer :: "string \<Rightarrow> consumer_priority \<Rightarrow> ('d, 'h) ring \<Rightarrow> ('d, 'h) ring" where
  "registerConsumer c p b =
     (let (x0, m) = at_ins newConsumer (consumers b) c;
          x1 = x0\<lparr>priority := p\<rparr>;
          x2 = (if consumerStatus x1 = None
                then x1\<lparr>readPointer := 0, consumerStatus := Some (replicate (numberOfSubBuffers b) True)\<rparr>
                else x1)
      in b\<lparr>consumers := omap_put c x2 m\<rparr>)"

definition resetConsumerList :: "('d, 'h) ring \<Rightarrow> ('d, 'h) ring" where
  "resetConsumerList b = b\<lparr>consumers := []\<rparr>"

definition nextWritePointer :: "('d, 'h) ring \<Rightarrow> nat" where
  "nextWritePointer b = nat (writePointer b + 1) mod numberOfSubBuffers b"

definition isFree :: "nat \<Rightarrow> ('d, 'h) ring \<Rightarrow> bool" where
  "isFree i b = subBuffersStatus b ! i"

text \<open>\<open>getFreeBufferIndex\<close>: \<^term>\<open>None\<close> is the return value \<open>-1\<close>.\<close>

definition getFreeBufferIndex :: "('d, 'h) ring \<Rightarrow> nat option" where
  "getFreeBufferIndex b = (if isFree (nextWritePointer b) b then Some (nextWritePointer b) else None)"

definition writeSubBuffer :: "nat \<Rightarrow> 'd \<Rightarrow> 'h \<Rightarrow> ('d, 'h) ring \<Rightarrow> ('d, 'h) ring" where
  "writeSubBuffer i d h b = b\<lparr>subBuffers := (subBuffers b)[i := d], headers := (headers b)[i := h]\<rparr>"

definition setWritten :: "nat \<Rightarrow> ('d, 'h) ring \<Rightarrow> ('d, 'h) ring option" where
  "setWritten i b =
     (if \<forall>kx \<in> set (consumers b). consumerStatus (snd kx) \<noteq> None
      then Some (b\<lparr>consumers := map (\<lambda>(k, x). (k, x\<lparr>consumerStatus :=
                                map_option (\<lambda>s. s[i := False]) (consumerStatus x)\<rparr>)) (consumers b),
                   subBuffersStatus := (subBuffersStatus b)[i := False]\<rparr>)
      else None)"

fun allFree :: "nat \<Rightarrow> (string \<times> consumer) list \<Rightarrow> bool option" where
  "allFree i [] = Some True"
| "allFree i ((k, x) # m) =
     (case consumerStatus x of
        None \<Rightarrow> None
      | Some s \<Rightarrow> if s ! i then allFree i m else Some False)"

definition setFree :: "nat \<Rightarrow> string \<Rightarrow> ('d, 'h) ring \<Rightarrow> ('d, 'h) ring option" where
  "setFree i c b =
     (let (x, m) = at_ins newConsumer (consumers b) c
      in case consumerStatus x of
           None \<Rightarrow> None
         | Some s \<Rightarrow>
             (let m1 = omap_put c (x\<lparr>consumerStatus := Some (s[i := True])\<rparr>) m
              in case allFree i m1 of
                   None \<Rightarrow> None
                 | Some False \<Rightarrow> Some (b\<lparr>consumers := m1\<rparr>)
                 | Some True \<Rightarrow>
                     Some (b\<lparr>consumers := m1, subBuffersStatus := (subBuffersStatus b)[i := True]\<rparr>)))"

text \<open>
  \<open>write\<close>: the new ring and the index written, \<^term>\<open>None\<close> for \<open>ErrorBufferFull\<close>. When the ring is full
  and debug output is enabled (\<open>dbg\<close>), the message evaluates \<open>isFree(-1)\<close>: undefined.
\<close>

definition writeRing :: "bool \<Rightarrow> 'd \<times> 'h \<Rightarrow> ('d, 'h) ring \<Rightarrow> (('d, 'h) ring \<times> nat option) option" where
  "writeRing dbg dh b =
     (if numberOfSubBuffers b = 0 then None
      else case getFreeBufferIndex b of
             None \<Rightarrow> if dbg then None else Some (b, None)
           | Some i \<Rightarrow>
               (case setWritten i ((writeSubBuffer i (fst dh) (snd dh) b)\<lparr>writePointer := int i\<rparr>) of
                  None \<Rightarrow> None
                | Some b1 \<Rightarrow> Some (b1, Some i)))"

text \<open>
  The two steps of a producer that fills a sub-buffer in place; the caller writes through the
  returned pointers in between (\<^const>\<open>writeSubBuffer\<close>).
\<close>

definition attachToEmptySubBuffer :: "('d, 'h) ring \<Rightarrow> nat option option" where
  "attachToEmptySubBuffer b =
     (if numberOfSubBuffers b = 0 then None else Some (getFreeBufferIndex b))"

definition setWrittenSubBuffer :: "('d, 'h) ring \<Rightarrow> (('d, 'h) ring \<times> nat) option" where
  "setWrittenSubBuffer b =
     (if numberOfSubBuffers b = 0 then None
      else let i = nextWritePointer b
           in map_option (\<lambda>b1. (b1, i)) (setWritten i (b\<lparr>writePointer := int i\<rparr>)))"

text \<open>\<open>read\<close>: the new ring and the data, \<^term>\<open>None\<close> for \<open>ErrorBufferNotAvailable\<close>.\<close>

definition readRing :: "string \<Rightarrow> ('d, 'h) ring \<Rightarrow> (('d, 'h) ring \<times> ('d \<times> 'h) option) option" where
  "readRing c b =
     (let (x, m) = at_ins newConsumer (consumers b) c;
          b1 = b\<lparr>consumers := m\<rparr>;
          i = readPointer x
      in if \<not> i < length (subBuffersStatus b1) then None
         else if isFree i b1 then Some (b1, None)
         else case consumerStatus x of
                None \<Rightarrow> None
              | Some s \<Rightarrow>
                  if s ! i then Some (b1, None)
                  else let b2 = b1\<lparr>consumers := omap_put c (x\<lparr>readPointer := (i + 1) mod numberOfSubBuffers b\<rparr>) m\<rparr>
                       in map_option (\<lambda>b3. (b3, Some (subBuffers b1 ! i, headers b1 ! i))) (setFree i c b2))"

text \<open>The two steps of a consumer that reads in place.\<close>

definition readPointers :: "string \<Rightarrow> ('d, 'h) ring \<Rightarrow> (('d, 'h) ring \<times> nat option) option" where
  "readPointers c b =
     (let (x, m) = at_ins newConsumer (consumers b) c;
          b1 = b\<lparr>consumers := m\<rparr>;
          i = readPointer x
      in if \<not> i < length (subBuffersStatus b1) then None
         else if isFree i b1 then Some (b1, None)
         else case consumerStatus x of
                None \<Rightarrow> None
              | Some s \<Rightarrow> Some (b1, if s ! i then None else Some i))"

definition setReadSubBuffer :: "string \<Rightarrow> ('d, 'h) ring \<Rightarrow> (('d, 'h) ring \<times> nat) option" where
  "setReadSubBuffer c b =
     (let (x, m) = at_ins newConsumer (consumers b) c
      in case setFree (readPointer x) c (b\<lparr>consumers := m\<rparr>) of
           None \<Rightarrow> None
         | Some b1 \<Rightarrow>
             (case omap_get (consumers b1) c of
                None \<Rightarrow> None
              | Some x1 \<Rightarrow>
                  let r = (readPointer x1 + 1) mod numberOfSubBuffers b1
                  in Some (b1\<lparr>consumers := omap_put c (x1\<lparr>readPointer := r\<rparr>) (consumers b1)\<rparr>, r)))"

definition isEmptyRing :: "('d, 'h) ring \<Rightarrow> bool" where
  "isEmptyRing b \<longleftrightarrow> (\<forall>i < numberOfSubBuffers b. isFree i b)"

definition numberOfWrittenBuffers :: "('d, 'h) ring \<Rightarrow> nat" where
  "numberOfWrittenBuffers b = length (filter (\<lambda>i. \<not> isFree i b) [0..<numberOfSubBuffers b])"

section \<open>Indices\<close>

text \<open>The slots of the data numbered from \<open>a\<close> to \<open>w\<close>.\<close>

definition slots :: "nat \<Rightarrow> nat \<Rightarrow> nat \<Rightarrow> nat set" where
  "slots N a w = (\<lambda>j. j mod N) ` {a..<w}"

lemma slots_same [simp]: "slots N a a = {}"
  by (simp add: slots_def)

lemma mod_neq: "\<lbrakk>j < k; k < j + N\<rbrakk> \<Longrightarrow> j mod N \<noteq> (k::nat) mod N"
proof
  assume a: "j < k" "k < j + N" "j mod N = k mod N"
  then have "N dvd k - j" by (metis mod_eq_dvd_iff_nat less_imp_le)
  with a(1,2) show False by (auto dest: dvd_imp_le)
qed

lemma slots_write: "a \<le> w \<Longrightarrow> slots N a (Suc w) = insert (w mod N) (slots N a w)"
  by (simp add: slots_def atLeastLessThanSuc)

lemma slots_next:
  assumes "a \<le> w" "w \<le> a + N"
  shows "w mod N \<in> slots N a w \<longleftrightarrow> w = a + N \<and> 0 < N"
proof (cases "w = a + N")
  case True
  then show ?thesis by (cases "N = 0") (auto simp: slots_def)
next
  case False
  have "j mod N \<noteq> w mod N" if "a \<le> j" "j < w" for j
    using that False assms by (intro mod_neq) simp_all
  then show ?thesis using False by (auto simp: slots_def image_iff dest: sym)
qed

lemma slots_read:
  assumes "a < w" "w \<le> a + N"
  shows "slots N (Suc a) w = slots N a w - {a mod N}"
proof -
  have "{a..<w} = insert a {Suc a..<w}" using assms(1) by auto
  moreover have "\<forall>j \<in> {Suc a..<w}. j mod N \<noteq> a mod N"
  proof
    fix j assume "j \<in> {Suc a..<w}"
    then show "j mod N \<noteq> a mod N" using assms mod_neq [of a j N] by auto
  qed
  ultimately show ?thesis by (auto simp: slots_def)
qed

lemma slots_first: "a < w \<Longrightarrow> a mod N \<in> slots N a w"
  by (simp add: slots_def)

section \<open>What the ring represents\<close>

text \<open>
  \<open>ws\<close> is everything accepted so far and \<open>R c\<close> how much of it consumer \<open>c\<close> has read. The ring
  stands for this when its pointers and statuses are those of the counters, and every datum some
  consumer may still read is in its slot.
\<close>

definition consumer_rel :: "nat \<Rightarrow> nat \<Rightarrow> nat \<Rightarrow> consumer \<Rightarrow> bool" where
  "consumer_rel N w r x \<longleftrightarrow>
     r \<le> w \<and> w \<le> r + N \<and> readPointer x = r mod N \<and>
     (\<exists>s. consumerStatus x = Some s \<and> length s = N \<and> (\<forall>i < N. s ! i = (i \<notin> slots N r w)))"

definition ring_rel :: "string set \<Rightarrow> nat \<Rightarrow> ('d, 'h) ring \<Rightarrow> ('d \<times> 'h) list \<Rightarrow> (string \<Rightarrow> nat) \<Rightarrow> bool" where
  "ring_rel cs N b ws R \<longleftrightarrow>
     0 < N \<and> numberOfSubBuffers b = N \<and> cs \<noteq> {} \<and> fst ` set (consumers b) = cs \<and> omap_ok (consumers b) \<and>
     length (subBuffersStatus b) = N \<and> length (headers b) = N \<and> length (subBuffers b) = N \<and>
     writePointer b = (if ws = [] then - 1 else int ((length ws - 1) mod N)) \<and>
     (\<forall>(c, x) \<in> set (consumers b). consumer_rel N (length ws) (R c) x) \<and>
     (\<forall>i < N. subBuffersStatus b ! i = (\<forall>c \<in> cs. i \<notin> slots N (R c) (length ws))) \<and>
     (\<forall>j. j < length ws \<and> length ws \<le> j + N \<longrightarrow>
        (subBuffers b ! (j mod N), headers b ! (j mod N)) = ws ! j)"

lemma next_pointer:
  assumes "ring_rel cs N b ws R"
  shows "nextWritePointer b = length ws mod N"
proof -
  have "Suc ((length ws - 1) mod N) mod N = length ws mod N" if "ws \<noteq> []"
    using that by (metis Suc_diff_1 length_greater_0_conv mod_Suc_eq)
  then show ?thesis using assms
    by (auto simp: ring_rel_def nextWritePointer_def nat_add_distrib)
qed

lemma rel_consumer:
  assumes "ring_rel cs N b ws R" "c \<in> cs"
  obtains x where "omap_get (consumers b) c = Some x" "consumer_rel N (length ws) (R c) x"
proof -
  obtain x where x: "omap_get (consumers b) c = Some x"
    using assms by (metis ring_rel_def map_of_eq_None_iff not_None_eq)
  then have "(c, x) \<in> set (consumers b)" by (rule map_of_SomeD)
  then show thesis using that x assms(1) by (fastforce simp: ring_rel_def)
qed

lemma free_iff:
  assumes "ring_rel cs N b ws R"
  shows "isFree (nextWritePointer b) b \<longleftrightarrow> (\<forall>c \<in> cs. length ws < R c + N)"
proof -
  have N: "0 < N" using assms by (simp add: ring_rel_def)
  have "length ws mod N \<notin> slots N (R c) (length ws) \<longleftrightarrow> length ws < R c + N" if "c \<in> cs" for c
  proof -
    have "R c \<le> length ws" "length ws \<le> R c + N"
      using rel_consumer [OF assms that] by (auto simp: consumer_rel_def)
    then show ?thesis using slots_next [of "R c" "length ws" N] N by linarith
  qed
  then show ?thesis
    using assms N by (simp add: isFree_def next_pointer [OF assms] ring_rel_def)
qed

lemma rel_statuses:
  assumes "ring_rel cs N b ws R" "kx \<in> set (consumers b)"
  shows "consumerStatus (snd kx) \<noteq> None"
  using assms by (cases kx) (fastforce simp: ring_rel_def consumer_rel_def)

lemma rel_capacity:
  assumes "ring_rel cs N b ws R" "c \<in> cs"
  shows "R c \<le> length ws \<and> length ws \<le> R c + N"
  using rel_consumer [OF assms] by (auto simp: consumer_rel_def)

lemma write_data:
  assumes "\<forall>j. j < length ws \<and> length ws \<le> j + N \<longrightarrow> (ds ! (j mod N), hs ! (j mod N)) = ws ! j"
    "0 < N" "length ds = N" "length hs = N" "j < Suc (length ws)" "Suc (length ws) \<le> j + N"
  shows "(ds[length ws mod N := fst x] ! (j mod N), hs[length ws mod N := snd x] ! (j mod N)) = (ws @ [x]) ! j"
proof (cases "j = length ws")
  case True
  then show ?thesis using assms(2-4) by simp
next
  case False
  then have "j < length ws" "length ws < j + N" using assms(5,6) by simp_all
  then show ?thesis using mod_neq [of j "length ws" N] assms(1) by (simp add: nth_append)
qed

text \<open>A write is accepted exactly when no consumer is a whole ring behind.\<close>

lemma write_accepted:
  assumes rel: "ring_rel cs N b ws R" and room: "\<forall>c \<in> cs. length ws < R c + N"
  shows "\<exists>b'. writeRing dbg x b = Some (b', Some (length ws mod N)) \<and> ring_rel cs N b' (ws @ [x]) R"
proof -
  let ?i = "length ws mod N"
  let ?f = "\<lambda>k (x::consumer). x\<lparr>consumerStatus := map_option (\<lambda>s. s[?i := False]) (consumerStatus x)\<rparr>"
  let ?b = "b\<lparr>subBuffers := (subBuffers b)[?i := fst x], headers := (headers b)[?i := snd x],
              writePointer := int ?i, consumers := map (\<lambda>(k, x). (k, ?f k x)) (consumers b),
              subBuffersStatus := (subBuffersStatus b)[?i := False]\<rparr>"
  have N: "0 < N" "numberOfSubBuffers b = N" and ok: "omap_ok (consumers b)"
    using rel by (simp_all add: ring_rel_def)
  have free: "getFreeBufferIndex b = Some ?i"
    using free_iff [OF rel] room next_pointer [OF rel] by (simp add: getFreeBufferIndex_def)
  have "setWritten ?i ((writeSubBuffer ?i (fst x) (snd x) b)\<lparr>writePointer := int ?i\<rparr>) = Some ?b"
    using rel_statuses [OF rel] by (simp add: setWritten_def writeSubBuffer_def)
  then have w: "writeRing dbg x b = Some (?b, Some ?i)"
    using N by (simp add: writeRing_def free)
  have cons: "consumer_rel N (Suc (length ws)) (R c) (?f c y)" if c: "(c, y) \<in> set (consumers b)" for c y
  proof -
    have "c \<in> cs" "consumer_rel N (length ws) (R c) y" using rel c by (auto simp: ring_rel_def rev_image_eqI)
    then show ?thesis using room N(1) slots_write [of "R c" "length ws" N]
      by (auto simp: consumer_rel_def nth_list_update)
  qed
  have "ring_rel cs N ?b (ws @ [x]) R"
    unfolding ring_rel_def
  proof (intro conjI)
    show "\<forall>(c, y) \<in> set (consumers ?b). consumer_rel N (length (ws @ [x])) (R c) y"
      using cons by auto
    show "\<forall>i < N. subBuffersStatus ?b ! i = (\<forall>c \<in> cs. i \<notin> slots N (R c) (length (ws @ [x])))"
    proof (intro allI impI)
      fix i assume "i < N"
      moreover have "slots N (R c) (Suc (length ws)) = insert ?i (slots N (R c) (length ws))" if "c \<in> cs" for c
        using rel_capacity [OF rel that] slots_write by simp
      ultimately show "subBuffersStatus ?b ! i = (\<forall>c \<in> cs. i \<notin> slots N (R c) (length (ws @ [x])))"
        using rel by (auto simp: ring_rel_def nth_list_update)
    qed
    show "\<forall>j. j < length (ws @ [x]) \<and> length (ws @ [x]) \<le> j + N \<longrightarrow>
        (subBuffers ?b ! (j mod N), headers ?b ! (j mod N)) = (ws @ [x]) ! j"
      using rel write_data [of ws N "subBuffers b" "headers b" _ x] by (simp add: ring_rel_def)
    show "omap_ok (consumers ?b)" using ok omap_ok_map [of ?f "consumers b"] by simp
    show "fst ` set (consumers ?b) = cs" using rel by (simp add: ring_rel_def image_image split_def)
  qed (use rel in \<open>auto simp: ring_rel_def\<close>)
  with w show ?thesis by blast
qed

lemma write_full:
  assumes rel: "ring_rel cs N b ws R" and full: "\<not> (\<forall>c \<in> cs. length ws < R c + N)"
  shows "writeRing dbg x b = (if dbg then None else Some (b, None))"
  using free_iff [OF rel] full rel by (simp add: writeRing_def getFreeBufferIndex_def ring_rel_def)

lemma allFree_iff:
  "\<forall>kx \<in> set m. consumerStatus (snd kx) \<noteq> None \<Longrightarrow>
   allFree i m = Some (\<forall>kx \<in> set m. the (consumerStatus (snd kx)) ! i)"
  by (induction i m rule: allFree.induct) (auto split: option.splits)

text \<open>A read delivers the oldest datum the consumer has not read, if there is one.\<close>

lemma read_none:
  assumes rel: "ring_rel cs N b ws R" and c: "c \<in> cs" and none: "R c = length ws"
  shows "readRing c b = Some (b, None)"
proof -
  obtain x where x: "omap_get (consumers b) c = Some x" "consumer_rel N (length ws) (R c) x"
    by (rule rel_consumer [OF rel c])
  then obtain s where s: "consumerStatus x = Some s" "\<forall>i < N. s ! i" "readPointer x = R c mod N"
    by (auto simp: consumer_rel_def none)
  have "length (subBuffersStatus b) = N" "0 < N" using rel by (simp_all add: ring_rel_def)
  then show ?thesis
    using x(1) s by (simp add: readRing_def at_ins_def Let_def)
qed

lemma free_step:
  assumes rel: "ring_rel cs N b ws R" and c: "c \<in> cs" and some: "R c < length ws"
    and x: "omap_get (consumers b) c = Some x" and s: "consumerStatus x = Some s" "length s = N"
      "\<forall>i < N. s ! i = (i \<notin> slots N (R c) (length ws))"
  defines "i \<equiv> R c mod N"
  defines "m1 \<equiv> omap_put c (x\<lparr>readPointer := Suc (R c) mod N, consumerStatus := Some (s[i := True])\<rparr>) (consumers b)"
  shows "allFree i m1 = Some (\<forall>k \<in> cs. i \<notin> slots N ((R(c := Suc (R c))) k) (length ws))"
    and "\<forall>(k, y) \<in> set m1. consumer_rel N (length ws) ((R(c := Suc (R c))) k) y"
proof -
  have N: "0 < N" and ok: "omap_ok (consumers b)" "fst ` set (consumers b) = cs"
    using rel by (simp_all add: ring_rel_def)
  have cap: "length ws \<le> R c + N" using rel_capacity [OF rel c] by simp
  have ok1: "omap_ok m1" using ok by (simp add: m1_def)
  have keys: "fst ` set m1 = cs" using ok(2) c by (simp add: m1_def insert_absorb)
  show cr: "\<forall>(k, y) \<in> set m1. consumer_rel N (length ws) ((R(c := Suc (R c))) k) y"
  proof clarify
    fix k y assume "(k, y) \<in> set m1"
    then have y: "omap_get m1 k = Some y" using omap_ok_mem [OF ok1] by simp
    show "consumer_rel N (length ws) ((R(c := Suc (R c))) k) y"
    proof (cases "k = c")
      case True
      then have "y = x\<lparr>readPointer := Suc (R c) mod N, consumerStatus := Some (s[i := True])\<rparr>"
        using y by (simp add: m1_def)
      moreover have "\<forall>n < N. s[i := True] ! n = (n \<notin> slots N (Suc (R c)) (length ws))"
        using s(2,3) slots_read [OF some cap] N by (auto simp: nth_list_update i_def)
      ultimately show ?thesis using True s(2) some cap by (simp add: consumer_rel_def)
    next
      case False
      then have "(k, y) \<in> set (consumers b)" using y omap_ok_mem [OF ok(1)] by (simp add: m1_def)
      then show ?thesis using rel False by (auto simp: ring_rel_def)
    qed
  qed
  have "consumerStatus (snd kx) \<noteq> None \<and>
      the (consumerStatus (snd kx)) ! i = (i \<notin> slots N ((R(c := Suc (R c))) (fst kx)) (length ws))"
    if "kx \<in> set m1" for kx
    using cr that N by (auto simp: consumer_rel_def i_def)
  then have "allFree i m1 = Some (\<forall>kx \<in> set m1. i \<notin> slots N ((R(c := Suc (R c))) (fst kx)) (length ws))"
    using allFree_iff [of m1 i] by simp
  then show "allFree i m1 = Some (\<forall>k \<in> cs. i \<notin> slots N ((R(c := Suc (R c))) k) (length ws))"
    using keys by (auto simp flip: keys)
qed

lemma read_some:
  assumes rel: "ring_rel cs N b ws R" and c: "c \<in> cs" and some: "R c < length ws"
  shows "\<exists>b'. readRing c b = Some (b', Some (ws ! R c)) \<and> ring_rel cs N b' ws (R(c := Suc (R c)))"
proof -
  let ?i = "R c mod N" and ?R = "R(c := Suc (R c))"
  obtain x where x: "omap_get (consumers b) c = Some x" "consumer_rel N (length ws) (R c) x"
    by (rule rel_consumer [OF rel c])
  then obtain s where s: "consumerStatus x = Some s" "length s = N"
    "\<forall>i < N. s ! i = (i \<notin> slots N (R c) (length ws))" and rp: "readPointer x = ?i"
    by (auto simp: consumer_rel_def)
  let ?x = "x\<lparr>readPointer := Suc (R c) mod N, consumerStatus := Some (s[?i := True])\<rparr>"
  let ?m = "omap_put c ?x (consumers b)"
  let ?all = "\<forall>k \<in> cs. ?i \<notin> slots N (?R k) (length ws)"
  let ?b = "b\<lparr>consumers := ?m, subBuffersStatus :=
              (if ?all then (subBuffersStatus b)[?i := True] else subBuffersStatus b)\<rparr>"
  have N: "0 < N" "numberOfSubBuffers b = N" "length (subBuffersStatus b) = N"
    and ok: "omap_ok (consumers b)" "fst ` set (consumers b) = cs"
    using rel by (simp_all add: ring_rel_def)
  have cap: "length ws \<le> R c + N" using rel_capacity [OF rel c] by simp
  have in_slots: "?i \<in> slots N (R c) (length ws)" using slots_first [OF some] .
  have st: "\<forall>n < N. subBuffersStatus b ! n = (\<forall>k \<in> cs. n \<notin> slots N (R k) (length ws))"
    using rel by (simp add: ring_rel_def)
  note all = free_step [OF rel c some x(1) s]
  have busy: "\<not> isFree ?i b" "\<not> s ! ?i"
    using N in_slots c st s(3) by (auto simp: isFree_def)
  have free: "setFree ?i c (b\<lparr>consumers := omap_put c (x\<lparr>readPointer := Suc (R c) mod N\<rparr>) (consumers b)\<rparr>) = Some ?b"
    using s(1) all(1) by (simp add: setFree_def at_ins_def Let_def split: bool.splits)
  have datum: "(subBuffers b ! ?i, headers b ! ?i) = ws ! R c"
    using rel some cap by (simp add: ring_rel_def)
  have "(?i + 1) mod N = Suc (R c) mod N" by (simp add: mod_Suc_eq)
  then have "readRing c b = Some (?b, Some (ws ! R c))"
    using x(1) rp N s(1) busy free datum by (simp add: readRing_def at_ins_def Let_def)
  moreover have "ring_rel cs N ?b ws ?R"
    unfolding ring_rel_def
  proof (intro conjI)
    show "\<forall>(k, y) \<in> set (consumers ?b). consumer_rel N (length ws) (?R k) y" using all(2) by simp
    show "\<forall>n < N. subBuffersStatus ?b ! n = (\<forall>k \<in> cs. n \<notin> slots N (?R k) (length ws))"
    proof (intro allI impI)
      fix n assume n: "n < N"
      have "n \<notin> slots N (?R k) (length ws) \<longleftrightarrow> n \<notin> slots N (R k) (length ws)" if "n \<noteq> ?i" for k
        using that slots_read [OF some cap] by simp
      then show "subBuffersStatus ?b ! n = (\<forall>k \<in> cs. n \<notin> slots N (?R k) (length ws))"
        using n N st in_slots c by (cases "n = ?i") auto
    qed
    show "omap_ok (consumers ?b)" using ok by simp
    show "fst ` set (consumers ?b) = cs" using ok(2) c by (simp add: insert_absorb)
  qed (use rel in \<open>simp_all add: ring_rel_def\<close>)
  ultimately show ?thesis by blast
qed

section \<open>The buffer as a broadcast queue\<close>

lemma take_step:
  "\<lbrakk>drop r ys = y # drop (Suc r) ys; d = take (length d) (drop (Suc r) ys)\<rbrakk> \<Longrightarrow>
   y # d = take (Suc (length d)) (drop r ys)"
  by simp

text \<open>A run of a buffer: a sequence of writes and reads by consumers, and what happened.\<close>

datatype ('x, 'c) buffer_op = Put 'x | Get 'c
datatype ('x, 'c) buffer_event = Stored 'x | Refused 'x | Delivered 'c 'x | Nothing 'c

fun runBuffer ::
  "('x \<Rightarrow> 'b \<Rightarrow> ('b \<times> 'i option) option) \<Rightarrow> ('c \<Rightarrow> 'b \<Rightarrow> ('b \<times> 'x option) option)
    \<Rightarrow> ('x, 'c) buffer_op list \<Rightarrow> 'b \<Rightarrow> ('b \<times> ('x, 'c) buffer_event list) option" where
  "runBuffer wr rd [] b = Some (b, [])"
| "runBuffer wr rd (Put x # ops) b =
     (case wr x b of
        None \<Rightarrow> None
      | Some (b1, r) \<Rightarrow>
          map_option (apsnd ((#) (if r = None then Refused x else Stored x))) (runBuffer wr rd ops b1))"
| "runBuffer wr rd (Get c # ops) b =
     (case rd c b of
        None \<Rightarrow> None
      | Some (b1, r) \<Rightarrow>
          map_option (apsnd ((#) (case r of None \<Rightarrow> Nothing c | Some x \<Rightarrow> Delivered c x))) (runBuffer wr rd ops b1))"

fun stored :: "('x, 'c) buffer_event list \<Rightarrow> 'x list" where
  "stored [] = []"
| "stored (Stored x # es) = x # stored es"
| "stored (_ # es) = stored es"

fun delivered :: "'c \<Rightarrow> ('x, 'c) buffer_event list \<Rightarrow> 'x list" where
  "delivered c [] = []"
| "delivered c (Delivered k x # es) = (if k = c then x # delivered c es else delivered c es)"
| "delivered c (_ # es) = delivered c es"

text \<open>
  What the clients of a buffer rely on: \<open>rel b ws R\<close> means that \<open>b\<close> has accepted \<open>ws\<close> and consumer
  \<open>c\<close> has read \<open>R c\<close> of it; \<open>N\<close> is the capacity and \<open>cs\<close> are the consumers.
\<close>

locale broadcast =
  fixes wr :: "'x \<Rightarrow> 'b \<Rightarrow> ('b \<times> 'i option) option"
    and rd :: "'c \<Rightarrow> 'b \<Rightarrow> ('b \<times> 'x option) option"
    and rel :: "'b \<Rightarrow> 'x list \<Rightarrow> ('c \<Rightarrow> nat) \<Rightarrow> bool"
    and N :: nat and cs :: "'c set"
  assumes wr_stored: "\<lbrakk>rel b ws R; \<forall>c \<in> cs. length ws < R c + N\<rbrakk> \<Longrightarrow>
      \<exists>b' i. wr x b = Some (b', Some i) \<and> rel b' (ws @ [x]) R"
    and wr_full: "\<lbrakk>rel b ws R; \<not> (\<forall>c \<in> cs. length ws < R c + N)\<rbrakk> \<Longrightarrow> wr x b = Some (b, None)"
    and rd_some: "\<lbrakk>rel b ws R; c \<in> cs; R c < length ws\<rbrakk> \<Longrightarrow>
      \<exists>b'. rd c b = Some (b', Some (ws ! R c)) \<and> rel b' ws (R(c := Suc (R c)))"
    and rd_none: "\<lbrakk>rel b ws R; c \<in> cs; R c = length ws\<rbrakk> \<Longrightarrow> rd c b = Some (b, None)"
    and capacity: "\<lbrakk>rel b ws R; c \<in> cs\<rbrakk> \<Longrightarrow> R c \<le> length ws \<and> length ws \<le> R c + N"
begin

text \<open>What happened so far: the run ends in a state that accounts for all of it.\<close>

definition accounts where
  "accounts ws R b' log \<longleftrightarrow>
     (\<exists>R'. rel b' (ws @ stored log) R' \<and>
       (\<forall>c. R' c = R c + length (delivered c log)) \<and>
       (\<forall>c \<in> cs. delivered c log = take (length (delivered c log)) (drop (R c) (ws @ stored log))))"

lemma accounts_Put:
  assumes "accounts (ws @ [x]) R b' log"
  shows "accounts ws R b' (Stored x # log)"
  using assms by (simp add: accounts_def)

lemma accounts_Get:
  assumes "accounts ws (R(c := Suc (R c))) b' log" "R c < length ws"
  shows "accounts ws R b' (Delivered c (ws ! R c) # log)"
proof -
  obtain R' where R': "rel b' (ws @ stored log) R'"
    "\<And>k. R' k = (R(c := Suc (R c))) k + length (delivered k log)"
    "\<And>k. k \<in> cs \<Longrightarrow> delivered k log =
       take (length (delivered k log)) (drop ((R(c := Suc (R c))) k) (ws @ stored log))"
    using assms(1) unfolding accounts_def by blast
  have "drop (R c) (ws @ stored log) = ws ! R c # drop (Suc (R c)) (ws @ stored log)"
    using assms(2) by (simp add: Cons_nth_drop_Suc nth_append flip: Cons_nth_drop_Suc)
  then have c: "ws ! R c # delivered c log = take (Suc (length (delivered c log))) (drop (R c) (ws @ stored log))"
    if "c \<in> cs" using R'(3) [OF that] by (intro take_step) (simp_all only: fun_upd_same)
  have "delivered k (Delivered c (ws ! R c) # log) =
      take (length (delivered k (Delivered c (ws ! R c) # log))) (drop (R k) (ws @ stored log))" if k: "k \<in> cs" for k
  proof (cases "k = c")
    case True
    have "delivered c (Delivered c (ws ! R c) # log) = ws ! R c # delivered c log" by simp
    then show ?thesis using c k True by (metis length_Cons)
  next
    case False
    then have "c \<noteq> k" by simp
    then show ?thesis using R'(3) [OF k] False by (simp only: delivered.simps if_False fun_upd_other simp_thms)
  qed
  moreover have "R' k = R k + length (delivered k (Delivered c (ws ! R c) # log))" for k
    using R'(2) [of k] by simp
  ultimately show ?thesis using R'(1) unfolding accounts_def by (intro exI [of _ R']) simp
qed

lemma run_accounts:
  assumes "rel b ws R" "\<forall>c. Get c \<in> set ops \<longrightarrow> c \<in> cs"
  shows "\<exists>b' log. runBuffer wr rd ops b = Some (b', log) \<and> accounts ws R b' log"
  using assms
proof (induction ops arbitrary: b ws R)
  case Nil
  then show ?case by (auto simp: accounts_def)
next
  case (Cons op ops)
  have ops: "\<forall>c. Get c \<in> set ops \<longrightarrow> c \<in> cs" using Cons.prems(2) by simp
  show ?case
  proof (cases op)
    case (Put x)
    show ?thesis
    proof (cases "\<forall>c \<in> cs. length ws < R c + N")
      case True
      then obtain b1 i where "wr x b = Some (b1, Some i)" "rel b1 (ws @ [x]) R"
        using wr_stored [OF Cons.prems(1)] by blast
      moreover obtain b' log where "runBuffer wr rd ops b1 = Some (b', log)" "accounts (ws @ [x]) R b' log"
        using Cons.IH [OF calculation(2) ops] by blast
      ultimately show ?thesis using accounts_Put by (simp add: Put)
    next
      case False
      then show ?thesis
        using wr_full [OF Cons.prems(1) False] Cons.IH [OF Cons.prems(1) ops] by (auto simp: Put accounts_def)
    qed
  next
    case (Get c)
    then have c: "c \<in> cs" using Cons.prems(2) by simp
    show ?thesis
    proof (cases "R c < length ws")
      case True
      then obtain b1 where "rd c b = Some (b1, Some (ws ! R c))" "rel b1 ws (R(c := Suc (R c)))"
        using rd_some [OF Cons.prems(1) c] by blast
      moreover obtain b' log where "runBuffer wr rd ops b1 = Some (b', log)" "accounts ws (R(c := Suc (R c))) b' log"
        using Cons.IH [OF calculation(2) ops] by blast
      ultimately show ?thesis using True accounts_Get by (simp add: Get)
    next
      case False
      then have "R c = length ws" using capacity [OF Cons.prems(1) c] by simp
      then show ?thesis
        using rd_none [OF Cons.prems(1) c] Cons.IH [OF Cons.prems(1) ops] by (auto simp: Get accounts_def)
    qed
  qed
qed

text \<open>
  From a fresh buffer: every consumer receives the stored data in order, none lost and none twice,
  and lags behind by at most the capacity.
\<close>

lemma run_fifo:
  assumes "rel b [] (\<lambda>_. 0)" "\<forall>c. Get c \<in> set ops \<longrightarrow> c \<in> cs"
  shows "\<exists>b' log. runBuffer wr rd ops b = Some (b', log) \<and>
    (\<forall>c \<in> cs. delivered c log = take (length (delivered c log)) (stored log) \<and>
      length (delivered c log) \<le> length (stored log) \<and> length (stored log) \<le> length (delivered c log) + N)"
proof -
  obtain b' log where r: "runBuffer wr rd ops b = Some (b', log)" "accounts [] (\<lambda>_. 0) b' log"
    using run_accounts [OF assms] by blast
  then obtain R' where R': "rel b' (stored log) R'" "\<forall>c. R' c = length (delivered c log)"
    "\<forall>c \<in> cs. delivered c log = take (length (delivered c log)) (stored log)"
    by (auto simp: accounts_def)
  then have "\<forall>c \<in> cs. length (delivered c log) \<le> length (stored log) \<and>
      length (stored log) \<le> length (delivered c log) + N"
    using capacity [OF R'(1)] by simp
  with r(1) R'(3) show ?thesis by blast
qed

end

interpretation ring: broadcast "writeRing False" readRing "ring_rel cs N" N cs for cs N
proof
  fix b :: "('d, 'h) ring" and ws R x
  assume "ring_rel cs N b ws R" "\<forall>c \<in> cs. length ws < R c + N"
  then show "\<exists>b' i. writeRing False x b = Some (b', Some i) \<and> ring_rel cs N b' (ws @ [x]) R"
    using write_accepted by blast
next
  fix b :: "('d, 'h) ring" and ws R x
  assume "ring_rel cs N b ws R" "\<not> (\<forall>c \<in> cs. length ws < R c + N)"
  then show "writeRing False x b = Some (b, None)" using write_full [of cs N b ws R False x] by simp
qed (fact read_some read_none rel_capacity)+

section \<open>Setting up a ring\<close>

lemma register_fields [simp]:
  "numberOfSubBuffers (registerConsumer c p b) = numberOfSubBuffers b"
  "writePointer (registerConsumer c p b) = writePointer b"
  "subBuffersStatus (registerConsumer c p b) = subBuffersStatus b"
  "headers (registerConsumer c p b) = headers b"
  "subBuffers (registerConsumer c p b) = subBuffers b"
  by (simp_all add: registerConsumer_def Let_def split_def)

lemma at_ins_put: "snd (at_ins d m k) = (if omap_get m k = None then omap_put k d m else m)"
  by (simp add: at_ins_def split: option.splits)

text \<open>A ring nothing was written to, with all its consumers at the start.\<close>

definition pristine :: "string set \<Rightarrow> nat \<Rightarrow> ('d, 'h) ring \<Rightarrow> bool" where
  "pristine cs N b \<longleftrightarrow>
     numberOfSubBuffers b = N \<and> fst ` set (consumers b) = cs \<and> omap_ok (consumers b) \<and>
     length (headers b) = N \<and> length (subBuffers b) = N \<and> writePointer b = - 1 \<and>
     subBuffersStatus b = replicate N True \<and>
     (\<forall>x \<in> snd ` set (consumers b). readPointer x = 0 \<and> consumerStatus x = Some (replicate N True))"

lemma pristine_rel: "\<lbrakk>pristine cs N b; 0 < N; cs \<noteq> {}\<rbrakk> \<Longrightarrow> ring_rel cs N b [] (\<lambda>_. 0)"
  by (auto simp: pristine_def ring_rel_def consumer_rel_def rev_image_eqI)

lemma pristine_new: "pristine {} N (newRing d0 h0 name N)"
  by (simp add: pristine_def newRing_def resetRing_def omap_ok_def)

lemma pristine_register:
  assumes "pristine cs N b"
  shows "pristine (insert c cs) N (registerConsumer c p b)"
proof -
  obtain x m where xm: "at_ins newConsumer (consumers b) c = (x, m)" by fastforce
  let ?y = "\<lambda>x. if consumerStatus x = None
      then x\<lparr>priority := p, readPointer := 0, consumerStatus := Some (replicate N True)\<rparr> else x\<lparr>priority := p\<rparr>"
  have ok: "omap_ok (consumers b)" "fst ` set (consumers b) = cs" "numberOfSubBuffers b = N"
    "\<forall>x \<in> snd ` set (consumers b). readPointer x = 0 \<and> consumerStatus x = Some (replicate N True)"
    using assms by (simp_all add: pristine_def)
  have reg: "consumers (registerConsumer c p b) = omap_put c (?y x) (consumers b)"
    using xm ok(3) by (auto simp: registerConsumer_def at_ins_def Let_def split: option.splits)
  have "readPointer (?y x) = 0 \<and> consumerStatus (?y x) = Some (replicate N True)"
  proof (cases "omap_get (consumers b) c")
    case None
    then show ?thesis using xm by (auto simp: at_ins_def newConsumer_def)
  next
    case (Some z)
    then have "z \<in> snd ` set (consumers b)" by (force dest: map_of_SomeD)
    then show ?thesis using xm Some ok(4) by (auto simp: at_ins_def)
  qed
  then obtain y where y: "consumers (registerConsumer c p b) = omap_put c y (consumers b)"
    "readPointer y = 0" "consumerStatus y = Some (replicate N True)"
    using reg by blast
  have "\<forall>z \<in> insert y (snd ` set (consumers b)). readPointer z = 0 \<and> consumerStatus z = Some (replicate N True)"
    using ok(4) y(2,3) by simp
  then have "\<forall>z \<in> snd ` set (omap_put c y (consumers b)). readPointer z = 0 \<and> consumerStatus z = Some (replicate N True)"
    using snd_image_omap_put [of c y "consumers b"] by (meson subsetD)
  then show ?thesis using assms ok(1,2) by (simp add: pristine_def y(1))
qed

lemma pristine_registerAll:
  "pristine cs N b \<Longrightarrow> pristine (set ks \<union> cs) N (fold (\<lambda>c. registerConsumer c p) ks b)"
proof (induction ks arbitrary: cs b)
  case Nil
  then show ?case by simp
next
  case (Cons k ks)
  then show ?case using Cons.IH [OF pristine_register [OF Cons.prems, of k p]] by simp
qed

lemma pristine_reset:
  assumes "ring_rel cs N b ws R"
  shows "pristine cs N (resetRing b)"
proof -
  have "omap_ok (consumers (resetRing b)) = omap_ok (consumers b)"
    unfolding resetRing_def by (simp add: omap_ok_map)
  then show ?thesis
    using assms by (auto simp: pristine_def ring_rel_def resetRing_def image_image split_def)
qed

section \<open>Properties\<close>



text \<open>
  A write is refused exactly when some consumer, of whatever priority, is a whole ring behind; it
  then changes nothing, but with debug output enabled its message reads \<open>isFree(-1)\<close>, which is
  undefined behaviour.
\<close>

theorem ring_full:
  assumes "ring_rel cs N b ws R"
  shows "((\<exists>b' i. writeRing dbg x b = Some (b', Some i)) \<longleftrightarrow> (\<forall>c \<in> cs. length ws < R c + N)) \<and>
    ((\<forall>c \<in> cs. length ws < R c + N) \<or> writeRing dbg x b = (if dbg then None else Some (b, None)))"
proof (cases "\<forall>c \<in> cs. length ws < R c + N")
  case True
  then show ?thesis using write_accepted [OF assms True, of dbg x] by auto
next
  case False
  then show ?thesis using write_full [OF assms False, of dbg x] by (cases dbg) auto
qed

theorem ring_full_witness:
  "\<exists>b' i. writeRing True (1::nat, False) (registerConsumer ''a'' LowConsumerPriority (newRing 0 True ''p'' 2)) =
     Some (b', Some i)"
proof -
  have "ring_rel {''a''} 2 (registerConsumer ''a'' LowConsumerPriority (newRing (0::nat) True ''p'' 2)) [] (\<lambda>_. 0)"
    by (rule pristine_rel [OF pristine_register [OF pristine_new]]) simp_all
  from ring_full [OF this, of True "(1, False)"] show ?thesis by simp
qed

text \<open>
  \<open>reset\<close> starts over: the consumers stay registered, and the ring behaves as one just constructed.
\<close>

theorem ring_reset:
  assumes "ring_rel cs N b ws R"
  shows "ring_rel cs N (resetRing b) [] (\<lambda>_. 0)"
  using assms pristine_rel [OF pristine_reset [OF assms]] by (simp add: ring_rel_def)

theorem ring_reset_witness:
  "ring_rel {''a''} 2 (resetRing (registerConsumer ''a'' LowConsumerPriority (newRing (0::nat) True ''p'' 2))) [] (\<lambda>_. 0)"
  by (rule ring_reset [OF pristine_rel [OF pristine_register [OF pristine_new]]]) simp_all

end
