(* ===== verification/TableVersions.thy ===== *)
theory TableVersions
  imports SoapMessages
begin

text \<open>
  \<open>TableCore/TableVersion.cc\<close> and \<open>TableCore/TableGroupKey.cc\<close>: the identifiers of table versions
  and of table groups, 32-bit values with reserved ranges, their text forms and the full name of a
  group. A constructor that parses text leaves the member as it was in memory when there is no number
  (\<open>mem\<close>).
\<close>

unbundle bit_operations_syntax

section \<open>\<open>sscanf\<close>\<close>

text \<open>
  \<open>sscanf(s, "%u", &v)\<close>: blanks, a sign and digits, converted as by \<open>strtoul\<close> (saturating at 64 bits)
  and stored in the width of \<open>v\<close>, 32 bits here and 64 bits for \<open>%lu\<close>; \<^term>\<open>None\<close> when there is no number. A C string ends at its first NUL.
\<close>

definition c_str :: "string \<Rightarrow> string" where
  "c_str s = takeWhile (\<lambda>c. c \<noteq> CHR 0x00) s"

definition scan_unsigned :: "string \<Rightarrow> 'a::len word option" where
  "scan_unsigned s0 =
     (let s = dropWhile isspace s0;
          neg = (s \<noteq> [] \<and> hd s = CHR ''-'');
          ds = takeWhile is_digit (if s \<noteq> [] \<and> (hd s = CHR ''-'' \<or> hd s = CHR ''+'') then tl s else s);
          v = digits_value 10 ds
      in if ds = [] then None
         else if 2 ^ 64 \<le> v then Some (- 1)
         else Some (word_of_int (if neg then - v else v)))"

section \<open>\<open>TableVersion\<close>\<close>

definition INVALID :: u32 where "INVALID = - 1"
definition DEFAULT :: u32 where "DEFAULT = 0"
definition SCRATCH :: u32 where "SCRATCH = NOT (push_bit 31 1)"
definition NUM_OF_TEMP_VERSIONS :: u32 where "NUM_OF_TEMP_VERSIONS = 10000"

definition isTemporaryVersion :: "u32 \<Rightarrow> bool" where
  "isTemporaryVersion v \<longleftrightarrow> INVALID - NUM_OF_TEMP_VERSIONS \<le> v \<and> v \<noteq> INVALID"

definition isInvalid :: "u32 \<Rightarrow> bool" where
  "isInvalid v \<longleftrightarrow> v = INVALID \<or> (SCRATCH < v \<and> v < INVALID - NUM_OF_TEMP_VERSIONS)"

definition isScratchVersion :: "u32 \<Rightarrow> bool" where
  "isScratchVersion v \<longleftrightarrow> v = SCRATCH"

definition isMockupVersion :: "u32 \<Rightarrow> bool" where
  "isMockupVersion v \<longleftrightarrow> v = INVALID"

definition version_toString :: "u32 \<Rightarrow> string" where
  "version_toString v = (if isTemporaryVersion v \<or> isInvalid v then int_to_string v else to_string (unat v))"

text \<open>The constructor from text; a null pointer is \<^term>\<open>None\<close>.\<close>

definition parseVersion :: "u32 \<Rightarrow> string option \<Rightarrow> u32" where
  "parseVersion mem s =
     (case s of
        None \<Rightarrow> INVALID
      | Some t \<Rightarrow> (case scan_unsigned (c_str t) of None \<Rightarrow> mem | Some v \<Rightarrow> v))"

definition getNextVersion :: "u32 \<Rightarrow> u32" where
  "getNextVersion v = (if \<not> isInvalid (v + 1) \<and> \<not> isTemporaryVersion (v + 1) then v + 1 else INVALID)"

definition getNextTemporaryVersion :: "u32 \<Rightarrow> u32" where
  "getNextTemporaryVersion v =
     (let r = (if isTemporaryVersion v then v - 1 else INVALID - 1)
      in if isTemporaryVersion r then r else INVALID)"

text \<open>\<open>operator<<\<close>.\<close>

definition showVersion :: "u32 \<Rightarrow> string" where
  "showVersion v =
     (if isScratchVersion v then ''ScratchVersion'' else if isMockupVersion v then ''Mock-up''
      else if isInvalid v then ''InvalidVersion'' else version_toString v)"

section \<open>\<open>TableGroupKey\<close>\<close>

definition keyChar :: "char \<Rightarrow> bool" where
  "keyChar c \<longleftrightarrow> is_digit c \<or> c = CHR ''-'' \<or> c = CHR ''_'' \<or> c = CHR ''.''"

definition key_isInvalid :: "u32 \<Rightarrow> bool" where
  "key_isInvalid k \<longleftrightarrow> k = INVALID"

definition key_toString :: "u32 \<Rightarrow> string" where
  "key_toString k = (if key_isInvalid k then int_to_string k else to_string (unat k))"

text \<open>The constructor from text: the trailing key characters are parsed; there may be none.\<close>

definition parseKey :: "u32 \<Rightarrow> string option \<Rightarrow> u32" where
  "parseKey mem s =
     (case s of
        None \<Rightarrow> INVALID
      | Some t \<Rightarrow>
          let ks = rev (takeWhile keyChar (rev (c_str t)))
          in if ks = [] then DEFAULT
             else (case scan_unsigned ks of None \<Rightarrow> mem | Some v \<Rightarrow> v))"

definition getNextKey :: "u32 \<Rightarrow> u32" where
  "getNextKey k = k + 1"

text \<open>\<open>getFullGroupString\<close>; the message of the exception names the reason.\<close>

definition getFullGroupString :: "string \<Rightarrow> string \<Rightarrow> u32 \<Rightarrow> string \<Rightarrow> string \<Rightarrow> exn + string" where
  "getFullGroupString ss groupName key preKey postKey =
     (if length groupName = 0 then
        Inl (RuntimeError (ss @ ''TableGroupKey::getFullGroupString() Illegal Group Name! The Group Name was not provided.'' @ endl))
      else if length groupName = 1 then
        Inl (RuntimeError (ss @ ''TableGroupKey::getFullGroupString() Illegal Group Name! The Group Name is too short: ''
          @ dq @ groupName @ dq @ endl))
      else if \<not> list_all is_alnum groupName then
        Inl (RuntimeError (ss @ ''TableGroupKey::getFullGroupString() Illegal Group Name! Group Name must be alpha-numeric: ''
          @ dq @ groupName @ dq @ endl))
      else Inr (groupName @ preKey @ to_string (unat key) @ postKey))"

text \<open>
  \<open>getGroupNameAndKey\<close>: \<open>i\<close> is where the last \<open>_v\<close> starts. Without one, \<open>npos + 2\<close> is 1: the whole
  text is the name and the text after its first character is parsed as the key; for the empty text
  \<open>substr(1)\<close> throws.
\<close>

definition rfind_v :: "string \<Rightarrow> nat option" where
  "rfind_v s = (let is = filter (\<lambda>i. take 2 (drop i s) = ''_v'') [0..<length s]
                in if is = [] then None else Some (last is))"

definition getGroupNameAndKey :: "u32 \<Rightarrow> string \<Rightarrow> exn + (string \<times> u32)" where
  "getGroupNameAndKey mem full =
     (case rfind_v full of
        None \<Rightarrow> if full = [] then Inl (StdException ''basic_string::substr'')
                else Inr (full, parseKey mem (Some (drop 1 full)))
      | Some i \<Rightarrow> Inr (take i full, parseKey mem (Some (drop (i + 2) full))))"

section \<open>Lemmas\<close>

lemma constants:
  "INVALID = 0xFFFFFFFF" "SCRATCH = 0x7FFFFFFF" "INVALID - NUM_OF_TEMP_VERSIONS = 0xFFFFD8EF"
  by (simp_all add: INVALID_def SCRATCH_def NUM_OF_TEMP_VERSIONS_def)

lemma class_nat:
  "isInvalid v \<longleftrightarrow> unat v = 0xFFFFFFFF \<or> (0x7FFFFFFF < unat v \<and> unat v < 0xFFFFD8EF)"
  "isTemporaryVersion v \<longleftrightarrow> 0xFFFFD8EF \<le> unat v \<and> unat v \<noteq> 0xFFFFFFFF"
  by (simp_all add: isInvalid_def isTemporaryVersion_def constants NUM_OF_TEMP_VERSIONS_def word_less_nat_alt
      word_le_nat_alt word_unat_eq_iff)

lemma unat_bound32: "unat (v :: u32) < 0x100000000"
proof -
  have "unat v < 2 ^ LENGTH(32)" by (rule unsigned_less)
  then show ?thesis by simp
qed

lemma c_str_to_string: "c_str (to_string n) = to_string n"
proof -
  have "\<forall>c \<in> set (to_string n). c \<noteq> CHR 0x00"
  proof
    fix c assume "c \<in> set (to_string n)"
    then have "is_digit c" using to_string_chars by blast
    then show "c \<noteq> CHR 0x00" by (rule contrapos_pn) (simp add: is_digit_def less_eq_char_def)
  qed
  then show ?thesis by (simp add: c_str_def takeWhile_eq_all_conv)
qed

lemma c_str_int_to_string: "c_str (int_to_string v) = int_to_string v"
  using c_str_to_string by (simp add: int_to_string_def c_str_def)

lemma scan_digits:
  assumes "n < 2 ^ 64"
  shows "scan_unsigned (to_string n) = Some (of_nat n)"
proof -
  have h: "hd (to_string n) \<noteq> CHR ''-''" "hd (to_string n) \<noteq> CHR ''+''"
    using to_string_chars [of n] to_string_nonempty [of n] by (cases "to_string n"; auto)+
  have "int n < 2 ^ 64" using assms by simp
  then show ?thesis
    using h to_string_nonempty [of n]
    by (simp add: scan_unsigned_def Let_def dropWhile_to_string takeWhile_to_string digits_value_to_string)
qed

lemma scan_negative:
  assumes "n < 2 ^ 64"
  shows "scan_unsigned (CHR ''-'' # to_string n) = Some (word_of_int (- int n))"
proof -
  have "int n < 2 ^ 64" using assms by simp
  then show ?thesis
    using to_string_nonempty [of n]
    by (simp add: scan_unsigned_def Let_def isspace_def takeWhile_to_string digits_value_to_string)
qed

lemma scan_int: "scan_unsigned (int_to_string v) = Some v"
proof -
  have b: "nat (- sint v) < 2 ^ 64" "nat (sint v) < 2 ^ 64"
    using sint_ge [of v] sint_lt [of v] by (auto simp: nat_less_iff)
  show ?thesis
  proof (cases "sint v < 0")
    case True
    then show ?thesis using scan_negative [OF b(1), where 'a = 32] by (simp add: int_to_string_def)
  next
    case False
    then show ?thesis using scan_digits [OF b(2), where 'a = 32] by (simp add: int_to_string_def)
  qed
qed

lemma scan_unat: "scan_unsigned (to_string (unat (v :: u32))) = Some v"
  using scan_digits [of "unat v", where 'a = 32] unat_bound32 [of v] by simp

section \<open>Properties of versions\<close>

text \<open>
  The classes of versions do not overlap and leave nothing out: a version is invalid, temporary,
  or an ordinary one up to the scratch version.
\<close>

theorem version_classes:
  "(isInvalid v \<or> isTemporaryVersion v \<or> v \<le> SCRATCH) \<and> \<not> (isInvalid v \<and> isTemporaryVersion v) \<and>
   \<not> (v \<le> SCRATCH \<and> (isInvalid v \<or> isTemporaryVersion v))"
  using unat_bound32 [of v] by (auto simp: class_nat constants word_le_nat_alt)

text \<open>The text of a version, negative for the reserved ranges, is parsed back to the version.\<close>

theorem version_roundtrip: "parseVersion mem (Some (version_toString v)) = v"
  by (simp add: parseVersion_def version_toString_def c_str_to_string c_str_int_to_string scan_int scan_unat)

lemma next_version: "getNextVersion v = (if unat (v + 1) \<le> 0x7FFFFFFF then v + 1 else INVALID)"
  using unat_bound32 [of "v + 1"] by (auto simp: getNextVersion_def class_nat)

lemma next_versions:
  "n \<le> 0x7FFFFFFF \<Longrightarrow> (getNextVersion ^^ Suc n) INVALID = of_nat n"
proof (induction n)
  case 0
  then show ?case by (simp add: next_version INVALID_def)
next
  case (Suc n)
  have "getNextVersion (of_nat n) = of_nat (Suc n)"
  proof -
    have "(of_nat n :: u32) + 1 = of_nat (Suc n)" by simp
    moreover have "unat (of_nat (Suc n) :: u32) = Suc n" using Suc.prems by (subst unat_of_nat) simp
    ultimately show ?thesis using Suc.prems by (simp only: next_version if_True)
  qed
  moreover have "(getNextVersion ^^ Suc (Suc n)) INVALID = getNextVersion ((getNextVersion ^^ Suc n) INVALID)"
    by simp
  ultimately show ?case using Suc.IH Suc.prems by (simp only: Suc_leD)
qed

lemma next_temporary:
  "getNextTemporaryVersion v =
     (if isTemporaryVersion v then (if 0xFFFFD8EF < unat v then v - 1 else INVALID) else INVALID - 1)"
proof -
  have "unat (v - 1) = unat v - 1" if "0 < unat v" using that by (intro unat_minus_one) auto
  then show ?thesis using unat_bound32 [of v]
    by (auto simp: getNextTemporaryVersion_def Let_def class_nat INVALID_def)
qed

text \<open>
  Versions are handed out without gaps: starting from nothing, the calls of \<open>getNextVersion\<close> give
  0, 1, 2 and so on up to the scratch version, after which there is none left.
\<close>

theorem getNextVersion_sequence:
  assumes "n \<le> 0x7FFFFFFF"
  shows "(getNextVersion ^^ Suc n) INVALID = of_nat n \<and> getNextVersion SCRATCH = INVALID"
proof -
  have "unat (SCRATCH + 1) = 0x80000000" by (simp add: constants)
  then have "getNextVersion SCRATCH = INVALID" by (simp add: next_version)
  then show ?thesis using next_versions [OF assms] by simp
qed

theorem getNextVersion_sequence_witness:
  "(getNextVersion ^^ Suc 2) INVALID = of_nat 2 \<and> getNextVersion SCRATCH = INVALID"
  by (rule getNextVersion_sequence) simp

lemma temporary_value:
  assumes "n \<le> 10000"
  shows "unat (INVALID - of_nat n) = 0xFFFFFFFF - n"
proof -
  have "unat (of_nat n :: u32) = n" using assms by (simp add: unat_of_nat)
  moreover have "unat INVALID = 0xFFFFFFFF" by (simp add: constants)
  ultimately have "(of_nat n :: u32) \<le> INVALID" using assms by (simp only: word_le_nat_alt)
  then show ?thesis using \<open>unat (of_nat n :: u32) = n\<close> by (simp add: unat_sub constants)
qed

lemma temporaries:
  "n < 10000 \<Longrightarrow> (getNextTemporaryVersion ^^ Suc n) INVALID = INVALID - of_nat (Suc n)"
proof (induction n)
  case 0
  then show ?case by (simp add: next_temporary class_nat constants)
next
  case (Suc n)
  let ?v = "INVALID - of_nat (Suc n)"
  have v: "unat ?v = 0xFFFFFFFF - Suc n" using temporary_value [of "Suc n"] Suc.prems by simp
  have "0xFFFFD8EF < unat ?v" "unat ?v \<noteq> 0xFFFFFFFF" using v Suc.prems by linarith+
  then have "getNextTemporaryVersion ?v = ?v - 1" by (simp only: next_temporary class_nat) simp
  moreover have "(getNextTemporaryVersion ^^ Suc n) INVALID = ?v" using Suc.IH Suc.prems by simp
  ultimately have "(getNextTemporaryVersion ^^ Suc (Suc n)) INVALID = ?v - 1" by simp
  also have "?v - 1 = INVALID - of_nat (Suc (Suc n))" by simp
  finally show ?case .
qed

text \<open>
  Temporary versions are handed out downwards from \<open>INVALID\<close>, ten thousand different ones, all
  temporary; then there is none left.
\<close>

theorem getNextTemporaryVersion_sequence:
  assumes "n < 10000"
  shows "(getNextTemporaryVersion ^^ Suc n) INVALID = INVALID - of_nat (Suc n) \<and>
    isTemporaryVersion (INVALID - of_nat (Suc n)) \<and>
    getNextTemporaryVersion ((getNextTemporaryVersion ^^ 10000) INVALID) = INVALID"
proof -
  have "getNextTemporaryVersion (INVALID - of_nat 10000) = INVALID"
    using temporary_value [of 10000] by (simp add: next_temporary class_nat)
  moreover have "(getNextTemporaryVersion ^^ 10000) INVALID = INVALID - of_nat 10000"
    using temporaries [of 9999] by (simp only: less_eq_Suc_le) simp
  moreover have "isTemporaryVersion (INVALID - of_nat (Suc n))"
  proof -
    have "unat (INVALID - of_nat (Suc n)) = 0xFFFFFFFF - Suc n" using temporary_value [of "Suc n"] assms by simp
    then have "0xFFFFD8EF \<le> unat (INVALID - of_nat (Suc n))" "unat (INVALID - of_nat (Suc n)) \<noteq> 0xFFFFFFFF"
      using assms by linarith+
    then show ?thesis by (simp only: class_nat simp_thms)
  qed
  ultimately show ?thesis using temporaries [OF assms] by simp
qed

theorem getNextTemporaryVersion_sequence_witness:
  "(getNextTemporaryVersion ^^ Suc 1) INVALID = INVALID - of_nat (Suc 1) \<and>
    isTemporaryVersion (INVALID - of_nat (Suc 1)) \<and>
    getNextTemporaryVersion ((getNextTemporaryVersion ^^ 10000) INVALID) = INVALID"
  by (rule getNextTemporaryVersion_sequence) simp

section \<open>Properties of group keys\<close>

lemma rfind_v_unique:
  assumes "k < length s" "take 2 (drop k s) = ''_v''"
    "\<And>i. \<lbrakk>i < length s; take 2 (drop i s) = ''_v''\<rbrakk> \<Longrightarrow> i = k"
  shows "rfind_v s = Some k"
proof -
  let ?l = "filter (\<lambda>i. take 2 (drop i s) = ''_v'') [0..<length s]"
  have "k \<in> set ?l" using assms(1,2) by simp
  then have "?l \<noteq> []" by (metis empty_iff list.set(1))
  moreover from this have "last ?l = k" using last_in_set [of ?l] assms(3) by simp
  ultimately show ?thesis by (simp add: rfind_v_def)
qed

lemma alnum_not: "is_alnum c \<Longrightarrow> c \<noteq> CHR ''_''"
  by (auto simp: is_alnum_def less_eq_char_def)

lemma to_string_not: "c \<in> set (to_string n) \<Longrightarrow> c \<noteq> CHR ''_''"
proof -
  assume "c \<in> set (to_string n)"
  then have "is_digit c" using to_string_chars by blast
  then show "c \<noteq> CHR ''_''" by (rule contrapos_pn) (simp add: is_digit_def less_eq_char_def)
qed

lemma rfind_v_full:
  assumes "\<forall>c \<in> set name. c \<noteq> CHR ''_''" "\<forall>c \<in> set ds. c \<noteq> CHR ''_''"
  shows "rfind_v (name @ ''_v'' @ ds) = Some (length name)"
proof (rule rfind_v_unique)
  fix i assume i: "i < length (name @ ''_v'' @ ds)" "take 2 (drop i (name @ ''_v'' @ ds)) = ''_v''"
  then have "(name @ ''_v'' @ ds) ! i = CHR ''_''"
    by (metis hd_drop_conv_nth list.sel(1) hd_take zero_less_numeral)
  then show "i = length name"
    using assms i(1) by (auto simp: nth_append nth_Cons' split: if_splits)
qed simp_all

lemma parseKey_to_string: "parseKey mem (Some (to_string (unat k))) = k"
proof -
  have "\<forall>c \<in> set (to_string (unat k)). keyChar c"
    using to_string_chars by (auto simp: keyChar_def)
  then have "rev (takeWhile keyChar (rev (to_string (unat k)))) = to_string (unat k)"
    by (metis rev_rev_ident set_rev takeWhile_eq_all_conv)
  then show ?thesis
    using to_string_nonempty [of "unat k"] by (simp add: parseKey_def c_str_to_string scan_unat Let_def)
qed

text \<open>
  C36. The full name of a group, \<open>name_v\<close> and the key, is taken apart again into the name and the key,
  for every legal name and every key.
\<close>

theorem group_roundtrip:
  assumes "2 \<le> length name" "list_all is_alnum name"
  shows "\<exists>full. getFullGroupString ss name key ''_v'' [] = Inr full \<and> getGroupNameAndKey mem full = Inr (name, key)"
proof -
  have "rfind_v (name @ ''_v'' @ to_string (unat key)) = Some (length name)"
    using assms(2) to_string_not alnum_not
    by (intro rfind_v_full) (auto simp only: list_all_iff)
  then show ?thesis
    using assms parseKey_to_string [of mem key]
    by (auto simp: getFullGroupString_def getGroupNameAndKey_def)
qed

theorem group_roundtrip_witness:
  "\<exists>full. getFullGroupString [] ''vTrack3'' 17 ''_v'' [] = Inr full \<and> getGroupNameAndKey 0 full = Inr (''vTrack3'', 17)"
  by (rule group_roundtrip) (simp_all add: is_alnum_def less_eq_char_def)

end
