(* ===== verification/WildCards.thy ===== *)
theory WildCards
  imports Prelude
begin

text \<open>
  The wildcard matching of \<open>otsdaq/Macros/StringMacros.cc\<close> and \<open>.icc\<close>: \<open>wildCardMatch\<close> with its
  match priorities, \<open>inWildCardSet\<close> and \<open>getWildCardMatchFromMap\<close>. Group and table filters,
  icon permissions and access rules all go through these three functions. The iterative matcher
  with its single backtracking point is proved equivalent to the recursive meaning of a pattern.
\<close>

section \<open>Model\<close>

abbreviation star :: char where
  "star \<equiv> CHR ''*''"

text \<open>
  The generic matching loop of \<open>wildCardMatch\<close> and the loop that skips the trailing stars. The
  pair of \<open>lastStarPattern\<close> and \<open>lastStarTextPos\<close> is \<^term>\<open>None\<close> while both are \<open>npos\<close>.
\<close>

function wildLoop ::
  "string \<Rightarrow> string \<Rightarrow> nat \<Rightarrow> nat \<Rightarrow> (nat \<times> nat) option \<Rightarrow> nat option" where
  "wildLoop needle haystack patternPos textPos lastStar =
     (if textPos < length haystack then
        if patternPos < length needle \<and> needle ! patternPos = haystack ! textPos then
          wildLoop needle haystack (Suc patternPos) (Suc textPos) lastStar
        else if patternPos < length needle \<and> needle ! patternPos = star then
          wildLoop needle haystack (Suc patternPos) textPos (Some (patternPos, textPos))
        else
          (case lastStar of
             Some (sp, st) \<Rightarrow>
               wildLoop needle haystack (Suc sp) (Suc st) (Some (sp, Suc st))
           | None \<Rightarrow> None)
      else Some patternPos)"
  by pat_completeness auto
termination
  by (relation "measures
      [\<lambda>(nd, hs, p, t, ls). (case ls of None \<Rightarrow> Suc (length hs)
          | Some (sp, st) \<Rightarrow> if st \<le> t then length hs - st else Suc (length hs)),
       \<lambda>(nd, hs, p, t, ls). length hs - t,
       \<lambda>(nd, hs, p, t, ls). length nd - p]")
     (auto split: option.splits if_splits)

declare wildLoop.simps [simp del]

function skipStars :: "string \<Rightarrow> nat \<Rightarrow> nat" where
  "skipStars needle patternPos =
     (if patternPos < length needle \<and> needle ! patternPos = star
      then skipStars needle (Suc patternPos) else patternPos)"
  by pat_completeness auto
termination
  by (relation "measure (\<lambda>(nd, p). length nd - p)") auto

declare skipStars.simps [simp del]

text \<open>
  The whole function: the result and the priority it writes through \<open>priorityIndex\<close>. The
  \<open>std::out_of_range\<close> that \<open>haystack.substr\<close> can throw in the leading-wildcard test is caught
  by the function's handler, which answers ``no match''.
\<close>

definition wildCardMatch :: "string \<Rightarrow> string \<Rightarrow> bool \<times> nat" where
  "wildCardMatch needle haystack =
     (if needle = [] then (True, 1)
      else if needle = ''*'' then (True, 5)
      else if needle = haystack then (True, 1)
      else if star \<notin> set needle then (False, 0)
      else if last needle = star \<and>
              substr needle 0 (length needle - 1) = substr haystack 0 (length needle - 1)
        then (True, 2)
      else
        let generic =
          (case wildLoop needle haystack 0 0 None of
             None \<Rightarrow> (False, 0)
           | Some p \<Rightarrow> if skipStars needle p = length needle then (True, 4) else (False, 0))
        in if hd needle = star then
             (case substr_from haystack (size_sub (length haystack) (length needle - 1)) of
                None \<Rightarrow> (False, 0)
              | Some s \<Rightarrow> if drop 1 needle = s then (True, 3) else generic)
           else generic)"

text \<open>\<open>inWildCardSet\<close>: the set members carry the wildcards; a leading \<open>!\<close> inverts one.\<close>

definition inWildCardSet :: "string \<Rightarrow> string list \<Rightarrow> bool" where
  "inWildCardSet needle haystack =
     list_ex (\<lambda>h. if h \<noteq> [] \<and> hd h = CHR ''!''
                  then \<not> fst (wildCardMatch (drop 1 h) needle)
                  else fst (wildCardMatch h needle)) haystack"

datatype wildcard_error = EmptyHaystack | NeedleNotFound

text \<open>
  \<open>getWildCardMatchFromMap\<close>: one pass over the map in key order; priority 1 returns at once,
  otherwise the first key with the smallest priority wins.
\<close>

fun wildBest ::
  "string \<Rightarrow> (string \<times> 'v) list \<Rightarrow> (nat \<times> string \<times> 'v) option
    \<Rightarrow> (nat \<times> string \<times> 'v) option" where
  "wildBest needle [] best = best"
| "wildBest needle ((k, v) # m) best =
     (case wildCardMatch k needle of
        (False, _) \<Rightarrow> wildBest needle m best
      | (True, prio) \<Rightarrow>
          if prio = 1 then Some (1, k, v)
          else if (case best of None \<Rightarrow> True | Some (b, _) \<Rightarrow> prio < b)
          then wildBest needle m (Some (prio, k, v))
          else wildBest needle m best)"

definition getWildCardMatchFromMap ::
  "string \<Rightarrow> (string, 'v) omap \<Rightarrow> wildcard_error + string \<times> 'v" where
  "getWildCardMatchFromMap needle haystack =
     (if haystack = [] then Inl EmptyHaystack
      else (case wildBest needle haystack None of
              None \<Rightarrow> Inl NeedleNotFound
            | Some (_, k, v) \<Rightarrow> Inr (k, v)))"

section \<open>The meaning of a pattern\<close>

text \<open>Specification: \<open>*\<close> stands for any sequence, every other character for itself.\<close>

fun glob :: "string \<Rightarrow> string \<Rightarrow> bool" where
  "glob [] ts = (ts = [])"
| "glob (p # ps) [] = (p = star \<and> glob ps [])"
| "glob (p # ps) (t # ts) =
     (if p = star then glob ps (t # ts) \<or> glob (p # ps) ts else p = t \<and> glob ps ts)"

lemma glob_star_Cons: "glob (star # ps) ts \<longleftrightarrow> (\<exists>k \<le> length ts. glob ps (drop k ts))"
proof (induction ts)
  case Nil
  then show ?case by simp
next
  case (Cons t ts)
  have "(\<exists>k \<le> Suc n. P k) \<longleftrightarrow> P 0 \<or> (\<exists>k \<le> n. P (Suc k))" for n :: nat and P
    by (metis Suc_le_mono le0 not0_implies_Suc)
  then show ?case using Cons by simp
qed

lemma glob_literal_append:
  "star \<notin> set s \<Longrightarrow> glob (s @ ps) ts \<longleftrightarrow> take (length s) ts = s \<and> glob ps (drop (length s) ts)"
proof (induction s arbitrary: ts)
  case Nil
  then show ?case by simp
next
  case (Cons c s)
  then show ?case by (cases ts) auto
qed

lemma glob_literal: "star \<notin> set s \<Longrightarrow> glob s ts \<longleftrightarrow> s = ts"
  using glob_literal_append [of s "[]" ts]
  by (auto simp: drop_eq_Nil2)

lemma glob_Nil_iff: "glob ps [] \<longleftrightarrow> (\<forall>c \<in> set ps. c = star)"
  by (induction ps) auto

lemma glob_star_append: "glob (star # s) ts" if "star \<notin> set s" "ts = us @ s" for s ts us
proof -
  have "glob s (drop (length us) ts)" using that by (simp add: glob_literal)
  then show ?thesis using that(2) by (subst glob_star_Cons) (metis length_append le_add1)
qed

section \<open>The loop computes the meaning\<close>

text \<open>
  Loop invariant: since the last star (pattern position \<open>sp\<close>, text position \<open>st\<close>) only literal
  characters were matched, one for one.
\<close>

definition wild_inv :: "string \<Rightarrow> string \<Rightarrow> nat \<Rightarrow> nat \<Rightarrow> (nat \<times> nat) option \<Rightarrow> bool" where
  "wild_inv nd hs p t ls \<longleftrightarrow>
     p \<le> length nd \<and> t \<le> length hs \<and> star \<notin> set hs \<and>
     (case ls of None \<Rightarrow> True
      | Some (sp, st) \<Rightarrow>
          sp < p \<and> st \<le> t \<and> p - Suc sp = t - st \<and>
          take (t - st) (drop (Suc sp) nd) = take (t - st) (drop st hs))"

text \<open>What the loop still has to decide: a match from here, or from a later resumption point.\<close>

definition wild_goal :: "string \<Rightarrow> string \<Rightarrow> nat \<Rightarrow> nat \<Rightarrow> (nat \<times> nat) option \<Rightarrow> bool" where
  "wild_goal nd hs p t ls \<longleftrightarrow>
     glob (drop p nd) (drop t hs) \<or>
     (case ls of None \<Rightarrow> False
      | Some (sp, st) \<Rightarrow>
          (\<exists>k. st < k \<and> k \<le> length hs \<and> glob (drop (Suc sp) nd) (drop k hs)))"

lemma drop_split_segment:
  "take n (drop a xs) @ drop (a + n) xs = drop a xs"
  by (metis append_take_drop_id drop_drop add.commute)

lemma segment_no_star:
  "star \<notin> set hs \<Longrightarrow> star \<notin> set (take n (drop a hs))"
  by (meson in_set_dropD in_set_takeD)

text \<open>A later resumption point cannot match when the text is used up.\<close>

lemma wild_resume_end:
  assumes "wild_inv nd hs p t (Some (sp, st))" "t = length hs" "st < k" "k \<le> length hs"
  shows "\<not> glob (drop (Suc sp) nd) (drop k hs)"
proof
  let ?seg = "take (t - st) (drop st hs)"
  assume g: "glob (drop (Suc sp) nd) (drop k hs)"
  have "drop (Suc sp) nd = ?seg @ drop (Suc sp + (t - st)) nd"
    using assms(1) drop_split_segment [of "t - st" "Suc sp" nd] by (simp add: wild_inv_def)
  then have "take (length ?seg) (drop k hs) = ?seg"
    using g glob_literal_append [OF segment_no_star] assms(1) by (simp add: wild_inv_def)
  then have "length ?seg \<le> length hs - k" by (metis length_take length_drop min.cobounded1)
  then show False using assms by (simp add: wild_inv_def)
qed

text \<open>A match from a later resumption point that passes through a new star is also found there.\<close>

lemma wild_resume_star:
  assumes inv: "wild_inv nd hs p t (Some (sp, st))" and p: "p < length nd" "nd ! p = star"
    and k: "st < k" "k \<le> length hs" and g: "glob (drop (Suc sp) nd) (drop k hs)"
  shows "glob (drop p nd) (drop t hs)"
proof -
  let ?seg = "take (t - st) (drop st hs)"
  have len: "length ?seg = t - st" and pe: "Suc sp + (t - st) = p"
    using inv by (auto simp: wild_inv_def)
  have dp: "drop p nd = star # drop (Suc p) nd" using p by (metis Cons_nth_drop_Suc)
  have "drop (Suc sp) nd = ?seg @ drop p nd"
    using inv drop_split_segment [of "t - st" "Suc sp" nd] pe by (simp add: wild_inv_def)
  then have g': "take (t - st) (drop k hs) = ?seg" "glob (drop p nd) (drop (t - st) (drop k hs))"
    using g glob_literal_append [OF segment_no_star] inv len by (auto simp: wild_inv_def)
  have "t - st \<le> length hs - k"
    using arg_cong [OF g'(1), of length] len by (simp add: min_def split: if_splits)
  then have kt: "k + (t - st) \<le> length hs" "t \<le> k + (t - st)"
    using k inv by (auto simp: wild_inv_def)
  obtain j where j: "glob (drop (Suc p) nd) (drop j (drop (k + (t - st)) hs))"
      "j \<le> length hs - (k + (t - st))"
    using g'(2) unfolding dp glob_star_Cons by (auto simp: add.commute)
  define i where "i = j + (k + (t - st)) - t"
  have i: "i + t = j + (k + (t - st))" "i \<le> length hs - t"
    unfolding i_def using kt j(2) by linarith+
  have "glob (drop (Suc p) nd) (drop i (drop t hs))"
    using j(1) i(1) by (simp add: drop_drop)
  then show ?thesis unfolding dp glob_star_Cons using i(2) by (intro exI [of _ i]) simp
qed

lemma wild_inv_literal:
  assumes "wild_inv nd hs p t ls" "t < length hs" "p < length nd" "nd ! p = hs ! t"
  shows "wild_inv nd hs (Suc p) (Suc t) ls"
proof (cases ls)
  case None
  then show ?thesis using assms by (simp add: wild_inv_def)
next
  case (Some a)
  then obtain sp st where ls: "ls = Some (sp, st)" by (cases a) auto
  have "Suc sp + (t - st) = p" "st + (t - st) = t"
    using assms(1) by (auto simp: wild_inv_def ls)
  then have "drop (Suc sp) nd ! (t - st) = drop st hs ! (t - st)" using assms by simp
  then show ?thesis
    using assms by (auto simp: wild_inv_def ls Suc_diff_le take_Suc_conv_app_nth)
qed

lemma wild_goal_literal:
  assumes "wild_inv nd hs p t ls" "t < length hs" "p < length nd" "nd ! p = hs ! t"
  shows "wild_goal nd hs p t ls \<longleftrightarrow> wild_goal nd hs (Suc p) (Suc t) ls"
proof -
  have "hs ! t \<in> set hs" using assms(2) by simp
  then have "hs ! t \<noteq> star" using assms(1) by (auto simp: wild_inv_def)
  then have "glob (drop p nd) (drop t hs) \<longleftrightarrow> glob (drop (Suc p) nd) (drop (Suc t) hs)"
    using assms(2-4) by (simp flip: Cons_nth_drop_Suc)
  then show ?thesis by (simp add: wild_goal_def)
qed

lemma wild_goal_star:
  assumes "wild_inv nd hs p t ls" "t < length hs" "p < length nd" "nd ! p = star"
  shows "wild_goal nd hs p t ls \<longleftrightarrow> wild_goal nd hs (Suc p) t (Some (p, t))"
proof -
  have dp: "drop p nd = star # drop (Suc p) nd" using assms(3,4) by (metis Cons_nth_drop_Suc)
  have old: "wild_goal nd hs p t ls \<longleftrightarrow> glob (drop p nd) (drop t hs)"
    using wild_resume_star assms by (fastforce simp: wild_goal_def split: option.splits)
  have "glob (drop p nd) (drop t hs) \<longleftrightarrow>
      (\<exists>j \<le> length hs - t. glob (drop (Suc p) nd) (drop (t + j) hs))"
    unfolding dp glob_star_Cons by (simp add: add.commute)
  also have "\<dots> \<longleftrightarrow> (\<exists>k. t \<le> k \<and> k \<le> length hs \<and> glob (drop (Suc p) nd) (drop k hs))"
    using assms(2) by (metis add_le_cancel_left le_add1 le_add_diff_inverse less_imp_le)
  also have "\<dots> \<longleftrightarrow> wild_goal nd hs (Suc p) t (Some (p, t))"
    using assms(2) by (auto simp: wild_goal_def le_less)
  finally show ?thesis using old by simp
qed

lemma wild_goal_mismatch:
  assumes "t < length hs" "\<not> (p < length nd \<and> nd ! p = hs ! t)"
    "\<not> (p < length nd \<and> nd ! p = star)"
  shows "\<not> glob (drop p nd) (drop t hs)"
proof (cases "p < length nd")
  case True
  then show ?thesis using assms by (simp flip: Cons_nth_drop_Suc)
next
  case False
  then show ?thesis using assms by simp
qed

lemma wild_goal_resume:
  assumes "\<not> glob (drop p nd) (drop t hs)" "st < length hs"
  shows "wild_goal nd hs p t (Some (sp, st)) \<longleftrightarrow>
         wild_goal nd hs (Suc sp) (Suc st) (Some (sp, Suc st))"
proof -
  let ?g = "\<lambda>k. glob (drop (Suc sp) nd) (drop k hs)"
  have "(\<exists>k. st < k \<and> k \<le> length hs \<and> ?g k) \<longleftrightarrow>
        ?g (Suc st) \<or> (\<exists>k. Suc st < k \<and> k \<le> length hs \<and> ?g k)"
    using assms(2) by (metis Suc_lessD Suc_lessI Suc_leI lessI)
  then show ?thesis using assms(1) by (simp add: wild_goal_def)
qed

lemma skipStars_end:
  "p \<le> length nd \<Longrightarrow> skipStars nd p = length nd \<longleftrightarrow> glob (drop p nd) []"
proof (induction nd p rule: skipStars.induct)
  case (1 nd p)
  show ?case
  proof (cases "p < length nd")
    case True
    then show ?thesis
      using 1 by (subst skipStars.simps) (auto simp flip: Cons_nth_drop_Suc)
  next
    case False
    then show ?thesis using 1 by (subst skipStars.simps) simp
  qed
qed

theorem wildLoop_correct:
  assumes "wild_inv nd hs p t ls"
  shows "(case wildLoop nd hs p t ls of None \<Rightarrow> False | Some q \<Rightarrow> skipStars nd q = length nd)
           \<longleftrightarrow> wild_goal nd hs p t ls"
  using assms
proof (induction nd hs p t ls rule: wildLoop.induct)
  case (1 nd hs p t ls)
  let ?lit = "p < length nd \<and> nd ! p = hs ! t" and ?st = "p < length nd \<and> nd ! p = star"
  consider (fin) "t = length hs" | (lit) "t < length hs" "?lit"
    | (st) "t < length hs" "\<not> ?lit" "?st"
    | (resume) "t < length hs" "\<not> ?lit" "\<not> ?st" "ls \<noteq> None"
    | (none) "t < length hs" "\<not> ?lit" "\<not> ?st" "ls = None"
    using "1.prems" unfolding wild_inv_def by (meson le_neq_implies_less)
  then show ?case
  proof cases
    case fin
    have "wild_goal nd hs p t ls \<longleftrightarrow> glob (drop p nd) []"
      using wild_resume_end "1.prems" fin by (auto simp: wild_goal_def split: option.splits)
    then show ?thesis
      using fin "1.prems" skipStars_end [of p nd]
      by (subst wildLoop.simps) (simp add: wild_inv_def)
  next
    case lit
    have "wild_inv nd hs (Suc p) (Suc t) ls" using wild_inv_literal [OF "1.prems"] lit by simp
    then show ?thesis
      using "1.IH"(1) lit wild_goal_literal [OF "1.prems"] by (subst wildLoop.simps) simp
  next
    case st
    have "wild_inv nd hs (Suc p) t (Some (p, t))" using "1.prems" st by (simp add: wild_inv_def)
    then show ?thesis
      using "1.IH"(2) st wild_goal_star [OF "1.prems"] by (subst wildLoop.simps) simp
  next
    case resume
    then obtain sp st where ls: "ls = Some (sp, st)" by auto
    have "wild_inv nd hs (Suc sp) (Suc st) (Some (sp, Suc st))"
      using "1.prems" resume ls by (simp add: wild_inv_def)
    moreover have "wild_goal nd hs p t ls \<longleftrightarrow> wild_goal nd hs (Suc sp) (Suc st) (Some (sp, Suc st))"
      using wild_goal_resume [of p nd t hs st sp] wild_goal_mismatch [OF resume(1-3)] resume ls
        "1.prems" by (auto simp: wild_inv_def)
    ultimately show ?thesis
      using "1.IH"(3) resume ls by (subst wildLoop.simps) auto
  next
    case none
    then show ?thesis
      using wild_goal_mismatch [OF none(1-3)] by (subst wildLoop.simps) (auto simp: wild_goal_def)
  qed
qed

section \<open>Properties\<close>

lemma wildCardMatch_pos:
  "fst (wildCardMatch nd hs) \<Longrightarrow> 0 < snd (wildCardMatch nd hs)"
  by (auto simp: wildCardMatch_def Let_def split: option.splits if_splits)

lemma wildCardMatch_generic:
  assumes "star \<notin> set hs"
  shows "(case wildLoop nd hs 0 0 None of None \<Rightarrow> (False, 0 :: nat)
          | Some p \<Rightarrow> if skipStars nd p = length nd then (True, 4) else (False, 0))
         = (if glob nd hs then (True, 4) else (False, 0))"
  using wildLoop_correct [of nd hs 0 0 None] assms
  by (auto simp: wild_inv_def wild_goal_def split: option.splits)

lemma trailing_star_split:
  "nd \<noteq> [] \<Longrightarrow> last nd = star \<Longrightarrow> nd = substr nd 0 (length nd - 1) @ [star]"
  by (metis append_butlast_last_id butlast_conv_take drop0 substr_def)

lemma glob_trailing:
  assumes "star \<notin> set hs" "nd \<noteq> []" "last nd = star"
    "substr nd 0 (length nd - 1) = substr hs 0 (length nd - 1)"
  shows "glob nd hs" and "hd nd = star \<Longrightarrow> nd = [star]"
proof -
  let ?p = "substr hs 0 (length nd - 1)"
  have nd: "nd = ?p @ [star]" using trailing_star_split [of nd] assms by simp
  have ns: "star \<notin> set ?p" using assms(1) by (auto simp: substr_def dest: in_set_takeD)
  have "length ?p = length nd - 1" using arg_cong [OF nd, of length] by simp
  then have "take (length ?p) hs = ?p" by (simp add: substr_def)
  moreover have "glob [star] (drop (length ?p) hs)"
    by (subst glob_star_Cons) (auto intro: exI [of _ "length hs - length ?p"])
  ultimately have "glob (?p @ [star]) hs" using glob_literal_append [OF ns] by simp
  then show "glob nd hs" using nd by simp
  show "nd = [star]" if "hd nd = star"
    using nd ns that by (cases ?p) auto
qed

text \<open>
  C34. For a text that itself holds no star, \<open>wildCardMatch\<close> answers true exactly when the needle is
  empty, is the lone star, or matches the text with \<open>*\<close> standing for any sequence, except that a
  needle with a leading star and more than one character beyond the text's length is refused (the
  leading-wildcard test throws \<open>std::out_of_range\<close> and the handler answers false).
\<close>

theorem wildCardMatch_iff:
  assumes "star \<notin> set haystack"
  shows "fst (wildCardMatch needle haystack) \<longleftrightarrow>
           needle = [] \<or> needle = ''*'' \<or>
           (glob needle haystack \<and>
            \<not> (hd needle = star \<and> length haystack + 1 < length needle))"
proof -
  note gen = wildCardMatch_generic [OF assms, of needle]
  let ?trail = "last needle = star \<and>
      substr needle 0 (length needle - 1) = substr haystack 0 (length needle - 1)"
  consider (triv) "needle = [] \<or> needle = ''*'' \<or> needle = haystack"
    | (plain) "needle \<noteq> []" "needle \<noteq> ''*''" "needle \<noteq> haystack" "star \<notin> set needle"
    | (trail) "needle \<noteq> []" "needle \<noteq> ''*''" "needle \<noteq> haystack" "star \<in> set needle" "?trail"
    | (lead) "needle \<noteq> []" "needle \<noteq> ''*''" "needle \<noteq> haystack" "star \<in> set needle" "\<not> ?trail"
        "hd needle = star"
    | (gener) "needle \<noteq> []" "needle \<noteq> ''*''" "needle \<noteq> haystack" "star \<in> set needle" "\<not> ?trail"
        "hd needle \<noteq> star"
    by blast
  then show ?thesis
  proof cases
    case triv
    have "needle = haystack \<Longrightarrow> glob needle haystack" using assms by (simp add: glob_literal)
    moreover have "needle = haystack \<Longrightarrow> needle \<noteq> [] \<Longrightarrow> hd needle \<noteq> star"
      using assms by (metis hd_in_set)
    ultimately show ?thesis using triv by (auto simp: wildCardMatch_def)
  next
    case plain
    then show ?thesis by (simp add: wildCardMatch_def glob_literal)
  next
    case trail
    then show ?thesis using glob_trailing [OF assms] by (auto simp: wildCardMatch_def)
  next
    case lead
    obtain s where nd: "needle = star # s" using lead by (cases needle) auto
    have "glob needle haystack" if "drop (length haystack - length s) haystack = s"
    proof -
      have "haystack = take (length haystack - length s) haystack @ s"
        using that by (metis append_take_drop_id)
      moreover from this have "star \<notin> set s" using assms by (metis Un_iff set_append)
      ultimately show ?thesis unfolding nd by (rule glob_star_append [rotated])
    qed
    then show ?thesis
      using lead nd gen by (auto simp: wildCardMatch_def substr_from_def size_sub_def split: if_splits)
  next
    case gener
    then show ?thesis using gen by (simp add: wildCardMatch_def)
  qed
qed

theorem wildCardMatch_iff_witness:
  "fst (wildCardMatch ''Run*A*'' ''Run12A7'') \<and> \<not> fst (wildCardMatch ''*a*'' ''a'')"
proof -
  have "fst (wildCardMatch ''Run*A*'' ''Run12A7'')"
    by (subst wildCardMatch_iff) simp_all
  moreover have "\<not> fst (wildCardMatch ''*a*'' ''a'')"
    by (subst wildCardMatch_iff) simp_all
  ultimately show ?thesis by simp
qed

text \<open>
  The reported priority is 0 exactly for a mismatch, lies between 0 and 5, and is 1 exactly for
  an empty needle or an exact match other than the lone star.
\<close>

theorem wildCardMatch_priority:
  "(fst (wildCardMatch nd hs) \<longleftrightarrow> snd (wildCardMatch nd hs) \<noteq> 0) \<and>
   snd (wildCardMatch nd hs) \<le> 5 \<and>
   (snd (wildCardMatch nd hs) = 1 \<longleftrightarrow> nd = [] \<or> (nd = hs \<and> nd \<noteq> ''*''))"
  by (auto simp: wildCardMatch_def Let_def split: option.splits)

lemma wildBest_None:
  "wildBest nd m best = None \<longleftrightarrow> best = None \<and> (\<forall>k \<in> fst ` set m. \<not> fst (wildCardMatch k nd))"
  by (induction nd m best rule: wildBest.induct)
     (auto split: prod.splits bool.splits option.splits)

lemma wildBest_member:
  "wildBest nd m best = Some (b, k, v) \<Longrightarrow>
     best = Some (b, k, v) \<or> ((k, v) \<in> set m \<and> wildCardMatch k nd = (True, b))"
  by (induction nd m best rule: wildBest.induct)
     (auto split: prod.splits bool.splits if_splits)

lemma wildBest_improves:
  "wildBest nd m best = Some (b, k, v) \<Longrightarrow> best = Some (b', k', v') \<Longrightarrow> 0 < b' \<Longrightarrow> b \<le> b'"
proof (induction nd m best arbitrary: b' k' v' rule: wildBest.induct)
  case (1 nd best)
  then show ?case by simp
next
  case (2 nd k0 v0 m best)
  have "0 < p" if "wildCardMatch k0 nd = (True, p)" for p
    using that wildCardMatch_pos [of k0 nd] by simp
  with 2 show ?case
    by (fastforce split: prod.splits bool.splits if_splits)
qed

lemma wildBest_minimal:
  "wildBest nd m best = Some (b, k, v) \<Longrightarrow> (k', v') \<in> set m \<Longrightarrow> fst (wildCardMatch k' nd) \<Longrightarrow>
     (\<And>b0 k0 v0. best = Some (b0, k0, v0) \<Longrightarrow> 0 < b0) \<Longrightarrow> b \<le> snd (wildCardMatch k' nd)"
proof (induction nd m best rule: wildBest.induct)
  case (1 nd best)
  then show ?case by simp
next
  case (2 nd k0 v0 m best)
  obtain f prio where w: "wildCardMatch k0 nd = (f, prio)" by fastforce
  have pos: "fst (wildCardMatch k' nd) \<Longrightarrow> 0 < snd (wildCardMatch k' nd)" for k'
    by (simp add: wildCardMatch_pos)
  let ?better = "case best of None \<Rightarrow> True | Some (b, _) \<Rightarrow> prio < b"
  consider (no) "\<not> f" | (one) "f" "prio = 1" | (better) "f" "prio \<noteq> 1" "?better"
    | (keep) "f" "prio \<noteq> 1" "\<not> ?better" by blast
  then show ?case
  proof cases
    case no
    then show ?thesis using 2 w by auto
  next
    case one
    then have "b = 1" using "2.prems"(1) w by simp
    then show ?thesis using pos [OF "2.prems"(3)] by simp
  next
    case better
    then have r: "wildBest nd m (Some (prio, k0, v0)) = Some (b, k, v)" "0 < prio"
      using "2.prems"(1) w pos [of k0] by simp_all
    have "b \<le> prio" by (rule wildBest_improves [OF r(1) refl r(2)])
    then show ?thesis using "2.IH"(1) [OF _ _ _ _ r(1)] "2.prems" w better r(2) by auto
  next
    case keep
    then have r: "wildBest nd m best = Some (b, k, v)" using "2.prems"(1) w by simp
    obtain b0 k1 v1 where best: "best = Some (b0, k1, v1)" "b0 \<le> prio"
      using keep(3) by (auto split: option.splits)
    have "b \<le> b0" using wildBest_improves [OF r best(1)] "2.prems"(4) best(1) by simp
    moreover have "b \<le> snd (wildCardMatch k' nd)" if "(k', v') \<in> set m"
      by (rule "2.IH"(2) [OF w [symmetric] _ _ _ r that "2.prems"(3,4)]) (use keep in simp_all)
    ultimately show ?thesis using "2.prems"(2) w best(2) by auto
  qed
qed

text \<open>
  \<open>getWildCardMatchFromMap\<close> fails exactly when no key of the map matches the needle; otherwise it
  returns an entry of the map whose key matches with the smallest priority number of all matching
  keys, whatever the order of the keys.
\<close>

theorem getWildCardMatchFromMap_best:
  "(\<exists>e. getWildCardMatchFromMap nd m = Inl e)
     = (\<forall>k. k \<in> fst ` set m \<longrightarrow> \<not> fst (wildCardMatch k nd)) \<and>
   (\<forall>k v. getWildCardMatchFromMap nd m = Inr (k, v) \<longrightarrow>
      (k, v) \<in> set m \<and> fst (wildCardMatch k nd) \<and>
      (\<forall>k' v'. (k', v') \<in> set m \<and> fst (wildCardMatch k' nd) \<longrightarrow>
         snd (wildCardMatch k nd) \<le> snd (wildCardMatch k' nd)))"
proof -
  have "(\<exists>e. getWildCardMatchFromMap nd m = Inl e) \<longleftrightarrow> wildBest nd m None = None"
    by (auto simp: getWildCardMatchFromMap_def split: option.splits)
  then have 1: "(\<exists>e. getWildCardMatchFromMap nd m = Inl e)
     = (\<forall>k. k \<in> fst ` set m \<longrightarrow> \<not> fst (wildCardMatch k nd))"
    by (auto simp: wildBest_None)
  have 2: "(k, v) \<in> set m \<and> fst (wildCardMatch k nd) \<and>
      (\<forall>k' v'. (k', v') \<in> set m \<and> fst (wildCardMatch k' nd) \<longrightarrow>
         snd (wildCardMatch k nd) \<le> snd (wildCardMatch k' nd))"
    if g: "getWildCardMatchFromMap nd m = Inr (k, v)" for k v
  proof -
    obtain b where w: "wildBest nd m None = Some (b, k, v)"
      using g by (auto simp: getWildCardMatchFromMap_def split: option.splits if_splits)
    have m: "(k, v) \<in> set m" "wildCardMatch k nd = (True, b)" using wildBest_member [OF w] by auto
    show ?thesis using m wildBest_minimal [OF w] by auto
  qed
  show ?thesis using 1 2 by blast
qed

theorem getWildCardMatchFromMap_best_witness:
  "snd (wildCardMatch ''Ru*'' ''Run7'') \<le> snd (wildCardMatch ''*'' ''Run7'')"
proof -
  let ?m = "[(''*'', 1 :: nat), (''Ru*'', 2)]"
  have "getWildCardMatchFromMap ''Run7'' ?m = Inr (''Ru*'', 2)"
    by (simp add: getWildCardMatchFromMap_def wildCardMatch_def substr_def)
  moreover have "fst (wildCardMatch ''*'' ''Run7'')" by (simp add: wildCardMatch_def)
  ultimately show ?thesis
    using getWildCardMatchFromMap_best [of "''Run7''" ?m] by (metis list.set_intros(1))
qed

text \<open>
  Inverted entries of a wildcard set: a set holding \<open>p\<close> and \<open>!p\<close> accepts every needle.
\<close>

theorem inWildCardSet_inverted:
  assumes "p \<in> set hs" "CHR ''!'' # p \<in> set hs" "p = [] \<or> hd p \<noteq> CHR ''!''"
  shows "inWildCardSet nd hs"
proof (cases "fst (wildCardMatch p nd)")
  case True
  then show ?thesis unfolding inWildCardSet_def list_ex_iff
    by (intro bexI [OF _ assms(1)]) (use assms(3) in auto)
next
  case False
  then show ?thesis unfolding inWildCardSet_def list_ex_iff
    by (intro bexI [OF _ assms(2)]) simp
qed

theorem inWildCardSet_inverted_witness:
  "inWildCardSet ''anything'' [''!a*'', ''a*'']"
  by (rule inWildCardSet_inverted [of "''a*''"]) simp_all

end
