(* ===== verification/MapStrings.thy ===== *)
theory MapStrings
  imports Numbers "HOL-Library.Signed_Division"
begin

text \<open>
  \<open>otsdaq/Macros/StringMacros.cc\<close> and \<open>.icc\<close>: the substitution of environment and system variables
  and of arithmetic expressions in text, and maps written as text, as the user database holds its
  permissions.
\<close>

section \<open>\<open>getNumber<int64_t>\<close>\<close>

text \<open>
  The arithmetic of the signed instance: division truncates; an operation whose result does not fit
  is undefined behaviour, reported as \<^term>\<open>DivisionError\<close> like the division by zero.
\<close>

definition in_int64 :: "int \<Rightarrow> bool" where
  "in_int64 v \<longleftrightarrow> - (2 ^ 63) \<le> v \<and> v < 2 ^ 63"

definition applyOpInt :: "char \<Rightarrow> int \<Rightarrow> int \<Rightarrow> int option" where
  "applyOpInt op a b =
     (let r = (if op = CHR ''+'' then Some (a + b)
               else if op = CHR ''-'' then Some (a - b)
               else if op = CHR ''*'' then Some (a * b)
               else if b = 0 then None else Some (a sdiv b))
      in Option.bind r (\<lambda>v. if in_int64 v then Some v else None))"

fun evalLoopInt :: "bool \<Rightarrow> int \<Rightarrow> string list \<Rightarrow> char list \<Rightarrow> int num_result" where
  "evalLoopInt first acc [] ops = Number acc"
| "evalLoopInt first acc (n # ns) ops =
     (if n = [] then evalLoopInt first acc ns ops
      else if \<not> operandOk n then NotANumber acc
      else
        let tmp = convertOperand n in
        if first then evalLoopInt False tmp ns ops
        else (case ops of
                [] \<Rightarrow> OpsOutOfRange
              | op # ops' \<Rightarrow>
                  (case applyOpInt op acc tmp of
                     None \<Rightarrow> DivisionError
                   | Some v \<Rightarrow> evalLoopInt False v ns ops')))"

definition getNumberInt :: "string \<Rightarrow> int num_result" where
  "getNumberInt s =
     (let (numbers, ops) = mathOperands s; (numbers', ops') = foldUnary numbers ops
      in evalLoopInt True 0 numbers' ops')"

definition int64_to_string :: "int \<Rightarrow> string" where
  "int64_to_string v = (if v < 0 then CHR ''-'' # to_string (nat (- v)) else to_string (nat v))"

section \<open>Variables in text\<close>

text \<open>
  What \<open>convertEnvironmentVariables\<close> reads: the environment of the process and
  \<open>StringMacros::systemVariables_\<close>.
\<close>

record variables =
  getenv :: "string \<Rightarrow> string option"
  systemVariables :: "string \<Rightarrow> (string \<Rightarrow> string option) option"

datatype env_error =
    MissingClosing string | NotArithmetic string | UndefinedArithmetic string
  | UnknownSystemVariable string | UnsetVariable string | NonNumeric string

text \<open>\<open>s.replace(pos, len, t)\<close> with \<open>pos\<close> in range; \<open>len\<close> is cut at the end.\<close>

definition replace_at :: "string \<Rightarrow> nat \<Rightarrow> nat \<Rightarrow> string \<Rightarrow> string" where
  "replace_at s pos len t = take pos s @ t @ drop (pos + len) s"

text \<open>
  Drop the backslash of every escaped dollar sign up to the first one that is not escaped, whose
  position in the shortened text is returned; \<^term>\<open>None\<close> when there is none.
\<close>

function unescapeDollars :: "string \<Rightarrow> nat \<Rightarrow> string \<times> nat option" where
  "unescapeDollars converted begin =
     (if begin \<noteq> 0 \<and> begin \<le> length converted \<and> converted ! (begin - 1) = CHR 0x5C then
        (let c = replace_at converted (begin - 1) 1 []
         in case find_from ''$'' c (begin + 1) of
              None \<Rightarrow> (c, None)
            | Some b \<Rightarrow> unescapeDollars c b)
      else (converted, Some begin))"
  by pat_completeness auto
termination
proof (relation "measure (\<lambda>(c, b). length c - b)", goal_cases)
  case 1
  show ?case by simp
next
  case (2 converted "begin" x b)
  then have "begin + 1 \<le> b" "b + 1 \<le> length x" "length x = length converted - 1"
    using find_from_bounds [of "''$''" x "begin + 1" b] by (auto simp: replace_at_def)
  then show ?case using 2 by auto
qed

declare unescapeDollars.simps [simp del]

definition name_char :: "char \<Rightarrow> bool" where
  "name_char c \<longleftrightarrow> is_alnum c \<or> c = CHR ''-'' \<or> c = CHR ''_'' \<or> c = CHR ''.'' \<or> c = CHR '':''"

text \<open>
  The variable that starts at the dollar sign at \<open>begin\<close>: whether it is in braces, its name, and the
  number of characters it takes. Without a closing brace everything to the end is the name.
\<close>

definition variableAt :: "string \<Rightarrow> nat \<Rightarrow> bool \<times> string \<times> nat" where
  "variableAt data begin =
     (if begin + 1 < length data \<and> data ! (begin + 1) = CHR ''{'' then
        (case find_from ''}'' data (begin + 2) of
           None \<Rightarrow> (True, drop (begin + 2) data, length data)
         | Some e \<Rightarrow> (True, substr data (begin + 2) (e - begin - 2), e + 1 - begin))
      else
        (let name = takeWhile name_char (drop (begin + 1) data)
         in (False, name, length name + 1)))"

definition systemVariable :: "variables \<Rightarrow> string \<Rightarrow> string option" where
  "systemVariable vs name =
     (case getVectorFromString (\<lambda>c. c = CHR ''.'') blank False name of
        Some ([_, v, p], _) \<Rightarrow> Option.bind (systemVariables vs v) (\<lambda>ps. ps p)
      | _ \<Rightarrow> None)"

definition variableValue :: "variables \<Rightarrow> bool \<Rightarrow> string \<Rightarrow> env_error + string" where
  "variableValue vs braces name =
     (if braces \<and> take 4 name = ''OTS.'' then
        (case systemVariable vs name of None \<Rightarrow> Inl (UnknownSystemVariable name) | Some t \<Rightarrow> Inr t)
      else (case getenv vs name of None \<Rightarrow> Inl (UnsetVariable name) | Some t \<Rightarrow> Inr t))"

text \<open>
  \<open>convertEnvironmentVariables\<close>: \<^term>\<open>None\<close> when it does not return, which happens when a variable's
  value mentions the variable. The text after the dollar sign is looked up in \<open>data\<close>, but the
  replacement is made in the copy \<open>converted\<close> from which the escaping backslashes are gone.
\<close>

partial_function (option) convertEnvironmentVariables ::
  "variables \<Rightarrow> string \<Rightarrow> (env_error + string) option" where
  "convertEnvironmentVariables vs data =
     (case findp ''$'' data of
        None \<Rightarrow> Some (Inr data)
      | Some b0 \<Rightarrow>
          if \<not> b0 + 1 < length data then Some (Inr data)
          else
            (case unescapeDollars data b0 of
               (converted, None) \<Rightarrow> Some (Inr converted)
             | (converted, Some begin) \<Rightarrow>
                 if begin + 2 < length data \<and> data ! (begin + 1) = CHR ''('' \<and>
                    data ! (begin + 2) = CHR ''('' then
                   (case find_from ''))'' data (begin + 3) of
                      None \<Rightarrow> Some (Inl (MissingClosing data))
                    | Some e \<Rightarrow>
                        Option.bind (convertEnvironmentVariables vs
                                       (substr data (begin + 3) (e - begin - 3)))
                          (\<lambda>r. case r of
                             Inl x \<Rightarrow> Some (Inl x)
                           | Inr expression \<Rightarrow>
                               (case getNumberInt expression of
                                  Number v \<Rightarrow>
                                    convertEnvironmentVariables vs
                                      (replace_at converted begin (e - begin + 2) (int64_to_string v))
                                | NotANumber _ \<Rightarrow> Some (Inl (NotArithmetic data))
                                | _ \<Rightarrow> Some (Inl (UndefinedArithmetic data)))))
                 else
                   (let (braces, name, len) = variableAt data begin
                    in case variableValue vs braces name of
                         Inl x \<Rightarrow> Some (Inl x)
                       | Inr value \<Rightarrow>
                           convertEnvironmentVariables vs (replace_at converted begin len value))))"

section \<open>Maps as text\<close>

text \<open>
  \<open>getMapFromString\<close>: the state of its loop, which reads a name, then a value, and so on. A value is
  converted by \<open>validate\<close>; a repeated name keeps its first value (\<open>std::map::emplace\<close>).
\<close>

record 'v map_state =
  mp_i :: nat
  mp_name :: string
  mp_needValue :: bool
  mp_map :: "(string, 'v) omap"

definition pair_delimiter :: "char \<Rightarrow> bool" where
  "pair_delimiter c \<longleftrightarrow> c \<in> set '',|&''"

definition value_delimiter :: "char \<Rightarrow> bool" where
  "value_delimiter c \<longleftrightarrow> c \<in> set ''=:''"

definition emplace :: "string \<Rightarrow> 'v \<Rightarrow> (string, 'v) omap \<Rightarrow> (string, 'v) omap" where
  "emplace k v m = (if omap_get m k = None then omap_put k v m else m)"

definition takeValue ::
  "(string \<Rightarrow> (env_error + 'v) option) \<Rightarrow> string \<Rightarrow> nat \<Rightarrow> 'v map_state
    \<Rightarrow> (env_error + 'v map_state) option" where
  "takeValue validate s j st =
     (case validate (substr s (mp_i st) (j - mp_i st)) of
        None \<Rightarrow> None
      | Some (Inl x) \<Rightarrow> Some (Inl x)
      | Some (Inr v) \<Rightarrow>
          Some (Inr (st\<lparr>mp_map := emplace (mp_name st) v (mp_map st), mp_needValue := False, mp_i := j + 1\<rparr>)))"

definition mapStep ::
  "(string \<Rightarrow> (env_error + 'v) option) \<Rightarrow> string \<Rightarrow> nat \<Rightarrow> 'v map_state
    \<Rightarrow> (env_error + 'v map_state) option" where
  "mapStep validate s j st =
     (let c = s ! j in
      if \<not> mp_needValue st then
        if (blank c \<or> pair_delimiter c) \<and> mp_i st = j then Some (Inr (st\<lparr>mp_i := mp_i st + 1\<rparr>))
        else if (blank c \<or> value_delimiter c) \<and> mp_i st \<noteq> j then
          Some (Inr (st\<lparr>mp_name := substr s (mp_i st) (j - mp_i st), mp_needValue := True, mp_i := j + 1\<rparr>))
        else Some (Inr st)
      else
        if (blank c \<or> value_delimiter c) \<and> mp_i st = j then Some (Inr (st\<lparr>mp_i := mp_i st + 1\<rparr>))
        else if blank c \<or> pair_delimiter c then takeValue validate s j st
        else Some (Inr st))"

fun mapLoop ::
  "(string \<Rightarrow> (env_error + 'v) option) \<Rightarrow> string \<Rightarrow> nat list \<Rightarrow> 'v map_state
    \<Rightarrow> (env_error + 'v map_state) option" where
  "mapLoop validate s [] st = Some (Inr st)"
| "mapLoop validate s (j # js) st =
     (case mapStep validate s j st of
        Some (Inr st1) \<Rightarrow> mapLoop validate s js st1
      | r \<Rightarrow> r)"

text \<open>
  The template for numbers takes a last value only when one is due (\<open>typed\<close>); the overload for strings
  takes whatever is left, with the name of the pair before.
\<close>

definition finishMap ::
  "bool \<Rightarrow> (string \<Rightarrow> (env_error + 'v) option) \<Rightarrow> string \<Rightarrow> 'v map_state
    \<Rightarrow> (env_error + 'v map_state) option" where
  "finishMap typed validate s st =
     (if (typed \<longrightarrow> mp_needValue st) \<and> mp_i st \<noteq> length s then takeValue validate s (length s) st
      else Some (Inr st))"

definition readMap ::
  "bool \<Rightarrow> (string \<Rightarrow> (env_error + 'v) option) \<Rightarrow> string \<Rightarrow> (string, 'v) omap
    \<Rightarrow> (env_error + (string, 'v) omap) option" where
  "readMap typed validate s m =
     (case mapLoop validate s [0..<length s] \<lparr>mp_i = 0, mp_name = [], mp_needValue = False, mp_map = m\<rparr> of
        Some (Inr st) \<Rightarrow> map_option (map_sum id mp_map) (finishMap typed validate s st)
      | Some (Inl x) \<Rightarrow> Some (Inl x)
      | None \<Rightarrow> None)"

text \<open>\<open>validateValueForDefaultStringDataType\<close>, for an unsigned type and for strings.\<close>

definition validateNumber :: "variables \<Rightarrow> string \<Rightarrow> (env_error + 'a::len word) option" where
  "validateNumber vs value =
     (case convertEnvironmentVariables vs value of
        None \<Rightarrow> None
      | Some (Inl x) \<Rightarrow> Some (Inl x)
      | Some (Inr data) \<Rightarrow>
          (case getNumber data of
             Number w \<Rightarrow> Some (Inr w)
           | NotANumber _ \<Rightarrow> Some (Inl (NonNumeric data))
           | _ \<Rightarrow> Some (Inl (UndefinedArithmetic data))))"

definition getNumberMap ::
  "variables \<Rightarrow> string \<Rightarrow> (string, 'a::len word) omap \<Rightarrow> (env_error + (string, 'a word) omap) option" where
  "getNumberMap vs s m = readMap True (validateNumber vs) s m"

definition getMapFromString ::
  "variables \<Rightarrow> string \<Rightarrow> (string, string) omap \<Rightarrow> (env_error + (string, string) omap) option" where
  "getMapFromString vs s m = readMap False (convertEnvironmentVariables vs) s m"

text \<open>\<open>mapToString\<close> of a map of bytes.\<close>

fun mapToString :: "string \<Rightarrow> string \<Rightarrow> (string, u8) omap \<Rightarrow> string" where
  "mapToString primary secondary [] = []"
| "mapToString primary secondary [(k, v)] = k @ secondary @ to_string (unat v)"
| "mapToString primary secondary ((k, v) # m) =
     k @ secondary @ to_string (unat v) @ primary @ mapToString primary secondary m"

section \<open>Lemmas\<close>

lemma convert_plain: "CHR ''$'' \<notin> set s \<Longrightarrow> convertEnvironmentVariables vs s = Some (Inr s)"
  by (subst convertEnvironmentVariables.simps) (simp add: findp_char_None)

lemma digits_no_dollar: "CHR ''$'' \<notin> set (to_string n)"
proof
  assume "CHR ''$'' \<in> set (to_string n)"
  then have "is_digit (CHR ''$'')" using to_string_digits by blast
  then show False by (simp add: is_digit_def less_eq_char_def)
qed

lemma validate_to_string:
  "n < 2 ^ 63 \<Longrightarrow> validateNumber vs (to_string n) = Some (Inr (of_nat n :: 'a::len word))"
  by (simp add: validateNumber_def convert_plain digits_no_dollar getNumber_to_string)

lemma validate_byte: "validateNumber vs (to_string (unat v)) = Some (Inr v)" for v :: u8
proof -
  have "unat v < 2 ^ LENGTH(8)" by (rule unsigned_less)
  then show ?thesis using validate_to_string [of "unat v" vs, where 'a = 8] by simp
qed

lemma mapLoop_append:
  "mapLoop v s (xs @ ys) st =
     (case mapLoop v s xs st of Some (Inr st1) \<Rightarrow> mapLoop v s ys st1 | r \<Rightarrow> r)"
proof (induction xs arbitrary: st)
  case Nil
  then show ?case by simp
next
  case (Cons j js)
  then show ?case by (simp split: option.splits sum.splits)
qed

definition word_char :: "char \<Rightarrow> bool" where
  "word_char c \<longleftrightarrow> \<not> blank c \<and> \<not> pair_delimiter c \<and> \<not> value_delimiter c"

lemma mapStep_word: "word_char (s ! j) \<Longrightarrow> mapStep v s j st = Some (Inr st)"
  by (simp add: mapStep_def word_char_def Let_def)

lemma mapLoop_word: "\<forall>j \<in> set js. word_char (s ! j) \<Longrightarrow> mapLoop v s js st = Some (Inr st)"
  by (induction js) (simp_all add: mapStep_word)

lemma word_char_suffix:
  "\<lbrakk>s = pre @ d; \<forall>c \<in> set d. word_char c\<rbrakk> \<Longrightarrow> \<forall>j \<in> set [length pre..<length s]. word_char (s ! j)"
  by (auto simp: nth_append)

lemma digit_word: "is_digit c \<Longrightarrow> word_char c"
  using digit_not(2)
  by (auto simp: word_char_def pair_delimiter_def value_delimiter_def is_digit_def less_eq_char_def)

text \<open>A name and its delimiter.\<close>

lemma mapLoop_name:
  assumes s: "s = pre @ k @ CHR '':'' # post" and k: "k \<noteq> []" "\<forall>c \<in> set k. word_char c"
  shows "mapLoop v s [length pre..<length pre + length k + 1]
      \<lparr>mp_i = length pre, mp_name = n, mp_needValue = False, mp_map = m\<rparr> =
    Some (Inr \<lparr>mp_i = length pre + length k + 1, mp_name = k, mp_needValue = True, mp_map = m\<rparr>)"
proof -
  have "\<forall>j \<in> set [length pre..<length pre + length k]. word_char (s ! j)"
    using k(2) by (auto simp: s nth_append)
  moreover have "s ! (length pre + length k) = CHR '':''" by (simp add: s nth_append)
  moreover have "[length pre..<length pre + length k + 1] = [length pre..<length pre + length k] @ [length pre + length k]"
    by simp
  ultimately show ?thesis
    using k(1) by (simp only: mapLoop_append mapLoop_word)
      (simp add: mapStep_def Let_def value_delimiter_def pair_delimiter_def blank_def substr_def s)
qed

text \<open>A value, up to the delimiter of the next pair.\<close>

lemma mapLoop_value:
  assumes s: "s = pre @ d @ CHR '','' # post" and d: "d \<noteq> []" "\<forall>c \<in> set d. word_char c"
    and v: "validate d = Some (Inr x)"
  shows "mapLoop validate s [length pre..<length pre + length d + 1]
      \<lparr>mp_i = length pre, mp_name = n, mp_needValue = True, mp_map = m\<rparr> =
    Some (Inr \<lparr>mp_i = length pre + length d + 1, mp_name = n, mp_needValue = False, mp_map = emplace n x m\<rparr>)"
proof -
  have "\<forall>j \<in> set [length pre..<length pre + length d]. word_char (s ! j)"
    using d(2) by (auto simp: s nth_append)
  moreover have "s ! (length pre + length d) = CHR '',''" by (simp add: s nth_append)
  moreover have "[length pre..<length pre + length d + 1] = [length pre..<length pre + length d] @ [length pre + length d]"
    by simp
  moreover have "substr s (length pre) (length d) = d" by (simp add: substr_def s)
  ultimately show ?thesis
    using d(1) v by (simp only: mapLoop_append mapLoop_word)
      (simp add: mapStep_def Let_def value_delimiter_def pair_delimiter_def blank_def takeValue_def)
qed

text \<open>The rest of the text, from the position \<open>js\<close> of the loop on.\<close>

definition readRest ::
  "bool \<Rightarrow> (string \<Rightarrow> (env_error + 'v) option) \<Rightarrow> string \<Rightarrow> nat list \<Rightarrow> 'v map_state
    \<Rightarrow> (env_error + (string, 'v) omap) option" where
  "readRest typed validate s js st =
     (case mapLoop validate s js st of
        Some (Inr st) \<Rightarrow> map_option (map_sum id mp_map) (finishMap typed validate s st)
      | Some (Inl x) \<Rightarrow> Some (Inl x)
      | None \<Rightarrow> None)"

lemma readMap_rest:
  "readMap typed validate s m =
     readRest typed validate s [0..<length s] \<lparr>mp_i = 0, mp_name = [], mp_needValue = False, mp_map = m\<rparr>"
  by (simp add: readMap_def readRest_def)

lemma readRest_append:
  "mapLoop validate s xs st = Some (Inr st1) \<Longrightarrow>
   readRest typed validate s (xs @ ys) st = readRest typed validate s ys st1"
  by (simp add: readRest_def mapLoop_append)

definition name_ok :: "string \<Rightarrow> bool" where
  "name_ok k \<longleftrightarrow> k \<noteq> [] \<and> list_all word_char k"

lemma emplace_last: "omap_ok (a @ (k, v) # m) \<Longrightarrow> emplace k v a = a @ [(k, v)]"
proof -
  assume ok: "omap_ok (a @ (k, v) # m)"
  then have lt: "\<forall>x \<in> fst ` set a. x < k" by (auto simp: omap_ok_def sorted_append less_le)
  then have "omap_get a k = None" by (auto simp: omap_get_None_iff)
  then show ?thesis using lt by (simp add: emplace_def omap_put_last)
qed

lemma readRest_pairs:
  assumes "m \<noteq> []" "\<forall>k \<in> fst ` set m. name_ok k" "omap_ok (a @ m)" "s = pre @ mapToString '','' '':'' m"
  shows "readRest True (validateNumber vs) s [length pre..<length s]
      \<lparr>mp_i = length pre, mp_name = n, mp_needValue = False, mp_map = a\<rparr> = Some (Inr (a @ m))"
  using assms
proof (induction m arbitrary: a pre n)
  case Nil
  then show ?case by simp
next
  case (Cons kv m)
  obtain k v where kv: "kv = (k, v)" by (cases kv)
  let ?d = "to_string (unat v)" and ?V = "validateNumber vs :: string \<Rightarrow> (env_error + u8) option"
  let ?i = "length pre + length k + 1"
  have k: "k \<noteq> []" "\<forall>c \<in> set k. word_char c"
    using Cons.prems(2) by (auto simp: kv name_ok_def list_all_iff)
  have d: "?d \<noteq> []" "\<forall>c \<in> set ?d. word_char c"
    using to_string_nonempty to_string_digits digit_word by blast+
  have e: "emplace k v a = a @ [(k, v)]" using emplace_last Cons.prems(3) by (simp add: kv)
  define tl where "tl = (if m = [] then [] else '','' @ mapToString '','' '':'' m)"
  have s: "s = pre @ k @ CHR '':'' # ?d @ tl"
    using Cons.prems(4) by (cases m) (auto simp: kv tl_def)
  have s': "s = (pre @ k @ '':'') @ ?d @ tl" using s by simp
  have i: "length (pre @ k @ '':'') = ?i" by simp
  have "[length pre..<length s] = [length pre..<?i] @ [?i..<length s]"
    by (rule upt_split) (auto simp: s)
  then have name: "readRest True ?V s [length pre..<length s]
      \<lparr>mp_i = length pre, mp_name = n, mp_needValue = False, mp_map = a\<rparr> =
    readRest True ?V s [?i..<length s] \<lparr>mp_i = ?i, mp_name = k, mp_needValue = True, mp_map = a\<rparr>"
    using readRest_append [OF mapLoop_name [OF s k]] by simp
  show ?case
  proof (cases "m = []")
    case True
    then have "\<forall>j \<in> set [?i..<length s]. word_char (s ! j)"
      using d(2) word_char_suffix [of s "pre @ k @ '':''" ?d] by (simp add: s' tl_def)
    moreover have "substr s ?i (length s - ?i) = ?d" using True by (simp add: s' tl_def substr_def)
    moreover have "?i \<noteq> length s" using d(1) by (simp add: s)
    ultimately show ?thesis
      unfolding name by (simp add: readRest_def mapLoop_word finishMap_def takeValue_def validate_byte e True kv)
  next
    case False
    then have t: "tl = CHR '','' # mapToString '','' '':'' m" by (simp add: tl_def)
    have s2: "s = (pre @ k @ '':'' @ ?d @ '','') @ mapToString '','' '':'' m" by (simp add: s t)
    have "[?i..<length s] = [?i..<?i + length ?d + 1] @ [?i + length ?d + 1..<length s]"
      by (rule upt_split) (auto simp: s t)
    then have "readRest True ?V s [?i..<length s]
        \<lparr>mp_i = ?i, mp_name = k, mp_needValue = True, mp_map = a\<rparr> =
      readRest True ?V s [?i + length ?d + 1..<length s]
        \<lparr>mp_i = ?i + length ?d + 1, mp_name = k, mp_needValue = False, mp_map = a @ [(k, v)]\<rparr>"
      using readRest_append [OF mapLoop_value [where validate = "validateNumber vs", OF s' [unfolded t] d validate_byte, unfolded i]]
      by (simp add: e)
    also have "\<dots> = Some (Inr ((a @ [(k, v)]) @ m))"
      using Cons.IH [OF False _ _ s2, of "a @ [(k, v)]" k] Cons.prems(2,3) by (simp add: kv add.assoc)
    finally show ?thesis unfolding name by (simp add: kv)
  qed
qed

text \<open>What is read is a well-formed map.\<close>

lemma emplace_ok: "omap_ok m \<Longrightarrow> omap_ok (emplace k v m)"
  by (simp add: emplace_def)

lemma takeValue_ok:
  "\<lbrakk>takeValue validate s j st = Some (Inr st'); omap_ok (mp_map st)\<rbrakk> \<Longrightarrow> omap_ok (mp_map st')"
  by (auto simp: takeValue_def emplace_ok split: option.splits sum.splits)

lemma mapStep_ok:
  "\<lbrakk>mapStep validate s j st = Some (Inr st'); omap_ok (mp_map st)\<rbrakk> \<Longrightarrow> omap_ok (mp_map st')"
  by (auto simp: mapStep_def Let_def dest: takeValue_ok split: if_splits)

lemma mapLoop_ok:
  "\<lbrakk>mapLoop validate s js st = Some (Inr st'); omap_ok (mp_map st)\<rbrakk> \<Longrightarrow> omap_ok (mp_map st')"
proof (induction js arbitrary: st)
  case Nil
  then show ?case by simp
next
  case (Cons j js)
  then obtain st1 where "mapStep validate s j st = Some (Inr st1)" "mapLoop validate s js st1 = Some (Inr st')"
    by (auto split: option.splits sum.splits)
  then show ?case using Cons.IH Cons.prems(2) mapStep_ok by blast
qed

lemma readMap_ok: "\<lbrakk>readMap typed validate s m = Some (Inr m'); omap_ok m\<rbrakk> \<Longrightarrow> omap_ok m'"
proof -
  assume r: "readMap typed validate s m = Some (Inr m')" and m: "omap_ok m"
  then obtain st st' where l: "mapLoop validate s [0..<length s]
        \<lparr>mp_i = 0, mp_name = [], mp_needValue = False, mp_map = m\<rparr> = Some (Inr st)"
      and f: "finishMap typed validate s st = Some (Inr st')" "m' = mp_map st'"
    by (auto simp: readMap_def split: option.splits sum.splits)
       (metis map_sum.simps(1) old.sum.exhaust sum.distinct(1) sum.inject(2) map_sum.simps(2))
  have "omap_ok (mp_map st)" using mapLoop_ok [OF l] m by simp
  then show ?thesis using f takeValue_ok by (auto simp: finishMap_def split: if_splits)
qed

lemma getNumberMap_ok: "getNumberMap vs s [] = Some (Inr m) \<Longrightarrow> omap_ok m"
  by (auto simp: getNumberMap_def dest: readMap_ok)

lemma permissions_text:
  assumes "omap_ok m" "\<forall>k \<in> fst ` set m. name_ok k"
  shows "getNumberMap vs (mapToString '','' '':'' m) [] = Some (Inr (m :: (string, u8) omap))"
proof (cases "m = []")
  case True
  then show ?thesis by (simp add: getNumberMap_def readMap_def finishMap_def)
next
  case False
  then show ?thesis
    using readRest_pairs [of m "[]" _ "[]" vs] assms by (simp add: getNumberMap_def readMap_rest)
qed

section \<open>Properties\<close>

text \<open>
  The text of a permission map, as the user database stores it, is read back as the same map, for
  all group names without blanks and delimiters and all levels.
\<close>

theorem permissions_text_roundtrip:
  assumes "omap_ok m" "\<forall>k \<in> fst ` set m. name_ok k"
  shows "getNumberMap vs (mapToString '','' '':'' m) [] = Some (Inr (m :: (string, u8) omap))"
  by (rule permissions_text [OF assms])

theorem permissions_text_roundtrip_witness:
  "getNumberMap \<lparr>getenv = Map.empty, systemVariables = Map.empty\<rparr> (mapToString '','' '':'' [(''allUsers'', 10), (''experts'', 255)]) [] =
     Some (Inr [(''allUsers'', 10 :: u8), (''experts'', 255)])"
  by (rule permissions_text_roundtrip)
     (simp_all add: omap_ok_def name_ok_def word_char_def blank_def pair_delimiter_def value_delimiter_def)

section \<open>When the substitution returns\<close>

abbreviation dollars :: "string \<Rightarrow> nat" where
  "dollars s \<equiv> count_list s (CHR ''$'')"

lemma dollars_drop: "dollars (drop n s) \<le> dollars s"
  by (metis append_take_drop_id count_list_append le_add2)

lemma dollars_take: "dollars (take n s) \<le> dollars s"
  by (metis append_take_drop_id count_list_append le_add1)

lemma dollars_drop_less: "\<lbrakk>i < length s; s ! i = CHR ''$''; i < n\<rbrakk> \<Longrightarrow> dollars (drop n s) < dollars s"
proof -
  assume i: "i < length s" "s ! i = CHR ''$''" "i < n"
  have "dollars s = dollars (take i s) + Suc (dollars (drop (Suc i) s))"
    using i by (subst id_take_nth_drop [of i s]) simp_all
  moreover have "drop n s = drop (n - Suc i) (drop (Suc i) s)" using i(3) by simp
  ultimately show ?thesis using dollars_drop [of "n - Suc i" "drop (Suc i) s"] by simp
qed

lemma dollars_replace:
  assumes "p < length c" "c ! p = CHR ''$''" "0 < len" "dollars t = 0"
  shows "dollars (replace_at c p len t) < dollars c"
proof -
  have "dollars c = dollars (take p c) + Suc (dollars (drop (Suc p) c))"
    using assms(1,2) by (subst id_take_nth_drop [of p c]) simp_all
  moreover have "drop (p + len) c = drop (len - 1) (drop (Suc p) c)"
    using assms(3) by (simp add: add.commute)
  ultimately show ?thesis
    using assms(4) dollars_drop [of "len - 1" "drop (Suc p) c"] by (simp add: replace_at_def)
qed

lemma find_from_at: "find_from [x] s pos = Some i \<Longrightarrow> i < length s \<and> s ! i = x"
proof -
  have "findp [x] s = Some i \<Longrightarrow> i < length s \<and> s ! i = x" for s i
    by (induction s arbitrary: i) (auto simp: cxx_simps split: if_splits)
  then show "find_from [x] s pos = Some i \<Longrightarrow> i < length s \<and> s ! i = x"
    by (fastforce simp: find_from_def split: if_splits)
qed

lemma unescape_dollar:
  assumes "unescapeDollars d b = (c, Some p)" "b < length d" "d ! b = CHR ''$''"
  shows "dollars c = dollars d \<and> b \<le> p \<and> p < length c \<and> c ! p = CHR ''$''"
  using assms
proof (induction d b rule: unescapeDollars.induct)
  case (1 d b)
  let ?c = "replace_at d (b - 1) 1 []"
  show ?case
  proof (cases "b \<noteq> 0 \<and> b \<le> length d \<and> d ! (b - 1) = CHR 0x5C")
    case True
    then obtain q where q: "find_from ''$'' ?c (b + 1) = Some q" "unescapeDollars ?c q = (c, Some p)"
      using "1.prems"(1) by (subst (asm) unescapeDollars.simps) (auto simp: Let_def split: option.splits)
    have c: "?c = take (b - 1) d @ drop b d" using True by (simp add: replace_at_def)
    have "dollars (take (b - 1) d @ CHR 0x5C # drop b d) = dollars ?c" unfolding c by simp
    moreover have "take (b - 1) d @ CHR 0x5C # drop b d = d"
      using True "1.prems"(2) id_take_nth_drop [of "b - 1" d] by simp
    ultimately have "dollars d = dollars ?c" by metis
    then show ?thesis
      using "1.IH" [OF True refl q(1) q(2)] find_from_at [OF q(1)] find_from_bounds [OF q(1)] by auto
  next
    case False
    then show ?thesis using "1.prems" by (subst (asm) unescapeDollars.simps) auto
  qed
qed

lemma variableAt_length: "variableAt d b = (braces, name, len) \<Longrightarrow> d \<noteq> [] \<Longrightarrow> 0 < len"
  using find_from_bounds [of "''}''" d "b + 2"]
  by (fastforce simp: variableAt_def Let_def split: if_splits option.splits)

text \<open>No value that is substituted mentions a variable.\<close>

definition closed_values :: "variables \<Rightarrow> bool" where
  "closed_values vs \<longleftrightarrow>
     (\<forall>n t. getenv vs n = Some t \<longrightarrow> dollars t = 0) \<and>
     (\<forall>v ps p t. systemVariables vs v = Some ps \<and> ps p = Some t \<longrightarrow> dollars t = 0)"

lemma variableValue_closed: "\<lbrakk>closed_values vs; variableValue vs braces name = Inr t\<rbrakk> \<Longrightarrow> dollars t = 0"
  by (auto simp: closed_values_def variableValue_def systemVariable_def Option.bind_eq_Some_conv
      split: if_splits option.splits list.splits)

lemma int64_to_string_dollars: "dollars (int64_to_string v) = 0"
  using digits_no_dollar by (auto simp: int64_to_string_def count_list_0_iff)

lemma convert_returns:
  "closed_values vs \<Longrightarrow> \<exists>r. convertEnvironmentVariables vs data = Some r"
proof (induction "dollars data" arbitrary: data rule: less_induct)
  case less
  show ?case
  proof (cases "findp ''$'' data")
    case None
    then show ?thesis by (subst convertEnvironmentVariables.simps) simp
  next
    case (Some b0)
    then have b0: "find_from ''$'' data 0 = Some b0" by (simp add: find_from_def)
    note at = find_from_at [OF b0]
    obtain c pp where u: "unescapeDollars data b0 = (c, pp)" by (cases "unescapeDollars data b0")
    show ?thesis
    proof (cases pp)
      case None
      then show ?thesis using Some u by (subst convertEnvironmentVariables.simps) simp
    next
      case (Some p)
      then have p: "dollars c = dollars data" "b0 \<le> p" "p < length c" "c ! p = CHR ''$''"
        using unescape_dollar u at by auto
      have rep: "\<exists>r. convertEnvironmentVariables vs (replace_at c p len t) = Some r"
        if "0 < len" "dollars t = 0" for len t
        using less.hyps less.prems dollars_replace [OF p(3,4) that] p(1) by simp
      have "\<exists>r. convertEnvironmentVariables vs (substr data (p + 3) n) = Some r" for n
      proof -
        have "dollars (substr data (p + 3) n) < dollars data"
          using dollars_drop_less [of b0 data "p + 3"] at p(2) dollars_take [of n "drop (p + 3) data"]
          unfolding substr_def by linarith
        then show ?thesis using less.hyps less.prems by blast
      qed
      note sub = this
      obtain braces name len where v: "variableAt data p = (braces, name, len)" by (cases "variableAt data p")
      have len: "0 < len" using variableAt_length [OF v] at by (cases data) auto
      have val: "dollars t = 0" if "variableValue vs braces name = Inr t" for t
        using variableValue_closed less.prems that by blast
      have num: "\<exists>r. Option.bind (convertEnvironmentVariables vs (substr data (p + 3) n)) (\<lambda>r. case r of
            Inl x \<Rightarrow> Some (Inl x)
          | Inr expression \<Rightarrow>
              (case getNumberInt expression of
                 Number v \<Rightarrow> convertEnvironmentVariables vs (replace_at c p (m + 2) (int64_to_string v))
               | NotANumber _ \<Rightarrow> Some (Inl (NotArithmetic data))
               | _ \<Rightarrow> Some (Inl (UndefinedArithmetic data)))) = Some r" for n m
      proof -
        obtain q where "convertEnvironmentVariables vs (substr data (p + 3) n) = Some q" using sub by blast
        then show ?thesis
          using rep [of "m + 2"] int64_to_string_dollars by (auto split: sum.splits num_result.splits)
      qed
      show ?thesis
        using \<open>findp ''$'' data = Some b0\<close> u Some v num rep [OF len val]
        by (subst convertEnvironmentVariables.simps) (auto split: option.splits sum.splits)
    qed
  qed
qed

lemma plain_variable:
  assumes "name \<noteq> []" "list_all name_char name"
  shows "unescapeDollars (CHR ''$'' # name) 0 = (CHR ''$'' # name, Some 0)"
    "name ! 0 \<noteq> CHR ''(''" "variableAt (CHR ''$'' # name) 0 = (False, name, Suc (length name))"
proof -
  show "unescapeDollars (CHR ''$'' # name) 0 = (CHR ''$'' # name, Some 0)"
    by (subst unescapeDollars.simps) simp
  have "hd name \<noteq> CHR ''{''" and h: "hd name \<noteq> CHR ''(''"
    using assms by (cases name; auto simp: name_char_def is_alnum_def less_eq_char_def)+
  moreover have tw: "takeWhile name_char name = name"
    using assms(2) by (simp add: list_all_iff takeWhile_eq_all_conv)
  ultimately show "name ! 0 \<noteq> CHR ''(''" "variableAt (CHR ''$'' # name) 0 = (False, name, Suc (length name))"
    using assms(1) by (simp_all add: variableAt_def hd_conv_nth Let_def tw)
qed

lemma own_mention_diverges:
  assumes "name \<noteq> []" "list_all name_char name" "getenv vs name = Some (CHR ''$'' # name)"
  shows "convertEnvironmentVariables vs (CHR ''$'' # name) = None"
proof (rule ccontr)
  assume "convertEnvironmentVariables vs (CHR ''$'' # name) \<noteq> None"
  then obtain y where "convertEnvironmentVariables vs (CHR ''$'' # name) = Some y" by auto
  then have "vs = vs \<longrightarrow> CHR ''$'' # name \<noteq> CHR ''$'' # name"
    by (rule convertEnvironmentVariables.raw_induct
          [where P = "\<lambda>vs' d y. vs' = vs \<longrightarrow> d \<noteq> CHR ''$'' # name", rotated])
       (use assms(1,3) plain_variable [OF assms(1,2)] in
         \<open>fastforce simp: cxx_simps variableValue_def replace_at_def\<close>)
  then show False by simp
qed



text \<open>
  An escaped dollar sign before a variable: the position found in the shortened text is used in the
  original one, where the variable starts one character later, so that its name is taken to be empty.
\<close>

lemma escaped_dollar_shifts:
  assumes "getenv vs [] = None"
  shows "convertEnvironmentVariables vs (CHR 0x5C # ''$x $HOME'') = Some (Inl (UnsetVariable []))"
proof -
  have "unescapeDollars (CHR 0x5C # ''$x $HOME'') 1 = (''$x $HOME'', Some 3)"
    by (subst unescapeDollars.simps)
       (simp add: replace_at_def find_from_def cxx_simps, subst unescapeDollars.simps, simp)
  then show ?thesis
    using assms by (subst convertEnvironmentVariables.simps)
      (simp add: cxx_simps variableAt_def variableValue_def name_char_def is_alnum_def less_eq_char_def)
qed

end
