(* ===== verification/UserAccounts.thy ===== *)
theory UserAccounts
  imports MapStrings WildCards SoapMessages
begin

text \<open>
  \<open>WebUsersUtilities/WebUsers.cc\<close> and \<open>.h\<close>, the user database of the Gateway: accounts, permission
  levels of groups, the text of the database files, the security settings, and the administration of
  accounts. The time, the random numbers, the success of writing files and the contents of files that
  an operator edits are a parameter, a record \<open>web_io\<close>; \<open>time(0)\<close> does not change during one
  call.
\<close>

section \<open>Data\<close>

type_synonym permission_map = "(string, u8) omap"

record user =
  username :: string
  email :: string
  displayName :: string
  salt :: string
  permissions :: permission_map
  userId :: u64
  lastLoginAttempt :: int
  accountCreationTime :: int
  loginFailureCount :: u8
  lastModifierUsername :: string
  lastModifierTime :: int

record login_session =
  ls_id :: string
  ls_uuid :: string
  ls_ip :: string
  ls_startTime :: int
  loginAttempts :: u8

record active_session =
  cookieCode :: string
  as_ip :: string
  as_userId :: u64
  sessionIndex :: u64
  startTime :: int
  lastActivityTime :: int

record hash_entry =
  hash :: string
  accessTime :: int

text \<open>The members of \<open>WebUsers\<close>, and the files it writes (\<^term>\<open>None\<close> when there is none).\<close>

record web_users =
  Users :: "user list"
  usersNextUserId :: u64
  Hashes :: "hash_entry list"
  LoginSessions :: "login_session list"
  ActiveSessions :: "active_session list"
  RemoteSessions :: "(string, active_session) omap"
  UsersLoggedOutUsernames :: "string list"
  usersUsernameWithLock :: string
  securityType :: string
  CareAboutCookieCodes :: bool
  ipBlacklistEnabled :: bool
  ipAccessAccept :: "string list"
  ipAccessReject :: "string list"
  ipAccessBlacklist :: "string list"
  ipBlacklistCounts :: "(string, u32) omap"
  ipSecurityLastLoadTime :: int
  remoteLoginVerificationEnabled :: bool
  remoteLoginVerificationEnabledBlackoutTime :: int
  usersFile :: "string option"
  hashesFile :: "string option"
  lockFile :: "string option"
  failureFile :: "string option"
  blacklistFile :: "string list"

text \<open>
  The surroundings of a call: \<open>now\<close> is \<open>time(0)\<close>, \<open>ticks\<close> is \<open>clock() % 100000\<close>, \<open>randByte\<close> the low bytes
  of successive \<open>rand()\<close>, \<open>blur\<close> the randomised part of an access time; \<open>sha512\<close> is the digest of
  OpenSSL for user, password and salt, \<open>newSalt\<close> the salts of successive attempts to make one.
\<close>

record web_io =
  now :: int
  ticks :: int
  randByte :: "nat \<Rightarrow> u8"
  blur :: int
  sha512 :: "string \<Rightarrow> string \<Rightarrow> string \<Rightarrow> string"
  newSalt :: "nat \<Rightarrow> string"
  writable :: bool
  environment :: variables
  securityLine :: string
  acceptLines :: "string list"
  rejectLines :: "string list"

datatype web_error =
    UsernameTaken string | DisplayNameTaken string | UserIdWrap | SaveFailed | OnlyAdmins
  | CannotModifyFirst | ShortUsername | ShortDisplayName | UserNotFound | MasterNotFound
  | UndefinedCommand | BadPermissions env_error | IllegalUid | NoRemotePort | SocketFailure
  | OutOfBounds | NoReturn

definition NOT_FOUND_IN_DATABASE :: u64 where "NOT_FOUND_IN_DATABASE = - 1"
definition ACCOUNT_INACTIVE :: u64 where "ACCOUNT_INACTIVE = - 2"
definition ACCOUNT_BLACKLISTED :: u64 where "ACCOUNT_BLACKLISTED = - 3"
definition ACCOUNT_ERROR_THRESHOLD :: u64 where "ACCOUNT_ERROR_THRESHOLD = - 5"
definition USERNAME_LENGTH :: nat where "USERNAME_LENGTH = 3"
definition DISPLAY_NAME_LENGTH :: nat where "DISPLAY_NAME_LENGTH = 4"

definition PERMISSION_LEVEL_ADMIN :: u8 where "PERMISSION_LEVEL_ADMIN = - 1"
definition PERMISSION_LEVEL_NOVICE :: u8 where "PERMISSION_LEVEL_NOVICE = 1"
definition PERMISSION_LEVEL_INACTIVE :: u8 where "PERMISSION_LEVEL_INACTIVE = 0"

definition DEFAULT_USER_GROUP :: string where "DEFAULT_USER_GROUP = ''allUsers''"
definition DEFAULT_ADMIN_USERNAME :: string where "DEFAULT_ADMIN_USERNAME = ''admin''"
definition DEFAULT_ITERATOR_USERNAME :: string where "DEFAULT_ITERATOR_USERNAME = ''iterator''"
definition DEFAULT_STATECHANGER_USERNAME :: string where "DEFAULT_STATECHANGER_USERNAME = ''statechanger''"
definition SECURITY_TYPE_NONE :: string where "SECURITY_TYPE_NONE = ''NoSecurity''"
definition SECURITY_TYPE_DIGEST_ACCESS :: string where
  "SECURITY_TYPE_DIGEST_ACCESS = ''DigestAccessAuthentication''"

section \<open>Searches\<close>

text \<open>
  The index of the first element; the value \<open>NOT_FOUND_IN_DATABASE\<close> of the code is \<^term>\<open>None\<close> (a vector
  is shorter than 2^64 - 5).
\<close>

definition searchUsersDatabaseForUsername :: "web_users \<Rightarrow> string \<Rightarrow> nat option" where
  "searchUsersDatabaseForUsername w name = index_of (\<lambda>u. username u = name) (Users w)"

definition searchUsersDatabaseForDisplayName :: "web_users \<Rightarrow> string \<Rightarrow> nat option" where
  "searchUsersDatabaseForDisplayName w name = index_of (\<lambda>u. displayName u = name) (Users w)"

definition searchUsersDatabaseForUserEmail :: "web_users \<Rightarrow> string \<Rightarrow> nat option" where
  "searchUsersDatabaseForUserEmail w e = index_of (\<lambda>u. email u = e) (Users w)"

definition searchUsersDatabaseForUserId :: "web_users \<Rightarrow> u64 \<Rightarrow> nat option" where
  "searchUsersDatabaseForUserId w uid = index_of (\<lambda>u. userId u = uid) (Users w)"

definition getUsersDisplayName :: "web_users \<Rightarrow> u64 \<Rightarrow> string" where
  "getUsersDisplayName w uid =
     (case searchUsersDatabaseForUserId w uid of None \<Rightarrow> [] | Some i \<Rightarrow> displayName (Users w ! i))"

definition getUsersUsername :: "web_users \<Rightarrow> u64 \<Rightarrow> string" where
  "getUsersUsername w uid =
     (case searchUsersDatabaseForUserId w uid of None \<Rightarrow> [] | Some i \<Rightarrow> username (Users w ! i))"

text \<open>The index, not the identifier, of the administrator.\<close>

definition getAdminUserID :: "web_users \<Rightarrow> u64" where
  "getAdminUserID w =
     (case searchUsersDatabaseForUsername w DEFAULT_ADMIN_USERNAME of
        None \<Rightarrow> NOT_FOUND_IN_DATABASE | Some i \<Rightarrow> of_nat i)"

section \<open>Permissions\<close>

definition getPermissionsForUser :: "web_users \<Rightarrow> u64 \<Rightarrow> permission_map" where
  "getPermissionsForUser w uid =
     (case searchUsersDatabaseForUserId w uid of
        Some i \<Rightarrow> permissions (Users w ! i)
      | None \<Rightarrow> [(DEFAULT_USER_GROUP, PERMISSION_LEVEL_INACTIVE)])"

definition getPermissionLevelForGroup :: "permission_map \<Rightarrow> string \<Rightarrow> u8" where
  "getPermissionLevelForGroup m g = (case omap_get m g of None \<Rightarrow> PERMISSION_LEVEL_INACTIVE | Some l \<Rightarrow> l)"

definition isInactiveForGroup :: "permission_map \<Rightarrow> bool" where
  "isInactiveForGroup m \<longleftrightarrow> getPermissionLevelForGroup m DEFAULT_USER_GROUP = PERMISSION_LEVEL_INACTIVE"

definition isAdminForGroup :: "permission_map \<Rightarrow> bool" where
  "isAdminForGroup m \<longleftrightarrow> getPermissionLevelForGroup m DEFAULT_USER_GROUP = PERMISSION_LEVEL_ADMIN"

section \<open>Accounts\<close>

definition newUser :: "web_io \<Rightarrow> user" where
  "newUser io =
     \<lparr>username = [], email = [], displayName = [], salt = [], permissions = [], userId = 0,
      lastLoginAttempt = 0, accountCreationTime = 0, loginFailureCount = 0,
      lastModifierUsername = [], lastModifierTime = now io * 100000 + ticks io\<rparr>"

definition setModifier :: "web_io \<Rightarrow> string \<Rightarrow> user \<Rightarrow> user" where
  "setModifier io name u =
     u\<lparr>lastModifierUsername := name, lastModifierTime := now io * 100000 + ticks io\<rparr>"

text \<open>\<open>getNewAccountCode\<close>: \<open>sprintf("%5.5d")\<close> of the low 16 bits of the modification time.\<close>

definition getNewAccountCode :: "user \<Rightarrow> string" where
  "getNewAccountCode u =
     (if salt u \<noteq> [] then []
      else (let d = to_string (nat (lastModifierTime u mod 65536))
            in replicate (5 - length d) (CHR ''0'') @ d))"

definition updateUser :: "nat \<Rightarrow> (user \<Rightarrow> user) \<Rightarrow> web_users \<Rightarrow> web_users" where
  "updateUser i f w = w\<lparr>Users := (Users w)[i := f (Users w ! i)]\<rparr>"

text \<open>The text of the database files: \<open>saveToDatabase\<close> and \<open>saveDatabaseToFile\<close>.\<close>

definition lu :: "int \<Rightarrow> string" where
  "lu v = to_string (nat (v mod 2 ^ 64))"

definition field :: "string \<Rightarrow> string \<Rightarrow> string" where
  "field name v = ''<'' @ name @ ''>'' @ v @ ''</'' @ name @ ''>''"

definition userEntry :: "user \<Rightarrow> string" where
  "userEntry u =
     ''<userEntry>'' @ field ''username'' (username u) @ field ''displayName'' (displayName u)
     @ field ''salt'' (salt u) @ field ''uid'' (to_string (unat (userId u)))
     @ field ''permissions'' (mapToString '','' '':'' (permissions u))
     @ field ''lastLoginAttemptTime'' (lu (lastLoginAttempt u))
     @ field ''accountCreatedTime'' (lu (accountCreationTime u))
     @ field ''loginFailureCount'' (to_string (unat (loginFailureCount u)))
     @ field ''lastModifiedTime'' (lu (lastModifierTime u))
     @ field ''lastModifierUsername'' (lastModifierUsername u) @ field ''useremail'' (email u)
     @ ''</userEntry>'' @ endl"

definition usersText :: "web_users \<Rightarrow> string" where
  "usersText w =
     ''<userData>'' @ endl @ field ''nextUserId'' (to_string (unat (usersNextUserId w))) @ endl
     @ concat (map userEntry (Users w)) @ ''</userData>'' @ endl"

definition hashesText :: "web_users \<Rightarrow> string" where
  "hashesText w =
     ''<hashData>'' @ endl
     @ concat (map (\<lambda>h. ''<hashEntry>'' @ field ''hash'' (hash h)
                       @ field ''lastAccessTime'' (lu (accessTime h)) @ ''</hashEntry>'' @ endl) (Hashes w))
     @ ''</hashData>'' @ endl"

definition saveUsers :: "web_io \<Rightarrow> web_users \<Rightarrow> web_users \<times> bool" where
  "saveUsers io w = (if writable io then (w\<lparr>usersFile := Some (usersText w)\<rparr>, True) else (w, False))"

definition saveHashes :: "web_io \<Rightarrow> web_users \<Rightarrow> web_users \<times> bool" where
  "saveHashes io w = (if writable io then (w\<lparr>hashesFile := Some (hashesText w)\<rparr>, True) else (w, False))"

text \<open>
  \<open>createNewAccount\<close>: the size in the choice of the first permissions is taken after the new entry
  was appended. An exception leaves the entry in memory.
\<close>

definition createNewAccount ::
  "web_io \<Rightarrow> string \<Rightarrow> string \<Rightarrow> string \<Rightarrow> web_users \<Rightarrow> web_users \<times> web_error option" where
  "createNewAccount io name display mail w =
     (if searchUsersDatabaseForUsername w name \<noteq> None \<or> name = DEFAULT_ITERATOR_USERNAME \<or>
         name = DEFAULT_STATECHANGER_USERNAME
      then (w, Some (UsernameTaken name))
      else if searchUsersDatabaseForDisplayName w display \<noteq> None
      then (w, Some (DisplayNameTaken display))
      else
        (let u = (newUser io)\<lparr>username := name, displayName := display, email := mail\<rparr>;
             w1 = w\<lparr>Users := Users w @ [u]\<rparr>;
             level = (if length (Users w1) \<noteq> 0 then PERMISSION_LEVEL_NOVICE else PERMISSION_LEVEL_ADMIN);
             u2 = u\<lparr>permissions := [(DEFAULT_USER_GROUP, level)], userId := usersNextUserId w1\<rparr>;
             w2 = w1\<lparr>Users := Users w @ [u2], usersNextUserId := usersNextUserId w1 + 1\<rparr>
         in if ACCOUNT_ERROR_THRESHOLD \<le> usersNextUserId w2 then (w2, Some UserIdWrap)
            else
              (let w3 = w2\<lparr>Users := Users w @ [u2\<lparr>accountCreationTime := now io\<rparr>]\<rparr>;
                   (w4, saved) = saveUsers io w3
               in if saved then (w4, None) else (w4, Some SaveFailed))))"

definition deleteAccount :: "web_io \<Rightarrow> string \<Rightarrow> string \<Rightarrow> web_users \<Rightarrow> web_users \<times> bool" where
  "deleteAccount io name display w =
     (case searchUsersDatabaseForUsername w name of
        None \<Rightarrow> (w, False)
      | Some i \<Rightarrow>
          if displayName (Users w ! i) \<noteq> display then (w, False)
          else saveUsers io (w\<lparr>Users := take i (Users w) @ drop (Suc i) (Users w)\<rparr>))"

section \<open>Security settings\<close>

text \<open>
  A line of a file of addresses: the newline is removed from lines of more than two characters.
  \<open>std::set\<close> keeps the lines in order and once.
\<close>

definition ipLine :: "string \<Rightarrow> string" where
  "ipLine l = (if 2 < length l \<and> last l = CHR 0x0A then butlast l else l)"

definition ipSet :: "string list \<Rightarrow> string list" where
  "ipSet ls = fold (\<lambda>l s. insort_insert (ipLine l) s) ls []"

definition loadIPAddressSecurity :: "web_io \<Rightarrow> web_users \<Rightarrow> web_users" where
  "loadIPAddressSecurity io w =
     w\<lparr>ipAccessAccept := ipSet (acceptLines io), ipAccessReject := ipSet (rejectLines io),
       ipAccessBlacklist := ipSet (blacklistFile w)\<rparr>"

definition loadSecuritySelection :: "web_io \<Rightarrow> web_users \<Rightarrow> web_users" where
  "loadSecuritySelection io w =
     (let line = takeWhile (\<lambda>c. CHR ''A'' \<le> c \<and> c \<le> CHR ''z'') (securityLine io);
          type = (if line = SECURITY_TYPE_NONE \<or> line = SECURITY_TYPE_DIGEST_ACCESS then line
                  else SECURITY_TYPE_NONE)
      in loadIPAddressSecurity io
           (w\<lparr>securityType := type, CareAboutCookieCodes := (type \<noteq> SECURITY_TYPE_NONE)\<rparr>))"

section \<open>Administration\<close>

definition MOD_TYPE_UPDATE :: u8 where "MOD_TYPE_UPDATE = 0"
definition MOD_TYPE_ADD :: u8 where "MOD_TYPE_ADD = 1"
definition MOD_TYPE_DELETE :: u8 where "MOD_TYPE_DELETE = 2"

text \<open>
  \<open>modifyAccountSettings\<close> up to its switch: an exception, the reset of the administrator's own
  password, or the indices of the acting and of the modified user.
\<close>

datatype account_guard = GuardThrow web_error | GuardReset | GuardPass "nat option" "nat option"

definition accountGuard :: "u64 \<Rightarrow> string \<Rightarrow> string \<Rightarrow> web_users \<Rightarrow> account_guard" where
  "accountGuard actingUid name display w =
     (if \<not> isAdminForGroup (getPermissionsForUser w actingUid) then GuardThrow OnlyAdmins
      else
        (let i = searchUsersDatabaseForUserId w actingUid;
             modi = searchUsersDatabaseForUsername w name
         in if modi = Some 0 then if i = Some 0 then GuardReset else GuardThrow CannotModifyFirst
            else if length name < USERNAME_LENGTH then GuardThrow ShortUsername
            else if length display < DISPLAY_NAME_LENGTH then GuardThrow ShortDisplayName
            else GuardPass i modi))"

definition resetAdmin :: "web_io \<Rightarrow> web_users \<Rightarrow> web_users" where
  "resetAdmin io w =
     fst (saveUsers io (updateUser 0 (\<lambda>u. (setModifier io (username u) u)\<lparr>salt := [], loginFailureCount := 0\<rparr>) w))"

text \<open>The new permissions of a user, from the old ones, the text and the map read from it.\<close>

definition newPermissions :: "string \<Rightarrow> permission_map \<Rightarrow> permission_map \<Rightarrow> permission_map" where
  "newPermissions text new old =
     (if length new = 0 then omap_put DEFAULT_USER_GROUP (ucast (atoi text)) old
      else if length new = 1 \<and> omap_get new DEFAULT_USER_GROUP = None then
        if fst (hd new) = [] then omap_put DEFAULT_USER_GROUP (snd (hd new)) old
        else omap_put DEFAULT_USER_GROUP (snd (hd new)) new
      else new)"

definition changePermissions :: "permission_map \<Rightarrow> user \<Rightarrow> user" where
  "changePermissions p u =
     (if isInactiveForGroup (permissions u) \<and> \<not> isInactiveForGroup p
      then u\<lparr>permissions := p, loginFailureCount := 0, salt := []\<rparr>
      else u\<lparr>permissions := p\<rparr>)"

definition finishModify :: "web_io \<Rightarrow> web_users \<Rightarrow> web_users \<times> web_error option" where
  "finishModify io w = (loadSecuritySelection io (fst (saveUsers io w)), None)"

definition updateAccount ::
  "web_io \<Rightarrow> nat option \<Rightarrow> nat option \<Rightarrow> string \<Rightarrow> string \<Rightarrow> string \<Rightarrow> web_users
    \<Rightarrow> web_users \<times> web_error option" where
  "updateAccount io i modi display mail text w =
     (case modi of
        None \<Rightarrow> (w, Some UserNotFound)
      | Some k \<Rightarrow>
          if \<exists>j \<in> set [0..<length (Users w)]. j \<noteq> k \<and> displayName (Users w ! j) = display
          then (w, Some (DisplayNameTaken display))
          else
            (let w1 = updateUser k (\<lambda>u. u\<lparr>displayName := display, email := mail\<rparr>) w
             in case getNumberMap (environment io) text [] of
                  None \<Rightarrow> (w1, Some NoReturn)
                | Some (Inl x) \<Rightarrow> (w1, Some (BadPermissions x))
                | Some (Inr new) \<Rightarrow>
                    (let w2 = updateUser k (\<lambda>u. changePermissions (newPermissions text new (permissions u)) u) w1
                     in case i of
                          None \<Rightarrow> (w2, Some MasterNotFound)
                        | Some a \<Rightarrow>
                            finishModify io (updateUser k (setModifier io (username (Users w2 ! a))) w2))))"

definition modifyUpdate ::
  "web_io \<Rightarrow> u64 \<Rightarrow> string \<Rightarrow> string \<Rightarrow> string \<Rightarrow> string \<Rightarrow> web_users \<Rightarrow> web_users \<times> web_error option" where
  "modifyUpdate io actingUid name display mail text w =
     (case accountGuard actingUid name display w of
        GuardThrow x \<Rightarrow> (w, Some x)
      | GuardReset \<Rightarrow> (resetAdmin io w, None)
      | GuardPass i modi \<Rightarrow> updateAccount io i modi display mail text w)"

definition addAccount ::
  "web_io \<Rightarrow> u64 \<Rightarrow> nat option \<Rightarrow> string \<Rightarrow> string \<Rightarrow> string \<Rightarrow> string \<Rightarrow> web_users
    \<Rightarrow> web_users \<times> web_error option" where
  "addAccount io actingUid i name display mail text w =
     (let (w1, r) = createNewAccount io name display mail w
      in case r of
           Some x \<Rightarrow> (w1, Some x)
         | None \<Rightarrow>
             (case i of
                None \<Rightarrow> (w1, Some MasterNotFound)
              | Some a \<Rightarrow>
                  (let w2 = updateUser (length (Users w1) - 1) (setModifier io (username (Users w1 ! a))) w1
                   in if text \<noteq> [] then modifyUpdate io actingUid name display mail text w2
                      else finishModify io w2)))"

definition modifyAccountSettings ::
  "web_io \<Rightarrow> u64 \<Rightarrow> u8 \<Rightarrow> string \<Rightarrow> string \<Rightarrow> string \<Rightarrow> string \<Rightarrow> web_users \<Rightarrow> web_users \<times> web_error option" where
  "modifyAccountSettings io actingUid cmd_type name display mail text w =
     (case accountGuard actingUid name display w of
        GuardThrow x \<Rightarrow> (w, Some x)
      | GuardReset \<Rightarrow> (resetAdmin io w, None)
      | GuardPass i modi \<Rightarrow>
          if cmd_type = MOD_TYPE_UPDATE then updateAccount io i modi display mail text w
          else if cmd_type = MOD_TYPE_ADD then addAccount io actingUid i name display mail text w
          else if cmd_type = MOD_TYPE_DELETE then finishModify io (fst (deleteAccount io name display w))
          else (w, Some UndefinedCommand))"

section \<open>The database invariant\<close>

text \<open>
  Usernames, display names and identifiers are unique, identifiers are below the next one, and every
  permission map is well formed.
\<close>

definition users_ok :: "web_users \<Rightarrow> bool" where
  "users_ok w \<longleftrightarrow>
     distinct (map username (Users w)) \<and> distinct (map displayName (Users w)) \<and>
     distinct (map userId (Users w)) \<and> (\<forall>u \<in> set (Users w). userId u < usersNextUserId w) \<and>
     (\<forall>u \<in> set (Users w). omap_ok (permissions u))"

text \<open>The searches of the user database keep the contract of a search for a key.\<close>

interpretation by_username: keyed_search searchUsersDatabaseForUsername Users username
  by unfold_locales (auto simp: searchUsersDatabaseForUsername_def index_of_None dest: index_of_Some)

interpretation by_display: keyed_search searchUsersDatabaseForDisplayName Users displayName
  by unfold_locales (auto simp: searchUsersDatabaseForDisplayName_def index_of_None dest: index_of_Some)

interpretation by_email: keyed_search searchUsersDatabaseForUserEmail Users email
  by unfold_locales (auto simp: searchUsersDatabaseForUserEmail_def index_of_None dest: index_of_Some)

interpretation by_uid: keyed_search searchUsersDatabaseForUserId Users userId
  by unfold_locales (auto simp: searchUsersDatabaseForUserId_def index_of_None dest: index_of_Some)

lemma users_ok_irrelevant [simp]:
  "users_ok (w\<lparr>usersFile := f\<rparr>) = users_ok w"
  "users_ok (w\<lparr>securityType := t\<rparr>) = users_ok w"
  "users_ok (w\<lparr>CareAboutCookieCodes := c\<rparr>) = users_ok w"
  "users_ok (w\<lparr>ipAccessAccept := a\<rparr>) = users_ok w"
  "users_ok (w\<lparr>ipAccessReject := r\<rparr>) = users_ok w"
  "users_ok (w\<lparr>ipAccessBlacklist := b\<rparr>) = users_ok w"
  by (simp_all add: users_ok_def)

lemma saveUsers_simps [simp]:
  "Users (fst (saveUsers io w)) = Users w" "usersNextUserId (fst (saveUsers io w)) = usersNextUserId w"
  "users_ok (fst (saveUsers io w)) = users_ok w"
  by (simp_all add: saveUsers_def)

lemma loadSecuritySelection_simps [simp]:
  "Users (loadSecuritySelection io w) = Users w"
  "usersNextUserId (loadSecuritySelection io w) = usersNextUserId w"
  "users_ok (loadSecuritySelection io w) = users_ok w"
  by (simp_all add: loadSecuritySelection_def loadIPAddressSecurity_def Let_def)

lemma finishModify_simps [simp]:
  "Users (fst (finishModify io w)) = Users w" "usersNextUserId (fst (finishModify io w)) = usersNextUserId w"
  "users_ok (fst (finishModify io w)) = users_ok w" "snd (finishModify io w) = None"
  by (simp_all add: finishModify_def)

lemma updateUser_simps [simp]:
  "Users (updateUser k f w) = (Users w)[k := f (Users w ! k)]"
  "usersNextUserId (updateUser k f w) = usersNextUserId w"
  by (simp_all add: updateUser_def)

lemma updateUser_ok:
  assumes ok: "users_ok w" and k: "k < length (Users w)"
    and f: "username (f (Users w ! k)) = username (Users w ! k)" "userId (f (Users w ! k)) = userId (Users w ! k)"
      "omap_ok (permissions (f (Users w ! k)))"
    and d: "displayName (f (Users w ! k)) = displayName (Users w ! k) \<or>
      (\<forall>j < length (Users w). j \<noteq> k \<longrightarrow> displayName (Users w ! j) \<noteq> displayName (f (Users w ! k)))"
  shows "users_ok (updateUser k f w)"
proof -
  let ?u = "f (Users w ! k)"
  have same: "map g ((Users w)[k := ?u]) = map g (Users w)" if "g ?u = g (Users w ! k)" for g :: "user \<Rightarrow> 'b"
    using that k by (metis list_update_id map_update)
  have "distinct (map displayName ((Users w)[k := ?u]))"
  proof -
    have "displayName ?u \<notin> set (map displayName (Users w)) - {map displayName (Users w) ! k}"
      using d k by (auto simp: in_set_conv_nth)
    then show ?thesis using ok unfolding map_update users_ok_def by (intro distinct_list_update) auto
  qed
  moreover have "userId u < usersNextUserId w \<and> omap_ok (permissions u)" if "u \<in> set ((Users w)[k := ?u])" for u
    using that ok f set_update_subset_insert [of "Users w" k ?u] k nth_mem [OF k]
    by (auto simp: users_ok_def)
  ultimately show ?thesis
    using ok same [of username] same [of userId] f(1,2) by (auto simp: users_ok_def updateUser_def)
qed

lemma word_add1: "a < (- 5 :: u64) \<Longrightarrow> unat (a + 1) = unat a + 1"
proof -
  assume "a < - 5"
  then have "unat a < unat (- 5 :: u64)" by (simp only: word_less_nat_alt)
  then show ?thesis by (simp add: unat_word_ariths)
qed

lemma word_add1_less: "a < (- 5 :: u64) \<Longrightarrow> a < a + 1"
  using word_add1 [of a] by (simp add: word_less_nat_alt)

lemma createNewAccount_ok:
  assumes "users_ok w" "usersNextUserId w < ACCOUNT_ERROR_THRESHOLD"
  shows "users_ok (fst (createNewAccount io name display mail w))"
proof -
  have lt: "usersNextUserId w < usersNextUserId w + 1"
    using assms(2) word_add1_less by (simp add: ACCOUNT_ERROR_THRESHOLD_def)
  have "userId u < usersNextUserId w + 1" "userId u \<noteq> usersNextUserId w" if "u \<in> set (Users w)" for u
    using that assms(1) lt by (auto simp: users_ok_def)
  then show ?thesis
    using assms lt
    by (auto simp: createNewAccount_def Let_def split_beta users_ok_def searchUsersDatabaseForUsername_def
        searchUsersDatabaseForDisplayName_def index_of_None omap_ok_def)
qed

lemma createNewAccount_next:
  assumes "usersNextUserId w < ACCOUNT_ERROR_THRESHOLD"
  shows "unat (usersNextUserId (fst (createNewAccount io name display mail w))) \<le> unat (usersNextUserId w) + 1"
  using assms word_add1 [of "usersNextUserId w"]
  by (auto simp: createNewAccount_def Let_def split_beta ACCOUNT_ERROR_THRESHOLD_def)

lemma distinct_erase: "distinct (map g xs) \<Longrightarrow> distinct (map g (take i xs @ drop (Suc i) xs))"
  by (simp only: map_append take_map [symmetric] drop_map [symmetric])
     (simp add: set_take_disj_set_drop_if_distinct)

lemma erase_ok: "users_ok w \<Longrightarrow> users_ok (w\<lparr>Users := take i (Users w) @ drop (Suc i) (Users w)\<rparr>)"
  using distinct_erase [of username "Users w" i] distinct_erase [of displayName "Users w" i]
    distinct_erase [of userId "Users w" i]
  by (auto simp: users_ok_def dest: in_set_takeD in_set_dropD)

lemma deleteAccount_ok: "users_ok w \<Longrightarrow> users_ok (fst (deleteAccount io name display w))"
  by (auto simp: deleteAccount_def erase_ok split: option.splits)

lemma newPermissions_ok: "\<lbrakk>omap_ok new; omap_ok old\<rbrakk> \<Longrightarrow> omap_ok (newPermissions text new old)"
  by (auto simp: newPermissions_def)

lemma changePermissions_simps [simp]:
  "username (changePermissions p u) = username u" "userId (changePermissions p u) = userId u"
  "displayName (changePermissions p u) = displayName u" "permissions (changePermissions p u) = p"
  by (simp_all add: changePermissions_def)

lemma setModifier_simps [simp]:
  "username (setModifier io n u) = username u" "userId (setModifier io n u) = userId u"
  "displayName (setModifier io n u) = displayName u" "permissions (setModifier io n u) = permissions u"
  by (simp_all add: setModifier_def)

lemma updateUser_same:
  assumes "users_ok w" "k < length (Users w)"
    "\<And>u. username (f u) = username u \<and> userId (f u) = userId u \<and> displayName (f u) = displayName u"
    "omap_ok (permissions (f (Users w ! k)))"
  shows "users_ok (updateUser k f w)"
  by (rule updateUser_ok) (use assms in auto)

lemma permissions_ok: "\<lbrakk>users_ok w; k < length (Users w)\<rbrakk> \<Longrightarrow> omap_ok (permissions (Users w ! k))"
  by (auto simp: users_ok_def)

lemma updateAccount_ok:
  assumes ok: "users_ok w" and k: "\<And>k. modi = Some k \<Longrightarrow> k < length (Users w)"
  shows "users_ok (fst (updateAccount io i modi display mail text w))"
proof (cases modi)
  case None
  then show ?thesis using ok by (simp add: updateAccount_def)
next
  case (Some m)
  then have m: "m < length (Users w)" using k by simp
  show ?thesis
  proof (cases "\<exists>j \<in> set [0..<length (Users w)]. j \<noteq> m \<and> displayName (Users w ! j) = display")
    case True
    then show ?thesis using ok by (simp add: updateAccount_def Some)
  next
    case False
    let ?w1 = "updateUser m (\<lambda>u. u\<lparr>displayName := display, email := mail\<rparr>) w"
    have w1: "users_ok ?w1"
      by (rule updateUser_ok [OF ok m]) (use False permissions_ok [OF ok m] in auto)
    have w2: "users_ok (updateUser m (\<lambda>u. changePermissions (newPermissions text new (permissions u)) u) ?w1)"
      if "omap_ok new" for new
      by (rule updateUser_same [OF w1])
         (use m that permissions_ok [OF ok m] in \<open>auto simp: newPermissions_ok\<close>)
    have w3: "users_ok (updateUser m (setModifier io n) w')" if "users_ok w'" "length (Users w') = length (Users w)" for n w'
      by (rule updateUser_same [OF that(1)]) (use that m permissions_ok [OF that(1), of m] in auto)
    show ?thesis
      using False w1 w2 w3 getNumberMap_ok
      by (fastforce simp: updateAccount_def Some Let_def split: option.splits sum.splits)
  qed
qed

lemma accountGuard_pass:
  assumes "accountGuard uid name display w = GuardPass i modi"
  shows "modi = searchUsersDatabaseForUsername w name" "i = searchUsersDatabaseForUserId w uid"
    "isAdminForGroup (getPermissionsForUser w uid)" "modi \<noteq> Some 0"
  using assms by (auto simp: accountGuard_def Let_def split: if_splits)

lemma search_length: "searchUsersDatabaseForUsername w name = Some k \<Longrightarrow> k < length (Users w)"
  using by_username.found by blast

lemma resetAdmin_ok: "\<lbrakk>users_ok w; Users w \<noteq> []\<rbrakk> \<Longrightarrow> users_ok (resetAdmin io w)"
  unfolding resetAdmin_def saveUsers_simps
  by (rule updateUser_same) (auto simp: permissions_ok)

lemma guardReset_nonempty: "accountGuard uid name display w = GuardReset \<Longrightarrow> Users w \<noteq> []"
  using search_length [of w name 0] by (auto simp: accountGuard_def Let_def split: if_splits)

lemma modifyUpdate_ok: "users_ok w \<Longrightarrow> users_ok (fst (modifyUpdate io uid name display mail text w))"
proof -
  assume ok: "users_ok w"
  have "users_ok (fst (updateAccount io i modi display mail text w))"
    if "accountGuard uid name display w = GuardPass i modi" for i modi
    by (rule updateAccount_ok [OF ok]) (use accountGuard_pass(1) [OF that] search_length in auto)
  then show ?thesis
    using ok resetAdmin_ok [OF ok] guardReset_nonempty [of uid name display w]
    by (auto simp: modifyUpdate_def split: account_guard.splits)
qed

lemma addAccount_ok:
  assumes "users_ok w" "usersNextUserId w < ACCOUNT_ERROR_THRESHOLD"
  shows "users_ok (fst (addAccount io uid i name display mail text w))"
proof -
  let ?c = "createNewAccount io name display mail w"
  have c: "users_ok (fst ?c)" by (rule createNewAccount_ok [OF assms])
  have ne: "Users (fst ?c) \<noteq> []" if "snd ?c = None"
    using that by (auto simp: createNewAccount_def Let_def split_beta split: if_splits)
  have m: "users_ok (updateUser (length (Users (fst ?c)) - 1) (setModifier io n) (fst ?c))"
    if "snd ?c = None" for n
    by (rule updateUser_same [OF c]) (use ne [OF that] permissions_ok [OF c] in auto)
  show ?thesis
    using c m modifyUpdate_ok by (auto simp: addAccount_def Let_def split_beta split: option.splits)
qed

lemma modifyAccountSettings_ok:
  assumes "users_ok w" "usersNextUserId w < ACCOUNT_ERROR_THRESHOLD"
  shows "users_ok (fst (modifyAccountSettings io uid cmd name display mail text w))"
proof -
  have "users_ok (fst (updateAccount io i modi display mail text w))"
    if "accountGuard uid name display w = GuardPass i modi" for i modi
    by (rule updateAccount_ok [OF assms(1)]) (use accountGuard_pass(1) [OF that] search_length in auto)
  then show ?thesis
    using assms addAccount_ok deleteAccount_ok resetAdmin_ok guardReset_nonempty [of uid name display w]
    by (auto simp: modifyAccountSettings_def split: account_guard.splits)
qed

lemma updateAccount_next: "usersNextUserId (fst (updateAccount io i modi display mail text w)) = usersNextUserId w"
  by (auto simp: updateAccount_def Let_def split: option.splits sum.splits)

lemma modifyUpdate_next: "usersNextUserId (fst (modifyUpdate io uid name display mail text w)) = usersNextUserId w"
  by (auto simp: modifyUpdate_def updateAccount_next resetAdmin_def split: account_guard.splits)

lemma modifyAccountSettings_next:
  assumes "usersNextUserId w < ACCOUNT_ERROR_THRESHOLD"
  shows "unat (usersNextUserId (fst (modifyAccountSettings io uid cmd name display mail text w)))
    \<le> unat (usersNextUserId w) + 1"
  using createNewAccount_next [OF assms, of io name display mail]
  by (auto simp: modifyAccountSettings_def addAccount_def Let_def split_beta updateAccount_next modifyUpdate_next
      resetAdmin_def deleteAccount_def split: account_guard.splits option.splits)

section \<open>Properties\<close>

text \<open>A request to administer accounts, with its surroundings.\<close>

datatype admin_request =
    CreateAccount web_io string string string
  | ModifyAccount web_io u64 u8 string string string string

fun administer :: "admin_request \<Rightarrow> web_users \<Rightarrow> web_users" where
  "administer (CreateAccount io name display mail) w = fst (createNewAccount io name display mail w)"
| "administer (ModifyAccount io uid cmd name display mail text) w =
     fst (modifyAccountSettings io uid cmd name display mail text w)"

lemma administer_ok:
  "\<lbrakk>users_ok w; usersNextUserId w < ACCOUNT_ERROR_THRESHOLD\<rbrakk> \<Longrightarrow> users_ok (administer r w)"
  by (cases r) (simp_all add: createNewAccount_ok modifyAccountSettings_ok)

lemma administer_next:
  "usersNextUserId w < ACCOUNT_ERROR_THRESHOLD \<Longrightarrow>
   unat (usersNextUserId (administer r w)) \<le> unat (usersNextUserId w) + 1"
  using createNewAccount_next modifyAccountSettings_next by (cases r) auto

text \<open>
  C11. However accounts are created, changed and deleted, by whomever and with whatever exceptions on
  the way: usernames, display names and user identifiers stay unique (identifiers are never reused),
  as long as fewer than 2^64 - 5 accounts were ever made.
\<close>

theorem accounts_unique:
  assumes "users_ok w" "unat (usersNextUserId w) + length rs < 2 ^ 64 - 5"
  shows "users_ok (fold administer rs w)"
  using assms
proof (induction rs arbitrary: w)
  case Nil
  then show ?case by simp
next
  case (Cons r rs)
  have "usersNextUserId w < ACCOUNT_ERROR_THRESHOLD"
    using Cons.prems(2) by (simp add: word_less_nat_alt ACCOUNT_ERROR_THRESHOLD_def)
  then show ?case
    using Cons.IH [of "administer r w"] Cons.prems administer_ok [of w r] administer_next [of w r] by simp
qed

definition noUsers :: web_users where
  "noUsers =
     \<lparr>Users = [], usersNextUserId = 0, Hashes = [], LoginSessions = [], ActiveSessions = [],
      RemoteSessions = [], UsersLoggedOutUsernames = [], usersUsernameWithLock = [],
      securityType = SECURITY_TYPE_DIGEST_ACCESS, CareAboutCookieCodes = True, ipBlacklistEnabled = False,
      ipAccessAccept = [], ipAccessReject = [], ipAccessBlacklist = [], ipBlacklistCounts = [],
      ipSecurityLastLoadTime = 0, remoteLoginVerificationEnabled = False,
      remoteLoginVerificationEnabledBlackoutTime = 0, usersFile = None, hashesFile = None, lockFile = None,
      failureFile = None, blacklistFile = []\<rparr>"

definition plain_io :: web_io where
  "plain_io =
     \<lparr>now = 1000000, ticks = 7, randByte = (\<lambda>n. of_nat n), blur = 0, sha512 = (\<lambda>u p s. s @ u @ p),
      newSalt = (\<lambda>n. to_string (n + 1)), writable = True,
      environment = \<lparr>getenv = Map.empty, systemVariables = Map.empty\<rparr>,
      securityLine = SECURITY_TYPE_DIGEST_ACCESS, acceptLines = [], rejectLines = []\<rparr>"

lemma noUsers_ok: "users_ok noUsers" and noUsers_simps [simp]: "Users noUsers = []" "usersNextUserId noUsers = 0"
  by (simp_all add: users_ok_def noUsers_def)

lemma plain_io_simps [simp]: "writable plain_io"
  by (simp add: plain_io_def)

text \<open>An administrator and a novice.\<close>

definition account :: "string \<Rightarrow> string \<Rightarrow> u64 \<Rightarrow> u8 \<Rightarrow> user" where
  "account name display uid level =
     (newUser plain_io)\<lparr>username := name, displayName := display, userId := uid,
       permissions := [(DEFAULT_USER_GROUP, level)]\<rparr>"

definition twoUsers :: web_users where
  "twoUsers = noUsers\<lparr>Users := [account ''admin'' ''Administrator'' 0 255, account ''novice'' ''Novice'' 1 1],
     usersNextUserId := 2\<rparr>"

lemma account_simps [simp]:
  "username (account n d i l) = n" "displayName (account n d i l) = d" "userId (account n d i l) = i"
  "permissions (account n d i l) = [(DEFAULT_USER_GROUP, l)]" "salt (account n d i l) = []"
  "loginFailureCount (account n d i l) = 0"
  by (simp_all add: account_def newUser_def)

lemma twoUsers_simps [simp]:
  "Users twoUsers = [account ''admin'' ''Administrator'' 0 255, account ''novice'' ''Novice'' 1 1]"
  "usersNextUserId twoUsers = 2"
  by (simp_all add: twoUsers_def)

lemma twoUsers_ok: "users_ok twoUsers"
  by (simp add: users_ok_def omap_ok_def)

theorem accounts_unique_witness:
  "users_ok (fold administer [CreateAccount plain_io ''admin'' ''Administrator'' [],
     CreateAccount plain_io ''admin'' ''Somebody'' [], ModifyAccount plain_io 0 1 ''shifter'' ''Shifter'' [] ''2'']
     noUsers)"
  by (rule accounts_unique) (simp_all add: noUsers_ok)

text \<open>
  C12. Only a user whose level in the group of all users is the administrator's can change accounts:
  anybody else gets an exception and nothing changes. Nobody but the first user itself can touch the
  first account, and even its owner cannot change its name, its permissions or delete it here.
\<close>

theorem only_admins_modify:
  "(\<not> isAdminForGroup (getPermissionsForUser w uid) \<longrightarrow>
      modifyAccountSettings io uid cmd name display mail text w = (w, Some OnlyAdmins)) \<and>
   (searchUsersDatabaseForUsername w name = Some 0 \<and> searchUsersDatabaseForUserId w uid \<noteq> Some 0 \<longrightarrow>
      fst (modifyAccountSettings io uid cmd name display mail text w) = w) \<and>
   (searchUsersDatabaseForUsername w name = Some 0 \<longrightarrow>
      (\<exists>u us. Users (fst (modifyAccountSettings io uid cmd name display mail text w)) = u # us \<and>
        us = tl (Users w) \<and> username u = username (hd (Users w)) \<and> userId u = userId (hd (Users w)) \<and>
        displayName u = displayName (hd (Users w)) \<and> permissions u = permissions (hd (Users w))))"
proof -
  have "\<exists>u us. Users (fst (modifyAccountSettings io uid cmd name display mail text w)) = u # us \<and>
        us = tl (Users w) \<and> username u = username (hd (Users w)) \<and> userId u = userId (hd (Users w)) \<and>
        displayName u = displayName (hd (Users w)) \<and> permissions u = permissions (hd (Users w))"
    if m: "searchUsersDatabaseForUsername w name = Some 0"
  proof -
    obtain v vs where v: "Users w = v # vs" using search_length [OF m] by (cases "Users w") auto
    then show ?thesis
      using m by (auto simp: modifyAccountSettings_def accountGuard_def Let_def resetAdmin_def)
  qed
  then show ?thesis by (auto simp: modifyAccountSettings_def accountGuard_def Let_def)
qed

theorem only_admins_modify_witness:
  "modifyAccountSettings plain_io 1 2 ''admin'' ''Administrator'' [] [] twoUsers = (twoUsers, Some OnlyAdmins)"
proof -
  have "\<not> isAdminForGroup (getPermissionsForUser twoUsers 1)"
    by (simp add: getPermissionsForUser_def searchUsersDatabaseForUserId_def isAdminForGroup_def
        getPermissionLevelForGroup_def PERMISSION_LEVEL_ADMIN_def)
  then show ?thesis
    using only_admins_modify [of twoUsers 1 plain_io 2 "''admin''" "''Administrator''" "[]" "[]"] by blast
qed

text \<open>
  A new account is appended with the next identifier, with no password and, although the first
  user should be the administrator, always with the lowest active level; nothing else changes. It is
  refused exactly for a name that is taken or reserved or a display name that is taken (or when the
  identifiers are used up or the database cannot be written).
\<close>

theorem createNewAccount_effect:
  assumes "writable io" "usersNextUserId w < - 6"
  shows "(snd (createNewAccount io name display mail w) = None \<longleftrightarrow>
      name \<notin> username ` set (Users w) \<and> name \<notin> {''iterator'', ''statechanger''} \<and>
      display \<notin> displayName ` set (Users w)) \<and>
    (snd (createNewAccount io name display mail w) = None \<longrightarrow>
      (\<exists>u. Users (fst (createNewAccount io name display mail w)) = Users w @ [u] \<and> username u = name \<and>
        displayName u = display \<and> userId u = usersNextUserId w \<and> salt u = [] \<and>
        permissions u = [(DEFAULT_USER_GROUP, 1)])) \<and>
    (snd (createNewAccount io name display mail w) \<noteq> None \<longrightarrow>
      fst (createNewAccount io name display mail w) = w)"
proof -
  have "usersNextUserId w < - 5" using assms(2) by (rule less_trans) simp
  then have "unat (usersNextUserId w + 1) = unat (usersNextUserId w) + 1" by (rule word_add1)
  then have "\<not> ACCOUNT_ERROR_THRESHOLD \<le> usersNextUserId w + 1"
    using assms(2) by (simp add: ACCOUNT_ERROR_THRESHOLD_def word_le_nat_alt word_less_nat_alt)
  then show ?thesis
    using assms(1)
    by (auto simp: createNewAccount_def Let_def saveUsers_def searchUsersDatabaseForUsername_def
        searchUsersDatabaseForDisplayName_def index_of_None DEFAULT_ITERATOR_USERNAME_def
        DEFAULT_STATECHANGER_USERNAME_def newUser_def PERMISSION_LEVEL_NOVICE_def)
qed

theorem createNewAccount_effect_witness:
  "\<exists>u. Users (fst (createNewAccount plain_io ''admin'' ''Administrator'' [] noUsers)) = Users noUsers @ [u] \<and>
     permissions u = [(DEFAULT_USER_GROUP, 1)]"
proof -
  have "(0 :: u64) < - 6" by (simp add: word_less_nat_alt)
  then show ?thesis
    using createNewAccount_effect [of plain_io noUsers "''admin''" "''Administrator''" "[]"] by auto
qed

end
