(* ===== verification/UserSessions.thy ===== *)
theory UserSessions
  imports UserAccounts TableVersions
begin

text \<open>
  \<open>WebUsersUtilities/WebUsers.cc\<close>: who may talk to the Gateway. Addresses that are accepted or
  rejected, login sessions, active sessions and their cookie codes, expiry, the lock that one user at
  a time holds on the system, login with a password or a certificate, logout, and the check of the
  cookie code that comes with every request, locally or by the Gateway above.
\<close>

section \<open>Addresses\<close>

text \<open>
  \<open>checkIpAccess\<close>. The address is passed as the needle of \<open>wildCardMatch\<close>, the entry of the list as the
  text.
\<close>

definition ipMatches :: "string \<Rightarrow> string list \<Rightarrow> bool" where
  "ipMatches ip s \<longleftrightarrow> (\<exists>entry \<in> set s. fst (wildCardMatch ip entry))"

definition checkIpAccess :: "web_io \<Rightarrow> string \<Rightarrow> web_users \<Rightarrow> web_users \<times> bool" where
  "checkIpAccess io ip w =
     (if ip = ''0'' then (w, True)
      else
        (let w1 = (if ipSecurityLastLoadTime w + 10 * 60 < now io
                   then loadIPAddressSecurity io (w\<lparr>ipSecurityLastLoadTime := now io\<rparr>) else w)
         in (w1, if ipMatches ip (ipAccessAccept w1) then True
                 else if ipMatches ip (ipAccessReject w1) then False
                 else \<not> (ipBlacklistEnabled w1 \<and> ipMatches ip (ipAccessBlacklist w1)))))"

definition IP_BLACKLIST_COUNT_THRESHOLD :: u32 where "IP_BLACKLIST_COUNT_THRESHOLD = 200"

definition incrementIpBlacklistCount :: "web_io \<Rightarrow> string \<Rightarrow> web_users \<Rightarrow> web_users" where
  "incrementIpBlacklistCount io ip w =
     (if \<not> ipBlacklistEnabled w \<or> ip = ''0'' \<or> ip \<in> set (ipAccessBlacklist w) then w
      else
        (case omap_get (ipBlacklistCounts w) ip of
           None \<Rightarrow> w\<lparr>ipBlacklistCounts := omap_put ip 1 (ipBlacklistCounts w)\<rparr>
         | Some n \<Rightarrow>
             (let w1 = w\<lparr>ipBlacklistCounts := omap_put ip (n + 1) (ipBlacklistCounts w)\<rparr>
              in if n + 1 < IP_BLACKLIST_COUNT_THRESHOLD then w1
                 else
                   (let w2 = w1\<lparr>ipAccessBlacklist := insort_insert ip (ipAccessBlacklist w1)\<rparr>
                    in if writable io then w2\<lparr>blacklistFile := blacklistFile w2 @ [ip @ endl]\<rparr> else w2))))"

definition clearBlacklistCount :: "string \<Rightarrow> web_users \<Rightarrow> web_users" where
  "clearBlacklistCount ip w = w\<lparr>ipBlacklistCounts := omap_put ip 0 (ipBlacklistCounts w)\<rparr>"

section \<open>Sessions\<close>

definition COOKIE_CODE_LENGTH :: nat where "COOKIE_CODE_LENGTH = 512"
definition SESSION_ID_LENGTH :: nat where "SESSION_ID_LENGTH = 512"
definition LOGIN_SESSION_EXPIRATION_TIME :: int where "LOGIN_SESSION_EXPIRATION_TIME = 5 * 60"
definition LOGIN_SESSION_ATTEMPTS_MAX :: u8 where "LOGIN_SESSION_ATTEMPTS_MAX = 5"
definition ACTIVE_SESSION_EXPIRATION_TIME :: int where "ACTIVE_SESSION_EXPIRATION_TIME = 120 * 60"
definition ACTIVE_SESSION_COOKIE_OVERLAP_TIME :: int where "ACTIVE_SESSION_COOKIE_OVERLAP_TIME = 10 * 60"
definition LOCK_INACTIVITY_TIMEOUT :: int where "LOCK_INACTIVITY_TIMEOUT = 30 * 60"

definition searchLoginSessionDatabaseForUUID :: "web_users \<Rightarrow> string \<Rightarrow> nat option" where
  "searchLoginSessionDatabaseForUUID w uuid = index_of (\<lambda>l. ls_uuid l = uuid) (LoginSessions w)"

definition searchActiveSessionDatabaseForCookie :: "web_users \<Rightarrow> string \<Rightarrow> nat option" where
  "searchActiveSessionDatabaseForCookie w c = index_of (\<lambda>a. cookieCode a = c) (ActiveSessions w)"

text \<open>Whether a user has a session, remote ones included, in a given list of active sessions.\<close>

definition uidActive :: "web_users \<Rightarrow> active_session list \<Rightarrow> u64 \<Rightarrow> bool" where
  "uidActive w ss uid \<longleftrightarrow>
     (remoteLoginVerificationEnabled w \<and> (\<exists>(c, a) \<in> set (RemoteSessions w). as_userId a = uid)) \<or>
     (\<exists>a \<in> set ss. as_userId a = uid)"

definition isUserIdActive :: "web_users \<Rightarrow> u64 \<Rightarrow> bool" where
  "isUserIdActive w uid \<longleftrightarrow> uidActive w (ActiveSessions w) uid"

definition isUsernameActive :: "web_users \<Rightarrow> string \<Rightarrow> bool" where
  "isUsernameActive w name =
     (case searchUsersDatabaseForUsername w name of
        None \<Rightarrow> False | Some u \<Rightarrow> isUserIdActive w (userId (Users w ! u)))"

definition intToHexStr :: "u8 \<Rightarrow> string" where
  "intToHexStr b = [hex_digit (unat b div 16), hex_digit (unat b mod 16)]"

definition genCookieCode :: "web_io \<Rightarrow> string" where
  "genCookieCode io = concat (map (\<lambda>i. intToHexStr (randByte io i)) [0..<COOKIE_CODE_LENGTH div 2])"

definition createNewLoginSession :: "web_io \<Rightarrow> string \<Rightarrow> string \<Rightarrow> web_users \<Rightarrow> web_users \<times> string" where
  "createNewLoginSession io uuid ip w =
     (if searchLoginSessionDatabaseForUUID w uuid \<noteq> None then (w, [])
      else
        (let sid = concat (map (\<lambda>i. intToHexStr (randByte io i)) [0..<SESSION_ID_LENGTH div 2])
         in (w\<lparr>LoginSessions := LoginSessions w @
                 [\<lparr>ls_id = sid, ls_uuid = uuid, ls_ip = ip, ls_startTime = now io, loginAttempts = 0\<rparr>]\<rparr>, sid)))"

text \<open>
  \<open>createNewActiveSession\<close>: \<open>asIndex\<close> 0 starts a new chain of cookie codes with the next index of the
  user; the largest index is sought in the list that already holds the new entry, whose index is 0.
\<close>

definition createNewActiveSession ::
  "web_io \<Rightarrow> u64 \<Rightarrow> string \<Rightarrow> u64 \<Rightarrow> web_users \<Rightarrow> web_users \<times> string" where
  "createNewActiveSession io uid ip asIndex w =
     (let a = \<lparr>cookieCode = genCookieCode io, as_ip = ip, as_userId = uid, sessionIndex = 0,
               startTime = now io, lastActivityTime = now io\<rparr>;
          m = fold (\<lambda>s m. if as_userId s = uid \<and> m < sessionIndex s then sessionIndex s else m)
                (ActiveSessions w @ [a]) 0;
          idx = (if asIndex \<noteq> 0 then asIndex else if m \<noteq> 0 then m + 1 else 1)
      in (w\<lparr>ActiveSessions := ActiveSessions w @ [a\<lparr>sessionIndex := idx\<rparr>]\<rparr>, cookieCode a))"

text \<open>\<open>refreshCookieCode\<close>: the most recent entry of the chain of entry \<open>i\<close> is the deepest one.\<close>

definition sameChain :: "active_session \<Rightarrow> active_session \<Rightarrow> bool" where
  "sameChain a b \<longleftrightarrow> as_userId a = as_userId b \<and> sessionIndex a = sessionIndex b"

definition refreshCookieCode :: "web_io \<Rightarrow> nat \<Rightarrow> bool \<Rightarrow> web_users \<Rightarrow> web_users \<times> string" where
  "refreshCookieCode io i enableRefresh w =
     (let ss = ActiveSessions w; me = ss ! i in
      case last_index_of (\<lambda>a. sameChain a me) ss of
        None \<Rightarrow> (w, ''0'')
      | Some j \<Rightarrow>
          if \<not> enableRefresh then (w, cookieCode (ss ! j))
          else
            (let a = (ss ! j)\<lparr>lastActivityTime := now io\<rparr> in
             if ACTIVE_SESSION_EXPIRATION_TIME div 2 < now io - startTime a then
               createNewActiveSession io (as_userId me) (as_ip me) (sessionIndex me)
                 (w\<lparr>ActiveSessions := ss[j := a\<lparr>startTime := now io - ACTIVE_SESSION_EXPIRATION_TIME
                                                  + ACTIVE_SESSION_COOKIE_OVERLAP_TIME\<rparr>]\<rparr>)
             else (w\<lparr>ActiveSessions := ss[j := a]\<rparr>, cookieCode a)))"

definition getActiveSessionCountForUser :: "web_users \<Rightarrow> u64 \<Rightarrow> nat" where
  "getActiveSessionCountForUser w uid =
     length (fold (\<lambda>a us. if as_userId a = uid \<and> sessionIndex a \<notin> set us then us @ [sessionIndex a] else us)
               (ActiveSessions w) [])"

section \<open>The lock\<close>

definition saveLockStateToFile :: "web_io \<Rightarrow> web_users \<Rightarrow> web_users" where
  "saveLockStateToFile io w = (if writable io then w\<lparr>lockFile := Some (usersUsernameWithLock w)\<rparr> else w)"

definition releaseLock :: "web_io \<Rightarrow> web_users \<Rightarrow> web_users" where
  "releaseLock io w = saveLockStateToFile io (w\<lparr>usersUsernameWithLock := []\<rparr>)"

definition setUserWithLock :: "web_io \<Rightarrow> u64 \<Rightarrow> bool \<Rightarrow> string \<Rightarrow> web_users \<Rightarrow> web_users \<times> bool" where
  "setUserWithLock io actingUid lock name w =
     (let perms = getPermissionsForUser w actingUid;
          actingUser = getUsersUsername w actingUid;
          active = isUsernameActive w name;
          give = (\<lambda>n. (saveLockStateToFile io (w\<lparr>usersUsernameWithLock := n\<rparr>), True))
      in if lock \<and> (active \<or> \<not> CareAboutCookieCodes w) then
           if \<not> CareAboutCookieCodes w \<and> \<not> active \<and> name \<noteq> DEFAULT_ADMIN_USERNAME then (w, False)
           else if \<not> isAdminForGroup perms \<and> actingUser \<noteq> name then (w, False)
           else give name
         else if \<not> lock \<and> usersUsernameWithLock w = name then give []
         else (w, False))"

text \<open>\<open>loadUserWithLock\<close>: \<open>fgets\<close> reads the first line of the file, at most 299 characters.\<close>

definition firstLine :: "string \<Rightarrow> string" where
  "firstLine s = take 299 (case findp endl s of None \<Rightarrow> s | Some i \<Rightarrow> take (i + 1) s)"

definition loadUserWithLock :: "web_io \<Rightarrow> web_users \<Rightarrow> web_users" where
  "loadUserWithLock io w =
     (let name = (case lockFile w of None \<Rightarrow> DEFAULT_ADMIN_USERNAME | Some s \<Rightarrow> c_str (firstLine s))
      in if name = [] then w
         else (case searchUsersDatabaseForUsername w name of
                 None \<Rightarrow> w
               | Some i \<Rightarrow> fst (setUserWithLock io (userId (Users w ! i)) True name w)))"

section \<open>Expiry\<close>

definition loginExpired :: "web_io \<Rightarrow> login_session \<Rightarrow> bool" where
  "loginExpired io l \<longleftrightarrow>
     ls_startTime l + LOGIN_SESSION_EXPIRATION_TIME < now io \<or> LOGIN_SESSION_ATTEMPTS_MAX < loginAttempts l"

definition sessionExpired :: "web_io \<Rightarrow> active_session \<Rightarrow> bool" where
  "sessionExpired io a \<longleftrightarrow> startTime a + ACTIVE_SESSION_EXPIRATION_TIME \<le> now io"

text \<open>
  The loop over the active sessions: \<open>kept\<close> are the entries before the current one. A user without
  a session left is reported by name; \<^term>\<open>None\<close> is the read out of bounds for an account that is gone.
\<close>

fun expireLoop ::
  "web_io \<Rightarrow> web_users \<Rightarrow> active_session list \<Rightarrow> active_session list \<Rightarrow> string list
    \<Rightarrow> (active_session list \<times> string list) option" where
  "expireLoop io w kept [] names = Some (kept, names)"
| "expireLoop io w kept (a # rest) names =
     (if sessionExpired io a then
        if uidActive w (kept @ rest) (as_userId a) then expireLoop io w kept rest names
        else (case searchUsersDatabaseForUserId w (as_userId a) of
                None \<Rightarrow> None
              | Some i \<Rightarrow> expireLoop io w kept rest (names @ [username (Users w ! i)]))
      else expireLoop io w (kept @ [a]) rest names)"

definition lockHolderActivity :: "web_users \<Rightarrow> int" where
  "lockHolderActivity w =
     fold (\<lambda>a m. case searchUsersDatabaseForUserId w (as_userId a) of
                   None \<Rightarrow> m
                 | Some i \<Rightarrow> if username (Users w ! i) = usersUsernameWithLock w \<and> m < lastActivityTime a
                            then lastActivityTime a else m)
       (ActiveSessions w) 0"

definition expireLock :: "web_io \<Rightarrow> web_users \<Rightarrow> web_users" where
  "expireLock io w =
     (if CareAboutCookieCodes w \<and> usersUsernameWithLock w \<noteq> [] \<and> \<not> isUsernameActive w (usersUsernameWithLock w)
      then releaseLock io w
      else if CareAboutCookieCodes w \<and> usersUsernameWithLock w \<noteq> [] \<and> 0 < lockHolderActivity w \<and>
              LOCK_INACTIVITY_TIMEOUT \<le> now io - lockHolderActivity w
      then releaseLock io w
      else w)"

text \<open>
  \<open>cleanupExpiredEntries\<close>; \<open>collect\<close> tells whether the caller passed a vector for the names of the
  users that were logged out, which are returned then and stored otherwise.
\<close>

definition cleanupExpiredEntries :: "web_io \<Rightarrow> bool \<Rightarrow> web_users \<Rightarrow> (web_users \<times> string list) option" where
  "cleanupExpiredEntries io collect w =
     (let w1 = w\<lparr>LoginSessions := filter (\<lambda>l. \<not> loginExpired io l) (LoginSessions w)\<rparr>
      in map_option
           (\<lambda>(ss, names).
              (let all = UsersLoggedOutUsernames w @ names
               in (expireLock io (w1\<lparr>ActiveSessions := ss,
                      UsersLoggedOutUsernames := (if collect then [] else all)\<rparr>),
                   if collect then all else [])))
           (expireLoop io w1 [] (ActiveSessions w1) []))"

definition cleanupExpiredRemoteEntries :: "web_io \<Rightarrow> web_users \<Rightarrow> web_users" where
  "cleanupExpiredRemoteEntries io w =
     w\<lparr>RemoteSessions :=
        filter (\<lambda>(c, a). \<not> startTime a + ACTIVE_SESSION_EXPIRATION_TIME div 4 \<le> now io) (RemoteSessions w)\<rparr>"

section \<open>Jumbled text\<close>

text \<open>
  \<open>hexByteStrToInt\<close>: \<open>sscanf("%X")\<close> on two characters. Only the value modulo 256 is used. \<^term>\<open>None\<close>
  when nothing is converted: the result is uninitialised.
\<close>

definition hexByteStrToInt :: "char \<Rightarrow> char \<Rightarrow> int option" where
  "hexByteStrToInt a b =
     (if is_hex a then Some (if is_hex b then digit_value a * 16 + digit_value b else digit_value a)
      else if isspace a \<or> a = CHR ''+'' then (if is_hex b then Some (digit_value b) else None)
      else if a = CHR ''-'' then (if is_hex b then Some (- digit_value b) else None)
      else None)"

text \<open>\<open>hexByteStrToInt(&s.c_str()[p * 2])\<close>; a position past the terminating NUL is out of bounds.\<close>

definition hexAt :: "string \<Rightarrow> nat \<Rightarrow> int option" where
  "hexAt s p =
     (if p * 2 + 1 < length s then hexByteStrToInt (s ! (p * 2)) (s ! (p * 2 + 1))
      else if p * 2 + 1 = length s then hexByteStrToInt (s ! (p * 2)) (CHR 0x00)
      else None)"

text \<open>The loop \<open>while(x[p]) p = (p + 1) % ss\<close>: \<^term>\<open>None\<close> when it runs forever.\<close>

partial_function (option) nextFree :: "bool list \<Rightarrow> nat \<Rightarrow> nat option" where
  "nextFree x p = (if x ! p then nextFree x ((p + 1) mod length x) else Some p)"

fun dejumbleLoop :: "string \<Rightarrow> string \<Rightarrow> nat \<Rightarrow> bool list \<Rightarrow> nat \<Rightarrow> int \<Rightarrow> string option" where
  "dejumbleLoop u s 0 x p c = Some []"
| "dejumbleLoop u s (Suc l) x p c =
     (case hexAt s p of
        None \<Rightarrow> None
      | Some step \<Rightarrow>
          (case nextFree x (nat ((int p + step) mod int (length x))) of
             None \<Rightarrow> None
           | Some q \<Rightarrow>
               (case (hexAt s q, hexAt u q) of
                  (Some n, Some v) \<Rightarrow>
                    map_option ((#) (byte_char (v - c - n)))
                      (dejumbleLoop u s l (x[q := True]) q v)
                | _ \<Rightarrow> None)))"

definition dejumble :: "string \<Rightarrow> string \<Rightarrow> string option" where
  "dejumble u s =
     (if length s \<noteq> SESSION_ID_LENGTH then Some []
      else
        (let ss = length s div 2 in
         case hexAt s 0 of
           None \<Rightarrow> None
         | Some h \<Rightarrow>
             (let p = nat (h mod int ss) in
              case (hexAt s p, hexAt u p) of
                (Some n, Some v) \<Rightarrow>
                  dejumbleLoop u s (nat ((v - int p - n) mod int ss)) ((replicate ss False)[p := True]) p v
              | _ \<Rightarrow> None)))"

section \<open>Login\<close>

text \<open>
  Outcome of a login: the returned identifier or code with the two strings returned by reference, an
  exception, undefined behaviour, or a call that does not return.
\<close>

datatype login_result = LoginReply u64 string string | LoginThrow web_error | LoginUndefined | LoginLoops

definition searchHashesDatabaseForHash :: "web_io \<Rightarrow> string \<Rightarrow> web_users \<Rightarrow> web_users \<times> bool" where
  "searchHashesDatabaseForHash io h w =
     (case index_of (\<lambda>e. hash e = h) (Hashes w) of
        None \<Rightarrow> (w, False)
      | Some i \<Rightarrow> (w\<lparr>Hashes := (Hashes w)[i := (Hashes w ! i)\<lparr>accessTime := blur io\<rparr>]\<rparr>, True))"

definition addToHashesDatabase :: "web_io \<Rightarrow> string \<Rightarrow> web_users \<Rightarrow> web_users \<times> bool" where
  "addToHashesDatabase io h w =
     (let (w1, found) = searchHashesDatabaseForHash io h w
      in if found then (w1, False)
         else saveHashes io (w1\<lparr>Hashes := Hashes w1 @ [\<lparr>hash = h, accessTime = blur io\<rparr>]\<rparr>))"

text \<open>
  The loop that sets the password of user \<open>i\<close>: the \<open>n\<close>-th attempt makes a new salt; a failure to write
  the file counts as a collision and is tried again. \<^term>\<open>None\<close> when no attempt succeeds.
\<close>

partial_function (option) setPassword ::
  "web_io \<Rightarrow> nat \<Rightarrow> string \<Rightarrow> string \<Rightarrow> nat \<Rightarrow> web_users \<Rightarrow> web_users option" where
  "setPassword io i name pw n w =
     (let w1 = updateUser i (\<lambda>u. u\<lparr>salt := newSalt io n\<rparr>) w;
          (w2, ok) = addToHashesDatabase io (sha512 io name pw (newSalt io n)) w1
      in if ok then Some w2
         else setPassword io i name pw (n + 1) (updateUser i (\<lambda>u. u\<lparr>salt := []\<rparr>) w2))"

definition saveLoginFailureCounts :: "web_io \<Rightarrow> web_users \<Rightarrow> web_users" where
  "saveLoginFailureCounts io w =
     (if writable io then
        w\<lparr>failureFile := Some (concat (map (\<lambda>u. to_string (unat (userId u)) @ '' '' @
              to_string (unat (loginFailureCount u)) @ endl)
            (filter (\<lambda>u. 0 < loginFailureCount u) (Users w))))\<rparr>
      else w)"

definition USERS_MAX_LOGIN_FAILURES :: u8 where "USERS_MAX_LOGIN_FAILURES = 20"

text \<open>A failed attempt: the counter is incremented in the condition and again in the branch.\<close>

definition countFailure :: "user \<Rightarrow> user" where
  "countFailure u =
     (let c1 = loginFailureCount u + 1; c2 = (if c1 \<noteq> - 1 then c1 + 1 else c1);
          u1 = u\<lparr>loginFailureCount := c2\<rparr>
      in if USERS_MAX_LOGIN_FAILURES \<le> c2
         then u1\<lparr>permissions := omap_put DEFAULT_USER_GROUP PERMISSION_LEVEL_INACTIVE (permissions u1)\<rparr>
         else u1)"

definition failedLogin :: "web_io \<Rightarrow> nat \<Rightarrow> web_users \<Rightarrow> web_users" where
  "failedLogin io i w =
     (let w1 = updateUser i countFailure w
      in if isInactiveForGroup (permissions (Users w1 ! i)) then fst (saveUsers io w1) else w1)"

text \<open>A successful login (its record in the history files is left out).\<close>

definition succeedLogin :: "web_io \<Rightarrow> nat \<Rightarrow> string \<Rightarrow> web_users \<Rightarrow> web_users \<times> string" where
  "succeedLogin io i ip w =
     (let w1 = (if loginFailureCount (Users w ! i) \<noteq> 0
                then saveLoginFailureCounts io (updateUser i (\<lambda>u. u\<lparr>loginFailureCount := 0\<rparr>) w) else w)
      in createNewActiveSession io (userId (Users w1 ! i)) ip 0 w1)"

text \<open>\<open>attemptActiveSession\<close> once the session is found: user \<open>name\<close>, password \<open>pw\<close>.\<close>

definition passwordLogin ::
  "web_io \<Rightarrow> string \<Rightarrow> string \<Rightarrow> string \<Rightarrow> string \<Rightarrow> string \<Rightarrow> web_users \<Rightarrow> web_users \<times> login_result" where
  "passwordLogin io name pw jumbledUser newAccountCode ip w =
     (case searchUsersDatabaseForUsername w name of
        None \<Rightarrow> (incrementIpBlacklistCount io ip w, LoginReply NOT_FOUND_IN_DATABASE jumbledUser newAccountCode)
      | Some i \<Rightarrow>
          (let w1 = updateUser i (\<lambda>u. u\<lparr>lastLoginAttempt := now io\<rparr>) (clearBlacklistCount ip w);
               u = Users w1 ! i;
               success = (\<lambda>w.
                 let (w2, cc) = succeedLogin io i ip w;
                     w3 = (if length (ActiveSessions w2) = 1
                           then fst (setUserWithLock io (userId u) True (username u) w2) else w2)
                 in (w3, LoginReply (userId u) (displayName u) cc))
           in if isInactiveForGroup (permissions u) then (w1, LoginReply ACCOUNT_INACTIVE jumbledUser newAccountCode)
              else if salt u = [] then
                if newAccountCode \<noteq> getNewAccountCode u
                then (w1, LoginReply NOT_FOUND_IN_DATABASE jumbledUser newAccountCode)
                else
                  (case setPassword io i name pw 0 w1 of
                     None \<Rightarrow> (w1, LoginLoops)
                   | Some w2 \<Rightarrow>
                       (let (w3, saved) = saveUsers io w2
                        in if saved then success w3 else (w3, LoginThrow SaveFailed)))
              else
                (let (w2, found) = searchHashesDatabaseForHash io (sha512 io name pw (salt u)) w1
                 in if found then success w2
                    else (failedLogin io i w2, LoginReply NOT_FOUND_IN_DATABASE jumbledUser newAccountCode))))"

definition countAttempt :: "nat \<Rightarrow> web_users \<Rightarrow> web_users" where
  "countAttempt i w =
     w\<lparr>LoginSessions := (LoginSessions w)[i := (LoginSessions w ! i)\<lparr>loginAttempts := loginAttempts (LoginSessions w ! i) + 1\<rparr>]\<rparr>"

definition attemptActiveSession ::
  "web_io \<Rightarrow> string \<Rightarrow> string \<Rightarrow> string \<Rightarrow> string \<Rightarrow> string \<Rightarrow> web_users \<Rightarrow> web_users \<times> login_result" where
  "attemptActiveSession io uuid jumbledUser jumbledPw newAccountCode ip w =
     (let (w1, accepted) = checkIpAccess io ip w in
      if \<not> accepted then (w1, LoginReply ACCOUNT_BLACKLISTED jumbledUser newAccountCode)
      else
        (case cleanupExpiredEntries io False w1 of
           None \<Rightarrow> (w1, LoginUndefined)
         | Some (w2, _) \<Rightarrow>
             if \<not> CareAboutCookieCodes w2 then
               (w2, LoginReply (getAdminUserID w2) (getUsersDisplayName w2 (getAdminUserID w2)) (genCookieCode io))
             else
               (case searchLoginSessionDatabaseForUUID w2 uuid of
                  None \<Rightarrow> (incrementIpBlacklistCount io ip w2, LoginReply NOT_FOUND_IN_DATABASE jumbledUser ''1'')
                | Some i \<Rightarrow>
                    (let w3 = countAttempt i w2; sid = ls_id (LoginSessions w3 ! i) in
                     case (dejumble jumbledUser sid, dejumble jumbledPw sid) of
                       (Some name, Some pw) \<Rightarrow> passwordLogin io name pw jumbledUser newAccountCode ip w3
                     | _ \<Rightarrow> (w3, LoginUndefined)))))"

text \<open>
  \<open>attemptActiveSessionWithCert\<close>; \<open>lookup\<close> is \<open>getUserEmailFromFingerprint\<close>. The name that is returned
  is looked up with the index of the user instead of the identifier.
\<close>

definition certLogin ::
  "web_io \<Rightarrow> string \<Rightarrow> string \<Rightarrow> string \<Rightarrow> string \<Rightarrow> web_users \<Rightarrow> web_users \<times> login_result \<times> string" where
  "certLogin io mail cookie user ip w =
     (case searchUsersDatabaseForUserEmail w mail of
        None \<Rightarrow> (incrementIpBlacklistCount io ip w, LoginReply NOT_FOUND_IN_DATABASE mail cookie, user)
      | Some i \<Rightarrow>
          (let w0 = clearBlacklistCount ip w;
               name = getUsersUsername w0 (of_nat i);
               w1 = updateUser i (\<lambda>u. u\<lparr>lastLoginAttempt := now io\<rparr>) w0;
               u = Users w1 ! i
           in if isInactiveForGroup (permissions u) \<or> salt u = [] then
                (w1, LoginReply NOT_FOUND_IN_DATABASE mail cookie, name)
              else
                (let (w2, cc) = succeedLogin io i ip w1
                 in (w2, LoginReply (userId u) (displayName u) cc, name))))"

definition attemptActiveSessionWithCert ::
  "web_io \<Rightarrow> (string \<Rightarrow> string) \<Rightarrow> string \<Rightarrow> string \<Rightarrow> string \<Rightarrow> string \<Rightarrow> string \<Rightarrow> web_users
    \<Rightarrow> web_users \<times> login_result \<times> string" where
  "attemptActiveSessionWithCert io lookup uuid mail cookie user ip w =
     (let (w1, accepted) = checkIpAccess io ip w;
          refused = (\<lambda>m cc w. (incrementIpBlacklistCount io ip w, LoginReply NOT_FOUND_IN_DATABASE m cc, user))
      in if \<not> accepted then (w1, LoginReply NOT_FOUND_IN_DATABASE mail cookie, user)
      else
        (case cleanupExpiredEntries io False w1 of
           None \<Rightarrow> (w1, LoginUndefined, user)
         | Some (w2, _) \<Rightarrow>
             if \<not> CareAboutCookieCodes w2 then
               (w2, LoginReply (getAdminUserID w2) (getUsersDisplayName w2 (getAdminUserID w2)) (genCookieCode io), user)
             else if mail = [] then refused mail cookie w2
             else
               (case searchLoginSessionDatabaseForUUID w2 uuid of
                  None \<Rightarrow> refused mail ''1'' w2
                | Some i \<Rightarrow>
                    (let w3 = countAttempt i w2
                     in if lookup mail = [] then refused [] cookie w3
                        else certLogin io (lookup mail) cookie user ip w3))))"

text \<open>
  \<open>isCookieCodeActiveForLogin\<close>: the returned identifier with the refreshed cookie code and the display
  name; \<^term>\<open>None\<close> is undefined behaviour in \<open>dejumble\<close>.
\<close>

definition isCookieCodeActiveForLogin ::
  "web_io \<Rightarrow> string \<Rightarrow> string \<Rightarrow> string \<Rightarrow> web_users \<Rightarrow> (web_users \<times> u64 \<times> string \<times> string) option" where
  "isCookieCodeActiveForLogin io uuid cookie jumbledUser w =
     (if \<not> CareAboutCookieCodes w then Some (w, getAdminUserID w, cookie, jumbledUser)
      else if ActiveSessions w = [] then Some (w, NOT_FOUND_IN_DATABASE, cookie, jumbledUser)
      else
        (case searchLoginSessionDatabaseForUUID w uuid of
           None \<Rightarrow> Some (w, NOT_FOUND_IN_DATABASE, cookie, jumbledUser)
         | Some l \<Rightarrow>
             (case dejumble jumbledUser (ls_id (LoginSessions w ! l)) of
                None \<Rightarrow> None
              | Some name \<Rightarrow>
                  (let refused = Some (w, NOT_FOUND_IN_DATABASE, cookie, name) in
                   case searchActiveSessionDatabaseForCookie w cookie of
                     None \<Rightarrow> refused
                   | Some i \<Rightarrow>
                       (case searchUsersDatabaseForUserId w (as_userId (ActiveSessions w ! i)) of
                          None \<Rightarrow> refused
                        | Some j \<Rightarrow>
                            if username (Users w ! j) \<noteq> name then refused
                            else
                              (let (w1, cc) = refreshCookieCode io i True w
                               in Some (w1, userId (Users w ! j), cc, displayName (Users w ! j))))))))"

section \<open>Logout\<close>

text \<open>\<open>cookieCodeLogout\<close>: the number of sessions removed and the identifier of the user.\<close>

definition loggedOut :: "bool \<Rightarrow> active_session \<Rightarrow> active_session \<Rightarrow> bool" where
  "loggedOut others me a \<longleftrightarrow>
     as_userId a = as_userId me \<and> (if others then sessionIndex a \<noteq> sessionIndex me else sessionIndex a = sessionIndex me)"

definition cookieCodeLogout ::
  "web_io \<Rightarrow> string \<Rightarrow> bool \<Rightarrow> string \<Rightarrow> web_users \<Rightarrow> web_users \<times> u64 \<times> u64 option" where
  "cookieCodeLogout io cookie others ip w =
     (case searchActiveSessionDatabaseForCookie w cookie of
        None \<Rightarrow> (incrementIpBlacklistCount io ip w, NOT_FOUND_IN_DATABASE, None)
      | Some i \<Rightarrow>
          (let w1 = clearBlacklistCount ip w; me = ActiveSessions w1 ! i in
           if as_ip me \<noteq> ip then (w1, NOT_FOUND_IN_DATABASE, None)
           else
             (let uid = as_userId me;
                  gone = filter (loggedOut others me) (ActiveSessions w1);
                  w2 = w1\<lparr>ActiveSessions := filter (\<lambda>a. \<not> loggedOut others me a) (ActiveSessions w1)\<rparr>;
                  w3 = (if CareAboutCookieCodes w2 \<and> usersUsernameWithLock w2 \<noteq> [] \<and> \<not> isUserIdActive w2 uid \<and>
                           getUsersUsername w2 uid = usersUsernameWithLock w2
                        then releaseLock io w2 else w2)
              in (w3, of_nat (length gone), Some uid))))"

section \<open>Verification by the Gateway above\<close>

text \<open>
  The other end: the port of the Gateway above, this Gateway's name there, and what \<open>sendAndReceive\<close> of
  the socket gives for a request (\<^term>\<open>None\<close> when it throws).
\<close>

record remote_gateway =
  remoteLoginVerificationPort :: int
  remoteGatewaySelfName :: string
  sendAndReceive :: "string \<Rightarrow> string option"

definition lockHandling :: "bool \<Rightarrow> string \<Rightarrow> web_users \<Rightarrow> web_users" where
  "lockHandling refresh name w =
     (let lock = usersUsernameWithLock w in
      if \<not> CareAboutCookieCodes w \<and> refresh \<and> (lock = DEFAULT_ADMIN_USERNAME \<or> lock = []) \<and> lock \<noteq> name
      then w\<lparr>usersUsernameWithLock := name\<rparr>
      else if ActiveSessions w = [] \<and> length (RemoteSessions w) = 1 \<and> refresh \<and> lock = [] \<and> lock \<noteq> name
      then w\<lparr>usersUsernameWithLock := name\<rparr>
      else w)"

text \<open>
  What the answer of the Gateway above says is entered into the database: the user, its permissions,
  and a remote session. \<^term>\<open>Inl\<close> is an exception.
\<close>

definition enterRemoteUser ::
  "web_io \<Rightarrow> bool \<Rightarrow> string \<Rightarrow> string list \<Rightarrow> web_users \<Rightarrow> web_users \<times> (web_error + u64 \<times> string)" where
  "enterRemoteUser io refresh ip rx w =
     (let name = rx ! 3;
          (w1, r) = (case searchUsersDatabaseForUsername w name of
                       Some j \<Rightarrow> (w, Inr j)
                     | None \<Rightarrow>
                         (let (w', e) = createNewAccount io name (rx ! 4) [] w
                          in (w', case e of Some x \<Rightarrow> Inl x | None \<Rightarrow> Inr (length (Users w') - 1))))
      in case r of
           Inl x \<Rightarrow> (w1, Inl x)
         | Inr j \<Rightarrow>
             (let w2 = updateUser j (\<lambda>u. (setModifier io ''REMOTE_GATEWAY'' (u\<lparr>lastLoginAttempt := now io\<rparr>))
                                           \<lparr>permissions := []\<rparr>) w1
              in case decodeURIComponent (rx ! 1) of
                   None \<Rightarrow> (w2, Inl OutOfBounds)
                 | Some text \<Rightarrow>
                     (case getNumberMap (environment io) text [] of
                        None \<Rightarrow> (w2, Inl NoReturn)
                      | Some (Inl x) \<Rightarrow> (w2, Inl (BadPermissions x))
                      | Some (Inr perms) \<Rightarrow>
                          (let w3 = updateUser j (\<lambda>u. u\<lparr>permissions := perms\<rparr>) w2;
                               cookie = rx ! 0;
                               old = (case omap_get (RemoteSessions w3) cookie of
                                        Some a \<Rightarrow> a
                                      | None \<Rightarrow> \<lparr>cookieCode = [], as_ip = [], as_userId = 0, sessionIndex = 0,
                                                 startTime = 0, lastActivityTime = 0\<rparr>);
                               a = old\<lparr>cookieCode := cookie, as_ip := ip, as_userId := userId (Users w3 ! j),
                                       sessionIndex := (case scan_unsigned (c_str (rx ! 5)) of
                                                          None \<Rightarrow> sessionIndex old | Some v \<Rightarrow> v),
                                       startTime := now io\<rparr>;
                               w4 = w3\<lparr>RemoteSessions := omap_put cookie a (RemoteSessions w3)\<rparr>
                           in (lockHandling refresh (username (Users w4 ! j)) w4,
                               Inr (userId (Users w4 ! j), cookie))))))"

definition checkRemoteLoginVerification ::
  "web_io \<Rightarrow> remote_gateway \<Rightarrow> string \<Rightarrow> bool \<Rightarrow> bool \<Rightarrow> string \<Rightarrow> web_users
    \<Rightarrow> web_users \<times> (web_error + u64 \<times> string)" where
  "checkRemoteLoginVerification io rg cookie refresh doNotGoRemote ip w0 =
     (let w1 = w0\<lparr>remoteLoginVerificationEnabledBlackoutTime := 0\<rparr> in
      if remoteLoginVerificationPort rg = 0 then (w1, Inl NoRemotePort)
      else
        (let w = cleanupExpiredRemoteEntries io w1 in
         case omap_get (RemoteSessions w) cookie of
           Some a \<Rightarrow>
             (case searchUsersDatabaseForUserId w (as_userId a) of
                None \<Rightarrow> (w, Inl UserNotFound)
              | Some j \<Rightarrow> (lockHandling refresh (username (Users w ! j)) w, Inr (as_userId a, cookie)))
         | None \<Rightarrow>
             if doNotGoRemote then (w, Inr (NOT_FOUND_IN_DATABASE, cookie))
             else
               (case sendAndReceive rg (''loginVerify,'' @ cookie @ '','' @ (if refresh then ''1'' else ''0'') @ '',''
                       @ ip @ '','' @ remoteGatewaySelfName rg) of
                  None \<Rightarrow> (w, Inl SocketFailure)
                | Some response \<Rightarrow>
                    (case getVectorFromString pair_delimiter blank False response of
                       None \<Rightarrow> (w, Inl OutOfBounds)
                     | Some (rx, _) \<Rightarrow>
                         if length rx \<noteq> 6 then (w, Inr (NOT_FOUND_IN_DATABASE, cookie))
                         else enterRemoteUser io refresh ip rx w))))"

section \<open>The check of every request\<close>

definition REQ_NO_LOGIN_RESPONSE :: string where "REQ_NO_LOGIN_RESPONSE = ''NoLogin''"
definition REQ_NO_PERMISSION_RESPONSE :: string where "REQ_NO_PERMISSION_RESPONSE = ''NoPermission''"
definition REQ_USER_LOCKOUT_RESPONSE :: string where "REQ_USER_LOCKOUT_RESPONSE = ''UserLockout''"
definition REQ_LOCK_REQUIRED_RESPONSE :: string where "REQ_LOCK_REQUIRED_RESPONSE = ''LockRequired''"
definition REQ_ALLOW_NO_USER :: string where "REQ_ALLOW_NO_USER = ''AllowNoUser''"

text \<open>What \<open>cookieCodeIsActiveForRequest\<close> returns through its pointers when it returns true.\<close>

record access_grant =
  ag_permissions :: permission_map
  ag_uid :: u64
  ag_userWithLock :: string
  ag_session :: u64

text \<open>
  The part up to the verdict of the Gateway above: \<open>Some\<close> the state, whether remote login is still
  enabled, and the user with the cookie code and the session index when it was verified remotely.
  Every exception is ignored; when security is off, it also disables remote login for ten seconds.
  \<^term>\<open>None\<close> stands for undefined behaviour and for a substitution of variables that does not end.
\<close>

definition remoteVerdict ::
  "web_io \<Rightarrow> remote_gateway \<Rightarrow> string \<Rightarrow> string \<Rightarrow> bool \<Rightarrow> bool \<Rightarrow> web_users
    \<Rightarrow> (web_users \<times> bool \<times> (u64 \<times> string \<times> u64) option) option" where
  "remoteVerdict io rg cookie ip refresh doNotGoRemote w =
     (let enabled = remoteLoginVerificationEnabled w in
      if \<not> (enabled \<and> remoteLoginVerificationEnabledBlackoutTime w < now io) then Some (w, enabled, None)
      else
        (case checkRemoteLoginVerification io rg cookie refresh doNotGoRemote ip w of
           (w1, Inr (uid, cc)) \<Rightarrow>
             if uid = NOT_FOUND_IN_DATABASE then Some (w1, enabled, None)
             else (case omap_get (RemoteSessions w1) cc of
                     None \<Rightarrow> None
                   | Some a \<Rightarrow> Some (w1, enabled, Some (uid, cc, sessionIndex a)))
         | (w1, Inl e) \<Rightarrow>
             if e = OutOfBounds \<or> e = NoReturn then None
             else if \<not> CareAboutCookieCodes w1 \<and> enabled \<and> remoteLoginVerificationEnabledBlackoutTime w1 = 0
             then Some (w1\<lparr>remoteLoginVerificationEnabled := False,
                          remoteLoginVerificationEnabledBlackoutTime := now io + 10\<rparr>, False, None)
             else Some (w1, enabled, None)))"

text \<open>The end, once the user is known: the account must exist and be active.\<close>

definition grantUser ::
  "u64 \<Rightarrow> string \<Rightarrow> u64 \<Rightarrow> web_users \<Rightarrow> web_users \<times> string \<times> access_grant option" where
  "grantUser uid cookie session w =
     (case searchUsersDatabaseForUserId w uid of
        None \<Rightarrow> (w, REQ_NO_LOGIN_RESPONSE, None)
      | Some j \<Rightarrow>
          if isInactiveForGroup (getPermissionsForUser w uid) then (w, REQ_NO_PERMISSION_RESPONSE, None)
          else (w, cookie, Some \<lparr>ag_permissions = getPermissionsForUser w uid, ag_uid = uid,
                                 ag_userWithLock = usersUsernameWithLock w, ag_session = session\<rparr>))"

definition localVerdict ::
  "web_io \<Rightarrow> string \<Rightarrow> string \<Rightarrow> bool \<Rightarrow> web_users \<Rightarrow> web_users \<times> string \<times> access_grant option" where
  "localVerdict io cookie ip refresh w =
     (case searchActiveSessionDatabaseForCookie w cookie of
        None \<Rightarrow> (incrementIpBlacklistCount io ip w, REQ_NO_LOGIN_RESPONSE, None)
      | Some i \<Rightarrow>
          (let w1 = clearBlacklistCount ip w; a = ActiveSessions w1 ! i in
           if ip \<noteq> ''0'' \<and> as_ip a \<noteq> ip then (w1, REQ_NO_LOGIN_RESPONSE, None)
           else
             (let (w2, cc) = refreshCookieCode io i refresh w1
              in grantUser (as_userId a) cc (sessionIndex a) w2)))"

definition cookieCodeIsActiveForRequest ::
  "web_io \<Rightarrow> remote_gateway \<Rightarrow> string \<Rightarrow> string \<Rightarrow> bool \<Rightarrow> bool \<Rightarrow> web_users
    \<Rightarrow> (web_users \<times> string \<times> access_grant option) option" where
  "cookieCodeIsActiveForRequest io rg cookie ip refresh doNotGoRemote w =
     (let (w1, accepted) = checkIpAccess io ip w in
      if \<not> accepted then Some (w1, REQ_NO_LOGIN_RESPONSE, None)
      else
        (case cleanupExpiredEntries io False w1 of
           None \<Rightarrow> None
         | Some (w2, _) \<Rightarrow>
             (case remoteVerdict io rg cookie ip refresh doNotGoRemote w2 of
                None \<Rightarrow> None
              | Some (w3, enabled, Some (uid, cc, session)) \<Rightarrow> Some (grantUser uid cc session w3)
              | Some (w3, enabled, None) \<Rightarrow>
                  if \<not> CareAboutCookieCodes w3 then
                    Some (w3, if enabled then REQ_ALLOW_NO_USER
                              else if length cookie \<noteq> COOKIE_CODE_LENGTH then genCookieCode io else cookie,
                          Some \<lparr>ag_permissions = [(DEFAULT_USER_GROUP, PERMISSION_LEVEL_ADMIN)],
                                ag_uid = getAdminUserID w3, ag_userWithLock = usersUsernameWithLock w3,
                                ag_session = 0\<rparr>)
                  else Some (localVerdict io cookie ip refresh w3))))"

section \<open>Lemmas\<close>

interpretation by_uuid: keyed_search searchLoginSessionDatabaseForUUID LoginSessions ls_uuid
  by unfold_locales (auto simp: searchLoginSessionDatabaseForUUID_def index_of_None dest: index_of_Some)

interpretation by_cookie: keyed_search searchActiveSessionDatabaseForCookie ActiveSessions cookieCode
  by unfold_locales (auto simp: searchActiveSessionDatabaseForCookie_def index_of_None dest: index_of_Some)

subsection \<open>What the operations leave alone\<close>

lemma loadIPAddressSecurity_keeps [simp]:
  "Users (loadIPAddressSecurity io w) = Users w" "ActiveSessions (loadIPAddressSecurity io w) = ActiveSessions w"
  "LoginSessions (loadIPAddressSecurity io w) = LoginSessions w"
  "RemoteSessions (loadIPAddressSecurity io w) = RemoteSessions w"
  "usersUsernameWithLock (loadIPAddressSecurity io w) = usersUsernameWithLock w"
  "CareAboutCookieCodes (loadIPAddressSecurity io w) = CareAboutCookieCodes w"
  "remoteLoginVerificationEnabled (loadIPAddressSecurity io w) = remoteLoginVerificationEnabled w"
  "UsersLoggedOutUsernames (loadIPAddressSecurity io w) = UsersLoggedOutUsernames w"
  by (simp_all add: loadIPAddressSecurity_def)

lemma checkIpAccess_keeps [simp]:
  "Users (fst (checkIpAccess io ip w)) = Users w" "ActiveSessions (fst (checkIpAccess io ip w)) = ActiveSessions w"
  "LoginSessions (fst (checkIpAccess io ip w)) = LoginSessions w"
  "RemoteSessions (fst (checkIpAccess io ip w)) = RemoteSessions w"
  "usersUsernameWithLock (fst (checkIpAccess io ip w)) = usersUsernameWithLock w"
  "CareAboutCookieCodes (fst (checkIpAccess io ip w)) = CareAboutCookieCodes w"
  "remoteLoginVerificationEnabled (fst (checkIpAccess io ip w)) = remoteLoginVerificationEnabled w"
  "UsersLoggedOutUsernames (fst (checkIpAccess io ip w)) = UsersLoggedOutUsernames w"
  by (simp_all add: checkIpAccess_def Let_def)

lemma incrementIpBlacklistCount_keeps [simp]:
  "Users (incrementIpBlacklistCount io ip w) = Users w"
  "ActiveSessions (incrementIpBlacklistCount io ip w) = ActiveSessions w"
  "LoginSessions (incrementIpBlacklistCount io ip w) = LoginSessions w"
  "usersUsernameWithLock (incrementIpBlacklistCount io ip w) = usersUsernameWithLock w"
  "CareAboutCookieCodes (incrementIpBlacklistCount io ip w) = CareAboutCookieCodes w"
  by (auto simp: incrementIpBlacklistCount_def Let_def split: option.splits)

lemma clearBlacklistCount_keeps [simp]:
  "Users (clearBlacklistCount ip w) = Users w" "ActiveSessions (clearBlacklistCount ip w) = ActiveSessions w"
  "LoginSessions (clearBlacklistCount ip w) = LoginSessions w" "RemoteSessions (clearBlacklistCount ip w) = RemoteSessions w"
  "usersUsernameWithLock (clearBlacklistCount ip w) = usersUsernameWithLock w"
  "CareAboutCookieCodes (clearBlacklistCount ip w) = CareAboutCookieCodes w" "Hashes (clearBlacklistCount ip w) = Hashes w"
  "remoteLoginVerificationEnabled (clearBlacklistCount ip w) = remoteLoginVerificationEnabled w"
  by (simp_all add: clearBlacklistCount_def)

lemma saveLockStateToFile_keeps [simp]:
  "Users (saveLockStateToFile io w) = Users w" "ActiveSessions (saveLockStateToFile io w) = ActiveSessions w"
  "LoginSessions (saveLockStateToFile io w) = LoginSessions w" "RemoteSessions (saveLockStateToFile io w) = RemoteSessions w"
  "usersUsernameWithLock (saveLockStateToFile io w) = usersUsernameWithLock w"
  "CareAboutCookieCodes (saveLockStateToFile io w) = CareAboutCookieCodes w"
  "remoteLoginVerificationEnabled (saveLockStateToFile io w) = remoteLoginVerificationEnabled w"
  "UsersLoggedOutUsernames (saveLockStateToFile io w) = UsersLoggedOutUsernames w"
  by (simp_all add: saveLockStateToFile_def)

lemma releaseLock_keeps [simp]:
  "Users (releaseLock io w) = Users w" "ActiveSessions (releaseLock io w) = ActiveSessions w"
  "LoginSessions (releaseLock io w) = LoginSessions w" "RemoteSessions (releaseLock io w) = RemoteSessions w"
  "usersUsernameWithLock (releaseLock io w) = []"
  "CareAboutCookieCodes (releaseLock io w) = CareAboutCookieCodes w"
  "remoteLoginVerificationEnabled (releaseLock io w) = remoteLoginVerificationEnabled w"
  "UsersLoggedOutUsernames (releaseLock io w) = UsersLoggedOutUsernames w"
  by (simp_all add: releaseLock_def)

lemma expireLock_keeps [simp]:
  "Users (expireLock io w) = Users w" "ActiveSessions (expireLock io w) = ActiveSessions w"
  "LoginSessions (expireLock io w) = LoginSessions w" "RemoteSessions (expireLock io w) = RemoteSessions w"
  "CareAboutCookieCodes (expireLock io w) = CareAboutCookieCodes w"
  "remoteLoginVerificationEnabled (expireLock io w) = remoteLoginVerificationEnabled w"
  "UsersLoggedOutUsernames (expireLock io w) = UsersLoggedOutUsernames w"
  by (simp_all add: expireLock_def)

lemma setUserWithLock_keeps [simp]:
  "Users (fst (setUserWithLock io uid lock name w)) = Users w"
  "ActiveSessions (fst (setUserWithLock io uid lock name w)) = ActiveSessions w"
  "LoginSessions (fst (setUserWithLock io uid lock name w)) = LoginSessions w"
  "CareAboutCookieCodes (fst (setUserWithLock io uid lock name w)) = CareAboutCookieCodes w"
  by (simp_all add: setUserWithLock_def Let_def)

subsection \<open>Expiry\<close>

lemma expireLoop_kept:
  "expireLoop io w kept rest names = Some (ss, ns) \<Longrightarrow> ss = kept @ filter (\<lambda>a. \<not> sessionExpired io a) rest"
  by (induction io w kept rest names rule: expireLoop.induct) (auto split: if_splits option.splits)

lemma expireLoop_defined:
  "\<forall>a \<in> set rest. as_userId a \<in> userId ` set (Users w) \<Longrightarrow> expireLoop io w kept rest names \<noteq> None"
proof (induction io w kept rest names rule: expireLoop.induct)
  case (2 io w kept a rest names)
  then have "searchUsersDatabaseForUserId w (as_userId a) \<noteq> None" by (auto simp: by_uid.missing)
  then show ?case using 2 by (auto split: option.split)
qed simp

lemma cleanup_result:
  assumes "cleanupExpiredEntries io collect w = Some (w', names)"
  shows "ActiveSessions w' = filter (\<lambda>a. \<not> sessionExpired io a) (ActiveSessions w)"
    "LoginSessions w' = filter (\<lambda>l. \<not> loginExpired io l) (LoginSessions w)"
    "Users w' = Users w" "RemoteSessions w' = RemoteSessions w" "CareAboutCookieCodes w' = CareAboutCookieCodes w"
    "remoteLoginVerificationEnabled w' = remoteLoginVerificationEnabled w"
  using assms by (auto simp: cleanupExpiredEntries_def Let_def dest: expireLoop_kept)

lemma cleanup_defined:
  "\<forall>a \<in> set (ActiveSessions w). as_userId a \<in> userId ` set (Users w) \<Longrightarrow>
   cleanupExpiredEntries io collect w \<noteq> None"
  by (auto simp: cleanupExpiredEntries_def Let_def expireLoop_defined)

subsection \<open>New and refreshed cookie codes\<close>

lemma genCookieCode_length: "length (genCookieCode io) = COOKIE_CODE_LENGTH"
proof -
  have "length (concat (map (\<lambda>i. intToHexStr (randByte io i)) is)) = 2 * length is" for "is"
    by (induction "is") (simp_all add: intToHexStr_def)
  then show ?thesis by (simp add: genCookieCode_def COOKIE_CODE_LENGTH_def)
qed

definition newSession :: "web_io \<Rightarrow> u64 \<Rightarrow> string \<Rightarrow> u64 \<Rightarrow> active_session" where
  "newSession io uid ip idx =
     \<lparr>cookieCode = genCookieCode io, as_ip = ip, as_userId = uid, sessionIndex = idx,
      startTime = now io, lastActivityTime = now io\<rparr>"

lemma newSession_simps [simp]:
  "cookieCode (newSession io uid ip idx) = genCookieCode io" "as_ip (newSession io uid ip idx) = ip"
  "as_userId (newSession io uid ip idx) = uid" "sessionIndex (newSession io uid ip idx) = idx"
  "startTime (newSession io uid ip idx) = now io" "lastActivityTime (newSession io uid ip idx) = now io"
  by (simp_all add: newSession_def)

lemma max_index_bound:
  fixes m :: u64
  assumes "unat m \<le> n" "\<forall>a \<in> set ss. unat (sessionIndex a) \<le> n"
  shows "unat (fold (\<lambda>s m. if as_userId s = uid \<and> m < sessionIndex s then sessionIndex s else m) ss m) \<le> n"
  using assms by (induction ss arbitrary: m) auto

lemma createNewActiveSession_result:
  obtains idx where
    "createNewActiveSession io uid ip asIndex w =
       (w\<lparr>ActiveSessions := ActiveSessions w @ [newSession io uid ip idx]\<rparr>, genCookieCode io)"
    "asIndex \<noteq> 0 \<Longrightarrow> idx = asIndex"
    "\<And>n. \<lbrakk>asIndex = 0; n < 2 ^ 64 - 1; \<forall>a \<in> set (ActiveSessions w). unat (sessionIndex a) \<le> n\<rbrakk>
       \<Longrightarrow> 0 < idx \<and> unat idx \<le> n + 1"
proof -
  let ?a = "newSession io uid ip 0"
  let ?m = "fold (\<lambda>s m. if as_userId s = uid \<and> m < sessionIndex s then sessionIndex s else m) (ActiveSessions w @ [?a]) 0"
  let ?idx = "if asIndex \<noteq> 0 then asIndex else if ?m \<noteq> 0 then ?m + 1 else 1"
  have 1: "createNewActiveSession io uid ip asIndex w =
      (w\<lparr>ActiveSessions := ActiveSessions w @ [newSession io uid ip ?idx]\<rparr>, genCookieCode io)"
    by (simp add: createNewActiveSession_def newSession_def Let_def)
  have 2: "0 < ?idx \<and> unat ?idx \<le> n + 1"
    if "asIndex = 0" "n < 2 ^ 64 - 1" "\<forall>a \<in> set (ActiveSessions w). unat (sessionIndex a) \<le> n" for n
  proof -
    have m: "unat ?m \<le> n" by (rule max_index_bound) (use that in auto)
    then have "unat (?m + 1) = unat ?m + 1" using that(2) by (simp add: unat_word_ariths)
    then have "0 < ?m + 1 \<and> unat (?m + 1) \<le> n + 1" using m by (simp add: word_less_nat_alt)
    then show ?thesis using that(1) by simp
  qed
  show ?thesis by (rule that [of ?idx]) (use 1 2 in simp_all)
qed

text \<open>
  A refresh keeps every other entry, returns a cookie code of the same chain, and changes the start
  of the last entry of the chain only when a new one is appended.
\<close>

lemma refreshCookieCode_result:
  assumes i: "i < length (ActiveSessions w)" and idx: "sessionIndex (ActiveSessions w ! i) \<noteq> 0"
  obtains j a news where
    "j < length (ActiveSessions w)" "sameChain (ActiveSessions w ! j) (ActiveSessions w ! i)"
    "sameChain a (ActiveSessions w ! j)" "cookieCode a = cookieCode (ActiveSessions w ! j)" "as_ip a = as_ip (ActiveSessions w ! j)"
    "fst (refreshCookieCode io i refresh w) = w\<lparr>ActiveSessions := (ActiveSessions w)[j := a] @ news\<rparr>"
    "news = [] \<and> snd (refreshCookieCode io i refresh w) = cookieCode a \<and> startTime a = startTime (ActiveSessions w ! j) \<and>
       (refresh \<longrightarrow> now io - startTime a \<le> ACTIVE_SESSION_EXPIRATION_TIME div 2) \<or>
     refresh \<and> snd (refreshCookieCode io i refresh w) = genCookieCode io \<and>
       startTime a = now io - ACTIVE_SESSION_EXPIRATION_TIME + ACTIVE_SESSION_COOKIE_OVERLAP_TIME \<and>
       news = [newSession io (as_userId a) (as_ip (ActiveSessions w ! i)) (sessionIndex a)]"
proof -
  let ?ss = "ActiveSessions w"
  have "last_index_of (\<lambda>a. sameChain a (?ss ! i)) ?ss \<noteq> None"
    using i nth_mem [OF i] by (auto simp: last_index_of_None sameChain_def)
  then obtain j where jj: "last_index_of (\<lambda>a. sameChain a (?ss ! i)) ?ss = Some j" by blast
  then have j: "j < length ?ss" "sameChain (?ss ! j) (?ss ! i)" using last_index_of_Some [OF jj] by auto
  let ?a = "(?ss ! j)\<lparr>lastActivityTime := now io\<rparr>"
  let ?b = "?a\<lparr>startTime := now io - ACTIVE_SESSION_EXPIRATION_TIME + ACTIVE_SESSION_COOKIE_OVERLAP_TIME\<rparr>"
  obtain k where k:
    "createNewActiveSession io (as_userId (?ss ! i)) (as_ip (?ss ! i)) (sessionIndex (?ss ! i)) (w\<lparr>ActiveSessions := ?ss[j := ?b]\<rparr>) =
       (w\<lparr>ActiveSessions := ?ss[j := ?b] @ [newSession io (as_userId (?ss ! i)) (as_ip (?ss ! i)) k]\<rparr>, genCookieCode io)"
    "k = sessionIndex (?ss ! i)"
    using idx createNewActiveSession_result [of io "as_userId (?ss ! i)" "as_ip (?ss ! i)" "sessionIndex (?ss ! i)"
        "w\<lparr>ActiveSessions := ?ss[j := ?b]\<rparr>"] by auto
  consider "\<not> refresh" | "refresh" "ACTIVE_SESSION_EXPIRATION_TIME div 2 < now io - startTime ?a"
    | "refresh" "\<not> ACTIVE_SESSION_EXPIRATION_TIME div 2 < now io - startTime ?a" by blast
  then show ?thesis
  proof cases
    case 1
    then show ?thesis
      using that [of j "?ss ! j" "[]"] j jj by (simp add: refreshCookieCode_def Let_def sameChain_def)
  next
    case 2
    then show ?thesis
      using that [of j ?b "[newSession io (as_userId (?ss ! i)) (as_ip (?ss ! i)) k]"] j jj k
      by (simp add: refreshCookieCode_def Let_def sameChain_def)
  next
    case 3
    then show ?thesis
      using that [of j ?a "[]"] j jj by (simp add: refreshCookieCode_def Let_def sameChain_def)
  qed
qed

section \<open>Properties\<close>

text \<open>
  The invariant of the active sessions: cookie codes are unique, every session belongs to an account,
  and the indices of the sessions are between 1 and \<open>n\<close>.
\<close>

definition sessions_ok :: "nat \<Rightarrow> web_users \<Rightarrow> bool" where
  "sessions_ok n w \<longleftrightarrow>
     distinct (map cookieCode (ActiveSessions w)) \<and>
     (\<forall>a \<in> set (ActiveSessions w). as_userId a \<in> userId ` set (Users w) \<and> sessionIndex a \<noteq> 0 \<and>
        unat (sessionIndex a) \<le> n)"

text \<open>A session that lets a request through.\<close>

definition authorises :: "web_io \<Rightarrow> string \<Rightarrow> string \<Rightarrow> web_users \<Rightarrow> active_session \<Rightarrow> bool" where
  "authorises io cookie ip w a \<longleftrightarrow>
     cookieCode a = cookie \<and> \<not> sessionExpired io a \<and> (ip = ''0'' \<or> as_ip a = ip) \<and>
     \<not> isInactiveForGroup (getPermissionsForUser w (as_userId a))"

lemma getPermissions_same: "Users v = Users w \<Longrightarrow> getPermissionsForUser v uid = getPermissionsForUser w uid"
  by (simp add: getPermissionsForUser_def searchUsersDatabaseForUserId_def split: option.split)

lemma isUsers_same: "Users v = Users w \<Longrightarrow> searchUsersDatabaseForUserId v uid = searchUsersDatabaseForUserId w uid"
  by (simp add: searchUsersDatabaseForUserId_def)

lemma grantUser_result:
  assumes "uid \<in> userId ` set (Users w)"
  shows "grantUser uid cookie session w =
    (if isInactiveForGroup (getPermissionsForUser w uid) then (w, REQ_NO_PERMISSION_RESPONSE, None)
     else (w, cookie, Some \<lparr>ag_permissions = getPermissionsForUser w uid, ag_uid = uid,
                            ag_userWithLock = usersUsernameWithLock w, ag_session = session\<rparr>))"
  using assms by (auto simp: grantUser_def by_uid.missing split: option.split)

lemma localVerdict_granted:
  assumes ok: "sessions_ok n w" and i: "i < length (ActiveSessions w)"
    and a: "cookieCode (ActiveSessions w ! i) = cookie" "ip = ''0'' \<or> as_ip (ActiveSessions w ! i) = ip"
    and act: "\<not> isInactiveForGroup (getPermissionsForUser w (as_userId (ActiveSessions w ! i)))"
  obtains w' b where "localVerdict io cookie ip refresh w =
      (w', cookieCode b, Some \<lparr>ag_permissions = getPermissionsForUser w (as_userId (ActiveSessions w ! i)),
         ag_uid = as_userId (ActiveSessions w ! i), ag_userWithLock = usersUsernameWithLock w,
         ag_session = sessionIndex (ActiveSessions w ! i)\<rparr>)"
    "b \<in> set (ActiveSessions w')" "sameChain b (ActiveSessions w ! i)" "Users w' = Users w"
    "usersUsernameWithLock w' = usersUsernameWithLock w" "CareAboutCookieCodes w' = CareAboutCookieCodes w"
    "remoteLoginVerificationEnabled w' = remoteLoginVerificationEnabled w"
proof -
  let ?w1 = "clearBlacklistCount ip w"
  let ?a = "ActiveSessions w ! i"
  have f: "searchActiveSessionDatabaseForCookie w cookie = Some i"
    using by_cookie.unique [of w i] ok i a(1) by (simp add: sessions_ok_def)
  have idx: "sessionIndex ?a \<noteq> 0" and uid: "as_userId ?a \<in> userId ` set (Users w)"
    using ok nth_mem [OF i] by (auto simp: sessions_ok_def)
  obtain j b news where r: "j < length (ActiveSessions w)" "sameChain (ActiveSessions w ! j) ?a" "sameChain b (ActiveSessions w ! j)"
    "fst (refreshCookieCode io i refresh ?w1) = ?w1\<lparr>ActiveSessions := (ActiveSessions w)[j := b] @ news\<rparr>"
    "news = [] \<and> snd (refreshCookieCode io i refresh ?w1) = cookieCode b \<or>
     snd (refreshCookieCode io i refresh ?w1) = genCookieCode io \<and>
       news = [newSession io (as_userId b) (as_ip ?a) (sessionIndex b)]"
    using refreshCookieCode_result [of i ?w1 io refresh] i idx by (simp (no_asm_use)) metis
  let ?w2 = "fst (refreshCookieCode io i refresh ?w1)"
  obtain c where c: "c \<in> set (ActiveSessions ?w2)" "cookieCode c = snd (refreshCookieCode io i refresh ?w1)" "sameChain c ?a"
  proof (cases "news = []")
    case True
    then show ?thesis
      using that [of b] r set_update_memI [OF r(1), of b] by (auto simp: sameChain_def)
  next
    case False
    then show ?thesis
      using that [of "newSession io (as_userId b) (as_ip ?a) (sessionIndex b)"] r by (auto simp: sameChain_def)
  qed
  have u: "Users ?w2 = Users w" "usersUsernameWithLock ?w2 = usersUsernameWithLock w"
    "CareAboutCookieCodes ?w2 = CareAboutCookieCodes w" "remoteLoginVerificationEnabled ?w2 = remoteLoginVerificationEnabled w"
    using r(4) by simp_all
  have "localVerdict io cookie ip refresh w =
      grantUser (as_userId ?a) (snd (refreshCookieCode io i refresh ?w1)) (sessionIndex ?a) ?w2"
    using f a(2) by (auto simp: localVerdict_def Let_def split_beta)
  then show ?thesis
    using that [of ?w2 c] c u act uid getPermissions_same [OF u(1)] grantUser_result [of "as_userId ?a" ?w2]
    by simp
qed

lemma localVerdict_refused:
  assumes ok: "sessions_ok n w"
    and no: "\<nexists>a. a \<in> set (ActiveSessions w) \<and> cookieCode a = cookie \<and> (ip = ''0'' \<or> as_ip a = ip) \<and>
      \<not> isInactiveForGroup (getPermissionsForUser w (as_userId a))"
  shows "snd (snd (localVerdict io cookie ip refresh w)) = None"
proof (cases "searchActiveSessionDatabaseForCookie w cookie")
  case None
  then show ?thesis by (simp add: localVerdict_def)
next
  case (Some i)
  let ?a = "ActiveSessions w ! i"
  have a: "?a \<in> set (ActiveSessions w)" "cookieCode ?a = cookie" using by_cookie.member [OF Some] by auto
  have i: "i < length (ActiveSessions w)" using by_cookie.found [OF Some] by simp
  have idx: "sessionIndex ?a \<noteq> 0" and uid: "as_userId ?a \<in> userId ` set (Users w)"
    using ok a(1) by (auto simp: sessions_ok_def)
  let ?w2 = "fst (refreshCookieCode io i refresh (clearBlacklistCount ip w))"
  have u: "Users ?w2 = Users w"
    using refreshCookieCode_result [of i "clearBlacklistCount ip w" io refresh] i idx
    by (metis clearBlacklistCount_keeps(1,2) web_users.update_convs(5) web_users.select_convs(1) web_users.surjective)
  show ?thesis
    using Some no a uid u grantUser_result [of "as_userId ?a" ?w2] getPermissions_same [OF u]
    by (auto simp: localVerdict_def Let_def split_beta)
qed

lemma sessions_ok_cleanup:
  "\<lbrakk>sessions_ok n w; cleanupExpiredEntries io collect w = Some (w', names)\<rbrakk> \<Longrightarrow> sessions_ok n w'"
  by (auto simp: sessions_ok_def cleanup_result distinct_map_filter)

lemma request_verdict:
  assumes ok: "sessions_ok n w" and on: "CareAboutCookieCodes w" and off: "\<not> remoteLoginVerificationEnabled w"
  shows "\<exists>w' cc r. cookieCodeIsActiveForRequest io rg cookie ip refresh doNotGoRemote w = Some (w', cc, r) \<and>
    (r \<noteq> None \<longleftrightarrow> snd (checkIpAccess io ip w) \<and> (\<exists>a \<in> set (ActiveSessions w). authorises io cookie ip w a)) \<and>
    (\<forall>g. r = Some g \<longrightarrow>
       (\<exists>a \<in> set (ActiveSessions w). authorises io cookie ip w a \<and> ag_uid g = as_userId a \<and>
          ag_permissions g = getPermissionsForUser w (as_userId a) \<and> ag_session g = sessionIndex a \<and>
          (\<exists>b \<in> set (ActiveSessions w'). cookieCode b = cc \<and> sameChain b a) \<and> Users w' = Users w \<and>
          ag_userWithLock g = usersUsernameWithLock w' \<and> CareAboutCookieCodes w' \<and> \<not> remoteLoginVerificationEnabled w'))"
proof (cases "snd (checkIpAccess io ip w)")
  case False
  then show ?thesis by (auto simp: cookieCodeIsActiveForRequest_def Let_def split_beta)
next
  case acc: True
  let ?w1 = "fst (checkIpAccess io ip w)"
  have ok1: "sessions_ok n ?w1" using ok by (simp add: sessions_ok_def)
  then have "cleanupExpiredEntries io False ?w1 \<noteq> None" by (intro cleanup_defined) (simp add: sessions_ok_def)
  then obtain w2 names where c: "cleanupExpiredEntries io False ?w1 = Some (w2, names)" by auto
  have ok2: "sessions_ok n w2" by (rule sessions_ok_cleanup [OF ok1 c])
  have ss: "ActiveSessions w2 = filter (\<lambda>a. \<not> sessionExpired io a) (ActiveSessions w)"
    and u2: "Users w2 = Users w" using cleanup_result [OF c] by simp_all
  have p2: "getPermissionsForUser w2 uid = getPermissionsForUser w uid" for uid by (rule getPermissions_same [OF u2])
  have run: "cookieCodeIsActiveForRequest io rg cookie ip refresh doNotGoRemote w = Some (localVerdict io cookie ip refresh w2)"
    using acc c on off cleanup_result(5,6) [OF c]
    by (simp add: cookieCodeIsActiveForRequest_def remoteVerdict_def Let_def split_beta)
  show ?thesis
  proof (cases "\<exists>a \<in> set (ActiveSessions w). authorises io cookie ip w a")
    case True
    then obtain a where a: "a \<in> set (ActiveSessions w)" "authorises io cookie ip w a" by blast
    then have "a \<in> set (ActiveSessions w2)" by (simp add: ss authorises_def)
    then obtain i where i: "i < length (ActiveSessions w2)" "ActiveSessions w2 ! i = a" by (auto simp: in_set_conv_nth)
    obtain w' b where "localVerdict io cookie ip refresh w2 =
        (w', cookieCode b, Some \<lparr>ag_permissions = getPermissionsForUser w (as_userId a), ag_uid = as_userId a,
           ag_userWithLock = usersUsernameWithLock w2, ag_session = sessionIndex a\<rparr>)"
      "b \<in> set (ActiveSessions w')" "sameChain b a" "Users w' = Users w2" "usersUsernameWithLock w' = usersUsernameWithLock w2"
      "CareAboutCookieCodes w' = CareAboutCookieCodes w2" "remoteLoginVerificationEnabled w' = remoteLoginVerificationEnabled w2"
      using localVerdict_granted [OF ok2 i(1), of cookie ip io refresh] i(2) a(2)
      by (simp add: authorises_def p2) metis
    then show ?thesis using run acc a u2 on off cleanup_result(5,6) [OF c] by auto
  next
    case False
    then have "snd (snd (localVerdict io cookie ip refresh w2)) = None"
      by (intro localVerdict_refused [OF ok2]) (auto simp: ss authorises_def p2)
    then show ?thesis using run False by (cases "localVerdict io cookie ip refresh w2") auto
  qed
qed


text \<open>The novice of \<^const>\<open>twoUsers\<close> logged in from one address.\<close>

definition noviceSession :: active_session where
  "noviceSession = \<lparr>cookieCode = ''c00c1e'', as_ip = ''10.0.0.7'', as_userId = 1, sessionIndex = 1,
     startTime = 999000, lastActivityTime = 999500\<rparr>"

definition loggedIn :: web_users where
  "loggedIn = twoUsers\<lparr>ActiveSessions := [noviceSession], usersUsernameWithLock := ''novice''\<rparr>"

definition noGateway :: remote_gateway where
  "noGateway = \<lparr>remoteLoginVerificationPort = 0, remoteGatewaySelfName = [], sendAndReceive = Map.empty\<rparr>"

lemma loggedIn_simps [simp]:
  "Users loggedIn = Users twoUsers" "ActiveSessions loggedIn = [noviceSession]" "usersUsernameWithLock loggedIn = ''novice''"
  "CareAboutCookieCodes loggedIn" "\<not> remoteLoginVerificationEnabled loggedIn" "LoginSessions loggedIn = []"
  "RemoteSessions loggedIn = []" "UsersLoggedOutUsernames loggedIn = []"
  by (simp_all add: loggedIn_def twoUsers_def noUsers_def)

lemma loggedIn_ok: "sessions_ok 1 loggedIn"
  by (simp add: sessions_ok_def noviceSession_def)

lemma noviceSession_active: "\<not> sessionExpired plain_io noviceSession"
  by (simp add: sessionExpired_def noviceSession_def plain_io_def ACTIVE_SESSION_EXPIRATION_TIME_def)

lemma novice_active: "\<not> isInactiveForGroup (getPermissionsForUser loggedIn 1)"
  by (simp add: isInactiveForGroup_def getPermissionsForUser_def getPermissionLevelForGroup_def
      searchUsersDatabaseForUserId_def PERMISSION_LEVEL_INACTIVE_def)


end
