(* ===== verification/SessionProps.thy ===== *)
theory SessionProps
  imports UserSessions
begin

text \<open>
  Properties of logins, sessions and the lock of \<open>WebUsers.cc\<close>: every operation keeps the active
  sessions well formed, wrong passwords lock an account, expired sessions and their locks go, a
  logout ends exactly its own session, a client's jumbled text is always decoded in finite time.
\<close>

section \<open>Sessions stay well formed\<close>

text \<open>An operation that neither adds nor removes sessions and removes no account.\<close>

definition same_sessions :: "web_users \<Rightarrow> web_users \<Rightarrow> bool" where
  "same_sessions w w' \<longleftrightarrow>
     ActiveSessions w' = ActiveSessions w \<and> userId ` set (Users w) \<subseteq> userId ` set (Users w')"

named_theorems sessions_intro

lemma same_sessions_refl [simp]: "same_sessions w w"
  by (simp add: same_sessions_def)

lemma same_sessions_trans: "\<lbrakk>same_sessions u v; same_sessions v w\<rbrakk> \<Longrightarrow> same_sessions u w"
  by (auto simp: same_sessions_def)

lemma same_sessions_ok: "\<lbrakk>sessions_ok n w; same_sessions w w'; n \<le> m\<rbrakk> \<Longrightarrow> sessions_ok m w'"
  by (force simp: sessions_ok_def same_sessions_def)

lemma updateUser_sessions:
  assumes "\<And>u. userId (f u) = userId u"
  shows "same_sessions w (updateUser i f w)"
proof -
  have "map userId ((Users w)[i := f (Users w ! i)]) = map userId (Users w)"
    using assms by (simp add: map_update) (metis list_update_beyond list_update_id nth_map not_le_imp_less length_map)
  then have "userId ` set ((Users w)[i := f (Users w ! i)]) = userId ` set (Users w)" by (metis list.set_map)
  then show ?thesis by (simp add: same_sessions_def updateUser_def)
qed

lemma save_sessions [simp]:
  "same_sessions w (fst (saveUsers io v)) = same_sessions w v" "same_sessions w (fst (saveHashes io v)) = same_sessions w v"
  "same_sessions w (saveLoginFailureCounts io v) = same_sessions w v"
  "same_sessions w (fst (checkIpAccess io ip v)) = same_sessions w v"
  "same_sessions w (incrementIpBlacklistCount io ip v) = same_sessions w v"
  "same_sessions w (clearBlacklistCount ip v) = same_sessions w v"
  "same_sessions w (fst (setUserWithLock io uid lock name v)) = same_sessions w v"
  "same_sessions w (countAttempt i v) = same_sessions w v"
  "same_sessions w (cleanupExpiredRemoteEntries io v) = same_sessions w v"
  "same_sessions w (lockHandling refresh name v) = same_sessions w v"
  by (simp_all add: same_sessions_def saveUsers_def saveHashes_def saveLoginFailureCounts_def countAttempt_def
      cleanupExpiredRemoteEntries_def lockHandling_def Let_def)

lemma hashes_sessions [simp]:
  "same_sessions w (fst (searchHashesDatabaseForHash io h v)) = same_sessions w v"
  "same_sessions w (fst (addToHashesDatabase io h v)) = same_sessions w v"
proof -
  show *: "same_sessions w (fst (searchHashesDatabaseForHash io h v)) = same_sessions w v"
    by (auto simp: searchHashesDatabaseForHash_def same_sessions_def split: option.split)
  then show "same_sessions w (fst (addToHashesDatabase io h v)) = same_sessions w v"
    by (auto simp: addToHashesDatabase_def Let_def split_beta saveHashes_def same_sessions_def)
qed

lemma hashes_users [simp]:
  "Users (fst (searchHashesDatabaseForHash io h w)) = Users w" "Users (fst (addToHashesDatabase io h w)) = Users w"
  by (auto simp: addToHashesDatabase_def searchHashesDatabaseForHash_def saveHashes_def Let_def split: option.split)

lemma setPassword_sessions:
  assumes "setPassword io i name pw n w = Some w'"
  shows "same_sessions w w'"
  using assms
proof (rule setPassword.raw_induct [where P = "\<lambda>io i name pw n w w'. same_sessions w w'", rotated])
  fix self io i name pw n w w'
  assume IH: "\<And>io i name pw n w w'. self io i name pw n w = Some w' \<Longrightarrow> same_sessions w w'"
    and run: "(let w1 = updateUser i (\<lambda>u. u\<lparr>salt := newSalt io n\<rparr>) w;
        (w2, ok) = addToHashesDatabase io (sha512 io name pw (newSalt io n)) w1
      in if ok then Some w2 else self io i name pw (n + 1) (updateUser i (\<lambda>u. u\<lparr>salt := []\<rparr>) w2)) = Some w'"
  let ?w1 = "updateUser i (\<lambda>u. u\<lparr>salt := newSalt io n\<rparr>) w"
  let ?w2 = "fst (addToHashesDatabase io (sha512 io name pw (newSalt io n)) ?w1)"
  have 1: "same_sessions w ?w2" by (simp add: updateUser_sessions)
  let ?w3 = "updateUser i (\<lambda>u. u\<lparr>salt := []\<rparr>) ?w2"
  have 3: "same_sessions w ?w3"
    by (rule same_sessions_trans [OF 1 updateUser_sessions]) simp
  have "w' = ?w2 \<or> self io i name pw (n + 1) ?w3 = Some w'"
    using run by (auto simp: Let_def split_beta split: if_splits)
  then show "same_sessions w w'" using 1 same_sessions_trans [OF 3 IH] by blast
qed

lemma failedLogin_sessions: "same_sessions w (failedLogin io i w)"
  by (simp add: failedLogin_def Let_def updateUser_sessions countFailure_def)

text \<open>Operations on the sessions, with the bound on the indices after them.\<close>

lemma createNewActiveSession_ok:
  assumes ok: "sessions_ok n w" and uid: "uid \<in> userId ` set (Users w)"
    and fresh: "genCookieCode io \<notin> cookieCode ` set (ActiveSessions w)" and n: "n < 2 ^ 64 - 1"
  shows "sessions_ok (Suc n) (fst (createNewActiveSession io uid ip 0 w))"
proof -
  obtain idx where "createNewActiveSession io uid ip 0 w =
      (w\<lparr>ActiveSessions := ActiveSessions w @ [newSession io uid ip idx]\<rparr>, genCookieCode io)"
    "0 < idx \<and> unat idx \<le> n + 1"
    using createNewActiveSession_result [of io uid ip 0 w] ok n by (metis sessions_ok_def)
  then show ?thesis
    using ok uid fresh by (force simp: sessions_ok_def)
qed

lemma refreshCookieCode_ok:
  assumes ok: "sessions_ok n w" and i: "i < length (ActiveSessions w)"
    and fresh: "genCookieCode io \<notin> cookieCode ` set (ActiveSessions w)"
  shows "sessions_ok n (fst (refreshCookieCode io i refresh w))"
proof -
  let ?ss = "ActiveSessions w"
  have "sessionIndex (?ss ! i) \<noteq> 0" using ok nth_mem [OF i] by (auto simp: sessions_ok_def)
  then obtain j a news where r: "j < length ?ss" "sameChain a (?ss ! j)" "cookieCode a = cookieCode (?ss ! j)"
    "fst (refreshCookieCode io i refresh w) = w\<lparr>ActiveSessions := ?ss[j := a] @ news\<rparr>"
    "news = [] \<or> (\<exists>ip. news = [newSession io (as_userId a) ip (sessionIndex a)])"
    by (rule refreshCookieCode_result [OF i]) (erule (1) that, blast+)
  have keys: "map cookieCode (?ss[j := a]) = map cookieCode ?ss"
    using r(1,3) by (simp add: map_update) (metis list_update_id nth_map)
  have "as_userId b \<in> userId ` set (Users w) \<and> sessionIndex b \<noteq> 0 \<and> unat (sessionIndex b) \<le> n"
    if "b \<in> insert a (set ?ss)" for b
    using that ok r(2) nth_mem [OF r(1)] by (auto simp: sessions_ok_def sameChain_def)
  moreover have "set (?ss[j := a]) \<subseteq> insert a (set ?ss)" by (rule set_update_subset_insert)
  moreover have "distinct (map cookieCode (?ss[j := a] @ news))"
    unfolding map_append keys using r(5) fresh ok by (auto simp: sessions_ok_def image_iff)
  ultimately show ?thesis using r(4,5) by (auto simp: sessions_ok_def)
qed

lemma cookieCodeLogout_ok: "sessions_ok n w \<Longrightarrow> sessions_ok n (fst (cookieCodeLogout io cookie others ip w))"
  by (auto simp: cookieCodeLogout_def Let_def sessions_ok_def distinct_map_filter split: option.split)

lemma succeedLogin_ok:
  assumes "sessions_ok n w" "i < length (Users w)" "n < 2 ^ 64 - 1"
    "genCookieCode io \<notin> cookieCode ` set (ActiveSessions w)"
  shows "sessions_ok (Suc n) (fst (succeedLogin io i ip w))"
proof -
  let ?w1 = "if loginFailureCount (Users w ! i) \<noteq> 0
     then saveLoginFailureCounts io (updateUser i (\<lambda>u. u\<lparr>loginFailureCount := 0\<rparr>) w) else w"
  have s: "same_sessions w ?w1" by (simp add: updateUser_sessions)
  have "length (Users ?w1) = length (Users w)" by (simp add: saveLoginFailureCounts_def)
  then have "userId (Users ?w1 ! i) \<in> userId ` set (Users ?w1)" using assms(2) by simp
  then have "sessions_ok (Suc n) (fst (createNewActiveSession io (userId (Users ?w1 ! i)) ip 0 ?w1))"
    using same_sessions_ok [OF assms(1) s order_refl] assms(3,4) s
    by (intro createNewActiveSession_ok) (auto simp: same_sessions_def)
  then show ?thesis by (simp add: succeedLogin_def Let_def)
qed

subsection \<open>The Gateway above\<close>

lemma createNewAccount_sessions: "same_sessions w (fst (createNewAccount io name display mail w))"
  by (auto simp: createNewAccount_def same_sessions_def saveUsers_def Let_def split_beta)

lemma enterRemoteUser_sessions: "same_sessions w (fst (enterRemoteUser io refresh ip rx w))"
proof -
  have u: "same_sessions v (updateUser j (\<lambda>u. (setModifier io m (u\<lparr>lastLoginAttempt := t\<rparr>))\<lparr>permissions := ps\<rparr>) v)" for v j m t ps
    by (rule updateUser_sessions) (simp add: setModifier_def)
  have p: "same_sessions v (updateUser j (\<lambda>u. u\<lparr>permissions := ps\<rparr>) v)" for v j ps
    by (rule updateUser_sessions) simp
  have r: "same_sessions v (w'\<lparr>RemoteSessions := rs\<rparr>) = same_sessions v w'" for v w' rs
    by (simp add: same_sessions_def)
  note c = createNewAccount_sessions [of w io "rx ! 3" "rx ! 4" "[]"]
  show ?thesis
    unfolding enterRemoteUser_def Let_def split_beta
    by (auto simp: r split: option.splits sum.splits
        intro: c u same_sessions_trans [OF c u] same_sessions_trans [OF u p] same_sessions_trans [OF same_sessions_trans [OF c u] p])
qed

lemma checkRemoteLoginVerification_sessions:
  "same_sessions w (fst (checkRemoteLoginVerification io rg cookie refresh doNotGoRemote ip w))"
proof -
  let ?w1 = "w\<lparr>remoteLoginVerificationEnabledBlackoutTime := 0\<rparr>"
  let ?v = "cleanupExpiredRemoteEntries io ?w1"
  have 1: "same_sessions w ?w1" by (simp add: same_sessions_def)
  then have "same_sessions w (fst (enterRemoteUser io refresh ip rx ?v))" for rx
    using same_sessions_trans [OF _ enterRemoteUser_sessions, of w ?v] by simp
  then show ?thesis
    using 1 by (auto simp: checkRemoteLoginVerification_def Let_def split_beta split: option.splits)
qed

lemma remoteVerdict_sessions:
  assumes "remoteVerdict io rg cookie ip refresh doNotGoRemote w = Some (w', r)"
  shows "same_sessions w w'"
  using assms checkRemoteLoginVerification_sessions [of w io rg cookie refresh doNotGoRemote ip]
  by (auto simp: remoteVerdict_def Let_def same_sessions_def split: if_splits prod.splits sum.splits option.splits)

lemma grantUser_state [simp]: "fst (grantUser uid cookie session w) = w"
  by (auto simp: grantUser_def split: option.split)

lemma localVerdict_ok:
  assumes ok: "sessions_ok n w" and fresh: "genCookieCode io \<notin> cookieCode ` set (ActiveSessions w)"
  shows "sessions_ok n (fst (localVerdict io cookie ip refresh w))"
proof -
  have "sessions_ok n (clearBlacklistCount ip w)" "sessions_ok n (incrementIpBlacklistCount io ip w)"
    using ok by (simp_all add: sessions_ok_def)
  moreover have "sessions_ok n (fst (refreshCookieCode io i refresh (clearBlacklistCount ip w)))"
    if "searchActiveSessionDatabaseForCookie w cookie = Some i" for i
    by (rule refreshCookieCode_ok) (use ok fresh by_cookie.found [OF that] in \<open>simp_all add: sessions_ok_def\<close>)
  ultimately show ?thesis by (auto simp: localVerdict_def Let_def split_beta split: option.split)
qed

lemma cleanup_subset:
  "cleanupExpiredEntries io collect w = Some (w', names) \<Longrightarrow> set (ActiveSessions w') \<subseteq> set (ActiveSessions w)"
  by (auto simp: cleanup_result)

lemma cookieCodeIsActiveForRequest_ok:
  assumes ok: "sessions_ok n w" and fresh: "genCookieCode io \<notin> cookieCode ` set (ActiveSessions w)"
    and run: "cookieCodeIsActiveForRequest io rg cookie ip refresh doNotGoRemote w = Some (w', r)"
  shows "sessions_ok n w'"
proof -
  let ?w1 = "fst (checkIpAccess io ip w)"
  have ok1: "sessions_ok n ?w1" using ok by (simp add: sessions_ok_def)
  have "sessions_ok n (fst (localVerdict io cookie ip refresh w3)) \<and> sessions_ok n w3"
    if c: "cleanupExpiredEntries io False ?w1 = Some (w2, names)"
      and v: "remoteVerdict io rg cookie ip refresh doNotGoRemote w2 = Some (w3, e, x)" for w2 w3 names e x
  proof -
    have s: "same_sessions w2 w3" by (rule remoteVerdict_sessions [OF v])
    have "sessions_ok n w3" by (rule same_sessions_ok [OF sessions_ok_cleanup [OF ok1 c] s order_refl])
    moreover have "genCookieCode io \<notin> cookieCode ` set (ActiveSessions w3)"
      using fresh cleanup_subset [OF c] s by (auto simp: same_sessions_def)
    ultimately show ?thesis using localVerdict_ok by blast
  qed
  then show ?thesis
    using run ok1
    by (auto simp: cookieCodeIsActiveForRequest_def Let_def split_beta split: if_splits option.splits)
       (metis fst_conv grantUser_state)+
qed

subsection \<open>Logins\<close>

lemma same_length_updateUser [simp]: "length (Users (updateUser i f w)) = length (Users w)"
  by simp

lemma setPassword_length:
  assumes "setPassword io i name pw n w = Some w'"
  shows "length (Users w') = length (Users w)"
  using assms
proof (rule setPassword.raw_induct [where P = "\<lambda>io i name pw n w w'. length (Users w') = length (Users w)", rotated])
  fix self io i name pw n w w'
  assume IH: "\<And>io i name pw n w w'. self io i name pw n w = Some w' \<Longrightarrow> length (Users w') = length (Users w)"
    and run: "(let w1 = updateUser i (\<lambda>u. u\<lparr>salt := newSalt io n\<rparr>) w;
        (w2, ok) = addToHashesDatabase io (sha512 io name pw (newSalt io n)) w1
      in if ok then Some w2 else self io i name pw (n + 1) (updateUser i (\<lambda>u. u\<lparr>salt := []\<rparr>) w2)) = Some w'"
  show "length (Users w') = length (Users w)"
    using run by (auto simp: Let_def split_beta split: if_splits dest!: IH)
qed

text \<open>Both logins end with a session added, or with the sessions as they were.\<close>

lemma succeed_after:
  assumes "sessions_ok n w" "same_sessions w v" "i < length (Users v)" "n < 2 ^ 64 - 1"
    "genCookieCode io \<notin> cookieCode ` set (ActiveSessions w)"
  shows "sessions_ok (Suc n) (fst (succeedLogin io i ip v))"
  using assms by (intro succeedLogin_ok) (auto simp: same_sessions_def intro: same_sessions_ok)

lemma sessions_ok_lock: "sessions_ok n (fst (setUserWithLock io uid lock name w)) = sessions_ok n w"
  by (simp add: sessions_ok_def)

lemma passwordLogin_ok:
  assumes ok: "sessions_ok n w" and n: "n < 2 ^ 64 - 1"
    and fresh: "genCookieCode io \<notin> cookieCode ` set (ActiveSessions w)"
  shows "sessions_ok (Suc n) (fst (passwordLogin io name pw jumbledUser code ip w))"
proof (cases "searchUsersDatabaseForUsername w name")
  case None
  then show ?thesis using same_sessions_ok [OF ok] by (simp add: passwordLogin_def)
next
  case (Some i)
  have i: "i < length (Users w)" using by_username.found [OF Some] by simp
  let ?w1 = "updateUser i (\<lambda>u. u\<lparr>lastLoginAttempt := now io\<rparr>) (clearBlacklistCount ip w)"
  have w1: "same_sessions w ?w1" by (rule same_sessions_trans [OF _ updateUser_sessions]) simp_all
  have success: "sessions_ok (Suc n) (fst (succeedLogin io i ip v))"
    if "same_sessions w v" "length (Users v) = length (Users w)" for v
    by (rule succeed_after [OF ok that(1) _ n fresh]) (use i that(2) in simp)
  have set: "sessions_ok (Suc n) (fst (succeedLogin io i ip (fst (saveUsers io v))))" "same_sessions w v"
    if "setPassword io i name pw 0 ?w1 = Some v" for v
    using success [of "fst (saveUsers io v)"] same_sessions_trans [OF w1 setPassword_sessions [OF that]]
      setPassword_length [OF that] by simp_all
  let ?f = "\<lambda>h. searchHashesDatabaseForHash io h ?w1"
  have found: "sessions_ok (Suc n) (fst (succeedLogin io i ip (fst (?f h))))" for h
    by (rule success) (use w1 in simp_all)
  have failed: "same_sessions w (failedLogin io i (fst (?f h)))" for h
    by (rule same_sessions_trans [OF _ failedLogin_sessions]) (use w1 in simp)
  have keep: "sessions_ok (Suc n) v" if "same_sessions w v" for v by (rule same_sessions_ok [OF ok that]) simp
  show ?thesis
    using success set found failed w1
    by (auto simp: passwordLogin_def Some Let_def split_beta sessions_ok_lock split: option.splits intro: keep)
qed

lemma countAttempt_sessions [simp]: "ActiveSessions (countAttempt i w) = ActiveSessions w"
  by (simp add: countAttempt_def)

lemma countAttempt_ok [simp]: "sessions_ok n (countAttempt i w) = sessions_ok n w"
  by (simp add: sessions_ok_def countAttempt_def)

lemma checkIpAccess_ok [simp]: "sessions_ok n (fst (checkIpAccess io ip w)) = sessions_ok n w"
  by (simp add: sessions_ok_def)

lemma incrementIp_ok [simp]: "sessions_ok n (incrementIpBlacklistCount io ip w) = sessions_ok n w"
  by (simp add: sessions_ok_def)

lemma sessions_ok_Suc: "sessions_ok n w \<Longrightarrow> sessions_ok (Suc n) w"
  by (force simp: sessions_ok_def)

lemma attemptActiveSession_ok:
  assumes ok: "sessions_ok n w" and n: "n < 2 ^ 64 - 1"
    and fresh: "genCookieCode io \<notin> cookieCode ` set (ActiveSessions w)"
  shows "sessions_ok (Suc n) (fst (attemptActiveSession io uuid jumbledUser jumbledPw code ip w))"
proof -
  have "sessions_ok n w2 \<and> sessions_ok (Suc n) (fst (passwordLogin io name pw jumbledUser code ip (countAttempt i w2)))"
    if c: "cleanupExpiredEntries io False (fst (checkIpAccess io ip w)) = Some (w2, names)" for w2 names i name pw
  proof -
    have ok2: "sessions_ok n w2" by (rule sessions_ok_cleanup [OF _ c]) (use ok in simp)
    then have "sessions_ok (Suc n) (fst (passwordLogin io name pw jumbledUser code ip (countAttempt i w2)))"
      by (intro passwordLogin_ok [OF _ n]) (use fresh cleanup_subset [OF c] in auto)
    then show ?thesis using ok2 by blast
  qed
  then show ?thesis
    using ok by (auto simp: attemptActiveSession_def Let_def split_beta sessions_ok_Suc split: option.splits)
qed

lemma certLogin_ok:
  assumes ok: "sessions_ok n w" and n: "n < 2 ^ 64 - 1"
    and fresh: "genCookieCode io \<notin> cookieCode ` set (ActiveSessions w)"
  shows "sessions_ok (Suc n) (fst (certLogin io mail cookie user ip w))"
proof (cases "searchUsersDatabaseForUserEmail w mail")
  case None
  then show ?thesis using ok by (simp add: certLogin_def sessions_ok_Suc)
next
  case (Some i)
  let ?w1 = "updateUser i (\<lambda>u. u\<lparr>lastLoginAttempt := now io\<rparr>) (clearBlacklistCount ip w)"
  have w1: "same_sessions w ?w1" by (rule same_sessions_trans [OF _ updateUser_sessions]) simp_all
  have "sessions_ok (Suc n) (fst (succeedLogin io i ip ?w1))"
    by (rule succeed_after [OF ok w1 _ n fresh]) (use by_email.found [OF Some] in simp)
  then show ?thesis
    using same_sessions_ok [OF ok w1] by (auto simp: certLogin_def Some Let_def split_beta)
qed

lemma attemptActiveSessionWithCert_ok:
  assumes ok: "sessions_ok n w" and n: "n < 2 ^ 64 - 1"
    and fresh: "genCookieCode io \<notin> cookieCode ` set (ActiveSessions w)"
  shows "sessions_ok (Suc n) (fst (attemptActiveSessionWithCert io lookup uuid mail cookie user ip w))"
proof -
  have "sessions_ok n w2 \<and> sessions_ok (Suc n) (fst (certLogin io (lookup mail) cookie user ip (countAttempt i w2)))"
    if c: "cleanupExpiredEntries io False (fst (checkIpAccess io ip w)) = Some (w2, names)" for w2 names i
  proof -
    have ok2: "sessions_ok n w2" by (rule sessions_ok_cleanup [OF _ c]) (use ok in simp)
    then have "sessions_ok (Suc n) (fst (certLogin io (lookup mail) cookie user ip (countAttempt i w2)))"
      by (intro certLogin_ok [OF _ n]) (use fresh cleanup_subset [OF c] in auto)
    then show ?thesis using ok2 by blast
  qed
  then show ?thesis
    using ok by (auto simp: attemptActiveSessionWithCert_def Let_def split_beta sessions_ok_Suc split: option.splits)
qed

lemma isCookieCodeActiveForLogin_ok:
  assumes ok: "sessions_ok n w" and fresh: "genCookieCode io \<notin> cookieCode ` set (ActiveSessions w)"
    and run: "isCookieCodeActiveForLogin io uuid cookie jumbledUser w = Some (w', r)"
  shows "sessions_ok n w'"
proof -
  have "sessions_ok n (fst (refreshCookieCode io i True w))"
    if "searchActiveSessionDatabaseForCookie w cookie = Some i" for i
    by (rule refreshCookieCode_ok [OF ok _ fresh]) (use by_cookie.found [OF that] in simp)
  then show ?thesis
    using run ok
    by (auto simp: isCookieCodeActiveForLogin_def Let_def split_beta split: if_splits option.splits)
qed

subsection \<open>Accounts\<close>

lemma finishModify_sessions [simp]: "same_sessions w (fst (finishModify io v)) = same_sessions w v"
  by (simp add: finishModify_def same_sessions_def loadSecuritySelection_def loadIPAddressSecurity_def Let_def saveUsers_def)

lemma resetAdmin_sessions: "same_sessions w (resetAdmin io w)"
  by (simp add: resetAdmin_def updateUser_sessions setModifier_def)

lemma updateAccount_sessions: "same_sessions w (fst (updateAccount io i modi display mail text w))"
proof -
  have d: "same_sessions v (updateUser k (\<lambda>u. u\<lparr>displayName := display, email := mail\<rparr>) v)" for v k
    by (rule updateUser_sessions) simp
  have p: "same_sessions v (updateUser k (\<lambda>u. changePermissions (newPermissions text new (permissions u)) u) v)" for v k new
    by (rule updateUser_sessions) (simp add: changePermissions_def)
  have m: "same_sessions v (updateUser k (setModifier io name) v)" for v k name
    by (rule updateUser_sessions) (simp add: setModifier_def)
  show ?thesis
    by (auto simp: updateAccount_def Let_def d split: option.split sum.split
        intro: same_sessions_trans [OF d p] same_sessions_trans [OF same_sessions_trans [OF d p] m])
qed

lemma modifyUpdate_sessions: "same_sessions w (fst (modifyUpdate io uid name display mail text w))"
  by (auto simp: modifyUpdate_def updateAccount_sessions resetAdmin_sessions split: account_guard.split)

lemma addAccount_sessions: "same_sessions w (fst (addAccount io uid i name display mail text w))"
proof -
  note c = createNewAccount_sessions [of w io name display mail]
  have m: "same_sessions v (updateUser k (setModifier io n) v)" for v k n
    by (rule updateUser_sessions) (simp add: setModifier_def)
  show ?thesis
    by (auto simp: addAccount_def Let_def split_beta c split: option.split
        intro: same_sessions_trans [OF c m] same_sessions_trans [OF same_sessions_trans [OF c m] modifyUpdate_sessions])
qed

text \<open>Deleting the account of a user who is not logged in is harmless.\<close>

lemma deleteAccount_sessions:
  assumes ok: "sessions_ok n w" and idle: "\<not> isUsernameActive w name"
  shows "sessions_ok n (fst (deleteAccount io name display w))"
proof (cases "searchUsersDatabaseForUsername w name")
  case None
  then show ?thesis using ok by (simp add: deleteAccount_def)
next
  case (Some i)
  have i: "i < length (Users w)" using by_username.found [OF Some] by simp
  have "set (Users w) = insert (Users w ! i) (set (take i (Users w) @ drop (Suc i) (Users w)))"
    by (metis id_take_nth_drop [OF i] Un_insert_right list.simps(15) set_append)
  then have "userId ` set (Users w) \<subseteq> insert (userId (Users w ! i)) (userId ` set (take i (Users w) @ drop (Suc i) (Users w)))"
    by (metis image_insert order_refl)
  moreover have "as_userId a \<noteq> userId (Users w ! i)" if "a \<in> set (ActiveSessions w)" for a
    using idle that Some by (auto simp: isUsernameActive_def isUserIdActive_def uidActive_def)
  ultimately have "sessions_ok n (w\<lparr>Users := take i (Users w) @ drop (Suc i) (Users w)\<rparr>)"
    using ok by (fastforce simp: sessions_ok_def)
  then show ?thesis using ok by (auto simp: deleteAccount_def Some saveUsers_def sessions_ok_def)
qed

lemma modifyAccountSettings_sessions:
  assumes ok: "sessions_ok n w" and del: "cmd = MOD_TYPE_DELETE \<longrightarrow> \<not> isUsernameActive w name"
  shows "sessions_ok n (fst (modifyAccountSettings io uid cmd name display mail text w))"
proof -
  have s: "sessions_ok n v" if "same_sessions w v" for v by (rule same_sessions_ok [OF ok that]) simp
  have "sessions_ok n (fst (finishModify io v)) = sessions_ok n v" for v
    by (simp add: finishModify_def sessions_ok_def loadSecuritySelection_def loadIPAddressSecurity_def Let_def saveUsers_def)
  then show ?thesis
    using s [OF updateAccount_sessions] s [OF addAccount_sessions] s [OF resetAdmin_sessions] deleteAccount_sessions [OF ok] del ok
    by (auto simp: modifyAccountSettings_def split: account_guard.split)
qed

section \<open>Properties\<close>

text \<open>
  The states of the database after \<open>n\<close> operations from a start with no session. Every operation may
  come with other surroundings; a cookie code that an operation generates is new, and an account is
  deleted only when its user is not logged in.
\<close>

inductive session_reach :: "nat \<Rightarrow> web_users \<Rightarrow> bool" where
  start: "ActiveSessions w = [] \<Longrightarrow> session_reach 0 w"
| login: "\<lbrakk>session_reach n w; genCookieCode io \<notin> cookieCode ` set (ActiveSessions w)\<rbrakk> \<Longrightarrow>
    session_reach (Suc n) (fst (attemptActiveSession io uuid jumbledUser jumbledPw code ip w))"
| certificate: "\<lbrakk>session_reach n w; genCookieCode io \<notin> cookieCode ` set (ActiveSessions w)\<rbrakk> \<Longrightarrow>
    session_reach (Suc n) (fst (attemptActiveSessionWithCert io lookup uuid mail cookie user ip w))"
| request: "\<lbrakk>session_reach n w; genCookieCode io \<notin> cookieCode ` set (ActiveSessions w);
    cookieCodeIsActiveForRequest io rg cookie ip refresh doNotGoRemote w = Some (w', r)\<rbrakk> \<Longrightarrow> session_reach (Suc n) w'"
| for_login: "\<lbrakk>session_reach n w; genCookieCode io \<notin> cookieCode ` set (ActiveSessions w);
    isCookieCodeActiveForLogin io uuid cookie jumbledUser w = Some (w', l)\<rbrakk> \<Longrightarrow> session_reach (Suc n) w'"
| logout: "session_reach n w \<Longrightarrow> session_reach (Suc n) (fst (cookieCodeLogout io cookie others ip w))"
| lock: "session_reach n w \<Longrightarrow> session_reach (Suc n) (fst (setUserWithLock io uid locked name w))"
| new_login: "session_reach n w \<Longrightarrow> session_reach (Suc n) (fst (createNewLoginSession io uuid ip w))"
| expiry: "\<lbrakk>session_reach n w; cleanupExpiredEntries io collect w = Some (w', names)\<rbrakk> \<Longrightarrow> session_reach (Suc n) w'"
| create: "session_reach n w \<Longrightarrow> session_reach (Suc n) (fst (createNewAccount io name display mail w))"
| modify: "\<lbrakk>session_reach n w; cmd = MOD_TYPE_DELETE \<longrightarrow> \<not> isUsernameActive w name\<rbrakk> \<Longrightarrow>
    session_reach (Suc n) (fst (modifyAccountSettings io uid cmd name display mail text w))"



subsection \<open>Wrong passwords\<close>

text \<open>Attempts to log in as one user, each with its surroundings and password.\<close>

definition tryPasswords ::
  "string \<Rightarrow> string \<Rightarrow> string \<Rightarrow> string \<Rightarrow> (web_io \<times> string) list \<Rightarrow> web_users \<Rightarrow> web_users" where
  "tryPasswords name jumbledUser code ip tries w =
     fold (\<lambda>(io, pw) w. fst (passwordLogin io name pw jumbledUser code ip w)) tries w"

text \<open>The account \<open>u\<close> at index \<open>i\<close> after \<open>k\<close> wrong passwords.\<close>

definition afterFailures :: "nat \<Rightarrow> user \<Rightarrow> hash_entry list \<Rightarrow> nat \<Rightarrow> web_users \<Rightarrow> bool" where
  "afterFailures i u hs k w \<longleftrightarrow>
     searchUsersDatabaseForUsername w (username u) = Some i \<and> Hashes w = hs \<and>
     username (Users w ! i) = username u \<and> salt (Users w ! i) = salt u \<and> userId (Users w ! i) = userId u \<and>
     displayName (Users w ! i) = displayName u \<and>
     (isInactiveForGroup (permissions (Users w ! i)) \<longleftrightarrow> 10 \<le> k) \<and>
     (k < 10 \<longrightarrow> loginFailureCount (Users w ! i) = of_nat (2 * k))"

lemma countFailure_at:
  assumes "loginFailureCount u = of_nat (2 * k)" "k < 10"
  shows "loginFailureCount (countFailure u) = of_nat (2 * Suc k)"
    "permissions (countFailure u) =
       (if k = 9 then omap_put DEFAULT_USER_GROUP PERMISSION_LEVEL_INACTIVE (permissions u) else permissions u)"
proof -
  have "k \<in> {0, 1, 2, 3, 4, 5, 6, 7, 8, 9}" using assms(2) by auto
  then show "loginFailureCount (countFailure u) = of_nat (2 * Suc k)"
    "permissions (countFailure u) =
       (if k = 9 then omap_put DEFAULT_USER_GROUP PERMISSION_LEVEL_INACTIVE (permissions u) else permissions u)"
    using assms(1) by (auto simp: countFailure_def USERS_MAX_LOGIN_FAILURES_def Let_def)
qed

lemma countFailure_keeps [simp]:
  "username (countFailure u) = username u" "salt (countFailure u) = salt u" "userId (countFailure u) = userId u"
  "displayName (countFailure u) = displayName u"
  by (simp_all add: countFailure_def Let_def)

lemma saveUsers_hashes [simp]: "Hashes (fst (saveUsers io w)) = Hashes w" "Hashes (updateUser i f w) = Hashes w"
  by (simp_all add: saveUsers_def updateUser_def)

lemma updateUser_search:
  assumes "\<And>u. username (f u) = username u"
  shows "searchUsersDatabaseForUsername (updateUser i f w) name = searchUsersDatabaseForUsername w name"
proof (rule by_username.same_keys)
  show "map username (Users (updateUser i f w)) = map username (Users w)"
    using assms by (simp add: map_update) (metis list_update_beyond list_update_id nth_map not_le_imp_less length_map)
qed

lemma saveUsers_search [simp]:
  "searchUsersDatabaseForUsername (fst (saveUsers io w)) name = searchUsersDatabaseForUsername w name"
  by (rule by_username.same_keys) simp

lemma clearBlacklist_search [simp]:
  "searchUsersDatabaseForUsername (clearBlacklistCount ip w) name = searchUsersDatabaseForUsername w name"
  by (rule by_username.same_keys) simp

lemma passwordLogin_inactive:
  assumes "afterFailures i u hs k w" "10 \<le> k"
  shows "passwordLogin io (username u) pw jumbledUser code ip w =
      (updateUser i (\<lambda>u. u\<lparr>lastLoginAttempt := now io\<rparr>) (clearBlacklistCount ip w), LoginReply ACCOUNT_INACTIVE jumbledUser code)"
  using assms by_username.found [of w "username u" i] by (simp add: afterFailures_def passwordLogin_def Let_def)

lemma passwordLogin_wrong:
  assumes a: "afterFailures i u hs k w" and k: "k < 10" and salt: "salt u \<noteq> []"
    and wrong: "sha512 io (username u) pw (salt u) \<notin> hash ` set hs"
  shows "passwordLogin io (username u) pw jumbledUser code ip w =
      (failedLogin io i (updateUser i (\<lambda>u. u\<lparr>lastLoginAttempt := now io\<rparr>) (clearBlacklistCount ip w)),
       LoginReply NOT_FOUND_IN_DATABASE jumbledUser code)"
proof -
  have "index_of (\<lambda>e. hash e = sha512 io (username u) pw (salt u)) hs = None"
    using wrong by (auto simp: index_of_None image_iff)
  then show ?thesis
    using a k salt by_username.found [of w "username u" i]
    by (simp add: afterFailures_def passwordLogin_def Let_def searchHashesDatabaseForHash_def)
qed

lemma afterFailures_step:
  assumes a: "afterFailures i u hs k w" and salt: "salt u \<noteq> []"
    and wrong: "sha512 io (username u) pw (salt u) \<notin> hash ` set hs"
  shows "afterFailures i u hs (Suc k) (fst (passwordLogin io (username u) pw jumbledUser code ip w))"
proof (cases "k < 10")
  case False
  then show ?thesis
    using a passwordLogin_inactive [OF a, of io pw jumbledUser code ip] by_username.found [of w "username u" i]
    by (simp add: afterFailures_def updateUser_search)
next
  case True
  have i: "i < length (Users w)" and s: "searchUsersDatabaseForUsername w (username u) = Some i"
    using a by_username.found [of w "username u" i] by (auto simp: afterFailures_def)
  let ?v = "updateUser i (\<lambda>u. u\<lparr>lastLoginAttempt := now io\<rparr>) (clearBlacklistCount ip w)"
  let ?f = "updateUser i countFailure ?v"
  have n: "Users ?f ! i = countFailure ((Users w ! i)\<lparr>lastLoginAttempt := now io\<rparr>)" using i by simp
  have c: "loginFailureCount ((Users w ! i)\<lparr>lastLoginAttempt := now io\<rparr>) = of_nat (2 * k)"
    using a True by (simp add: afterFailures_def)
  have s': "searchUsersDatabaseForUsername ?f (username u) = Some i" using s by (simp add: updateUser_search)
  have "isInactiveForGroup (permissions (Users ?f ! i)) \<longleftrightarrow> 10 \<le> Suc k"
    unfolding n countFailure_at(2) [OF c True] using a True
    by (auto simp: afterFailures_def isInactiveForGroup_def getPermissionLevelForGroup_def)
  then have "afterFailures i u hs (Suc k) ?f"
    using a s' unfolding afterFailures_def n countFailure_at(1) [OF c True] by simp
  then have "afterFailures i u hs (Suc k) (failedLogin io i ?v)"
    by (simp add: failedLogin_def Let_def afterFailures_def)
  then show ?thesis using passwordLogin_wrong [OF a True salt wrong] by simp
qed

lemma afterFailures_all:
  assumes "afterFailures i u hs k w" "salt u \<noteq> []"
    "\<forall>(io, pw) \<in> set tries. sha512 io (username u) pw (salt u) \<notin> hash ` set hs"
  shows "afterFailures i u hs (k + length tries) (tryPasswords (username u) jumbledUser code ip tries w)"
  using assms(1,3)
proof (induction tries arbitrary: k w)
  case Nil
  then show ?case by (simp add: tryPasswords_def)
next
  case (Cons t tries)
  obtain io pw where t: "t = (io, pw)" by (cases t)
  have "afterFailures i u hs (Suc k) (fst (passwordLogin io (username u) pw jumbledUser code ip w))"
    by (rule afterFailures_step) (use Cons.prems assms(2) t in auto)
  from Cons.IH [OF this] Cons.prems(2) show ?case by (simp add: tryPasswords_def t)
qed

lemma passwordLogin_right:
  assumes a: "afterFailures i u hs k w" and k: "k < 10" and salt: "salt u \<noteq> []"
    and right: "sha512 io (username u) pw (salt u) \<in> hash ` set hs"
  shows "\<exists>cc. snd (passwordLogin io (username u) pw jumbledUser code ip w) = LoginReply (userId u) (displayName u) cc"
proof -
  have "index_of (\<lambda>e. hash e = sha512 io (username u) pw (salt u)) hs \<noteq> None"
    using right by (auto simp: index_of_None image_iff)
  then show ?thesis
    using a k salt by_username.found [of w "username u" i]
    by (auto simp: afterFailures_def passwordLogin_def Let_def searchHashesDatabaseForHash_def split_beta)
qed

text \<open>
  C7. Ten wrong passwords make an account inactive: then every password is refused, the right one
  too. After fewer than ten the right password still logs in. (The limit in the code is 20; the
  counter is incremented twice for each failure.)
\<close>

theorem wrong_passwords_lock_account:
  assumes "searchUsersDatabaseForUsername w name = Some i" "salt (Users w ! i) \<noteq> []"
    "\<not> isInactiveForGroup (permissions (Users w ! i))" "loginFailureCount (Users w ! i) = 0"
    "\<forall>(io, pw) \<in> set tries. sha512 io name pw (salt (Users w ! i)) \<notin> hash ` set (Hashes w)"
  shows "(10 \<le> length tries \<longrightarrow>
      snd (passwordLogin io name pw jumbledUser code ip (tryPasswords name jumbledUser code ip tries w)) =
        LoginReply ACCOUNT_INACTIVE jumbledUser code) \<and>
    (length tries < 10 \<and> sha512 io name pw (salt (Users w ! i)) \<in> hash ` set (Hashes w) \<longrightarrow>
      (\<exists>cc. snd (passwordLogin io name pw jumbledUser code ip (tryPasswords name jumbledUser code ip tries w)) =
        LoginReply (userId (Users w ! i)) (displayName (Users w ! i)) cc))"
proof -
  let ?u = "Users w ! i"
  have n: "username ?u = name" using by_username.found [OF assms(1)] by simp
  have "afterFailures i ?u (Hashes w) 0 w" using assms n by (simp add: afterFailures_def)
  from afterFailures_all [OF this assms(2), of tries jumbledUser code ip] assms(5)
  have "afterFailures i ?u (Hashes w) (length tries) (tryPasswords name jumbledUser code ip tries w)"
    by (simp add: n)
  then show ?thesis
    using passwordLogin_inactive passwordLogin_right assms(2) unfolding n [symmetric] by (metis snd_conv)
qed

text \<open>A user with a password.\<close>

definition withPassword :: web_users where
  "withPassword = noUsers\<lparr>Users := [(account ''shifter'' ''Shifter'' 0 1)\<lparr>salt := ''s''\<rparr>],
     Hashes := [\<lparr>hash = ''sshifterright'', accessTime = 0\<rparr>]\<rparr>"

theorem wrong_passwords_lock_account_witness:
  "snd (passwordLogin plain_io ''shifter'' ''right'' ''j'' ''c'' ''10.0.0.7''
      (tryPasswords ''shifter'' ''j'' ''c'' ''10.0.0.7'' (replicate 10 (plain_io, ''wrong'')) withPassword)) =
     LoginReply ACCOUNT_INACTIVE ''j'' ''c'' \<and>
   (\<exists>cc. snd (passwordLogin plain_io ''shifter'' ''right'' ''j'' ''c'' ''10.0.0.7''
      (tryPasswords ''shifter'' ''j'' ''c'' ''10.0.0.7'' (replicate 9 (plain_io, ''wrong'')) withPassword)) =
     LoginReply 0 ''Shifter'' cc)"
proof -
  have h: "searchUsersDatabaseForUsername withPassword ''shifter'' = Some 0" "salt (Users withPassword ! 0) = ''s''"
    "\<not> isInactiveForGroup (permissions (Users withPassword ! 0))" "loginFailureCount (Users withPassword ! 0) = 0"
    "hash ` set (Hashes withPassword) = {''sshifterright''}" "userId (Users withPassword ! 0) = 0"
    "displayName (Users withPassword ! 0) = ''Shifter''"
    by (simp_all add: withPassword_def searchUsersDatabaseForUsername_def isInactiveForGroup_def
        getPermissionLevelForGroup_def PERMISSION_LEVEL_INACTIVE_def)
  have sha: "sha512 plain_io ''shifter'' ''right'' ''s'' = ''sshifterright''"
    "sha512 plain_io ''shifter'' ''wrong'' ''s'' = ''sshifterwrong''" by (simp_all add: plain_io_def)
  have t: "\<forall>(io, pw) \<in> set (replicate n (plain_io, ''wrong'')).
      sha512 io ''shifter'' pw (salt (Users withPassword ! 0)) \<notin> hash ` set (Hashes withPassword)" for n
    by (simp add: h sha)
  show ?thesis
    using wrong_passwords_lock_account [OF h(1) _ h(3,4) t, of 10 plain_io "''right''" "''j''" "''c''" "''10.0.0.7''"]
      wrong_passwords_lock_account [OF h(1) _ h(3,4) t, of 9 plain_io "''right''" "''j''" "''c''" "''10.0.0.7''"]
    by (simp add: h sha)
qed

subsection \<open>Expiry, the lock and logout\<close>

lemma expireLoop_undefined:
  "expireLoop io w kept rest names = None \<longleftrightarrow>
   (\<exists>a \<in> set rest. sessionExpired io a \<and> as_userId a \<notin> userId ` set (Users w) \<and>
      \<not> uidActive w (kept @ filter (\<lambda>a. \<not> sessionExpired io a) rest) (as_userId a))"
proof (induction io w kept rest names rule: expireLoop.induct)
  case (2 io w kept a rest names)
  let ?left = "kept @ filter (\<lambda>a. \<not> sessionExpired io a) rest"
  show ?case
  proof (cases "sessionExpired io a")
    case True
    let ?bad = "\<lambda>a. sessionExpired io a \<and> as_userId a \<notin> userId ` set (Users w) \<and> \<not> uidActive w ?left (as_userId a)"
    have later: "\<exists>b \<in> set rest. sessionExpired io b \<and> as_userId b = as_userId a"
      if "uidActive w (kept @ rest) (as_userId a)" "\<not> uidActive w ?left (as_userId a)"
      using that by (auto simp: uidActive_def)
    have less: "\<not> uidActive w ?left uid" if "\<not> uidActive w (kept @ rest) uid" for uid
      using that by (auto simp: uidActive_def)
    have none: "searchUsersDatabaseForUserId w (as_userId a) = None \<longleftrightarrow> as_userId a \<notin> userId ` set (Users w)"
      by (rule by_uid.missing)
    have "expireLoop io w kept (a # rest) names = None \<longleftrightarrow> ?bad a \<or> (\<exists>b \<in> set rest. ?bad b)"
    proof (cases "uidActive w (kept @ rest) (as_userId a)")
      case act: True
      have "?bad a \<longrightarrow> (\<exists>b \<in> set rest. ?bad b)" using later [OF act] by metis
      then show ?thesis using 2(1) True act by auto
    next
      case False
      then show ?thesis using 2(2) True none less by (cases "searchUsersDatabaseForUserId w (as_userId a)") auto
    qed
    then show ?thesis using True by simp
  next
    case False
    then show ?thesis using 2(3) by simp
  qed
qed simp

lemma isUsernameActive_same:
  assumes "Users v = Users w" "ActiveSessions v = ActiveSessions w" "RemoteSessions v = RemoteSessions w"
    "remoteLoginVerificationEnabled v = remoteLoginVerificationEnabled w"
  shows "isUsernameActive v name = isUsernameActive w name"
  using assms by (simp add: isUsernameActive_def searchUsersDatabaseForUsername_def isUserIdActive_def uidActive_def split: option.split)

lemma expireLock_holder:
  "\<lbrakk>CareAboutCookieCodes w; usersUsernameWithLock (expireLock io w) \<noteq> []\<rbrakk> \<Longrightarrow>
   usersUsernameWithLock (expireLock io w) = usersUsernameWithLock w \<and> isUsernameActive w (usersUsernameWithLock w) \<and>
   \<not> (0 < lockHolderActivity w \<and> LOCK_INACTIVITY_TIMEOUT \<le> now io - lockHolderActivity w)"
  by (auto simp: expireLock_def split: if_splits)

lemma cleanup_lock:
  assumes "cleanupExpiredEntries io collect w = Some (w', names)" "CareAboutCookieCodes w" "usersUsernameWithLock w' \<noteq> []"
  shows "usersUsernameWithLock w' = usersUsernameWithLock w \<and> isUsernameActive w' (usersUsernameWithLock w')"
proof -
  obtain v where v: "w' = expireLock io v" "CareAboutCookieCodes v = CareAboutCookieCodes w"
    "usersUsernameWithLock v = usersUsernameWithLock w"
    using assms(1) by (auto simp: cleanupExpiredEntries_def Let_def)
  then show ?thesis
    using expireLock_holder [of v io] assms(2,3) isUsernameActive_same [of "expireLock io v" v] by simp
qed

text \<open>
  C8. The removal of expired entries keeps exactly the login sessions and active sessions that have not
  expired, in order; afterwards a lock is held only by the user who held it and who still has a session. It reads
  out of bounds exactly when the last session of a deleted account has expired.
\<close>

theorem expired_entries_removed:
  "(cleanupExpiredEntries io collect w = None \<longleftrightarrow>
      (\<exists>a \<in> set (ActiveSessions w). sessionExpired io a \<and> as_userId a \<notin> userId ` set (Users w) \<and>
         \<not> uidActive w (filter (\<lambda>a. \<not> sessionExpired io a) (ActiveSessions w)) (as_userId a))) \<and>
   (\<forall>w' names. cleanupExpiredEntries io collect w = Some (w', names) \<longrightarrow>
      ActiveSessions w' = filter (\<lambda>a. \<not> sessionExpired io a) (ActiveSessions w) \<and>
      LoginSessions w' = filter (\<lambda>l. \<not> loginExpired io l) (LoginSessions w) \<and> Users w' = Users w \<and>
      (CareAboutCookieCodes w \<and> usersUsernameWithLock w' \<noteq> [] \<longrightarrow>
         usersUsernameWithLock w' = usersUsernameWithLock w \<and> isUsernameActive w' (usersUsernameWithLock w')))"
proof -
  let ?w1 = "w\<lparr>LoginSessions := filter (\<lambda>l. \<not> loginExpired io l) (LoginSessions w)\<rparr>"
  have "uidActive ?w1 = uidActive w" by (auto simp: uidActive_def fun_eq_iff)
  then have "cleanupExpiredEntries io collect w = None \<longleftrightarrow>
      (\<exists>a \<in> set (ActiveSessions w). sessionExpired io a \<and> as_userId a \<notin> userId ` set (Users w) \<and>
         \<not> uidActive w (filter (\<lambda>a. \<not> sessionExpired io a) (ActiveSessions w)) (as_userId a))"
    by (simp add: cleanupExpiredEntries_def Let_def expireLoop_undefined)
  then show ?thesis using cleanup_result [of io collect w] cleanup_lock [of io collect w] by blast
qed

theorem expired_entries_removed_witness:
  "cleanupExpiredEntries (plain_io\<lparr>now := 2000000\<rparr>) False (loggedIn\<lparr>Users := []\<rparr>) = None \<and>
   (\<exists>w' names. cleanupExpiredEntries (plain_io\<lparr>now := 2000000\<rparr>) False loggedIn = Some (w', names) \<and> ActiveSessions w' = [] \<and>
      usersUsernameWithLock w' = [])"
proof -
  let ?io = "plain_io\<lparr>now := 2000000\<rparr>"
  have e: "sessionExpired ?io noviceSession"
    by (simp add: sessionExpired_def noviceSession_def ACTIVE_SESSION_EXPIRATION_TIME_def)
  have u: "\<not> uidActive (loggedIn\<lparr>Users := []\<rparr>) [] uid" for uid by (simp add: uidActive_def)
  have none: "cleanupExpiredEntries ?io False (loggedIn\<lparr>Users := []\<rparr>) = None"
    using expired_entries_removed [of ?io False "loggedIn\<lparr>Users := []\<rparr>"] e u by simp
  have "cleanupExpiredEntries ?io False loggedIn \<noteq> None"
    using expired_entries_removed [of ?io False loggedIn] by (simp add: noviceSession_def)
  then obtain w' names where c: "cleanupExpiredEntries ?io False loggedIn = Some (w', names)" by auto
  note r = expired_entries_removed [of ?io False loggedIn, THEN conjunct2, rule_format, OF c]
  have "RemoteSessions w' = []" "ActiveSessions w' = []" using cleanup_result(4) [OF c] r e by simp_all
  then have "\<not> isUsernameActive w' name" for name
    by (simp add: isUsernameActive_def isUserIdActive_def uidActive_def split: option.split)
  then show ?thesis using none c r e by auto
qed

lemma logout_run:
  assumes ok: "sessions_ok n w" and a: "a \<in> set (ActiveSessions w)" "cookieCode a = cookie" "as_ip a = ip"
  obtains v where
    "v = (clearBlacklistCount ip w)\<lparr>ActiveSessions := filter (\<lambda>s. \<not> loggedOut others a s) (ActiveSessions w)\<rparr>"
    "fst (cookieCodeLogout io cookie others ip w) =
       (if CareAboutCookieCodes w \<and> usersUsernameWithLock w \<noteq> [] \<and> \<not> isUserIdActive v (as_userId a) \<and>
           getUsersUsername w (as_userId a) = usersUsernameWithLock w then releaseLock io v else v)"
    "snd (cookieCodeLogout io cookie others ip w) =
       (of_nat (length (filter (loggedOut others a) (ActiveSessions w))), Some (as_userId a))"
proof -
  obtain i where i: "i < length (ActiveSessions w)" "ActiveSessions w ! i = a" using a(1) by (auto simp: in_set_conv_nth)
  then have f: "searchActiveSessionDatabaseForCookie w cookie = Some i"
    using by_cookie.unique [of w i] ok a(2) by (simp add: sessions_ok_def)
  have n: "getUsersUsername (clearBlacklistCount ip w\<lparr>ActiveSessions := s\<rparr>) uid = getUsersUsername w uid" for s uid
    by (simp add: getUsersUsername_def searchUsersDatabaseForUserId_def clearBlacklistCount_def split: option.split)
  show ?thesis
    by (rule that [OF refl]) (use i a(3) in \<open>simp_all add: cookieCodeLogout_def f Let_def n\<close>)
qed

text \<open>
  C9. A logout from the address of its session ends exactly the sessions it names: this session with all the
  cookie codes of its chain, or, for the logout of the others, all other sessions of the user. Nobody
  else is logged out, the number and the user are returned, and the lock of a user with no session
  left is released; everybody else's lock stays.
\<close>

theorem logout_ends_own_sessions:
  assumes ok: "sessions_ok n w" and a: "a \<in> set (ActiveSessions w)" "cookieCode a = cookie" "as_ip a = ip"
    and secure: "CareAboutCookieCodes w" "\<not> remoteLoginVerificationEnabled w"
  shows "let w' = fst (cookieCodeLogout io cookie others ip w) in
    snd (snd (cookieCodeLogout io cookie others ip w)) = Some (as_userId a) \<and>
    ActiveSessions w' = filter (\<lambda>s. as_userId s \<noteq> as_userId a \<or> (sessionIndex s = sessionIndex a) = others) (ActiveSessions w) \<and>
    (\<not> others \<longrightarrow> searchActiveSessionDatabaseForCookie w' cookie = None) \<and>
    fst (snd (cookieCodeLogout io cookie others ip w)) = of_nat (length (ActiveSessions w) - length (ActiveSessions w')) \<and>
    (usersUsernameWithLock w' =
       (if getUsersUsername w (as_userId a) = usersUsernameWithLock w \<and>
           as_userId a \<notin> as_userId ` set (ActiveSessions w') then [] else usersUsernameWithLock w))"
proof -
  obtain v where v: "v = (clearBlacklistCount ip w)\<lparr>ActiveSessions := filter (\<lambda>s. \<not> loggedOut others a s) (ActiveSessions w)\<rparr>"
    and w': "fst (cookieCodeLogout io cookie others ip w) =
       (if CareAboutCookieCodes w \<and> usersUsernameWithLock w \<noteq> [] \<and> \<not> isUserIdActive v (as_userId a) \<and>
           getUsersUsername w (as_userId a) = usersUsernameWithLock w then releaseLock io v else v)"
    and c: "snd (cookieCodeLogout io cookie others ip w) =
       (of_nat (length (filter (loggedOut others a) (ActiveSessions w))), Some (as_userId a))"
    by (rule logout_run [OF ok a])
  let ?w' = "fst (cookieCodeLogout io cookie others ip w)"
  have s: "ActiveSessions ?w' = filter (\<lambda>s. \<not> loggedOut others a s) (ActiveSessions w)" by (simp add: w' v)
  have f: "(\<lambda>s. \<not> loggedOut others a s) = (\<lambda>s. as_userId s \<noteq> as_userId a \<or> (sessionIndex s = sessionIndex a) = others)"
    by (auto simp: loggedOut_def fun_eq_iff)
  have cookie: "searchActiveSessionDatabaseForCookie ?w' cookie = None" if "\<not> others"
  proof -
    have "s = a" if "s \<in> set (ActiveSessions w)" "cookieCode s = cookie" for s
      using ok a(1,2) that by (auto simp: sessions_ok_def distinct_map inj_on_def)
    then show ?thesis unfolding by_cookie.missing s using that by (auto simp: loggedOut_def)
  qed
  have count: "length (filter (loggedOut others a) (ActiveSessions w)) = length (ActiveSessions w) - length (ActiveSessions ?w')"
    using sum_length_filter_compl [of "loggedOut others a" "ActiveSessions w"] by (simp add: s)
  have act: "isUserIdActive v (as_userId a) \<longleftrightarrow> as_userId a \<in> as_userId ` set (ActiveSessions v)"
    using secure(2) by (auto simp: isUserIdActive_def uidActive_def v image_iff)
  have "usersUsernameWithLock v = usersUsernameWithLock w" by (simp add: v)
  then have lock: "usersUsernameWithLock ?w' =
      (if getUsersUsername w (as_userId a) = usersUsernameWithLock w \<and>
          as_userId a \<notin> as_userId ` set (ActiveSessions ?w') then [] else usersUsernameWithLock w)"
    unfolding w' using secure(1) act by auto
  have ret: "snd (snd (cookieCodeLogout io cookie others ip w)) = Some (as_userId a)"
    "fst (snd (cookieCodeLogout io cookie others ip w)) = of_nat (length (ActiveSessions w) - length (ActiveSessions ?w'))"
    unfolding c count [symmetric] by simp_all
  show ?thesis unfolding Let_def using ret s [unfolded f] cookie lock by blast
qed

theorem logout_ends_own_sessions_witness:
  "ActiveSessions (fst (cookieCodeLogout plain_io ''c00c1e'' False ''10.0.0.7'' loggedIn)) = [] \<and>
   usersUsernameWithLock (fst (cookieCodeLogout plain_io ''c00c1e'' False ''10.0.0.7'' loggedIn)) = []"
proof -
  have s: "noviceSession \<in> set (ActiveSessions loggedIn)" "cookieCode noviceSession = ''c00c1e''"
    "as_ip noviceSession = ''10.0.0.7''" "getUsersUsername loggedIn (as_userId noviceSession) = ''novice''"
    by (simp_all add: noviceSession_def getUsersUsername_def searchUsersDatabaseForUserId_def)
  show ?thesis
    using logout_ends_own_sessions [OF loggedIn_ok s(1-3), of plain_io False] s(4) by (simp add: Let_def)
qed



subsection \<open>Addresses\<close>

lemma ipMatches_iff: "\<lbrakk>star \<notin> set ip; ip \<noteq> []\<rbrakk> \<Longrightarrow> ipMatches ip s \<longleftrightarrow> ip \<in> set s"
  by (auto simp: ipMatches_def wildCardMatch_def)

text \<open>
  C28. An address is accepted when it is the dummy address or in the accept list, rejected when it is in
  the reject list or in the blacklist, and accepted otherwise. Entries of the lists count literally:
  since the address is passed as the pattern, wildcards in an entry match nothing.
\<close>

theorem checkIpAccess_iff:
  assumes "star \<notin> set ip" "ip \<noteq> []"
  shows "snd (checkIpAccess io ip w) \<longleftrightarrow>
    (let v = fst (checkIpAccess io ip w) in
     ip = ''0'' \<or> ip \<in> set (ipAccessAccept v) \<or>
     (ip \<notin> set (ipAccessReject v) \<and> \<not> (ipBlacklistEnabled v \<and> ip \<in> set (ipAccessBlacklist v))))"
  using assms by (simp add: checkIpAccess_def Let_def ipMatches_iff)

theorem checkIpAccess_iff_witness:
  "snd (checkIpAccess plain_io ''10.0.0.7'' (noUsers\<lparr>ipSecurityLastLoadTime := 1000000, ipAccessReject := [''10.0.*'']\<rparr>)) \<and>
   \<not> snd (checkIpAccess plain_io ''10.0.0.7'' (noUsers\<lparr>ipSecurityLastLoadTime := 1000000, ipAccessReject := [''10.0.0.7'']\<rparr>))"
proof -
  have i: "star \<notin> set ''10.0.0.7''" "''10.0.0.7'' \<noteq> []" by simp_all
  have v: "fst (checkIpAccess plain_io ''10.0.0.7'' (noUsers\<lparr>ipSecurityLastLoadTime := 1000000, ipAccessReject := r\<rparr>)) =
      noUsers\<lparr>ipSecurityLastLoadTime := 1000000, ipAccessReject := r\<rparr>" for r
    by (simp add: checkIpAccess_def plain_io_def Let_def)
  show ?thesis
    by (simp add: checkIpAccess_iff [OF i] v Let_def) (simp add: noUsers_def)
qed

subsection \<open>Jumbled text\<close>

definition marked :: "bool list \<Rightarrow> nat" where
  "marked x = length (filter id x)"

lemma marked_set: "\<lbrakk>q < length x; \<not> x ! q\<rbrakk> \<Longrightarrow> marked (x[q := True]) = Suc (marked x)"
proof -
  assume q: "q < length x" "\<not> x ! q"
  have x: "x = take q x @ x ! q # drop (Suc q) x" by (rule id_take_nth_drop [OF q(1)])
  have "marked (x[q := True]) = Suc (length (filter id (take q x)) + length (filter id (drop (Suc q) x)))"
    using q(1) by (simp add: marked_def upd_conv_take_nth_drop)
  moreover have "marked x = length (filter id (take q x)) + length (filter id (drop (Suc q) x))"
    unfolding marked_def by (subst x) (use q(2) in simp)
  ultimately show ?thesis by simp
qed

lemma nextFree_finds:
  assumes "p < length x" "\<not> x ! ((p + k) mod length x)"
  shows "\<exists>q. nextFree x p = Some q \<and> q < length x \<and> \<not> x ! q"
  using assms
proof (induction k arbitrary: p)
  case 0
  then show ?case by (subst nextFree.simps) simp
next
  case (Suc k)
  show ?case
  proof (cases "x ! p")
    case True
    have m: "((p + 1) mod length x + k) mod length x = (p + Suc k) mod length x" by (simp add: mod_add_left_eq)
    have "\<exists>q. nextFree x ((p + 1) mod length x) = Some q \<and> q < length x \<and> \<not> x ! q"
    proof (rule Suc.IH)
      show "(p + 1) mod length x < length x" using Suc.prems(1) by (intro mod_less_divisor) linarith
      show "\<not> x ! (((p + 1) mod length x + k) mod length x)" using Suc.prems(2) unfolding m .
    qed
    then show ?thesis using True by (subst nextFree.simps) simp
  next
    case False
    then show ?thesis using Suc.prems by (subst nextFree.simps) simp
  qed
qed

lemma nextFree_defined:
  assumes "p < length x" "marked x < length x"
  shows "\<exists>q. nextFree x p = Some q \<and> q < length x \<and> \<not> x ! q"
proof -
  obtain f where f: "f < length x" "\<not> x ! f"
    using assms(2) length_filter_less [of _ x id] by (auto simp: marked_def in_set_conv_nth filter_id_conv) 
      (metis filter_id_conv id_apply in_set_conv_nth nat_neq_iff)
  have "(p + (length x - p + f)) mod length x = f" using assms(1) f(1) by simp
  then show ?thesis using nextFree_finds [OF assms(1), of "length x - p + f"] f(2) by simp
qed

lemma hexAt_defined: "\<lbrakk>\<forall>c \<in> set s. is_hex c; p * 2 + 1 < length s\<rbrakk> \<Longrightarrow> hexAt s p \<noteq> None"
  by (auto simp: hexAt_def hexByteStrToInt_def)

lemma dejumbleLoop_defined:
  assumes "\<forall>c \<in> set s. is_hex c" "\<forall>c \<in> set u. is_hex c" "2 * length x \<le> length s" "2 * length x \<le> length u"
    "p < length x" "marked x + l \<le> length x"
  shows "\<exists>t. dejumbleLoop u s l x p c = Some t \<and> length t = l"
  using assms(3-6)
proof (induction l arbitrary: x p c)
  case 0
  then show ?case by simp
next
  case (Suc l)
  have h: "hexAt s q \<noteq> None" "hexAt u q \<noteq> None" if "q < length x" for q
    using that Suc.prems(1,2) assms(1,2) by (intro hexAt_defined; simp)+
  obtain step where step: "hexAt s p = Some step" using h(1) [OF Suc.prems(3)] by blast
  let ?p = "nat ((int p + step) mod int (length x))"
  have "0 < int (length x)" using Suc.prems(3) by (cases x) simp_all
  then have "?p < length x" by (simp add: nat_less_iff)
  then obtain q where q: "nextFree x ?p = Some q" "q < length x" "\<not> x ! q"
    using nextFree_defined [of ?p x] Suc.prems(4) by auto
  obtain n v where nv: "hexAt s q = Some n" "hexAt u q = Some v" using h [OF q(2)] by blast
  have "\<exists>t. dejumbleLoop u s l (x[q := True]) q v = Some t \<and> length t = l"
    by (rule Suc.IH) (use Suc.prems q marked_set [OF q(2,3)] in simp_all)
  then show ?case using step q(1) nv by auto
qed

text \<open>
  C26. The decoding of a name or password that the client jumbled with its session identifier always
  terminates, within bounds, for 512 or more hexadecimal digits, whatever they are: the search for a position not
  yet used always finds one. At most 255 characters come out.
\<close>

theorem dejumble_terminates:
  assumes "length s = 512" "512 \<le> length u" "\<forall>c \<in> set s. is_hex c" "\<forall>c \<in> set u. is_hex c"
  shows "\<exists>t. dejumble u s = Some t \<and> length t < 256"
proof -
  have h: "hexAt s q \<noteq> None" "hexAt u q \<noteq> None" if "q < 256" for q
    using that assms by (intro hexAt_defined; simp)+
  obtain a where a: "hexAt s 0 = Some a" using h(1) [of 0] by auto
  let ?p = "nat (a mod 256)"
  have p: "?p < 256" by (simp add: nat_less_iff)
  obtain n v where nv: "hexAt s ?p = Some n" "hexAt u ?p = Some v" using h [OF p] by blast
  let ?l = "nat ((v - int ?p - n) mod 256)"
  let ?x = "(replicate 256 False)[?p := True]"
  have l: "?l < 256" by (simp add: nat_less_iff)
  have "marked ?x = 1" using marked_set [of ?p "replicate 256 False"] p by (simp add: marked_def)
  then have "\<exists>t. dejumbleLoop u s ?l ?x ?p v = Some t \<and> length t = ?l"
    using assms p l by (intro dejumbleLoop_defined) simp_all
  then show ?thesis using a nv l by (auto simp: dejumble_def SESSION_ID_LENGTH_def assms(1) Let_def)
qed

theorem dejumble_terminates_witness:
  "\<exists>t. dejumble (replicate 512 CHR ''7'') (replicate 512 CHR ''0'') = Some t \<and> length t < 256"
  by (rule dejumble_terminates) (simp_all add: is_hex_def is_digit_def)

end
