(* ===== verification/RequestAccess.thy ===== *)
theory RequestAccess
  imports UserSessions
begin

text \<open>
  \<open>WebUsersUtilities/WebUsers.cc\<close> and \<open>.h\<close>, the decision on a request to the Gateway: the structure
  \<open>RequestUserInfo\<close> with the permission level that follows from groups, the checks of level, lock and
  accountability, and \<open>xmlRequestOnGateway\<close>, which runs them after the check of the cookie code.
\<close>

section \<open>The request\<close>

record request_info =
  ri_cookieCode :: string
  automatedCommand :: bool
  checkLock :: bool
  requireLock :: bool
  allowNoUser :: bool
  requireSecurity :: bool
  groupsAllowed :: "string list"
  groupsDisallowed :: "string list"
  permissionLevel :: u8
  permissionsThreshold :: u8
  ri_ip :: string
  ri_uid :: u64
  ri_username :: string
  ri_displayName :: string
  ri_usernameWithLock :: string
  ri_userSessionIndex :: u64
  groupPermissionLevelMap :: permission_map

text \<open>
  \<open>getGroupPermissionLevel\<close>: the highest level among the allowed groups, with the mark that one matched;
  the level of the default group replaces it at the end.
\<close>

definition allowedLevel :: "string list \<Rightarrow> permission_map \<Rightarrow> u8 \<times> bool" where
  "allowedLevel allowed m =
     fold (\<lambda>(g, l) (p, matched). if inWildCardSet g allowed \<and> p < l then (l, True) else (p, matched)) m (0, False)"

definition getGroupPermissionLevel :: "request_info \<Rightarrow> request_info" where
  "getGroupPermissionLevel r =
     (let m = groupPermissionLevelMap r; (p, matched) = allowedLevel (groupsAllowed r) m
      in if \<not> matched \<and> groupsAllowed r \<noteq> [] then r\<lparr>permissionLevel := p\<rparr>
         else if groupsAllowed r = [] \<and> list_ex (\<lambda>(g, l). inWildCardSet g (groupsDisallowed r)) m
         then r\<lparr>permissionLevel := p\<rparr>
         else (case omap_get m DEFAULT_USER_GROUP of
                 None \<Rightarrow> r\<lparr>permissionLevel := p\<rparr> | Some l \<Rightarrow> r\<lparr>permissionLevel := l\<rparr>))"

text \<open>
  \<open>setGroupPermissionLevels\<close> adds the groups of the text to the map; reading the text may throw, or not
  return.
\<close>

definition setGroupPermissionLevels ::
  "variables \<Rightarrow> string \<Rightarrow> request_info \<Rightarrow> (env_error + request_info) option" where
  "setGroupPermissionLevels vs text r =
     map_option (map_sum id (\<lambda>m. getGroupPermissionLevel (r\<lparr>permissionLevel := 0, groupPermissionLevelMap := m\<rparr>)))
       (getNumberMap vs text (groupPermissionLevelMap r))"

definition initializeRequestUserInfo ::
  "variables \<Rightarrow> string \<Rightarrow> request_info \<Rightarrow> (env_error + request_info) option" where
  "initializeRequestUserInfo vs ip r =
     setGroupPermissionLevels vs []
       (r\<lparr>ri_ip := ip, ri_username := [], ri_displayName := [], ri_usernameWithLock := [],
          ri_userSessionIndex := NOT_FOUND_IN_DATABASE\<rparr>)"

section \<open>The checks\<close>

text \<open>What a check of access gives: the verdict, the text written to the client, the header of the document.\<close>

record access_result =
  granted :: bool
  out :: string
  header :: "string option"
  info :: request_info

definition deny :: "string \<Rightarrow> string option \<Rightarrow> request_info \<Rightarrow> access_result" where
  "deny text h r = \<lparr>granted = False, out = text, header = h, info = r\<rparr>"

definition allow :: "string option \<Rightarrow> request_info \<Rightarrow> access_result" where
  "allow h r = \<lparr>granted = True, out = [], header = h, info = r\<rparr>"

definition accountable :: "bool \<Rightarrow> string \<Rightarrow> request_info \<Rightarrow> bool" where
  "accountable wizard sequence r \<longleftrightarrow>
     \<not> (requireSecurity r \<and> 1 < permissionsThreshold r) \<or>
     (if wizard then 8 \<le> length sequence
      else ri_username r \<notin> {DEFAULT_ADMIN_USERNAME, DEFAULT_ITERATOR_USERNAME, DEFAULT_STATECHANGER_USERNAME})"

text \<open>
  \<open>checkRequestAccess\<close>; \<open>care\<close> and \<open>remote\<close> are the static members \<open>CareAboutCookieCodes_\<close> and
  \<open>remoteLoginVerificationEnabled_\<close>, \<open>xmldoc\<close> tells whether there is a document.
\<close>

definition checkRequestAccess ::
  "bool \<Rightarrow> bool \<Rightarrow> bool \<Rightarrow> bool \<Rightarrow> string \<Rightarrow> request_info \<Rightarrow> access_result" where
  "checkRequestAccess care remote xmldoc wizard sequence r =
     (if \<not> accountable wizard sequence r then deny REQ_NO_PERMISSION_RESPONSE None r
      else if \<not> wizard \<and> \<not> allowNoUser r \<and> length (ri_cookieCode r) \<noteq> COOKIE_CODE_LENGTH \<and>
              \<not> (\<not> care \<and> remote \<and> ri_cookieCode r = REQ_ALLOW_NO_USER)
      then deny REQ_NO_LOGIN_RESPONSE None r
      else if \<not> allowNoUser r \<and>
              (permissionLevel r = 0 \<or> permissionsThreshold r = 0 \<or> permissionLevel r < permissionsThreshold r)
      then deny REQ_NO_PERMISSION_RESPONSE None r
      else if wizard then
        allow None (r\<lparr>ri_username := DEFAULT_ADMIN_USERNAME, ri_displayName := ''Admin'',
                      ri_usernameWithLock := DEFAULT_ADMIN_USERNAME, ri_userSessionIndex := 0\<rparr>)
      else
        (let h = (if xmldoc then Some (if allowNoUser r then REQ_ALLOW_NO_USER else ri_cookieCode r) else None)
         in if allowNoUser r then allow h r
            else if (checkLock r \<or> requireLock r) \<and> ri_usernameWithLock r \<noteq> [] \<and> ri_usernameWithLock r \<noteq> ri_username r
            then deny REQ_USER_LOCKOUT_RESPONSE h r
            else if requireLock r \<and> ri_usernameWithLock r \<noteq> ri_username r
            then deny REQ_LOCK_REQUIRED_RESPONSE h r
            else allow h r))"

datatype request_outcome = RequestAnswer access_result | RequestThrow web_error | RequestUndefined

text \<open>
  \<open>xmlRequestOnGateway\<close>. The lock is taken for a user whose request requires it when nobody holds it.
  An exception while reading permissions cannot occur for the empty text, and is passed on.
\<close>

definition takeLock :: "web_io \<Rightarrow> request_info \<Rightarrow> web_users \<Rightarrow> web_users \<times> request_info" where
  "takeLock io r w =
     (if requireLock r \<and> ri_usernameWithLock r = [] then
        (let (w1, ok) = setUserWithLock io (ri_uid r) True (ri_username r) w
         in (w1, if ok then r\<lparr>ri_usernameWithLock := ri_username r\<rparr> else r))
      else (w, r))"

definition requestAsUser ::
  "web_io \<Rightarrow> bool \<Rightarrow> access_grant \<Rightarrow> request_info \<Rightarrow> web_users \<Rightarrow> web_users \<times> request_outcome" where
  "requestAsUser io xmldoc g r w =
     (let r1 = getGroupPermissionLevel
                 (r\<lparr>groupPermissionLevelMap := ag_permissions g, ri_uid := ag_uid g,
                    ri_usernameWithLock := ag_userWithLock g, ri_userSessionIndex := ag_session g\<rparr>)
      in case searchUsersDatabaseForUserId w (ri_uid r1) of
           None \<Rightarrow> (w, RequestThrow IllegalUid)
         | Some i \<Rightarrow>
             (let (w1, r2) = takeLock io (r1\<lparr>ri_username := username (Users w ! i), ri_displayName := displayName (Users w ! i)\<rparr>) w
              in (w1, RequestAnswer (checkRequestAccess (CareAboutCookieCodes w1) (remoteLoginVerificationEnabled w1) xmldoc False [] r2))))"

definition requestWithoutUser ::
  "web_io \<Rightarrow> bool \<Rightarrow> request_info \<Rightarrow> web_users \<Rightarrow> web_users \<times> request_outcome" where
  "requestWithoutUser io xmldoc r w =
     (if \<not> allowNoUser r then (w, RequestAnswer (deny (ri_cookieCode r) None r))
      else
        (let (w1, accepted) = checkIpAccess io (ri_ip r) w
         in if \<not> accepted then (w1, RequestAnswer (deny (ri_cookieCode r) None r))
            else
              (case setGroupPermissionLevels (environment io) [] r of
                 None \<Rightarrow> (w1, RequestUndefined)
               | Some (Inl x) \<Rightarrow> (w1, RequestThrow (BadPermissions x))
               | Some (Inr r1) \<Rightarrow>
                   (w1, RequestAnswer (checkRequestAccess (CareAboutCookieCodes w1) (remoteLoginVerificationEnabled w1)
                          xmldoc False [] (r1\<lparr>ri_uid := NOT_FOUND_IN_DATABASE\<rparr>))))))"

definition xmlRequestOnGateway ::
  "web_io \<Rightarrow> remote_gateway \<Rightarrow> string \<Rightarrow> bool \<Rightarrow> request_info \<Rightarrow> web_users \<Rightarrow> web_users \<times> request_outcome" where
  "xmlRequestOnGateway io rg ip xmldoc r w =
     (case initializeRequestUserInfo (environment io) ip r of
        None \<Rightarrow> (w, RequestUndefined)
      | Some (Inl x) \<Rightarrow> (w, RequestThrow (BadPermissions x))
      | Some (Inr r1) \<Rightarrow>
          (case cookieCodeIsActiveForRequest io rg (ri_cookieCode r1) (ri_ip r1) (\<not> automatedCommand r1) (allowNoUser r1) w of
             None \<Rightarrow> (w, RequestUndefined)
           | Some (w1, cc, None) \<Rightarrow> requestWithoutUser io xmldoc (r1\<lparr>ri_cookieCode := cc\<rparr>) w1
           | Some (w1, cc, Some g) \<Rightarrow> requestAsUser io xmldoc g (r1\<lparr>ri_cookieCode := cc\<rparr>) w1))"

section \<open>Levels\<close>

lemma allowedLevel_fold:
  "fold (\<lambda>(g, l) (p, matched). if inWildCardSet g allowed \<and> p < l then (l, True) else (p, matched)) m (p, b) =
   (Max (insert p {l. \<exists>g. (g, l) \<in> set m \<and> inWildCardSet g allowed}), b \<or> (\<exists>(g, l) \<in> set m. inWildCardSet g allowed \<and> p < l))"
proof (induction m arbitrary: p b)
  case Nil
  then show ?case by simp
next
  case (Cons x m)
  obtain g l where x: "x = (g, l)" by (cases x)
  let ?S = "\<lambda>m. {l. \<exists>g. (g, l) \<in> set m \<and> inWildCardSet g allowed}"
  have fin: "finite (?S m)" by (rule finite_subset [of _ "snd ` set m"]) force+
  have S: "?S (x # m) = (if inWildCardSet g allowed then insert l (?S m) else ?S m)" by (auto simp: x)
  show ?case
  proof (cases "inWildCardSet g allowed")
    case True
    have 1: "Max (insert p (insert l (?S m))) = max p (Max (insert l (?S m)))" using fin by simp
    have 2: "Max (insert p (insert l (?S m))) = max l (Max (insert p (?S m)))"
      unfolding insert_commute [of p l] using fin by simp
    show ?thesis
    proof (cases "p < l")
      case less: True
      have "l \<le> Max (insert l (?S m))" using fin by simp
      then have "max p (Max (insert l (?S m))) = Max (insert l (?S m))" using less by (intro max_absorb2) order
      then show ?thesis unfolding S using True less Cons.IH [of l True] 1 by (simp add: x)
    next
      case False
      have "p \<le> Max (insert p (?S m))" using fin by simp
      then have "max l (Max (insert p (?S m))) = Max (insert p (?S m))" using False by (intro max_absorb2) order
      then show ?thesis unfolding S using True False Cons.IH [of p b] 2 by (simp add: x)
    qed
  next
    case False
    then show ?thesis unfolding S using Cons.IH [of p b] by (simp add: x)
  qed
qed

definition levelsIn :: "string list \<Rightarrow> permission_map \<Rightarrow> u8 set" where
  "levelsIn groups m = {l. \<exists>g. (g, l) \<in> set m \<and> inWildCardSet g groups}"

lemma allowedLevel_result: "allowedLevel allowed m = (Max (insert 0 (levelsIn allowed m)), \<exists>l \<in> levelsIn allowed m. 0 < l)"
  by (auto simp: allowedLevel_def allowedLevel_fold levelsIn_def)

lemma Max_no_level: "\<forall>l \<in> levelsIn allowed m. \<not> 0 < l \<Longrightarrow> Max (insert 0 (levelsIn allowed m)) = 0"
proof -
  assume "\<forall>l \<in> levelsIn allowed m. \<not> 0 < l"
  then have "insert 0 (levelsIn allowed m) = {0}" by (auto simp: word_gt_0)
  then show ?thesis by (simp only: Max_singleton)
qed

text \<open>
  C25. The level of a request: without allowed groups it is the level in the group of all users, unless
  the user is in a disallowed group (then none). With allowed groups a user in none of them (with a level above 0)
  gets none; a user in one of them gets the level of the group of all users again, and the highest
  level among the allowed groups only when there is no entry for the group of all users.
\<close>

theorem group_permission_level:
  "permissionLevel (getGroupPermissionLevel r) =
    (let m = groupPermissionLevelMap r; level = omap_get m DEFAULT_USER_GROUP;
         allowed = levelsIn (groupsAllowed r) m
     in if groupsAllowed r = [] then
          if levelsIn (groupsDisallowed r) m \<noteq> {} then 0 else (case level of None \<Rightarrow> 0 | Some l \<Rightarrow> l)
        else if allowed \<subseteq> {0} then 0
        else (case level of None \<Rightarrow> Max allowed | Some l \<Rightarrow> l))"
proof -
  let ?m = "groupPermissionLevelMap r" and ?A = "levelsIn (groupsAllowed r) (groupPermissionLevelMap r)"
  have none: "levelsIn [] m = {}" for m by (simp add: levelsIn_def inWildCardSet_def)
  have dis: "list_ex (\<lambda>(g, l). inWildCardSet g (groupsDisallowed r)) ?m \<longleftrightarrow> levelsIn (groupsDisallowed r) ?m \<noteq> {}"
    by (auto simp: list_ex_iff levelsIn_def)
  have fin: "finite ?A" unfolding levelsIn_def by (rule finite_subset [of _ "snd ` set ?m"]) force+
  have "Max (insert 0 ?A) = Max ?A" if "\<exists>l \<in> ?A. l \<noteq> 0" using that fin by (subst Max_insert) (auto simp: max_def)
  then have "Max (insert 0 ?A) = (if ?A \<subseteq> {0} then 0 else Max ?A)"
    using Max_no_level [of "groupsAllowed r" ?m] by (auto simp: word_gt_0)
  then show ?thesis
    by (auto simp: getGroupPermissionLevel_def Let_def allowedLevel_result none dis word_gt_0 split: option.split)
qed

section \<open>Access\<close>

lemma initialize_run:
  "\<exists>l. initializeRequestUserInfo vs ip r =
     Some (Inr (r\<lparr>ri_ip := ip, ri_username := [], ri_displayName := [], ri_usernameWithLock := [],
       ri_userSessionIndex := NOT_FOUND_IN_DATABASE, permissionLevel := l\<rparr>))"
  by (cases r) (auto simp: initializeRequestUserInfo_def setGroupPermissionLevels_def getNumberMap_def readMap_def finishMap_def
      getGroupPermissionLevel_def Let_def split_beta split: option.split)

lemma getGroup_keeps [simp]:
  "ri_cookieCode (getGroupPermissionLevel r) = ri_cookieCode r" "allowNoUser (getGroupPermissionLevel r) = allowNoUser r"
  "checkLock (getGroupPermissionLevel r) = checkLock r" "requireLock (getGroupPermissionLevel r) = requireLock r"
  "requireSecurity (getGroupPermissionLevel r) = requireSecurity r" "ri_uid (getGroupPermissionLevel r) = ri_uid r"
  "permissionsThreshold (getGroupPermissionLevel r) = permissionsThreshold r"
  "ri_usernameWithLock (getGroupPermissionLevel r) = ri_usernameWithLock r"
  by (auto simp: getGroupPermissionLevel_def Let_def split_beta split: option.split)

lemma level_depends:
  "\<lbrakk>groupPermissionLevelMap r = groupPermissionLevelMap q; groupsAllowed r = groupsAllowed q; groupsDisallowed r = groupsDisallowed q\<rbrakk>
   \<Longrightarrow> permissionLevel (getGroupPermissionLevel r) = permissionLevel (getGroupPermissionLevel q)"
  by (auto simp: getGroupPermissionLevel_def Let_def split_beta split: option.split)

lemma setUserWithLock_given: "snd (setUserWithLock io uid True name w) \<Longrightarrow> usersUsernameWithLock (fst (setUserWithLock io uid True name w)) = name"
  by (auto simp: setUserWithLock_def Let_def split: if_splits)

lemma setUserWithLock_not_given: "\<not> snd (setUserWithLock io uid lock name w) \<Longrightarrow> fst (setUserWithLock io uid lock name w) = w"
  by (auto simp: setUserWithLock_def Let_def split: if_splits)

lemma takeLock_result:
  assumes "takeLock io r w = (w', r')" "ri_usernameWithLock r = usersUsernameWithLock w"
  shows "r' = r\<lparr>ri_usernameWithLock := usersUsernameWithLock w'\<rparr> \<and> Users w' = Users w"
  using assms setUserWithLock_given [of io "ri_uid r" "ri_username r" w] setUserWithLock_not_given [of io "ri_uid r" True "ri_username r" w]
  by (auto simp: takeLock_def split_beta split: if_splits)

lemma checkRequestAccess_granted:
  assumes "granted (checkRequestAccess care remote xmldoc False [] r)" "\<not> allowNoUser r"
  shows "accountable False [] r" "permissionsThreshold r \<noteq> 0" "permissionsThreshold r \<le> permissionLevel r"
    "checkLock r \<or> requireLock r \<Longrightarrow> ri_usernameWithLock r \<in> {[], ri_username r}"
    "requireLock r \<Longrightarrow> ri_usernameWithLock r = ri_username r"
    "info (checkRequestAccess care remote xmldoc False [] r) = r"
  using assms by (auto simp: checkRequestAccess_def deny_def allow_def Let_def not_less split: if_splits)

text \<open>What a granted request of a user means.\<close>

definition rightsOf :: "web_users \<Rightarrow> u64 \<Rightarrow> request_info \<Rightarrow> u8" where
  "rightsOf w uid r = permissionLevel (getGroupPermissionLevel (r\<lparr>groupPermissionLevelMap := getPermissionsForUser w uid\<rparr>))"

lemma requestAsUser_granted:
  assumes run: "requestAsUser io xmldoc g r w = (w', RequestAnswer a)" and a: "granted a" "\<not> allowNoUser r"
    and lock: "ag_userWithLock g = usersUsernameWithLock w"
  shows "ri_uid (info a) = ag_uid g \<and> ri_username (info a) = getUsersUsername w (ag_uid g) \<and>
    permissionsThreshold r \<noteq> 0 \<and>
    permissionsThreshold r \<le> permissionLevel (getGroupPermissionLevel (r\<lparr>groupPermissionLevelMap := ag_permissions g\<rparr>)) \<and>
    (requireSecurity r \<and> 1 < permissionsThreshold r \<longrightarrow>
       ri_username (info a) \<notin> {DEFAULT_ADMIN_USERNAME, DEFAULT_ITERATOR_USERNAME, DEFAULT_STATECHANGER_USERNAME}) \<and>
    (checkLock r \<or> requireLock r \<longrightarrow> usersUsernameWithLock w' \<in> {[], ri_username (info a)}) \<and>
    (requireLock r \<longrightarrow> usersUsernameWithLock w' = ri_username (info a))"
proof -
  let ?q = "r\<lparr>groupPermissionLevelMap := ag_permissions g, ri_uid := ag_uid g, ri_usernameWithLock := ag_userWithLock g,
      ri_userSessionIndex := ag_session g\<rparr>"
  let ?r1 = "getGroupPermissionLevel ?q"
  have "searchUsersDatabaseForUserId w (ag_uid g) \<noteq> None" using run by (auto simp: requestAsUser_def Let_def split: option.splits)
  then obtain i where i: "searchUsersDatabaseForUserId w (ag_uid g) = Some i" by blast
  let ?r2 = "?r1\<lparr>ri_username := username (Users w ! i), ri_displayName := displayName (Users w ! i)\<rparr>"
  obtain w1 r3 where t: "takeLock io ?r2 w = (w1, r3)" by (cases "takeLock io ?r2 w")
  have w1: "w' = w1" and ans: "a = checkRequestAccess (CareAboutCookieCodes w1) (remoteLoginVerificationEnabled w1) xmldoc False [] r3"
    using run i t by (auto simp: requestAsUser_def Let_def)
  have r3: "r3 = ?r2\<lparr>ri_usernameWithLock := usersUsernameWithLock w'\<rparr>" using takeLock_result [OF t] lock w1 by simp
  have lev: "permissionLevel r3 = permissionLevel (getGroupPermissionLevel (r\<lparr>groupPermissionLevelMap := ag_permissions g\<rparr>))"
    unfolding r3 by (simp add: level_depends [of ?q "r\<lparr>groupPermissionLevelMap := ag_permissions g\<rparr>"])
  have "\<not> allowNoUser r3" using a(2) by (simp add: r3)
  note c = checkRequestAccess_granted [OF a(1) [unfolded ans] this]
  have u: "ri_username r3 = getUsersUsername w (ag_uid g)" using i by (simp add: r3 getUsersUsername_def)
  show ?thesis using c u lev unfolding ans by (auto simp: r3 accountable_def)
qed

text \<open>
  C4. With security on, a request that needs a user is granted only to an accepted address with an
  unexpired session of an active user, whose level for the request reaches the threshold (which is
  not 0); when accountability is required, never to the shared accounts; when the lock is checked, only if
  nobody else holds it, and when it is required, only if the user holds it after the call.
\<close>

theorem request_granted_only_with_rights:
  assumes ok: "sessions_ok n w" and secure: "CareAboutCookieCodes w" "\<not> remoteLoginVerificationEnabled w"
    and run: "xmlRequestOnGateway io rg ip xmldoc r w = (w', RequestAnswer a)" and a: "granted a" "\<not> allowNoUser r"
  shows "\<exists>s \<in> set (ActiveSessions w). authorises io (ri_cookieCode r) ip w s \<and> snd (checkIpAccess io ip w) \<and>
     ri_uid (info a) = as_userId s \<and> ri_username (info a) = getUsersUsername w (as_userId s) \<and>
     permissionsThreshold r \<noteq> 0 \<and> permissionsThreshold r \<le> rightsOf w (as_userId s) r \<and>
     (requireSecurity r \<and> 1 < permissionsThreshold r \<longrightarrow> ri_username (info a) \<notin> {''admin'', ''iterator'', ''statechanger''}) \<and>
     (checkLock r \<or> requireLock r \<longrightarrow> usersUsernameWithLock w' \<in> {[], ri_username (info a)}) \<and>
     (requireLock r \<longrightarrow> usersUsernameWithLock w' = ri_username (info a))"
proof -
  obtain l where l: "initializeRequestUserInfo (environment io) ip r =
     Some (Inr (r\<lparr>ri_ip := ip, ri_username := [], ri_displayName := [], ri_usernameWithLock := [],
       ri_userSessionIndex := NOT_FOUND_IN_DATABASE, permissionLevel := l\<rparr>))"
    using initialize_run by blast
  let ?r = "r\<lparr>ri_ip := ip, ri_username := [], ri_displayName := [], ri_usernameWithLock := [],
       ri_userSessionIndex := NOT_FOUND_IN_DATABASE, permissionLevel := l\<rparr>"
  obtain w1 cc v where c: "cookieCodeIsActiveForRequest io rg (ri_cookieCode r) ip (\<not> automatedCommand r) (allowNoUser r) w = Some (w1, cc, v)"
    and acc: "v \<noteq> None \<longrightarrow> snd (checkIpAccess io ip w)"
    and g: "\<And>g. v = Some g \<Longrightarrow> \<exists>s \<in> set (ActiveSessions w). authorises io (ri_cookieCode r) ip w s \<and> ag_uid g = as_userId s \<and>
          ag_permissions g = getPermissionsForUser w (as_userId s) \<and> Users w1 = Users w \<and> ag_userWithLock g = usersUsernameWithLock w1"
    using request_verdict [OF ok secure, of io rg "ri_cookieCode r" ip "\<not> automatedCommand r" "allowNoUser r"] by metis
  show ?thesis
  proof (cases v)
    case None
    then show ?thesis
      using run a l c by (auto simp: xmlRequestOnGateway_def requestWithoutUser_def deny_def)
  next
    case (Some x)
    obtain s where s: "s \<in> set (ActiveSessions w)" "authorises io (ri_cookieCode r) ip w s" "ag_uid x = as_userId s"
      "ag_permissions x = getPermissionsForUser w (as_userId s)" "Users w1 = Users w" "ag_userWithLock x = usersUsernameWithLock w1"
      using g [OF Some] by blast
    have n: "getUsersUsername w1 uid = getUsersUsername w uid" for uid
      using s(5) by (simp add: getUsersUsername_def searchUsersDatabaseForUserId_def split: option.split)
    have "requestAsUser io xmldoc x (?r\<lparr>ri_cookieCode := cc\<rparr>) w1 = (w', RequestAnswer a)"
      using run l c Some by (simp add: xmlRequestOnGateway_def)
    note q = requestAsUser_granted [OF this a(1) _ s(6)]
    have lev: "permissionLevel (getGroupPermissionLevel ((?r\<lparr>ri_cookieCode := cc\<rparr>)\<lparr>groupPermissionLevelMap := ag_permissions x\<rparr>)) =
        rightsOf w (as_userId s) r"
      unfolding rightsOf_def s(4) by (rule level_depends) simp_all
    have acc': "snd (checkIpAccess io ip w)" using acc Some by simp
    show ?thesis
      by (rule bexI [OF _ s(1)]) (use q a(2) s(2,3) lev n acc' in \<open>auto simp: DEFAULT_ADMIN_USERNAME_def DEFAULT_ITERATOR_USERNAME_def DEFAULT_STATECHANGER_USERNAME_def\<close>)
  qed
qed

text \<open>A request of the novice that requires the lock, automated, so that the cookie code is not refreshed.\<close>

definition longCookie :: string where
  "longCookie = replicate 512 (CHR ''a'')"

definition noviceAtWork :: web_users where
  "noviceAtWork = loggedIn\<lparr>ActiveSessions := [noviceSession\<lparr>cookieCode := longCookie\<rparr>]\<rparr>"

definition lockRequest :: request_info where
  "lockRequest =
     \<lparr>ri_cookieCode = longCookie, automatedCommand = True, checkLock = True, requireLock = True, allowNoUser = False,
      requireSecurity = False, groupsAllowed = [], groupsDisallowed = [], permissionLevel = 0, permissionsThreshold = 1,
      ri_ip = [], ri_uid = - 1, ri_username = [], ri_displayName = [], ri_usernameWithLock = [],
      ri_userSessionIndex = 0, groupPermissionLevelMap = []\<rparr>"

lemma noviceAtWork_simps [simp]:
  "Users noviceAtWork = Users twoUsers" "ActiveSessions noviceAtWork = [noviceSession\<lparr>cookieCode := longCookie\<rparr>]"
  "usersUsernameWithLock noviceAtWork = ''novice''" "CareAboutCookieCodes noviceAtWork"
  "\<not> remoteLoginVerificationEnabled noviceAtWork" "LoginSessions noviceAtWork = []" "UsersLoggedOutUsernames noviceAtWork = []"
  by (simp_all add: noviceAtWork_def)

lemma noviceAtWork_ok: "sessions_ok 1 noviceAtWork"
  by (simp add: sessions_ok_def noviceSession_def)

lemma noviceAtWork_cleanup: "cleanupExpiredEntries plain_io False noviceAtWork = Some (noviceAtWork, [])"
proof -
  have e: "\<not> sessionExpired plain_io (noviceSession\<lparr>cookieCode := longCookie\<rparr>)"
    using noviceSession_active by (simp add: sessionExpired_def)
  have same: "noviceAtWork\<lparr>LoginSessions := [], ActiveSessions := [noviceSession\<lparr>cookieCode := longCookie\<rparr>],
      UsersLoggedOutUsernames := []\<rparr> = noviceAtWork"
    by (simp add: noviceAtWork_def loggedIn_def twoUsers_def noUsers_def)
  have "isUsernameActive noviceAtWork ''novice''"
    by (simp add: isUsernameActive_def searchUsersDatabaseForUsername_def isUserIdActive_def uidActive_def noviceSession_def)
  moreover have "lockHolderActivity noviceAtWork = 999500"
    by (simp add: lockHolderActivity_def searchUsersDatabaseForUserId_def noviceSession_def)
  ultimately have "expireLock plain_io noviceAtWork = noviceAtWork"
    by (simp add: expireLock_def LOCK_INACTIVITY_TIMEOUT_def plain_io_def)
  then show ?thesis using e by (simp add: cleanupExpiredEntries_def Let_def same del: noviceAtWork_simps(2,6,7)) (simp add: same)
qed

lemma lockRequest_cookie:
  "cookieCodeIsActiveForRequest plain_io noGateway longCookie ''0'' False False noviceAtWork =
     Some (clearBlacklistCount ''0'' noviceAtWork, longCookie,
       Some \<lparr>ag_permissions = [(DEFAULT_USER_GROUP, 1)], ag_uid = 1, ag_userWithLock = ''novice'', ag_session = 1\<rparr>)"
  by (simp add: cookieCodeIsActiveForRequest_def checkIpAccess_def noviceAtWork_cleanup remoteVerdict_def Let_def
      localVerdict_def searchActiveSessionDatabaseForCookie_def refreshCookieCode_def last_index_of_def sameChain_def
      grantUser_def searchUsersDatabaseForUserId_def isInactiveForGroup_def getPermissionsForUser_def
      getPermissionLevelForGroup_def PERMISSION_LEVEL_INACTIVE_def noviceSession_def)

lemma lockRequest_run:
  "\<exists>w' a. xmlRequestOnGateway plain_io noGateway ''0'' True lockRequest noviceAtWork = (w', RequestAnswer a) \<and> granted a"
proof -
  let ?g = "\<lparr>ag_permissions = [(DEFAULT_USER_GROUP, 1)], ag_uid = 1, ag_userWithLock = ''novice'', ag_session = 1\<rparr>"
  let ?w = "clearBlacklistCount ''0'' noviceAtWork"
  obtain l where l: "initializeRequestUserInfo (environment plain_io) ''0'' lockRequest =
     Some (Inr (lockRequest\<lparr>ri_ip := ''0'', ri_username := [], ri_displayName := [], ri_usernameWithLock := [],
       ri_userSessionIndex := NOT_FOUND_IN_DATABASE, permissionLevel := l\<rparr>))"
    using initialize_run by blast
  have "xmlRequestOnGateway plain_io noGateway ''0'' True lockRequest noviceAtWork =
      requestAsUser plain_io True ?g (lockRequest\<lparr>ri_ip := ''0'', ri_username := [], ri_displayName := [],
        ri_usernameWithLock := [], ri_userSessionIndex := NOT_FOUND_IN_DATABASE, permissionLevel := l\<rparr>) ?w"
    using lockRequest_cookie by (simp add: xmlRequestOnGateway_def l) (simp add: lockRequest_def)
  then show ?thesis
    by (simp add: requestAsUser_def searchUsersDatabaseForUserId_def takeLock_def getGroupPermissionLevel_def
        checkRequestAccess_def accountable_def allow_def lockRequest_def allowedLevel_def inWildCardSet_def
        longCookie_def COOKIE_CODE_LENGTH_def Let_def)
qed

theorem request_granted_only_with_rights_witness:
  "\<exists>w' a. xmlRequestOnGateway plain_io noGateway ''0'' True lockRequest noviceAtWork = (w', RequestAnswer a) \<and>
     ri_uid (info a) = 1 \<and> usersUsernameWithLock w' = ri_username (info a)"
proof -
  obtain w' a where r: "xmlRequestOnGateway plain_io noGateway ''0'' True lockRequest noviceAtWork = (w', RequestAnswer a)" "granted a"
    using lockRequest_run by blast
  show ?thesis
    using request_granted_only_with_rights [OF noviceAtWork_ok _ _ r] r(1)
    by (simp add: lockRequest_def noviceSession_def)
qed

end
