(* ===== verification/UserFiles.thy ===== *)
theory UserFiles
  imports UserSessions
begin

text \<open>
  \<open>WebUsersUtilities/WebUsers.cc\<close>, what survives a restart of the Gateway: the files of users, password hashes,
  active sessions and login failures are read back from the text that is written to them.
\<close>

section \<open>Lines of a file\<close>

text \<open>\<open>fgets\<close> with a buffer of \<open>n\<close> characters: up to the end of the line, at most \<open>n - 1\<close>.\<close>

definition fgetsLine :: "nat \<Rightarrow> string \<Rightarrow> string" where
  "fgetsLine n s = take (n - 1) (takeWhile (\<lambda>c. c \<noteq> CHR 0x0A) s @ take 1 (dropWhile (\<lambda>c. c \<noteq> CHR 0x0A) s))"

function fgetsLines :: "nat \<Rightarrow> string \<Rightarrow> string list" where
  "fgetsLines n s =
     (if fgetsLine n s = [] then [] else fgetsLine n s # fgetsLines n (drop (length (fgetsLine n s)) s))"
  by auto
termination
proof (relation "measure (\<lambda>(n, s). length s)")
  fix n s
  assume "fgetsLine n s \<noteq> []"
  moreover from this have "s \<noteq> []" by (auto simp: fgetsLine_def)
  ultimately show "((n, drop (length (fgetsLine n s)) s), n, s) \<in> measure (\<lambda>(n, s). length s)" by simp
qed simp

declare fgetsLines.simps [simp del]

text \<open>\<open>sscanf("%ld")\<close>; \<^term>\<open>None\<close> when nothing is converted.\<close>

definition scan_signed :: "string \<Rightarrow> int option" where
  "scan_signed s0 =
     (let s = dropWhile isspace s0;
          ds = takeWhile is_digit (if s \<noteq> [] \<and> (hd s = CHR ''-'' \<or> hd s = CHR ''+'') then tl s else s)
      in if ds = [] then None else Some (strtol10 s))"

text \<open>
  The fields of a line: \<open>c\<close> counts the characters \<open>>\<close>; where \<open>P\<close> holds for the count, the text up to the next
  \<open><\<close> is field \<open>c / 2 - 1\<close>. A field that is not closed ends the line.
\<close>

function fieldsOf :: "(nat \<Rightarrow> bool) \<Rightarrow> nat \<Rightarrow> string \<Rightarrow> (nat \<times> string) list" where
  "fieldsOf P c [] = []"
| "fieldsOf P c (x # xs) =
     (if x \<noteq> CHR ''>'' then fieldsOf P c xs
      else if \<not> P (c + 1) then fieldsOf P (c + 1) xs
      else (case dropWhile (\<lambda>y. y \<noteq> CHR ''<'') xs of
              [] \<Rightarrow> []
            | _ # rest \<Rightarrow> ((c + 1) div 2 - 1, takeWhile (\<lambda>y. y \<noteq> CHR ''<'') xs) # fieldsOf P (c + 1) rest))"
  by pat_completeness auto
termination
proof (relation "measure (\<lambda>(P, c, s). length s)")
  fix P c x xs y rest
  assume "dropWhile (\<lambda>y. y \<noteq> CHR ''<'') xs = y # rest"
  then have "length (y # rest) \<le> length xs" by (metis length_dropWhile_le)
  then show "((P, c + 1, rest), P, c, x # xs) \<in> measure (\<lambda>(P, c, s). length s)" by simp
qed simp_all

section \<open>Password hashes\<close>

definition SHA512_DIGEST_LENGTH :: nat where "SHA512_DIGEST_LENGTH = 64"

definition hashField :: "nat \<times> string \<Rightarrow> hash_entry list \<Rightarrow> hash_entry list" where
  "hashField ft hs =
     (if fst ft = 0 then hs @ [\<lparr>hash = snd ft, accessTime = 0\<rparr>]
      else (case scan_signed (snd ft) of
              None \<Rightarrow> hs | Some v \<Rightarrow> butlast hs @ [(last hs)\<lparr>accessTime := v\<rparr>]))"

definition hashLine :: "string \<Rightarrow> hash_entry list \<Rightarrow> hash_entry list" where
  "hashLine l hs =
     (let line = c_str l in
      if length line < SHA512_DIGEST_LENGTH then hs else fold hashField (fieldsOf (\<lambda>c. c = 2 \<or> c = 4) 0 line) hs)"

definition loadHashes :: "string \<Rightarrow> web_users \<Rightarrow> web_users" where
  "loadHashes text w = w\<lparr>Hashes := fold hashLine (fgetsLines 1000 text) (Hashes w)\<rparr>"

section \<open>Users\<close>

text \<open>The permissions of an entry: the default group is added as inactive, the administrator gets all rights.\<close>

definition restorePermissions :: "user \<Rightarrow> permission_map \<Rightarrow> permission_map" where
  "restorePermissions u m =
     (if username u = DEFAULT_ADMIN_USERNAME then [(DEFAULT_USER_GROUP, PERMISSION_LEVEL_ADMIN)]
      else if omap_get m DEFAULT_USER_GROUP = None then omap_put DEFAULT_USER_GROUP PERMISSION_LEVEL_INACTIVE m
      else m)"

definition orElse :: "'a option \<Rightarrow> 'a \<Rightarrow> 'a" where
  "orElse v d = (case v of None \<Rightarrow> d | Some x \<Rightarrow> x)"

text \<open>One field of the current entry \<open>u\<close> (field 0, the username, starts an entry).\<close>

definition userField :: "web_io \<Rightarrow> nat \<Rightarrow> string \<Rightarrow> user \<Rightarrow> web_error + user" where
  "userField io f t u =
     (if f = 1 then Inr (u\<lparr>displayName := t\<rparr>)
      else if f = 2 then Inr (u\<lparr>salt := t\<rparr>)
      else if f = 3 then Inr (u\<lparr>userId := orElse (scan_unsigned t) (userId u)\<rparr>)
      else if f = 4 then
        (case getNumberMap (environment io) t (permissions u) of
           None \<Rightarrow> Inl NoReturn
         | Some (Inl x) \<Rightarrow> Inl (BadPermissions x)
         | Some (Inr m) \<Rightarrow> Inr (u\<lparr>permissions := restorePermissions u m\<rparr>))
      else if f = 5 then Inr (u\<lparr>lastLoginAttempt := orElse (scan_signed t) (lastLoginAttempt u)\<rparr>)
      else if f = 6 then Inr (u\<lparr>accountCreationTime := orElse (scan_signed t) (accountCreationTime u)\<rparr>)
      else if f = 7 then Inr (u\<lparr>loginFailureCount := orElse (scan_unsigned t) (loginFailureCount u)\<rparr>)
      else if f = 8 then Inr (u\<lparr>lastModifierTime := orElse (scan_signed t) (lastModifierTime u)\<rparr>)
      else if f = 9 then Inr (u\<lparr>lastModifierUsername := t\<rparr>)
      else if f = 10 then Inr (u\<lparr>email := t\<rparr>)
      else Inr u)"

fun userFields :: "web_io \<Rightarrow> (nat \<times> string) list \<Rightarrow> user list \<Rightarrow> web_error + user list" where
  "userFields io [] us = Inr us"
| "userFields io ((f, t) # fs) us =
     (if f = 0 then userFields io fs (us @ [(newUser io)\<lparr>username := t\<rparr>])
      else (case userField io f t (last us) of
              Inl e \<Rightarrow> Inl e | Inr u \<Rightarrow> userFields io fs (butlast us @ [u])))"

fun userLines :: "web_io \<Rightarrow> string list \<Rightarrow> user list \<Rightarrow> web_error + user list" where
  "userLines io [] us = Inr us"
| "userLines io (l # ls) us =
     (let line = c_str l in
      if length line < 30 then userLines io ls us
      else if 1000 \<le> length line then Inr us
      else (case userFields io (fieldsOf even 0 line) us of
              Inl e \<Rightarrow> Inl e | Inr us' \<Rightarrow> userLines io ls us'))"

text \<open>The line of the next identifier; the lines before it are skipped.\<close>

definition nextIdLine :: "string \<Rightarrow> bool" where
  "nextIdLine l \<longleftrightarrow> 20 \<le> length (c_str l) \<and> take 10 (drop 1 l) = ''nextUserId''"

definition loadUsers :: "web_io \<Rightarrow> string \<Rightarrow> web_users \<Rightarrow> web_error + web_users" where
  "loadUsers io text w =
     (case dropWhile (\<lambda>l. \<not> nextIdLine l) (fgetsLines 1000 text) of
        [] \<Rightarrow> Inr w
      | l # ls \<Rightarrow>
          (let nid = takeWhile (\<lambda>c. c \<noteq> CHR ''<'') (drop 12 (c_str l))
           in map_sum id (\<lambda>us. w\<lparr>usersNextUserId := orElse (scan_unsigned nid) (usersNextUserId w), Users := us\<rparr>)
                (userLines io ls (Users w))))"

text \<open>
  \<open>loadDatabases\<close>: a file that does not exist is created; the first account is then the
  administrator's. \<open>Inr False\<close> when a file cannot be created; an exception ends the start of the Gateway.
\<close>

definition DEFAULT_ADMIN_DISPLAY_NAME :: string where "DEFAULT_ADMIN_DISPLAY_NAME = ''Administrator''"
definition DEFAULT_ADMIN_EMAIL :: string where "DEFAULT_ADMIN_EMAIL = ''root@otsdaq.fnal.gov''"

definition loadDatabases :: "web_io \<Rightarrow> web_users \<Rightarrow> web_users \<times> (web_error + bool)" where
  "loadDatabases io w =
     (let (w1, ok) = (case hashesFile w of
                        Some text \<Rightarrow> (loadHashes text w, True)
                      | None \<Rightarrow> if writable io
                                then (w\<lparr>hashesFile := Some (''<hashData>'' @ endl @ ''</hashData>'' @ endl)\<rparr>, True)
                                else (w, False))
      in if \<not> ok then (w1, Inr False)
         else
           (case usersFile w1 of
              Some text \<Rightarrow> (case loadUsers io text w1 of Inl e \<Rightarrow> (w1, Inl e) | Inr w2 \<Rightarrow> (w2, Inr True))
            | None \<Rightarrow>
                if \<not> writable io then (w1, Inr False)
                else
                  (let w2 = w1\<lparr>usersFile := Some (''<userData>'' @ endl @ field ''nextUserId'' (to_string (unat (usersNextUserId w1)))
                                                  @ endl @ ''</userData>'' @ endl)\<rparr>;
                       (w3, e) = createNewAccount io DEFAULT_ADMIN_USERNAME DEFAULT_ADMIN_DISPLAY_NAME DEFAULT_ADMIN_EMAIL w2
                   in (w3, case e of None \<Rightarrow> Inr True | Some x \<Rightarrow> Inl x))))"

section \<open>Active sessions\<close>

text \<open>\<open>saveActiveSessions\<close>, and the lines of one session.\<close>

definition sessionLines :: "active_session \<Rightarrow> string list" where
  "sessionLines a =
     [cookieCode a @ endl, as_ip a @ endl, to_string (unat (as_userId a)) @ endl, to_string (unat (sessionIndex a)) @ endl,
      int64_to_string (startTime a) @ endl, int64_to_string (lastActivityTime a) @ endl]"

definition sessionsText :: "web_users \<Rightarrow> string" where
  "sessionsText w = ''1'' @ endl @ concat (concat (map sessionLines (ActiveSessions w)))"

text \<open>
  \<open>loadActiveSessions\<close>: at the end of the file the buffer keeps its last line, and a number that is not there
  leaves the 0 of the new entry. \<^term>\<open>None\<close> is the version of a file without one, which is read uninitialised.
\<close>

definition nextLine :: "string \<times> string list \<Rightarrow> string \<times> string list" where
  "nextLine b = (case snd b of [] \<Rightarrow> b | l # ls \<Rightarrow> (l, ls))"

definition chopped :: "string \<Rightarrow> string" where
  "chopped l = butlast (c_str l)"

definition readSession :: "int \<Rightarrow> string \<Rightarrow> string \<times> string list \<Rightarrow> active_session \<times> string list" where
  "readSession version cookie b0 =
     (let b1 = nextLine b0; b2 = nextLine b1; b3 = nextLine b2; b4 = nextLine b3;
          st = orElse (scan_signed (c_str (fst b4))) 0;
          (act, b5) = (if 1 \<le> version then (orElse (scan_signed (c_str (fst (nextLine b4)))) 0, nextLine b4) else (st, b4))
      in (\<lparr>cookieCode = cookie, as_ip = chopped (fst b1), as_userId = orElse (scan_unsigned (c_str (fst b2))) 0,
           sessionIndex = orElse (scan_unsigned (c_str (fst b3))) 0, startTime = st, lastActivityTime = act\<rparr>, snd b5))"

lemma nextLine_length: "length (snd (nextLine b)) \<le> length (snd b)"
  by (auto simp: nextLine_def split: list.split)

lemma readSession_length: "length (snd (readSession version cookie b)) \<le> length (snd b)"
proof -
  let ?b4 = "nextLine (nextLine (nextLine (nextLine b)))"
  have "length (snd ?b4) \<le> length (snd b)"
    by (rule le_trans [OF nextLine_length le_trans [OF nextLine_length le_trans [OF nextLine_length nextLine_length]]])
  then show ?thesis using nextLine_length [of ?b4] by (simp add: readSession_def Let_def split_beta)
qed

function readSessions :: "int \<Rightarrow> string list \<Rightarrow> active_session list \<Rightarrow> active_session list" where
  "readSessions version [] ss = ss"
| "readSessions version (l # ls) ss =
     (if length (chopped l) \<noteq> COOKIE_CODE_LENGTH then ss
      else readSessions version (snd (readSession version (chopped l) (l, ls)))
             (ss @ [fst (readSession version (chopped l) (l, ls))]))"
  by pat_completeness auto
termination
proof (relation "measure (\<lambda>(v, ls, ss). length ls)")
  fix version l ls and ss :: "active_session list"
  show "((version, snd (readSession version (chopped l) (l, ls)), ss @ [fst (readSession version (chopped l) (l, ls))]),
      version, l # ls, ss) \<in> measure (\<lambda>(v, ls, ss). length ls)"
    using readSession_length [of version "chopped l" "(l, ls)"] by simp
qed simp

definition loadActiveSessions :: "string \<Rightarrow> web_users \<Rightarrow> web_users option" where
  "loadActiveSessions text w =
     (case fgetsLines 1000 text of
        [] \<Rightarrow> None
      | l # ls \<Rightarrow>
          (case scan_signed (c_str l) of
             None \<Rightarrow> None
           | Some v \<Rightarrow>
               Some (w\<lparr>ActiveSessions := readSessions (sint (word_of_int v :: 32 word)) ls (ActiveSessions w)\<rparr>)))"

section \<open>Login failures\<close>

text \<open>\<open>loadLoginFailureCounts\<close>: \<open>fscanf\<close> reads two numbers at a time, over any blanks.\<close>

text \<open>The rest of the text after a number.\<close>

definition afterNumber :: "string \<Rightarrow> string" where
  "afterNumber s0 =
     (let s = dropWhile isspace s0
      in dropWhile is_digit (if s \<noteq> [] \<and> (hd s = CHR ''-'' \<or> hd s = CHR ''+'') then tl s else s))"

lemma afterNumber_length: "length (afterNumber s) \<le> length s"
proof -
  let ?t = "dropWhile isspace s"
  let ?u = "if ?t \<noteq> [] \<and> (hd ?t = CHR ''-'' \<or> hd ?t = CHR ''+'') then tl ?t else ?t"
  have "length ?u \<le> length ?t" by simp
  then show ?thesis
    using length_dropWhile_le [of isspace s] length_dropWhile_le [of is_digit ?u] unfolding afterNumber_def Let_def by linarith
qed

lemma scan_unsigned_nonempty: "scan_unsigned s = Some v \<Longrightarrow> length (afterNumber s) < length s"
proof -
  assume a: "scan_unsigned s = Some v"
  let ?t = "dropWhile isspace s"
  let ?u = "if ?t \<noteq> [] \<and> (hd ?t = CHR ''-'' \<or> hd ?t = CHR ''+'') then tl ?t else ?t"
  have "takeWhile is_digit ?u \<noteq> []" using a by (auto simp: scan_unsigned_def Let_def split: if_splits)
  then have "length (dropWhile is_digit ?u) < length ?u"
    by (metis length_append length_greater_0_conv less_add_same_cancel2 takeWhile_dropWhile_id)
  moreover have "length ?u \<le> length ?t" by simp
  ultimately show ?thesis using length_dropWhile_le [of isspace s] unfolding afterNumber_def Let_def by linarith
qed

function failureCounts :: "string \<Rightarrow> (u64 \<times> u8) list" where
  "failureCounts s =
     (case scan_unsigned s of
        None \<Rightarrow> []
      | Some (uid :: u64) \<Rightarrow>
          (case scan_unsigned (afterNumber s) of
             None \<Rightarrow> []
           | Some (count :: u32) \<Rightarrow> (uid, ucast count) # failureCounts (afterNumber (afterNumber s))))"
  by auto
termination
proof (relation "measure length")
  fix s :: string and uid :: u64 and count :: u32
  assume "scan_unsigned s = Some uid"
  then show "(afterNumber (afterNumber s), s) \<in> measure length"
    using scan_unsigned_nonempty [of s uid] afterNumber_length [of "afterNumber s"] by simp
qed simp

declare failureCounts.simps [simp del]

definition loadLoginFailureCounts :: "web_users \<Rightarrow> web_users" where
  "loadLoginFailureCounts w =
     (case failureFile w of
        None \<Rightarrow> w
      | Some text \<Rightarrow>
          w\<lparr>Users := fold (\<lambda>(uid, count) us.
                        case index_of (\<lambda>u. userId u = uid) us of
                          None \<Rightarrow> us | Some i \<Rightarrow> us[i := (us ! i)\<lparr>loginFailureCount := count\<rparr>])
                      (failureCounts text) (map (\<lambda>u. u\<lparr>loginFailureCount := 0\<rparr>) (Users w))\<rparr>)"

section \<open>Lemmas\<close>

subsection \<open>Lines\<close>

definition plain_line :: "string \<Rightarrow> bool" where
  "plain_line l \<longleftrightarrow> l \<noteq> [] \<and> last l = CHR 0x0A \<and> CHR 0x0A \<notin> set (butlast l) \<and> length l < 1000"

lemma fgetsLine_plain: "plain_line l \<Longrightarrow> fgetsLine 1000 (l @ rest) = l"
proof -
  assume l: "plain_line l"
  then have e: "l = butlast l @ endl" by (metis append_butlast_last_id plain_line_def)
  have "takeWhile (\<lambda>c. c \<noteq> CHR 0x0A) ((butlast l @ endl) @ rest) = butlast l"
    using l by (subst append_assoc, subst takeWhile_append2) (auto simp: plain_line_def)
  moreover have "dropWhile (\<lambda>c. c \<noteq> CHR 0x0A) ((butlast l @ endl) @ rest) = endl @ rest"
    using l by (subst append_assoc, subst dropWhile_append2) (auto simp: plain_line_def)
  ultimately have "fgetsLine 1000 ((butlast l @ endl) @ rest) = take 999 (butlast l @ endl)" by (simp add: fgetsLine_def)
  also have "\<dots> = butlast l @ endl" using l e by (intro take_all) (auto simp: plain_line_def)
  finally show ?thesis using e by metis
qed

lemma fgetsLines_concat: "\<forall>l \<in> set ls. plain_line l \<Longrightarrow> fgetsLines 1000 (concat ls) = ls"
proof (induction ls)
  case Nil
  then show ?case by (simp add: fgetsLines.simps fgetsLine_def)
next
  case (Cons l ls)
  have f: "fgetsLine 1000 (l @ concat ls) = l" by (rule fgetsLine_plain) (use Cons.prems in simp)
  have "l \<noteq> []" using Cons.prems by (simp add: plain_line_def)
  then show ?case using Cons by (subst fgetsLines.simps) (simp add: f)
qed

lemma plain_lineI: "\<lbrakk>CHR 0x0A \<notin> set b; length b < 999\<rbrakk> \<Longrightarrow> plain_line (b @ endl)"
  by (simp add: plain_line_def)

lemma c_str_line: "CHR 0x00 \<notin> set l \<Longrightarrow> c_str l = l"
  by (auto simp: c_str_def takeWhile_eq_all_conv)

subsection \<open>Numbers\<close>

definition number_end :: "string \<Rightarrow> bool" where
  "number_end r \<longleftrightarrow> (case r of [] \<Rightarrow> True | c # _ \<Rightarrow> \<not> is_digit c)"

lemma number_end_simps [simp]: "number_end []" "number_end (CHR 0x0A # r)" "number_end (CHR '' '' # r)"
  by (simp_all add: number_end_def is_digit_def)

lemma takeWhile_digits_end: "number_end r \<Longrightarrow> takeWhile is_digit (to_string n @ r) = to_string n"
proof -
  assume r: "number_end r"
  have "takeWhile is_digit (to_string n @ r) = to_string n @ takeWhile is_digit r"
    using to_string_chars [of n] by (intro takeWhile_append2) auto
  then show ?thesis using r by (cases r) (simp_all add: number_end_def)
qed

lemma dropWhile_space_end: "dropWhile isspace (to_string n @ r) = to_string n @ r"
  using dropWhile_to_string [of n] to_string_nonempty [of n] to_string_chars [of n] by (cases "to_string n") auto

lemma to_string_hd: "hd (to_string n @ r) \<noteq> CHR ''-''" "hd (to_string n @ r) \<noteq> CHR ''+''"
  using to_string_chars [of n] to_string_nonempty [of n] by (cases "to_string n"; auto)+

lemma strtol10_end: "number_end r \<Longrightarrow> strtol10 (to_string n @ r) = saturate (int n)"
proof -
  assume r: "number_end r"
  obtain c d where c: "to_string n = c # d" using to_string_nonempty [of n] by (cases "to_string n") auto
  have "c \<noteq> CHR ''-''" "c \<noteq> CHR ''+''" using to_string_chars [of n] c by auto
  then have "strtol10 (to_string n @ r) = saturate (digits_value 10 (takeWhile is_digit (to_string n @ r)))"
    by (simp add: strtol10_def c)
  then show ?thesis by (simp only: takeWhile_digits_end [OF r] digits_value_to_string)
qed

lemma strtol10_minus_end: "number_end r \<Longrightarrow> strtol10 (CHR ''-'' # to_string n @ r) = saturate (- int n)"
  by (simp add: strtol10_def takeWhile_digits_end digits_value_to_string)

lemma scan_unsigned_end:
  assumes "number_end r" "n < 2 ^ 64"
  shows "scan_unsigned (to_string n @ r) = Some (of_nat n)"
proof -
  have "int n < 2 ^ 64" using assms(2) by simp
  then show ?thesis
    using to_string_nonempty [of n] to_string_hd [of n r]
    by (simp add: scan_unsigned_def Let_def dropWhile_space_end takeWhile_digits_end [OF assms(1)] digits_value_to_string)
qed

lemma scan_signed_end:
  assumes "number_end r"
  shows "scan_signed (to_string n @ r) = Some (saturate (int n))"
  using to_string_nonempty [of n] to_string_hd [of n r]
  by (simp add: scan_signed_def Let_def dropWhile_space_end takeWhile_digits_end [OF assms] strtol10_end [OF assms])

lemma scan_signed_int64:
  assumes r: "number_end r" and v: "- (2 ^ 63) \<le> v" "v < 2 ^ 63"
  shows "scan_signed (int64_to_string v @ r) = Some v"
proof (cases "v < 0")
  case True
  then show ?thesis
    using to_string_nonempty [of "nat (- v)"] v
    by (simp add: int64_to_string_def scan_signed_def Let_def isspace_def takeWhile_digits_end [OF r]
        strtol10_minus_end [OF r] saturate_def)
next
  case False
  then show ?thesis using v by (simp add: int64_to_string_def scan_signed_end [OF r] saturate_def)
qed

lemma digits_plain: "c \<in> set (to_string n) \<Longrightarrow> c \<notin> {CHR 0x00, CHR 0x0A, CHR ''<'', CHR ''>''}"
proof -
  assume "c \<in> set (to_string n)"
  then have "is_digit c" using to_string_chars [of n] by blast
  moreover have "\<not> is_digit (CHR 0x00)" "\<not> is_digit (CHR 0x0A)" "\<not> is_digit (CHR ''<'')" "\<not> is_digit (CHR ''>'')"
    by (simp_all add: is_digit_def)
  ultimately show ?thesis by blast
qed

lemma int64_plain: "c \<in> set (int64_to_string v) \<Longrightarrow> c \<notin> {CHR 0x00, CHR 0x0A, CHR ''<'', CHR ''>''}"
  using digits_plain [of c "nat v"] digits_plain [of c "nat (- v)"] by (simp add: int64_to_string_def split: if_splits) blast

lemma length_to_string: "n < 10 ^ k \<Longrightarrow> length (to_string n) \<le> max 1 k"
proof (induction k arbitrary: n)
  case 0
  then show ?case by (simp add: to_string.simps)
next
  case (Suc k)
  show ?case
  proof (cases "n < 10")
    case False
    have "0 < k" using False Suc.prems by (cases k) simp_all
    moreover have "length (to_string (n div 10)) \<le> max 1 k" by (rule Suc.IH) (use Suc.prems in \<open>simp add: div_less_iff_less_mult mult.commute\<close>)
    ultimately show ?thesis using False by (subst to_string.simps) simp
  qed (simp add: to_string.simps)
qed

lemma unat_u64: "unat (v :: u64) < 2 ^ 64"
  using unsigned_less [of v, where 'a = nat] by simp

lemma scan_u64: "number_end r \<Longrightarrow> scan_unsigned (to_string (unat (v :: u64)) @ r) = Some v"
proof -
  assume r: "number_end r"
  have "scan_unsigned (to_string (unat v) @ r) = Some (of_nat (unat v) :: u64)" by (rule scan_unsigned_end [OF r unat_u64])
  then show ?thesis by simp
qed

lemma length_u64: "n < 2 ^ 64 \<Longrightarrow> length (to_string n) \<le> 20"
  using length_to_string [of n 20] by simp

lemma length_int64: "\<lbrakk>- (2 ^ 63) \<le> v; v < 2 ^ 63\<rbrakk> \<Longrightarrow> length (int64_to_string v) \<le> 21"
  using length_u64 [of "nat v"] length_u64 [of "nat (- v)"] by (auto simp: int64_to_string_def nat_less_iff)

subsection \<open>Sessions\<close>

definition savable :: "active_session \<Rightarrow> bool" where
  "savable a \<longleftrightarrow> length (cookieCode a) = COOKIE_CODE_LENGTH \<and> length (as_ip a) < 999 \<and>
     {CHR 0x00, CHR 0x0A} \<inter> (set (cookieCode a) \<union> set (as_ip a)) = {} \<and>
     startTime a \<in> {- (2 ^ 63)..<2 ^ 63} \<and> lastActivityTime a \<in> {- (2 ^ 63)..<2 ^ 63}"

lemma sessionLines_plain:
  assumes "savable a" "l \<in> set (sessionLines a)"
  shows "plain_line l"
proof -
  have p: "CHR 0x0A \<notin> set (to_string n)" "CHR 0x0A \<notin> set (int64_to_string v)" for n v
    using digits_plain int64_plain by blast+
  have u: "length (to_string (unat v)) < 999" for v :: u64 using length_u64 [OF unat_u64] by (rule le_less_trans) simp
  have t: "length (int64_to_string (startTime a)) < 999" "length (int64_to_string (lastActivityTime a)) < 999"
    using length_int64 [of "startTime a"] length_int64 [of "lastActivityTime a"] assms(1) by (auto simp: savable_def)
  show ?thesis
    using assms u t p by (auto simp: sessionLines_def savable_def COOKIE_CODE_LENGTH_def intro!: plain_lineI)
qed

lemma chopped_line: "CHR 0x00 \<notin> set b \<Longrightarrow> chopped (b @ endl) = b"
  by (simp add: chopped_def c_str_line)

lemma nextLine_simps [simp]: "nextLine (l, x # ls) = (x, ls)"
  by (simp add: nextLine_def)

lemma readSession_lines:
  assumes "savable a"
  shows "readSession 1 (cookieCode a) (l, tl (sessionLines a) @ rest) = (a, rest)"
proof -
  have n: "CHR 0x00 \<notin> set (to_string n)" "CHR 0x00 \<notin> set (int64_to_string v)" for n v
    using digits_plain int64_plain by blast+
  have "c_str (to_string n @ endl) = to_string n @ endl" "c_str (int64_to_string v @ endl) = int64_to_string v @ endl" for n v
    using n by (simp_all add: c_str_line)
  moreover have "scan_signed (int64_to_string (startTime a) @ endl) = Some (startTime a)"
    "scan_signed (int64_to_string (lastActivityTime a) @ endl) = Some (lastActivityTime a)"
    using assms by (intro scan_signed_int64; simp add: savable_def)+
  moreover have "chopped (as_ip a @ endl) = as_ip a" using assms by (intro chopped_line) (simp add: savable_def)
  ultimately show ?thesis by (simp add: readSession_def sessionLines_def Let_def scan_u64 orElse_def)
qed

lemma readSessions_lines:
  "\<forall>a \<in> set as. savable a \<Longrightarrow> readSessions 1 (concat (map sessionLines as)) ss = ss @ as"
proof (induction as arbitrary: ss)
  case Nil
  then show ?case by simp
next
  case (Cons a as)
  have s: "savable a" using Cons.prems by simp
  have l: "sessionLines a = (cookieCode a @ endl) # tl (sessionLines a)" by (simp add: sessionLines_def)
  have c: "chopped (cookieCode a @ endl) = cookieCode a" using s by (intro chopped_line) (auto simp: savable_def)
  have "length (cookieCode a) = COOKIE_CODE_LENGTH" using s by (simp add: savable_def)
  then have "readSessions 1 ((cookieCode a @ endl) # tl (sessionLines a) @ concat (map sessionLines as)) ss =
      readSessions 1 (concat (map sessionLines as)) (ss @ [a])"
    using c readSession_lines [OF s] by simp
  then show ?case using Cons.IH [of "ss @ [a]"] Cons.prems by (subst list.map, subst concat.simps, subst l) simp
qed

subsection \<open>Entries\<close>

lemma fieldsOf_skip: "CHR ''>'' \<notin> set xs \<Longrightarrow> fieldsOf P c (xs @ ys) = fieldsOf P c ys"
  by (induction xs) auto

lemma fieldsOf_field:
  assumes n: "CHR ''>'' \<notin> set name" and v: "CHR ''<'' \<notin> set v" and P: "P (c + 1)" "\<not> P (c + 2)"
  shows "fieldsOf P c (field name v @ rest) = ((c + 1) div 2 - 1, v) # fieldsOf P (c + 2) rest"
proof -
  have d: "dropWhile (\<lambda>y. y \<noteq> CHR ''<'') (v @ CHR ''<'' # t) = CHR ''<'' # t"
    "takeWhile (\<lambda>y. y \<noteq> CHR ''<'') (v @ CHR ''<'' # t) = v" for t
    using v by (subst dropWhile_append2; auto)+ (subst takeWhile_append2; use v in auto)
  have "fieldsOf P c (field name v @ rest) = fieldsOf P c ((''<'' @ name) @ CHR ''>'' # v @ CHR ''<'' # (''/'' @ name) @ CHR ''>'' # rest)"
    by (simp add: field_def)
  also have "\<dots> = fieldsOf P c (CHR ''>'' # v @ CHR ''<'' # (''/'' @ name) @ CHR ''>'' # rest)"
    by (rule fieldsOf_skip) (use n in simp)
  also have "\<dots> = ((c + 1) div 2 - 1, v) # fieldsOf P (c + 1) ((''/'' @ name) @ CHR ''>'' # rest)"
    using P(1) by (simp add: d del: append.simps append_assoc)
  also have "fieldsOf P (c + 1) ((''/'' @ name) @ CHR ''>'' # rest) = fieldsOf P (c + 1) (CHR ''>'' # rest)"
    by (rule fieldsOf_skip) (use n in simp)
  also have "\<dots> = fieldsOf P (c + 2) rest" using P(2) by simp
  finally show ?thesis .
qed

definition plain_text :: "string \<Rightarrow> bool" where
  "plain_text t \<longleftrightarrow> {CHR 0x00, CHR 0x0A, CHR ''<''} \<inter> set t = {}"

lemma plain_number: "plain_text (to_string n)"
  using digits_plain [of _ n] unfolding plain_text_def by blast

text \<open>A user whose entry can be written and read: no markup in its texts, and at most one line.\<close>

definition storable :: "user \<Rightarrow> bool" where
  "storable u \<longleftrightarrow>
     plain_text (username u) \<and> plain_text (displayName u) \<and> plain_text (salt u) \<and> plain_text (email u) \<and>
     plain_text (lastModifierUsername u) \<and> omap_ok (permissions u) \<and>
     (\<forall>g \<in> fst ` set (permissions u). name_ok g \<and> plain_text g) \<and>
     lastLoginAttempt u \<in> {0..<2 ^ 63} \<and> accountCreationTime u \<in> {0..<2 ^ 63} \<and> lastModifierTime u \<in> {0..<2 ^ 63} \<and>
     length (userEntry u) < 1000"

definition restored :: "user \<Rightarrow> user" where
  "restored u = u\<lparr>permissions := restorePermissions u (permissions u)\<rparr>"

lemma plain_map: "\<forall>g \<in> fst ` set m. plain_text g \<Longrightarrow> plain_text (mapToString '','' '':'' m)"
proof (induction m rule: induct_list012)
  case (2 kv)
  then show ?case using plain_number by (cases kv) (auto simp: plain_text_def)
next
  case (3 kv kv' m)
  then show ?case using plain_number by (cases kv; cases kv') (auto simp: plain_text_def)
qed (simp add: plain_text_def)

lemma entry_fields:
  assumes "storable u"
  shows "fieldsOf even 0 (userEntry u) =
    [(0, username u), (1, displayName u), (2, salt u), (3, to_string (unat (userId u))),
     (4, mapToString '','' '':'' (permissions u)), (5, lu (lastLoginAttempt u)), (6, lu (accountCreationTime u)),
     (7, to_string (unat (loginFailureCount u))), (8, lu (lastModifierTime u)), (9, lastModifierUsername u), (10, email u)]"
proof -
  have plain: "CHR ''<'' \<notin> set (username u)" "CHR ''<'' \<notin> set (displayName u)" "CHR ''<'' \<notin> set (salt u)"
    "CHR ''<'' \<notin> set (email u)" "CHR ''<'' \<notin> set (lastModifierUsername u)"
    "CHR ''<'' \<notin> set (mapToString '','' '':'' (permissions u))" "CHR ''<'' \<notin> set (to_string n)" "CHR ''<'' \<notin> set (lu v)" for n v
    using assms plain_map [of "permissions u"] plain_number by (auto simp: storable_def plain_text_def lu_def)
  have start: "fieldsOf even 0 (''<userEntry>'' @ t) = fieldsOf even 1 t" for t
    by simp
  have finish: "fieldsOf even c (''</userEntry>'' @ endl) = []" if "odd c" for c
    using that by simp
  show ?thesis
    unfolding userEntry_def
    by (simp add: start finish fieldsOf_field plain del: append.simps append_assoc)
qed

lemma scan_lu: "v \<in> {0..<2 ^ 63} \<Longrightarrow> scan_signed (lu v) = Some v"
proof -
  assume v: "v \<in> {0..<2 ^ 63}"
  then have "v mod 2 ^ 64 = v" by simp
  then show ?thesis using v scan_signed_end [of "[]" "nat v"] by (simp add: lu_def saturate_def)
qed

lemma scan_u64': "scan_unsigned (to_string (unat (v :: u64))) = Some v"
  using scan_u64 [of "[]" v] by simp

lemma scan_u8: "scan_unsigned (to_string (unat (v :: u8))) = Some v"
proof -
  have "unat v < 2 ^ 8" using unsigned_less [of v, where 'a = nat] by simp
  then have "unat v < 2 ^ 64" by simp
  then have "scan_unsigned (to_string (unat v) @ []) = Some (of_nat (unat v) :: u8)" by (intro scan_unsigned_end) simp_all
  then show ?thesis by simp
qed

lemma entry_read:
  assumes u: "storable u"
  shows "userFields io (fieldsOf even 0 (userEntry u)) us = Inr (us @ [restored u])"
proof -
  have p: "getNumberMap (environment io) (mapToString '','' '':'' (permissions u)) [] = Some (Inr (permissions u))"
    by (rule permissions_text) (use u in \<open>auto simp: storable_def\<close>)
  have t: "scan_signed (lu (lastLoginAttempt u)) = Some (lastLoginAttempt u)"
    "scan_signed (lu (accountCreationTime u)) = Some (accountCreationTime u)"
    "scan_signed (lu (lastModifierTime u)) = Some (lastModifierTime u)"
    using u by (intro scan_lu; simp add: storable_def)+
  show ?thesis
    unfolding entry_fields [OF u]
    by (cases u) (use p t in \<open>simp add: userField_def newUser_def orElse_def scan_u64' scan_u8 restored_def restorePermissions_def\<close>)
qed

lemma entry_line:
  assumes u: "storable u"
  shows "plain_line (userEntry u)" "c_str (userEntry u) = userEntry u" "30 \<le> length (userEntry u)"
proof -
  obtain b where b: "userEntry u = b @ endl" "{CHR 0x00, CHR 0x0A} \<inter> set b = {}"
  proof
    let ?b = "butlast (userEntry u)"
    show "userEntry u = ?b @ endl" by (simp add: userEntry_def butlast_append)
    have f: "{CHR 0x00, CHR 0x0A} \<inter> set (field n t) = {}" if "{CHR 0x00, CHR 0x0A} \<inter> set n = {}" "plain_text t" for n t
      using that by (auto simp: field_def plain_text_def)
    have l: "plain_text (lu v)" for v by (simp add: lu_def plain_number)
    have p: "plain_text (mapToString '','' '':'' (permissions u))" by (rule plain_map) (use u in \<open>auto simp: storable_def\<close>)
    have b: "?b = ''<userEntry>'' @ field ''username'' (username u) @ field ''displayName'' (displayName u)
     @ field ''salt'' (salt u) @ field ''uid'' (to_string (unat (userId u)))
     @ field ''permissions'' (mapToString '','' '':'' (permissions u))
     @ field ''lastLoginAttemptTime'' (lu (lastLoginAttempt u))
     @ field ''accountCreatedTime'' (lu (accountCreationTime u))
     @ field ''loginFailureCount'' (to_string (unat (loginFailureCount u)))
     @ field ''lastModifiedTime'' (lu (lastModifierTime u))
     @ field ''lastModifierUsername'' (lastModifierUsername u) @ field ''useremail'' (email u) @ ''</userEntry>''"
      by (simp add: userEntry_def butlast_append)
    show "{CHR 0x00, CHR 0x0A} \<inter> set ?b = {}"
      unfolding b set_append Int_Un_distrib
      using u by (simp add: f l p plain_number storable_def)
  qed
  have len: "length (userEntry u) < 1000" using u by (simp add: storable_def)
  show "plain_line (userEntry u)" unfolding b(1) by (rule plain_lineI) (use b len in auto)
  show "c_str (userEntry u) = userEntry u" unfolding b(1) by (rule c_str_line) (use b(2) in auto)
  show "30 \<le> length (userEntry u)" by (simp add: userEntry_def field_def)
qed

lemma userLines_entries:
  "\<forall>u \<in> set us. storable u \<Longrightarrow>
   userLines io (map userEntry us @ [''</userData>'' @ endl]) vs = Inr (vs @ map restored us)"
proof (induction us arbitrary: vs)
  case Nil
  have "length (c_str (''</userData>'' @ endl)) < 30" by (simp add: c_str_def)
  then show ?case by simp
next
  case (Cons u us)
  have u: "storable u" using Cons.prems by simp
  have "length (userEntry u) < 1000" using u by (simp add: storable_def)
  then show ?case
    using Cons entry_line [OF u] entry_read [OF u, of io vs] by simp
qed

section \<open>Properties\<close>

text \<open>
  C23. Sessions survive a restart: the file of active sessions that the Gateway writes is read back as
  the same sessions, in the same order.
\<close>

theorem sessions_survive_restart:
  assumes "\<forall>a \<in> set (ActiveSessions w). savable a" "ActiveSessions v = []"
  shows "loadActiveSessions (sessionsText w) v = Some (v\<lparr>ActiveSessions := ActiveSessions w\<rparr>)"
proof -
  let ?ls = "concat (map sessionLines (ActiveSessions w))"
  have "\<forall>l \<in> set ((''1'' @ endl) # ?ls). plain_line l"
    using sessionLines_plain assms(1) plain_lineI [of "''1''"] by auto
  from fgetsLines_concat [OF this] have "fgetsLines 1000 (sessionsText w) = (''1'' @ endl) # ?ls"
    by (simp add: sessionsText_def)
  moreover have "scan_signed (c_str (''1'' @ endl)) = Some 1"
    by (simp add: c_str_line scan_signed_def isspace_def is_digit_def strtol10_def digits_value_def digit_value_def saturate_def)
  ultimately show ?thesis
    using readSessions_lines [OF assms(1), of "[]"] assms(2) by (simp add: loadActiveSessions_def)
qed

definition savedSession :: active_session where
  "savedSession = noviceSession\<lparr>cookieCode := replicate 512 (CHR ''a'')\<rparr>"

theorem sessions_survive_restart_witness:
  "loadActiveSessions (sessionsText (noUsers\<lparr>ActiveSessions := [savedSession]\<rparr>)) noUsers =
     Some (noUsers\<lparr>ActiveSessions := [savedSession]\<rparr>)"
proof -
  have s: "savable savedSession" by (simp add: savable_def savedSession_def noviceSession_def COOKIE_CODE_LENGTH_def)
  show ?thesis
    using sessions_survive_restart [of "noUsers\<lparr>ActiveSessions := [savedSession]\<rparr>" noUsers] s by (simp add: noUsers_def)
qed

text \<open>
  C22. Accounts survive a restart: the user database that the Gateway writes is read back as the same
  accounts with the same next identifier. Only permissions may change: the administrator gets all
  rights, and an account without an entry for the group of all users becomes inactive.
\<close>

theorem accounts_survive_restart:
  assumes "\<forall>u \<in> set (Users w). storable u" "Users v = []"
  shows "loadUsers io (usersText w) v =
    Inr (v\<lparr>usersNextUserId := usersNextUserId w,
           Users := map (\<lambda>u. u\<lparr>permissions := restorePermissions u (permissions u)\<rparr>) (Users w)\<rparr>)"
proof -
  let ?n = "to_string (unat (usersNextUserId w))"
  let ?next = "field ''nextUserId'' ?n @ endl"
  let ?ls = "(''<userData>'' @ endl) # ?next # map userEntry (Users w) @ [''</userData>'' @ endl]"
  have n: "CHR 0x00 \<notin> set ?n" "CHR 0x0A \<notin> set ?n" "CHR ''<'' \<notin> set ?n" using plain_number unfolding plain_text_def by blast+
  have len: "length ?n \<le> 20" by (rule length_u64 [OF unat_u64])
  have pn: "plain_line ?next" by (rule plain_lineI) (use n len in \<open>auto simp: field_def\<close>)
  have "plain_line (''<userData>'' @ endl)" "plain_line (''</userData>'' @ endl)" by (simp_all add: plain_line_def)
  then have "\<forall>l \<in> set ?ls. plain_line l" using pn entry_line(1) assms(1) by auto
  from fgetsLines_concat [OF this] have ls: "fgetsLines 1000 (usersText w) = ?ls"
    by (simp add: usersText_def)
  have c: "c_str ?next = ?next" by (rule c_str_line) (use n in \<open>simp add: field_def\<close>)
  have "nextIdLine ?next" unfolding nextIdLine_def c by (simp add: field_def)
  moreover have "\<not> nextIdLine (''<userData>'' @ endl)" by (simp add: nextIdLine_def)
  ultimately have d: "dropWhile (\<lambda>l. \<not> nextIdLine l) ?ls = ?next # map userEntry (Users w) @ [''</userData>'' @ endl]" by simp
  have "drop 12 ?next = ?n @ CHR ''<'' # ''/nextUserId>'' @ endl" by (simp add: field_def)
  then have nid: "takeWhile (\<lambda>c. c \<noteq> CHR ''<'') (drop 12 ?next) = ?n"
    using n(3) by (simp only:) (subst takeWhile_append2; auto)
  have r: "userLines io (map userEntry (Users w) @ [''</userData>'' @ endl]) (Users v) =
      Inr (map (\<lambda>u. u\<lparr>permissions := restorePermissions u (permissions u)\<rparr>) (Users w))"
    using userLines_entries [OF assms(1), of io "Users v"] assms(2) by (simp add: restored_def [abs_def])
  show ?thesis
    unfolding loadUsers_def ls d list.case Let_def c nid r by (simp add: orElse_def scan_u64')
qed

lemma twoUsers_storable: "\<forall>u \<in> set (Users twoUsers). storable u"
proof -
  have "length (lu v) \<le> 20" for v unfolding lu_def by (rule length_u64) (simp add: nat_less_iff)
  then have "length (lu 0) \<le> 20" "length (lu 100000000007) \<le> 20" "length (to_string 0) \<le> 20" "length (to_string 255) \<le> 20"
    "length (to_string (Suc 0)) \<le> 20"
    using length_u64 [of 0] length_u64 [of 255] length_u64 [of "Suc 0"] by simp_all
  then show ?thesis
    by (simp add: storable_def plain_text_def account_def newUser_def plain_io_def omap_ok_def name_ok_def word_char_def
        blank_def pair_delimiter_def value_delimiter_def DEFAULT_USER_GROUP_def userEntry_def field_def)
qed

theorem accounts_survive_restart_witness:
  "loadUsers plain_io (usersText twoUsers) noUsers =
     Inr (noUsers\<lparr>usersNextUserId := 2,
       Users := [account ''admin'' ''Administrator'' 0 255, account ''novice'' ''Novice'' 1 1]\<rparr>)"
  using accounts_survive_restart [OF twoUsers_storable, of noUsers plain_io]
  by (simp add: restorePermissions_def DEFAULT_ADMIN_USERNAME_def PERMISSION_LEVEL_ADMIN_def)

end
