(* ===== verification/SystemMessages.thy ===== *)
theory SystemMessages
  imports UserSessions
begin

text \<open>
  \<open>WebUsersUtilities/WebUsers.cc\<close>, messages of the system to its users: messages for one user, for a group or for
  everybody are kept per target, delivered to every poll of a web client, removed after a while, and
  passed on once to the Gateway above; and the lists of active users.
\<close>

section \<open>Messages\<close>

record system_message =
  message :: string
  creationTime :: int
  firstDeliveryTime :: int
  delivered :: bool
  deliveredRemote :: bool

type_synonym message_map = "(string, system_message list) omap"

definition newMessage :: "web_io \<Rightarrow> string \<Rightarrow> system_message" where
  "newMessage io m = \<lparr>message = m, creationTime = now io, firstDeliveryTime = 0, delivered = False, deliveredRemote = False\<rparr>"

definition SYS_CLEANUP_WILDCARD_TIME :: int where "SYS_CLEANUP_WILDCARD_TIME = 300"
definition SYS_CLEANUP_USER_MESSAGE_TIME :: int where "SYS_CLEANUP_USER_MESSAGE_TIME = 15"

definition shouldRemove :: "web_io \<Rightarrow> string \<Rightarrow> system_message \<Rightarrow> bool" where
  "shouldRemove io target m \<longleftrightarrow>
     (if target = ''*'' then creationTime m + SYS_CLEANUP_WILDCARD_TIME < now io
      else delivered m \<and> firstDeliveryTime m + SYS_CLEANUP_USER_MESSAGE_TIME < now io \<or>
           creationTime m + SYS_CLEANUP_WILDCARD_TIME < now io)"

definition systemMessageCleanup :: "web_io \<Rightarrow> message_map \<Rightarrow> message_map" where
  "systemMessageCleanup io sys = map (\<lambda>(t, ms). (t, filter (\<lambda>m. \<not> shouldRemove io t m) ms)) sys"

definition addSystemMessageToMap :: "web_io \<Rightarrow> string \<Rightarrow> string \<Rightarrow> message_map \<Rightarrow> message_map" where
  "addSystemMessageToMap io target full sys =
     (case omap_get sys target of
        None \<Rightarrow> omap_put target [newMessage io full] sys
      | Some ms \<Rightarrow> if ms \<noteq> [] \<and> message (last ms) = full then sys
                  else omap_put target (ms @ [newMessage io full]) sys)"

definition getLastSystemMessage :: "message_map \<Rightarrow> string \<times> int" where
  "getLastSystemMessage sys =
     (case omap_get sys ''*'' of
        None \<Rightarrow> ([], 0)
      | Some ms \<Rightarrow> if ms = [] then ([], 0) else (message (last ms), creationTime (last ms)))"

definition joined :: "string list \<Rightarrow> string" where
  "joined ts = (case ts of [] \<Rightarrow> [] | t # r \<Rightarrow> t @ concat (map (\<lambda>x. ''|'' @ x) r))"

text \<open>
  \<open>getAllSystemMessages\<close>: a separator precedes a message when text was added before it, which is never empty. The
  decimal text of a time is \<open>std::to_string\<close> here and \<open>%lu\<close> for the client.
\<close>

definition getAllSystemMessages :: "message_map \<Rightarrow> message_map \<times> string" where
  "getAllSystemMessages sys =
     (map (\<lambda>(t, ms). (t, map (\<lambda>m. m\<lparr>deliveredRemote := True\<rparr>) ms)) sys,
      joined (concat (map (\<lambda>(t, ms). map (\<lambda>m. t @ ''|'' @ int64_to_string (creationTime m) @ ''|'' @ message m)
                                     (filter (\<lambda>m. \<not> deliveredRemote m) ms)) sys)))"

definition timedMessage :: "system_message \<Rightarrow> string" where
  "timedMessage m = lu (creationTime m) @ ''|'' @ message m"

definition messagesFor :: "message_map \<Rightarrow> string \<Rightarrow> system_message list" where
  "messagesFor sys target = (case omap_get sys target of None \<Rightarrow> [] | Some ms \<Rightarrow> ms)"

definition deliver :: "web_io \<Rightarrow> system_message \<Rightarrow> system_message" where
  "deliver io m = m\<lparr>firstDeliveryTime := (if delivered m then firstDeliveryTime m else now io), delivered := True\<rparr>"

definition getSystemMessage :: "web_io \<Rightarrow> string \<Rightarrow> message_map \<Rightarrow> message_map \<times> string" where
  "getSystemMessage io target sys =
     (systemMessageCleanup io (map (\<lambda>(t, ms). (t, if t = target then map (deliver io) ms else ms)) sys),
      joined (map timedMessage (messagesFor sys ''*'' @ messagesFor sys target)))"

section \<open>Targets\<close>

definition validEmail :: "string \<Rightarrow> bool" where
  "validEmail e \<longleftrightarrow> 5 < length e \<and> CHR ''@'' \<in> set e \<and> CHR ''.'' \<in> set e"

text \<open>A target \<open>group:level\<close> stands for the users with that level in the group (and an email address).\<close>

definition inGroup :: "web_users \<Rightarrow> string \<Rightarrow> u8 \<Rightarrow> user \<Rightarrow> bool" where
  "inGroup w g l u \<longleftrightarrow>
     (let level = getPermissionLevelForGroup (getPermissionsForUser w (userId u)) g
      in level \<noteq> PERMISSION_LEVEL_INACTIVE \<and> l \<le> level \<and> validEmail (email u))"

type_synonym mail_state = "message_map \<times> string list"

definition groupMessage :: "web_io \<Rightarrow> web_users \<Rightarrow> bool \<Rightarrow> string \<Rightarrow> permission_map \<Rightarrow> mail_state \<Rightarrow> mail_state" where
  "groupMessage io w doEmail full m st =
     (if length m = 1 then
        fold (\<lambda>u (sys, mails). if inGroup w (fst (hd m)) (snd (hd m)) u
                then (addSystemMessageToMap io (displayName u) full sys, if doEmail then insort_insert (email u) mails else mails)
                else (sys, mails)) (Users w) st
      else st)"

definition userMessage :: "web_io \<Rightarrow> web_users \<Rightarrow> bool \<Rightarrow> string \<Rightarrow> string \<Rightarrow> mail_state \<Rightarrow> mail_state" where
  "userMessage io w doEmail full target st =
     (let (sys, mails) = st;
          mails1 = (if doEmail \<and> target = ''*''
                    then fold (\<lambda>u ms. if validEmail (email u) then insort_insert (email u) ms else ms) (Users w) mails else mails);
          mails2 = (if doEmail then
                      (case index_of (\<lambda>u. displayName u = target) (Users w) of
                         Some i \<Rightarrow> if validEmail (email (Users w ! i)) then insort_insert (email (Users w ! i)) mails1 else mails1
                       | None \<Rightarrow> mails1)
                    else mails1)
      in (addSystemMessageToMap io target full sys, mails2))"

definition illegalTarget :: "string \<Rightarrow> bool" where
  "illegalTarget t \<longleftrightarrow> t = [] \<or> (t \<noteq> ''*'' \<and> length t < 3)"

fun messageTargets ::
  "web_io \<Rightarrow> web_users \<Rightarrow> bool \<Rightarrow> string \<Rightarrow> string list \<Rightarrow> mail_state \<Rightarrow> mail_state \<times> web_error option" where
  "messageTargets io w doEmail full [] st = (st, None)"
| "messageTargets io w doEmail full (t # ts) st =
     (if illegalTarget t then messageTargets io w doEmail full ts st
      else if CHR '':'' \<in> set t then
        (case getNumberMap (environment io) t [] of
           None \<Rightarrow> (st, Some NoReturn)
         | Some (Inl x) \<Rightarrow> (st, Some (BadPermissions x))
         | Some (Inr m) \<Rightarrow> messageTargets io w doEmail full ts (groupMessage io w doEmail full m st))
      else messageTargets io w doEmail full ts (userMessage io w doEmail full t st))"

text \<open>
  \<open>addSystemMessage\<close> for a list of targets: the messages and the addresses that get an email; the file of the
  email may fail to open. Messages added before an exception stay.
\<close>

definition addSystemMessage ::
  "web_io \<Rightarrow> web_users \<Rightarrow> string list \<Rightarrow> string \<Rightarrow> string \<Rightarrow> bool \<Rightarrow> message_map
    \<Rightarrow> mail_state \<times> web_error option" where
  "addSystemMessage io w targets subject text doEmail sys =
     (let full = encodeURIComponent ((if subject = [] then [] else subject @ '': '') @ text)
      in case messageTargets io w doEmail full targets (systemMessageCleanup io sys, []) of
           (st, Some e) \<Rightarrow> (st, Some e)
         | (st, None) \<Rightarrow> if doEmail \<and> snd st \<noteq> [] \<and> \<not> writable io then (st, Some SaveFailed) else (st, None))"

section \<open>Active users\<close>

text \<open>
  The indices of the users with a session as a \<open>std::set\<close> of \<open>unsigned int\<close>: an account that is gone is
  \<open>NOT_FOUND_IN_DATABASE\<close> cut to 32 bits.
\<close>

definition activeUserIndices :: "web_users \<Rightarrow> u32 list" where
  "activeUserIndices w =
     fold (\<lambda>uid s. insort_insert (case searchUsersDatabaseForUserId w uid of None \<Rightarrow> - 1 | Some i \<Rightarrow> of_nat i) s)
       (map as_userId (ActiveSessions w) @ map (\<lambda>(c, a). as_userId a) (RemoteSessions w)) []"

definition getActiveUserCount :: "web_users \<Rightarrow> nat" where
  "getActiveUserCount w = length (activeUserIndices w)"

definition activeNames :: "(user \<Rightarrow> string) \<Rightarrow> string \<Rightarrow> web_users \<Rightarrow> string" where
  "activeNames f admin w =
     (let is = filter (\<lambda>i. unat i < length (Users w)) (activeUserIndices w);
          names = map (\<lambda>i. f (Users w ! unat i)) is;
          text = (case names of [] \<Rightarrow> [] | t # r \<Rightarrow> t @ concat (map (\<lambda>x. '','' @ x) r))
      in text @ (if activeUserIndices w = [] \<and> securityType w = SECURITY_TYPE_NONE then admin else []))"

definition getActiveUserDisplayNamesString :: "web_users \<Rightarrow> string" where
  "getActiveUserDisplayNamesString = activeNames displayName ''Administrator''"

definition getActiveUsernamesString :: "web_users \<Rightarrow> string" where
  "getActiveUsernamesString = activeNames username DEFAULT_ADMIN_USERNAME"

section \<open>Lemmas\<close>

lemma messagesFor_map:
  "messagesFor (map (\<lambda>(t, ms). (t, f t ms)) sys) target =
     (if target \<in> fst ` set sys then f target (messagesFor sys target) else [])"
proof (cases "omap_get sys target")
  case None
  then have "target \<notin> fst ` set sys" by (simp add: omap_get_None_iff)
  then show ?thesis using None by (simp add: messagesFor_def omap_get_map)
next
  case (Some ms)
  then have "target \<in> fst ` set sys" by (metis omap_get_None_iff option.distinct(1))
  then show ?thesis using Some omap_get_map [of f sys target] by (simp add: messagesFor_def)
qed

lemma messagesFor_put: "messagesFor (omap_put t ms sys) target = (if target = t then ms else messagesFor sys target)"
  by (simp add: messagesFor_def)

lemma messagesFor_none: "target \<notin> fst ` set sys \<Longrightarrow> messagesFor sys target = []"
  using omap_get_None_iff [of sys target] by (simp add: messagesFor_def)

lemma messagesFor_cleanup:
  "messagesFor (systemMessageCleanup io sys) target = filter (\<lambda>m. \<not> shouldRemove io target m) (messagesFor sys target)"
  using messagesFor_none [of target sys] by (simp add: systemMessageCleanup_def messagesFor_map)

lemma messagesFor_poll:
  "messagesFor (fst (getSystemMessage io target sys)) target =
     filter (\<lambda>m. \<not> shouldRemove io target m) (map (deliver io) (messagesFor sys target))"
  using messagesFor_none [of target sys]
    messagesFor_map [of "\<lambda>t ms. if t = target then map (deliver io) ms else ms" sys target]
  by (simp add: getSystemMessage_def messagesFor_cleanup)

section \<open>Properties\<close>

text \<open>The messages after polls of one user, and what a sequence of polls gets.\<close>

definition afterPolls :: "string \<Rightarrow> web_io list \<Rightarrow> message_map \<Rightarrow> message_map" where
  "afterPolls target ios sys = fold (\<lambda>io s. fst (getSystemMessage io target s)) ios sys"

fun pollTexts :: "string \<Rightarrow> web_io list \<Rightarrow> message_map \<Rightarrow> string list" where
  "pollTexts target [] sys = []"
| "pollTexts target (io # ios) sys =
     snd (getSystemMessage io target sys) # pollTexts target ios (fst (getSystemMessage io target sys))"

lemma pollTexts_nth:
  "k < length ios \<Longrightarrow> pollTexts target ios sys ! k = snd (getSystemMessage (ios ! k) target (afterPolls target (take k ios) sys))"
proof (induction ios arbitrary: k sys)
  case (Cons io ios)
  then show ?case by (cases k) (simp_all add: afterPolls_def)
qed simp

lemma afterPolls_snoc: "afterPolls target (ios @ [io]) sys = fst (getSystemMessage io target (afterPolls target ios sys))"
  by (simp add: afterPolls_def)

lemma messagesFor_other:
  "t \<noteq> target \<Longrightarrow> messagesFor (fst (getSystemMessage io target sys)) t = filter (\<lambda>m. \<not> shouldRemove io t m) (messagesFor sys t)"
  using messagesFor_none [of t sys] messagesFor_map [of "\<lambda>u ms. if u = target then map (deliver io) ms else ms" sys t]
  by (simp add: getSystemMessage_def messagesFor_cleanup)

lemma afterPolls_everybody:
  assumes "target \<noteq> ''*''"
  shows "messagesFor (afterPolls target ios sys) ''*'' =
    filter (\<lambda>m. \<forall>io \<in> set ios. now io \<le> creationTime m + 300) (messagesFor sys ''*'')"
proof (induction ios rule: rev_induct)
  case Nil
  then show ?case by (simp add: afterPolls_def)
next
  case (snoc io ios)
  have "messagesFor (afterPolls target (ios @ [io]) sys) ''*'' =
      filter (\<lambda>m. \<not> shouldRemove io ''*'' m) (messagesFor (afterPolls target ios sys) ''*'')"
    unfolding afterPolls_snoc by (rule messagesFor_other) (use assms in auto)
  then show ?case
    by (simp add: snoc filter_filter shouldRemove_def SYS_CLEANUP_WILDCARD_TIME_def not_less conj_commute)
qed

lemma afterPolls_own:
  assumes "target \<noteq> ''*''" "\<forall>m \<in> set (messagesFor sys target). \<not> delivered m"
  shows "messagesFor (afterPolls target (io # ios) sys) target =
    map (deliver io) (filter (\<lambda>m. \<forall>i \<in> set (io # ios). now i \<le> now io + 15 \<and> now i \<le> creationTime m + 300) (messagesFor sys target))"
proof (induction ios rule: rev_induct)
  case Nil
  have "filter (\<lambda>m. \<not> shouldRemove io target (deliver io m)) ms = filter (\<lambda>m. now io \<le> creationTime m + 300) ms"
    if "\<forall>m \<in> set ms. \<not> delivered m" for ms
    using that assms(1) by (auto simp: shouldRemove_def deliver_def SYS_CLEANUP_WILDCARD_TIME_def SYS_CLEANUP_USER_MESSAGE_TIME_def intro!: filter_cong)
  then show ?case using assms(2) messagesFor_poll [of io target sys] by (simp add: afterPolls_def filter_map comp_def)
next
  case (snoc i ios)
  have d: "deliver i (deliver io m) = deliver io m" for m by (simp add: deliver_def)
  have r: "shouldRemove i target (deliver io m) \<longleftrightarrow> \<not> (now i \<le> now io + 15 \<and> now i \<le> creationTime m + 300)" if "\<not> delivered m" for m
    using that assms(1) by (auto simp: shouldRemove_def deliver_def SYS_CLEANUP_WILDCARD_TIME_def SYS_CLEANUP_USER_MESSAGE_TIME_def)
  let ?f = "\<lambda>m. \<forall>j \<in> set (io # ios). now j \<le> now io + 15 \<and> now j \<le> creationTime m + 300"
  have "messagesFor (afterPolls target (io # ios @ [i]) sys) target =
      filter (\<lambda>m. \<not> shouldRemove i target m) (map (deliver i) (map (deliver io) (filter ?f (messagesFor sys target))))"
    using afterPolls_snoc [of target "io # ios" i sys] messagesFor_poll [of i target] snoc by simp
  also have "\<dots> = map (deliver io) (filter (\<lambda>m. \<not> shouldRemove i target (deliver io m)) (filter ?f (messagesFor sys target)))"
    by (simp add: filter_map comp_def d)
  also have "filter (\<lambda>m. \<not> shouldRemove i target (deliver io m)) (filter ?f (messagesFor sys target)) =
      filter (\<lambda>m. \<forall>j \<in> set (io # ios @ [i]). now j \<le> now io + 15 \<and> now j \<le> creationTime m + 300) (messagesFor sys target)"
    unfolding filter_filter using assms(2) r by (auto intro!: filter_cong)
  finally show ?case by simp
qed

text \<open>
  C24. A message is delivered by the first poll of its user and by every later one (another tab or
  device) until a poll ends more than 15 seconds after the first, or more than 300 seconds after the message was made; then
  it is gone. Messages for everybody come first and stay for 300 seconds. (A message is removed only
  after the poll that finds it too old has delivered it once more.)
\<close>

theorem messages_delivered_to_every_poll:
  assumes "target \<noteq> ''*''" "\<forall>m \<in> set (messagesFor sys target). \<not> delivered m" "k < length ios"
  shows "pollTexts target ios sys ! k =
    joined (map timedMessage
      (filter (\<lambda>m. \<forall>io \<in> set (take k ios). now io \<le> creationTime m + 300) (messagesFor sys ''*'') @
       filter (\<lambda>m. \<forall>io \<in> set (take k ios). now io \<le> now (hd ios) + 15 \<and> now io \<le> creationTime m + 300) (messagesFor sys target)))"
proof -
  have t: "timedMessage (deliver io m) = timedMessage m" for io m by (simp add: timedMessage_def deliver_def)
  have own: "map timedMessage (messagesFor (afterPolls target (take k ios) sys) target) =
      map timedMessage (filter (\<lambda>m. \<forall>io \<in> set (take k ios). now io \<le> now (hd ios) + 15 \<and> now io \<le> creationTime m + 300) (messagesFor sys target))"
  proof (cases k)
    case 0
    then show ?thesis by (simp add: afterPolls_def)
  next
    case (Suc j)
    then obtain io rest where ios: "ios = io # rest" using assms(3) by (cases ios) auto
    show ?thesis
      using afterPolls_own [OF assms(1,2), of io "take j rest"] by (simp add: ios Suc t comp_def)
  qed
  show ?thesis
    unfolding pollTexts_nth [OF assms(3)] getSystemMessage_def snd_conv map_append own
    by (simp add: afterPolls_everybody [OF assms(1)])
qed

theorem messages_delivered_to_every_poll_witness:
  "let sys = addSystemMessageToMap plain_io ''Novice'' ''hello'' [];
       ios = [plain_io, plain_io\<lparr>now := 1000014\<rparr>, plain_io\<lparr>now := 1000016\<rparr>, plain_io\<lparr>now := 1000017\<rparr>]
   in pollTexts ''Novice'' ios sys ! 2 = lu 1000000 @ ''|hello'' \<and> pollTexts ''Novice'' ios sys ! 3 = []"
proof -
  let ?sys = "addSystemMessageToMap plain_io ''Novice'' ''hello'' []"
  let ?ios = "[plain_io, plain_io\<lparr>now := 1000014\<rparr>, plain_io\<lparr>now := 1000016\<rparr>, plain_io\<lparr>now := 1000017\<rparr>]"
  have m: "messagesFor ?sys ''Novice'' = [newMessage plain_io ''hello'']" "messagesFor ?sys ''*'' = []"
    by (simp_all add: addSystemMessageToMap_def messagesFor_def)
  have u: "\<forall>m \<in> set (messagesFor ?sys ''Novice''). \<not> delivered m" by (simp add: m newMessage_def)
  have n: "now plain_io = 1000000" by (simp add: plain_io_def)
  show ?thesis
    using messages_delivered_to_every_poll [OF _ u, of 2 ?ios] messages_delivered_to_every_poll [OF _ u, of 3 ?ios]
    by (simp add: m n newMessage_def timedMessage_def joined_def Let_def)
qed

text \<open>
  A message is passed to the Gateway above exactly once: a second request without a new message
  gets nothing, and what the users themselves get does not change.
\<close>

theorem remote_messages_once:
  "snd (getAllSystemMessages (fst (getAllSystemMessages sys))) = [] \<and>
   snd (getSystemMessage io target (fst (getAllSystemMessages sys))) = snd (getSystemMessage io target sys)"
proof -
  let ?all = "map (\<lambda>(t, ms). (t, map (\<lambda>m. m\<lparr>deliveredRemote := True\<rparr>) ms)) sys"
  have t: "timedMessage (m\<lparr>deliveredRemote := True\<rparr>) = timedMessage m" for m by (simp add: timedMessage_def)
  have "map timedMessage (messagesFor ?all x) = map timedMessage (messagesFor sys x)" for x
    using messagesFor_map [of "\<lambda>t. map (\<lambda>m. m\<lparr>deliveredRemote := True\<rparr>)" sys x] messagesFor_none [of x sys]
    by (simp add: t comp_def)
  moreover have "concat (map (\<lambda>(t, ms). map (g t) (filter (\<lambda>m. \<not> deliveredRemote m) ms)) ?all) = []" for g :: "string \<Rightarrow> system_message \<Rightarrow> string"
    by (auto simp: filter_empty_conv)
  ultimately show ?thesis unfolding getAllSystemMessages_def getSystemMessage_def fst_conv snd_conv map_append by (simp only: joined_def list.case)
qed

end
