(* ===== verification/Effects.thy ===== *)
theory Effects
  imports Prelude
begin

text \<open>
  Member functions that change an object and may throw: an action maps the state of the object to an
  outcome and the state it leaves, also when it throws. An access outside a container, and every other
  step without a defined meaning, ends in \<open>Undef\<close>, which no handler catches. The lemmas turn a run of
  a composed action that returned into the runs of its parts; \<open>preserves\<close> states an invariant of an
  action whether it returns or throws.
\<close>

datatype ('e, 'a) outcome = Returned 'a | Raised 'e | Undef

type_synonym ('s, 'e, 'a) act = "'s \<Rightarrow> ('e, 'a) outcome \<times> 's"

named_theorems run_simps \<open>runs of composed actions\<close>
named_theorems keeps \<open>introduction rules for \<open>preserves\<close>\<close>

definition outcome_bind :: "('e, 'a) outcome \<Rightarrow> ('a \<Rightarrow> ('e, 'b) outcome) \<Rightarrow> ('e, 'b) outcome" where
  "outcome_bind r f = (case r of Returned x \<Rightarrow> f x | Raised e \<Rightarrow> Raised e | Undef \<Rightarrow> Undef)"

definition give :: "'a \<Rightarrow> ('s, 'e, 'a) act" where
  "give x s = (Returned x, s)"

definition fails :: "'e \<Rightarrow> ('s, 'e, 'a) act" where
  "fails e s = (Raised e, s)"

definition crash :: "('s, 'e, 'a) act" where
  "crash s = (Undef, s)"

text \<open>A pure function of the state, and an update of it.\<close>

definition asks :: "('s \<Rightarrow> ('e, 'a) outcome) \<Rightarrow> ('s, 'e, 'a) act" where
  "asks f s = (f s, s)"

definition modifies :: "('s \<Rightarrow> 's) \<Rightarrow> ('s, 'e, unit) act" where
  "modifies f s = (Returned (), f s)"

definition andThen :: "('s, 'e, 'a) act \<Rightarrow> ('a \<Rightarrow> ('s, 'e, 'b) act) \<Rightarrow> ('s, 'e, 'b) act" where
  "andThen m f s =
     (case m s of
        (Returned x, t) \<Rightarrow> f x t
      | (Raised e, t) \<Rightarrow> (Raised e, t)
      | (Undef, t) \<Rightarrow> (Undef, t))"

abbreviation thenDo :: "('s, 'e, 'a) act \<Rightarrow> ('s, 'e, 'b) act \<Rightarrow> ('s, 'e, 'b) act" where
  "thenDo m n \<equiv> andThen m (\<lambda>_. n)"

definition unless :: "bool \<Rightarrow> 'e \<Rightarrow> ('s, 'e, unit) act" where
  "unless b e = (if b then give () else fails e)"

text \<open>\<open>for\<close> over a list, and \<open>try { m } catch(...) {}\<close>.\<close>

primrec each :: "('i \<Rightarrow> ('s, 'e, unit) act) \<Rightarrow> 'i list \<Rightarrow> ('s, 'e, unit) act" where
  "each f [] = give ()"
| "each f (i # is) = thenDo (f i) (each f is)"

definition attempt :: "('s, 'e, 'a) act \<Rightarrow> ('s, 'e, unit) act" where
  "attempt m s =
     (case m s of
        (Returned x, t) \<Rightarrow> (Returned (), t)
      | (Raised e, t) \<Rightarrow> (Returned (), t)
      | (Undef, t) \<Rightarrow> (Undef, t))"

section \<open>Runs\<close>

lemma outcome_bind_simps [simp]:
  "outcome_bind (Returned x) f = f x" "outcome_bind (Raised e) f = Raised e" "outcome_bind Undef f = Undef"
  by (simp_all add: outcome_bind_def)

lemma outcome_bind_Returned:
  "outcome_bind r f = Returned y \<longleftrightarrow> (\<exists>x. r = Returned x \<and> f x = Returned y)"
  by (cases r) auto

lemma andThen_Returned [run_simps]:
  "andThen m f s = (Returned y, u) \<longleftrightarrow> (\<exists>x t. m s = (Returned x, t) \<and> f x t = (Returned y, u))"
  by (auto simp: andThen_def split: prod.split outcome.split)

lemma basic_runs [run_simps]:
  "give x s = (r, t) \<longleftrightarrow> r = Returned x \<and> t = s"
  "fails e s = (r, t) \<longleftrightarrow> r = Raised e \<and> t = s"
  "crash s = (r, t) \<longleftrightarrow> r = Undef \<and> t = s"
  "asks f s = (r, t) \<longleftrightarrow> r = f s \<and> t = s"
  "modifies g s = (r', t) \<longleftrightarrow> r' = Returned () \<and> t = g s"
  by (auto simp: give_def fails_def crash_def asks_def modifies_def)

lemma unless_Returned [run_simps]: "unless b e s = (Returned y, t) \<longleftrightarrow> b \<and> t = s"
  by (auto simp: unless_def run_simps)

lemma andThen_step [simp]:
  "m s = (Returned x, t) \<Longrightarrow> andThen m f s = f x t"
  "m s = (Raised e, t) \<Longrightarrow> andThen m f s = (Raised e, t)"
  "m s = (Undef, t) \<Longrightarrow> andThen m f s = (Undef, t)"
  by (simp_all add: andThen_def)

lemma unless_step [simp]: "unless True e = give ()" "unless False e = fails e"
  by (simp_all add: unless_def fun_eq_iff)

lemma attempt_run [run_simps]:
  "attempt m s = (Returned y, t) \<longleftrightarrow> (\<exists>r. m s = (r, t) \<and> r \<noteq> Undef)"
  by (auto simp: attempt_def split: prod.split outcome.split)

lemma each_append [run_simps]:
  "each f (xs @ ys) s = (Returned y, u) \<longleftrightarrow> (\<exists>t. each f xs s = (Returned (), t) \<and> each f ys t = (Returned y, u))"
  by (induction xs arbitrary: s) (auto simp: run_simps)

text \<open>A loop with an invariant indexed by the elements done.\<close>

lemma each_invariant:
  assumes "each f xs s = (Returned (), t)" "I [] s"
    and "\<And>pre x rest u v. \<lbrakk>xs = pre @ x # rest; I pre u; f x u = (Returned (), v)\<rbrakk> \<Longrightarrow> I (pre @ [x]) v"
  shows "I xs t"
proof -
  have "I (pre @ xs') t" if "xs = pre @ xs'" "I pre u" "each f xs' u = (Returned (), t)" for pre xs' u
    using that
  proof (induction xs' arbitrary: pre u)
    case (Cons x xs')
    then obtain v where v: "f x u = (Returned (), v)" "each f xs' v = (Returned (), t)" by (auto simp: run_simps)
    have "I (pre @ [x]) v" using assms(3) [of pre x xs' u v] Cons.prems(1,2) v(1) by blast
    then have "I ((pre @ [x]) @ xs') t" using Cons.IH [of "pre @ [x]" v] Cons.prems(1) v(2) by simp
    then show ?case by simp
  qed (simp add: run_simps)
  from this [of "[]" xs s] assms(1,2) show ?thesis by simp
qed

section \<open>Invariants of actions\<close>

definition preserves :: "('s \<Rightarrow> bool) \<Rightarrow> ('s, 'e, 'a) act \<Rightarrow> bool" where
  "preserves I m \<longleftrightarrow> (\<forall>s. I s \<longrightarrow> I (snd (m s)))"

lemma preservesD: "\<lbrakk>preserves I m; I s; m s = (r, t)\<rbrakk> \<Longrightarrow> I t"
  by (auto simp: preserves_def)

lemma preserves_basic [keeps]:
  "preserves I (give x)" "preserves I (fails e)" "preserves I crash" "preserves I (asks f)" "preserves I (unless b e)"
  by (simp_all add: preserves_def give_def fails_def crash_def asks_def unless_def)

lemma preserves_modifies [keeps]: "(\<And>s. I s \<Longrightarrow> I (g s)) \<Longrightarrow> preserves I (modifies g)"
  by (simp add: preserves_def modifies_def)

lemma preserves_andThen [keeps]: "\<lbrakk>preserves I m; \<And>x. preserves I (f x)\<rbrakk> \<Longrightarrow> preserves I (andThen m f)"
  unfolding preserves_def andThen_def
  by (auto split: prod.split outcome.split)

lemma preserves_each [keeps]: "(\<And>i. i \<in> set is \<Longrightarrow> preserves I (f i)) \<Longrightarrow> preserves I (each f is)"
  by (induction "is") (auto intro: keeps)

lemma preserves_attempt [keeps]: "preserves I m \<Longrightarrow> preserves I (attempt m)"
  unfolding preserves_def attempt_def by (auto split: prod.split outcome.split)

lemma preserves_if [keeps]: "\<lbrakk>preserves I m; preserves I n\<rbrakk> \<Longrightarrow> preserves I (if b then m else n)"
  by simp

text \<open>Actions that keep an invariant and always have a meaning under it.\<close>

named_theorems sounds \<open>introduction rules for \<open>sound\<close>\<close>

definition sound :: "('s \<Rightarrow> bool) \<Rightarrow> ('s, 'e, 'a) act \<Rightarrow> bool" where
  "sound I m \<longleftrightarrow> (\<forall>s. I s \<longrightarrow> fst (m s) \<noteq> Undef \<and> I (snd (m s)))"

lemma soundD: "\<lbrakk>sound I m; I s; m s = (r, t)\<rbrakk> \<Longrightarrow> r \<noteq> Undef \<and> I t"
  by (auto simp: sound_def)

lemma soundI: "(\<And>s. I s \<Longrightarrow> fst (m s) \<noteq> Undef \<and> I (snd (m s))) \<Longrightarrow> sound I m"
  by (simp add: sound_def)

text \<open>An action that behaves at a state like another one.\<close>

lemma sound_like: "sound I n \<Longrightarrow> I s \<Longrightarrow> m s = n s \<Longrightarrow> fst (m s) \<noteq> Undef \<and> I (snd (m s))"
  by (simp add: sound_def)

lemma sound_basic [sounds]: "sound I (give x)" "sound I (fails e)"
  by (simp_all add: sound_def give_def fails_def)

lemma sound_modifies [sounds]: "(\<And>s. I s \<Longrightarrow> I (g s)) \<Longrightarrow> sound I (modifies g)"
  by (simp add: sound_def modifies_def)

lemma sound_andThen [sounds]: "\<lbrakk>sound I m; \<And>x. sound I (f x)\<rbrakk> \<Longrightarrow> sound I (andThen m f)"
  unfolding sound_def andThen_def by (auto split: prod.split outcome.split)

lemma sound_each [sounds]: "(\<And>i. i \<in> set is \<Longrightarrow> sound I (f i)) \<Longrightarrow> sound I (each f is)"
  by (induction "is") (auto intro: sounds)

lemma sound_attempt [sounds]: "sound I m \<Longrightarrow> sound I (attempt m)"
  unfolding sound_def attempt_def by (auto split: prod.split outcome.split)

lemma sound_if [sounds]: "\<lbrakk>b \<Longrightarrow> sound I m; \<not> b \<Longrightarrow> sound I n\<rbrakk> \<Longrightarrow> sound I (if b then m else n)"
  by simp

end
