(* ===== verification/TableColumns.thy ===== *)
theory TableColumns
  imports Effects TableVersions
begin

text \<open>
  \<open>TableCore/TableViewColumnInfo.cc\<close>: the description of one column of a table, its column types, data
  types and default values, the checks of its constructor and the parameters of a bit map column. The
  numbers that \<open>sscanf("%lf")\<close> reads from the bit map parameters stay text.
\<close>

section \<open>Constants\<close>

definition TYPE_UID :: string where "TYPE_UID = ''UID''"
definition TYPE_DATA :: string where "TYPE_DATA = ''Data''"
definition TYPE_UNIQUE_DATA :: string where "TYPE_UNIQUE_DATA = ''UniqueData''"
definition TYPE_UNIQUE_GROUP_DATA :: string where "TYPE_UNIQUE_GROUP_DATA = ''UniqueGroupData''"
definition TYPE_MULTILINE_DATA :: string where "TYPE_MULTILINE_DATA = ''MultilineData''"
definition TYPE_FIXED_CHOICE_DATA :: string where "TYPE_FIXED_CHOICE_DATA = ''FixedChoiceData''"
definition TYPE_BITMAP_DATA :: string where "TYPE_BITMAP_DATA = ''BitMap''"
definition TYPE_ON_OFF :: string where "TYPE_ON_OFF = ''OnOff''"
definition TYPE_TRUE_FALSE :: string where "TYPE_TRUE_FALSE = ''TrueFalse''"
definition TYPE_YES_NO :: string where "TYPE_YES_NO = ''YesNo''"
definition TYPE_START_CHILD_LINK :: string where "TYPE_START_CHILD_LINK = ''ChildLink''"
definition TYPE_START_CHILD_LINK_UID :: string where "TYPE_START_CHILD_LINK_UID = ''ChildLinkUID''"
definition TYPE_START_CHILD_LINK_GROUP_ID :: string where "TYPE_START_CHILD_LINK_GROUP_ID = ''ChildLinkGroupID''"
definition TYPE_START_GROUP_ID :: string where "TYPE_START_GROUP_ID = ''GroupID''"
definition TYPE_COMMENT :: string where "TYPE_COMMENT = ''Comment''"
definition TYPE_AUTHOR :: string where "TYPE_AUTHOR = ''Author''"
definition TYPE_TIMESTAMP :: string where "TYPE_TIMESTAMP = ''Timestamp''"

definition DATATYPE_NUMBER :: string where "DATATYPE_NUMBER = ''NUMBER''"
definition DATATYPE_STRING :: string where "DATATYPE_STRING = ''STRING''"
definition DATATYPE_TIME :: string where "DATATYPE_TIME = ''TIMESTAMP WITH TIMEZONE''"

definition TYPE_VALUE_YES :: string where "TYPE_VALUE_YES = ''Yes''"
definition TYPE_VALUE_NO :: string where "TYPE_VALUE_NO = ''No''"
definition TYPE_VALUE_TRUE :: string where "TYPE_VALUE_TRUE = ''True''"
definition TYPE_VALUE_FALSE :: string where "TYPE_VALUE_FALSE = ''False''"
definition TYPE_VALUE_ON :: string where "TYPE_VALUE_ON = ''On''"
definition TYPE_VALUE_OFF :: string where "TYPE_VALUE_OFF = ''Off''"

definition DATATYPE_STRING_DEFAULT :: string where "DATATYPE_STRING_DEFAULT = ''DEFAULT''"
definition DATATYPE_STRING_ALT_DEFAULT :: string where "DATATYPE_STRING_ALT_DEFAULT = ''Default''"
definition DATATYPE_COMMENT_DEFAULT :: string where "DATATYPE_COMMENT_DEFAULT = ''No comment.''"
definition DATATYPE_BOOL_DEFAULT :: string where "DATATYPE_BOOL_DEFAULT = ''0''"
definition DATATYPE_NUMBER_DEFAULT :: string where "DATATYPE_NUMBER_DEFAULT = ''0''"
definition DATATYPE_NUMBER_MIN_DEFAULT :: string where "DATATYPE_NUMBER_MIN_DEFAULT = []"
definition DATATYPE_NUMBER_MAX_DEFAULT :: string where "DATATYPE_NUMBER_MAX_DEFAULT = []"
definition DATATYPE_TIME_DEFAULT :: string where "DATATYPE_TIME_DEFAULT = ''0''"
definition DATATYPE_LINK_DEFAULT :: string where "DATATYPE_LINK_DEFAULT = ''NO_LINK''"

definition COL_NAME_STATUS :: string where "COL_NAME_STATUS = ''Status''"
definition COL_NAME_ENABLED :: string where "COL_NAME_ENABLED = ''Enabled''"
definition COL_NAME_PRIORITY :: string where "COL_NAME_PRIORITY = ''Priority''"
definition COL_NAME_COMMENT :: string where "COL_NAME_COMMENT = ''CommentDescription''"

lemmas column_types =
  TYPE_UID_def TYPE_DATA_def TYPE_UNIQUE_DATA_def TYPE_UNIQUE_GROUP_DATA_def TYPE_MULTILINE_DATA_def
  TYPE_FIXED_CHOICE_DATA_def TYPE_BITMAP_DATA_def TYPE_ON_OFF_def TYPE_TRUE_FALSE_def TYPE_YES_NO_def
  TYPE_START_CHILD_LINK_def TYPE_START_CHILD_LINK_UID_def TYPE_START_CHILD_LINK_GROUP_ID_def
  TYPE_START_GROUP_ID_def TYPE_COMMENT_def TYPE_AUTHOR_def TYPE_TIMESTAMP_def

lemmas data_types = DATATYPE_NUMBER_def DATATYPE_STRING_def DATATYPE_TIME_def

lemmas bool_values =
  TYPE_VALUE_YES_def TYPE_VALUE_NO_def TYPE_VALUE_TRUE_def TYPE_VALUE_FALSE_def TYPE_VALUE_ON_def TYPE_VALUE_OFF_def

lemmas default_values =
  DATATYPE_STRING_DEFAULT_def DATATYPE_STRING_ALT_DEFAULT_def DATATYPE_COMMENT_DEFAULT_def DATATYPE_BOOL_DEFAULT_def
  DATATYPE_NUMBER_DEFAULT_def DATATYPE_NUMBER_MIN_DEFAULT_def DATATYPE_NUMBER_MAX_DEFAULT_def
  DATATYPE_TIME_DEFAULT_def DATATYPE_LINK_DEFAULT_def

lemmas column_names = COL_NAME_STATUS_def COL_NAME_ENABLED_def COL_NAME_PRIORITY_def COL_NAME_COMMENT_def

lemmas column_constants = column_types data_types bool_values default_values column_names

section \<open>Column types\<close>

text \<open>A type with an index: the tag, a dash and the index (\<open>find(tag) == 0\<close> is a prefix test).\<close>

definition tagged :: "string \<Rightarrow> string \<Rightarrow> bool" where
  "tagged tag t \<longleftrightarrow> take (length tag) t = tag \<and> length tag < length t \<and> t ! length tag = CHR ''-''"

definition isChildLink :: "string \<Rightarrow> bool" where "isChildLink t \<longleftrightarrow> tagged TYPE_START_CHILD_LINK t"
definition isChildLinkUID :: "string \<Rightarrow> bool" where "isChildLinkUID t \<longleftrightarrow> tagged TYPE_START_CHILD_LINK_UID t"
definition isChildLinkGroupID :: "string \<Rightarrow> bool" where "isChildLinkGroupID t \<longleftrightarrow> tagged TYPE_START_CHILD_LINK_GROUP_ID t"
definition isGroupID :: "string \<Rightarrow> bool" where "isGroupID t \<longleftrightarrow> tagged TYPE_START_GROUP_ID t"

definition isBoolType :: "string \<Rightarrow> bool" where
  "isBoolType t \<longleftrightarrow> t = TYPE_ON_OFF \<or> t = TYPE_TRUE_FALSE \<or> t = TYPE_YES_NO"

datatype column_error =
    BadColumnType | BadColumnTypeChar | BadDataType | BitMapNotString | EmptyDataType | BadDataTypeChar
  | EmptyColumnName | BadColumnNameChar | EmptyStorageName | BadStorageNameChar
  | BitMapTooFew | BitMapTooMany | FloatNeeds32 | FloatWithStrings
  | UnknownDataType | NotALinkColumn

definition getChildLinkIndex :: "string \<Rightarrow> (column_error, string) outcome" where
  "getChildLinkIndex t =
     (if isChildLink t then Returned (drop (length TYPE_START_CHILD_LINK + 1) t)
      else if isChildLinkUID t then Returned (drop (length TYPE_START_CHILD_LINK_UID + 1) t)
      else if isChildLinkGroupID t then Returned (drop (length TYPE_START_CHILD_LINK_GROUP_ID + 1) t)
      else if isGroupID t then Returned (drop (length TYPE_START_GROUP_ID + 1) t)
      else Raised NotALinkColumn)"

definition getDefaultDefaultValue :: "string \<Rightarrow> string \<Rightarrow> (column_error, string) outcome" where
  "getDefaultDefaultValue t dt =
     (if dt = DATATYPE_STRING then
        Returned (if t = TYPE_ON_OFF \<or> t = TYPE_TRUE_FALSE \<or> t = TYPE_YES_NO then DATATYPE_BOOL_DEFAULT
                  else if isChildLink t then DATATYPE_LINK_DEFAULT
                  else if t = TYPE_COMMENT then DATATYPE_COMMENT_DEFAULT
                  else DATATYPE_STRING_DEFAULT)
      else if dt = DATATYPE_NUMBER then Returned DATATYPE_NUMBER_DEFAULT
      else if dt = DATATYPE_TIME then Returned DATATYPE_TIME_DEFAULT
      else Raised UnknownDataType)"

definition getMinDefaultValue :: "string \<Rightarrow> (column_error, string) outcome" where
  "getMinDefaultValue dt =
     (if dt = DATATYPE_STRING \<or> dt = DATATYPE_NUMBER \<or> dt = DATATYPE_TIME
      then Returned DATATYPE_NUMBER_MIN_DEFAULT else Raised UnknownDataType)"

definition getMaxDefaultValue :: "string \<Rightarrow> (column_error, string) outcome" where
  "getMaxDefaultValue dt =
     (if dt = DATATYPE_STRING \<or> dt = DATATYPE_NUMBER \<or> dt = DATATYPE_TIME
      then Returned DATATYPE_NUMBER_MAX_DEFAULT else Raised UnknownDataType)"

section \<open>Data choices\<close>

text \<open>The loop over \<open>getline(f, s, ',')\<close>: a delimiter at the end does not start another element.\<close>

function getlines :: "char \<Rightarrow> string \<Rightarrow> string list" where
  "getlines d s =
     (if s = [] then []
      else takeWhile (\<lambda>c. c \<noteq> d) s # getlines d (drop (Suc (length (takeWhile (\<lambda>c. c \<noteq> d) s))) s))"
  by pat_completeness auto
termination by (relation "measure (length \<circ> snd)") auto

declare getlines.simps [simp del]

definition getDataChoicesFromString :: "string \<Rightarrow> (column_error, string list) outcome" where
  "getDataChoicesFromString csv =
     (case those (map decodeURIComponent (getlines (CHR '','') csv)) of
        None \<Rightarrow> Undef | Some choices \<Rightarrow> Returned choices)"

section \<open>Columns\<close>

text \<open>
  \<open>BitMapInfo\<close>. A number that \<open>sscanf\<close> did not find, and flags not yet set, are \<^term>\<open>None\<close>: the
  members have no initial value.
\<close>

record bit_map_info =
  numOfRows :: "u32 option"
  numOfColumns :: "u32 option"
  cellBitSize :: "u32 option"
  limits :: "string list"
  aspectRatio :: string
  colors :: "string list"
  orderFlags :: "(bool \<times> bool \<times> bool \<times> bool) option"
  floatingPoint :: bool
  mapToStrings :: string
  mapsToStrings :: bool

record column_info =
  ctype :: string
  cname :: string
  storageName :: string
  dataType :: string
  defaultValue :: string
  dataChoices :: "string list"
  minValue :: string
  maxValue :: string
  bitMapInfo :: "bit_map_info option"

definition newBitMapInfo :: bit_map_info where
  "newBitMapInfo =
     \<lparr>numOfRows = None, numOfColumns = None, cellBitSize = None, limits = [], aspectRatio = [], colors = [],
      orderFlags = None, floatingPoint = False, mapToStrings = [], mapsToStrings = False\<rparr>"

definition readBitMapInfo :: "string list \<Rightarrow> bit_map_info" where
  "readBitMapInfo ch =
     newBitMapInfo
       \<lparr>numOfRows := scan_unsigned (c_str (ch ! 0)), numOfColumns := scan_unsigned (c_str (ch ! 1)),
        cellBitSize := scan_unsigned (c_str (ch ! 2)),
        limits := [ch ! 3, ch ! 4, ch ! 5], aspectRatio := ch ! 6,
        colors := [ch ! 7, ch ! 8, ch ! 9, ch ! 10, ch ! 11],
        orderFlags := Some (ch ! 12 = ''Yes'', ch ! 13 = ''Yes'', ch ! 14 = ''Yes'', ch ! 15 = ''Yes''),
        floatingPoint := (16 < length ch \<and> ch ! 16 = ''Yes''),
        mapToStrings := (if 17 < length ch then ch ! 17 else [])\<rparr>"

text \<open>\<open>extractBitMapInfo\<close>: the object it leaves and the exception it throws; \<^term>\<open>None\<close> when it reads a size never set.\<close>

definition extractBitMapInfo :: "column_info \<Rightarrow> (bit_map_info option \<times> column_error option) option" where
  "extractBitMapInfo c =
     (if ctype c \<noteq> TYPE_BITMAP_DATA then Some (bitMapInfo c, None)
      else if length (dataChoices c) < 16 then Some (Some newBitMapInfo, Some BitMapTooFew)
      else if 18 < length (dataChoices c) then Some (Some newBitMapInfo, Some BitMapTooMany)
      else
        (let b = readBitMapInfo (dataChoices c) in
         if floatingPoint b \<and> cellBitSize b = None then None
         else if floatingPoint b \<and> cellBitSize b \<noteq> Some 32 then Some (Some b, Some FloatNeeds32)
         else if mapToStrings b \<noteq> [] \<and> mapToStrings b \<noteq> DATATYPE_STRING_DEFAULT \<and>
                 mapToStrings b \<noteq> DATATYPE_STRING_ALT_DEFAULT
         then if floatingPoint b then Some (Some b, Some FloatWithStrings)
              else Some (Some (b\<lparr>mapsToStrings := True\<rparr>), None)
         else Some (Some (b\<lparr>mapsToStrings := False\<rparr>), None)))"

definition upper_char :: "char \<Rightarrow> bool" where
  "upper_char c \<longleftrightarrow> CHR ''A'' \<le> c \<and> c \<le> CHR ''Z''"

definition plain_type :: "string \<Rightarrow> bool" where
  "plain_type t \<longleftrightarrow>
     t = TYPE_UID \<or> t = TYPE_DATA \<or> t = TYPE_UNIQUE_DATA \<or> t = TYPE_UNIQUE_GROUP_DATA \<or> t = TYPE_MULTILINE_DATA \<or>
     t = TYPE_FIXED_CHOICE_DATA \<or> t = TYPE_BITMAP_DATA \<or> t = TYPE_ON_OFF \<or> t = TYPE_TRUE_FALSE \<or> t = TYPE_YES_NO \<or>
     t = TYPE_COMMENT \<or> t = TYPE_AUTHOR \<or> t = TYPE_TIMESTAMP"

definition typeChar :: "char \<Rightarrow> bool" where
  "typeChar c \<longleftrightarrow> is_alnum c \<or> c = CHR ''-'' \<or> c = CHR ''_'' \<or> c = CHR ''.'' \<or> c = CHR '' ''"

definition dataTypeChar :: "char \<Rightarrow> bool" where
  "dataTypeChar c \<longleftrightarrow> is_alnum c \<or> c = CHR ''-'' \<or> c = CHR ''_'' \<or> c = CHR '' ''"

definition nameChar :: "char \<Rightarrow> bool" where
  "nameChar c \<longleftrightarrow> is_alnum c \<or> c = CHR ''-'' \<or> c = CHR ''_''"

definition storageChar :: "char \<Rightarrow> bool" where
  "storageChar c \<longleftrightarrow> upper_char c \<or> is_digit c \<or> c = CHR ''-'' \<or> c = CHR ''_''"

definition badChars :: "(char \<Rightarrow> bool) \<Rightarrow> column_error \<Rightarrow> string \<Rightarrow> column_error list" where
  "badChars ok e s = map (\<lambda>_. e) (filter (\<lambda>c. \<not> ok c) s)"

text \<open>The checks of the constructor in their order, as the messages they produce.\<close>

definition columnProblems :: "column_info \<Rightarrow> column_error list" where
  "columnProblems c =
     (let t = ctype c; dt = dataType c in
      (if plain_type t \<or> isChildLink t \<or> isChildLinkUID t \<or> isChildLinkGroupID t \<or> isGroupID t then [] else [BadColumnType]) @
      badChars typeChar BadColumnTypeChar t @
      (if dt = DATATYPE_NUMBER \<or> dt = DATATYPE_STRING \<or> dt = DATATYPE_TIME then [] else [BadDataType]) @
      (if t = TYPE_BITMAP_DATA \<and> dt \<noteq> DATATYPE_STRING then [BitMapNotString] else []) @
      (if dt = [] then [EmptyDataType] else []) @
      badChars dataTypeChar BadDataTypeChar dt @
      (if cname c = [] then [EmptyColumnName] else []) @
      badChars nameChar BadColumnNameChar (cname c) @
      (if storageName c = [] then [EmptyStorageName] else []) @
      badChars storageChar BadStorageNameChar (storageName c))"

definition limitValue :: "string option \<Rightarrow> (column_error, string) outcome \<Rightarrow> (column_error, string) outcome" where
  "limitValue v d = (case v of Some s \<Rightarrow> Returned (if s = ''null'' then [] else s) | None \<Rightarrow> d)"

text \<open>
  The constructor. With \<open>capture\<close> (a pointer for the messages) it collects them and completes the object;
  otherwise the first one is thrown.
\<close>

definition newColumnInfo ::
  "bool \<Rightarrow> string \<Rightarrow> string \<Rightarrow> string \<Rightarrow> string \<Rightarrow> string option \<Rightarrow> string \<Rightarrow> string option \<Rightarrow> string option
    \<Rightarrow> (column_error, column_info \<times> column_error list) outcome" where
  "newColumnInfo capture t n st dt0 dflt csv mn mx =
     (let dt = (if dt0 = ''VARCHAR2'' then DATATYPE_STRING else dt0) in
      outcome_bind (case dflt of Some d \<Rightarrow> Returned d | None \<Rightarrow> getDefaultDefaultValue t dt) (\<lambda>d.
      outcome_bind (getDataChoicesFromString csv) (\<lambda>ch.
      outcome_bind (limitValue mn (getMinDefaultValue dt)) (\<lambda>lo.
      outcome_bind (limitValue mx (getMaxDefaultValue dt)) (\<lambda>hi.
        (let c = \<lparr>ctype = t, cname = n, storageName = st, dataType = dt, defaultValue = d, dataChoices = ch,
                  minValue = lo, maxValue = hi, bitMapInfo = None\<rparr>;
             ps = columnProblems c
         in if \<not> capture \<and> ps \<noteq> [] then Raised (hd ps)
            else case extractBitMapInfo c of
                   None \<Rightarrow> Undef
                 | Some (b, None) \<Rightarrow> Returned (c\<lparr>bitMapInfo := b\<rparr>, ps)
                 | Some (b, Some e) \<Rightarrow>
                     if capture then Returned (c\<lparr>bitMapInfo := b\<rparr>, ps @ [e]) else Raised e))))))"

section \<open>Classes of column types\<close>

lemma tagged_iff: "tagged tag t \<longleftrightarrow> (\<exists>i. t = tag @ CHR ''-'' # i)"
proof
  assume t: "tagged tag t"
  then have "t = take (length tag) t @ t ! length tag # drop (Suc (length tag)) t"
    by (intro id_take_nth_drop) (simp add: tagged_def)
  with t show "\<exists>i. t = tag @ CHR ''-'' # i" unfolding tagged_def by metis
qed (auto simp: tagged_def)

lemmas link_classes = isChildLink_def isChildLinkUID_def isChildLinkGroupID_def isGroupID_def

lemma link_classes_disjoint:
  "isChildLink t \<Longrightarrow> \<not> isChildLinkUID t \<and> \<not> isChildLinkGroupID t \<and> \<not> isGroupID t"
  "isChildLinkUID t \<Longrightarrow> \<not> isChildLinkGroupID t \<and> \<not> isGroupID t"
  "isChildLinkGroupID t \<Longrightarrow> \<not> isGroupID t"
  by (auto simp: link_classes tagged_iff column_types)

lemma plain_not_linked:
  "plain_type t \<Longrightarrow> \<not> isChildLink t \<and> \<not> isChildLinkUID t \<and> \<not> isChildLinkGroupID t \<and> \<not> isGroupID t"
  unfolding plain_type_def by (elim disjE) (simp_all add: link_classes tagged_def column_types)

lemma boolType_plain: "isBoolType t \<Longrightarrow> plain_type t"
  by (auto simp: isBoolType_def plain_type_def)

lemma childLinkIndex_iff:
  "getChildLinkIndex t = Returned i \<longleftrightarrow>
     t = TYPE_START_CHILD_LINK @ CHR ''-'' # i \<or> t = TYPE_START_CHILD_LINK_UID @ CHR ''-'' # i \<or>
     t = TYPE_START_CHILD_LINK_GROUP_ID @ CHR ''-'' # i \<or> t = TYPE_START_GROUP_ID @ CHR ''-'' # i"
  by (auto simp: getChildLinkIndex_def link_classes tagged_iff column_types)

section \<open>What the constructor accepts\<close>

definition linkClassCount :: "string \<Rightarrow> nat" where
  "linkClassCount t = length (filter (\<lambda>b. b) [isChildLink t, isChildLinkUID t, isChildLinkGroupID t, isGroupID t])"

text \<open>The well-typed columns, and the parameters of a well-typed bit map.\<close>

definition typed_column :: "column_info \<Rightarrow> bool" where
  "typed_column c \<longleftrightarrow>
     (plain_type (ctype c) \<or> linkClassCount (ctype c) = 1) \<and> list_all typeChar (ctype c) \<and>
     dataType c \<in> {DATATYPE_NUMBER, DATATYPE_STRING, DATATYPE_TIME} \<and>
     cname c \<noteq> [] \<and> list_all nameChar (cname c) \<and>
     storageName c \<noteq> [] \<and> list_all storageChar (storageName c) \<and>
     (ctype c = TYPE_BITMAP_DATA \<longrightarrow> dataType c = DATATYPE_STRING)"

definition typed_bitmap :: "column_info \<Rightarrow> bool" where
  "typed_bitmap c \<longleftrightarrow>
     (case bitMapInfo c of
        None \<Rightarrow> ctype c \<noteq> TYPE_BITMAP_DATA
      | Some b \<Rightarrow> ctype c = TYPE_BITMAP_DATA \<and> length (dataChoices c) \<in> {16..18} \<and>
          (floatingPoint b \<longrightarrow> cellBitSize b = Some 32 \<and> \<not> mapsToStrings b))"

lemma linkClassCount_one:
  "linkClassCount t = 1 \<longleftrightarrow> isChildLink t \<or> isChildLinkUID t \<or> isChildLinkGroupID t \<or> isGroupID t"
  using link_classes_disjoint [of t] by (auto simp: linkClassCount_def)

lemma linkClassCount_plain: "plain_type t \<Longrightarrow> linkClassCount t = 0"
  using plain_not_linked [of t] by (simp add: linkClassCount_def)

lemma badChars_Nil [simp]: "badChars ok e s = [] \<longleftrightarrow> list_all ok s"
  by (auto simp: badChars_def filter_empty_conv list_all_iff)

lemma columnProblems_iff: "columnProblems c = [] \<longleftrightarrow> typed_column c"
proof -
  have "list_all dataTypeChar s" "s \<noteq> []" if "s \<in> {DATATYPE_NUMBER, DATATYPE_STRING, DATATYPE_TIME}" for s
    using that by (auto simp: data_types dataTypeChar_def is_alnum_def less_eq_char_def)
  then show ?thesis
    unfolding columnProblems_def typed_column_def linkClassCount_one Let_def append_is_Nil_conv badChars_Nil
    by auto
qed

lemma extractBitMapInfo_typed:
  "\<lbrakk>extractBitMapInfo c = Some (b, None); bitMapInfo c = None\<rbrakk> \<Longrightarrow> typed_bitmap (c\<lparr>bitMapInfo := b\<rparr>)"
  by (auto simp: extractBitMapInfo_def typed_bitmap_def Let_def split: if_splits)

text \<open>
  C21. The constructor of a column returns, without a place for error messages, only a well-typed column:
  its type is one of the plain types or has exactly one of the four link forms, its names and its data
  type are legal, and a bit map has 16 to 18 parameters, cells of 32 bits if they are floating point, and
  then no names for its values.
\<close>

theorem newColumnInfo_typed:
  assumes "newColumnInfo False t n st dt dflt csv mn mx = Returned (c, messages)"
  shows "messages = [] \<and> typed_column c \<and> typed_bitmap c \<and> ctype c = t \<and> cname c = n \<and> storageName c = st \<and>
    linkClassCount t = (if plain_type t then 0 else 1)"
proof -
  from assms obtain c0 b where c0: "columnProblems c0 = []" "extractBitMapInfo c0 = Some (b, None)"
      "c = c0\<lparr>bitMapInfo := b\<rparr>" "messages = []" "bitMapInfo c0 = None" "ctype c0 = t" "cname c0 = n" "storageName c0 = st"
    unfolding newColumnInfo_def
    by (auto simp: outcome_bind_Returned Let_def split: if_splits option.splits prod.splits)
  then have t: "typed_column c" by (simp add: columnProblems_iff typed_column_def)
  moreover from this c0(3,6) have "linkClassCount t = (if plain_type t then 0 else 1)"
    by (auto simp: typed_column_def linkClassCount_plain)
  ultimately show ?thesis using c0 extractBitMapInfo_typed [of c0 b] by simp
qed

theorem newColumnInfo_typed_witness:
  "\<exists>c. newColumnInfo False ''ChildLinkGroupID-LinkFE'' ''LinkToFEGroupID'' ''LINK_TO_FE_GROUP_ID'' ''VARCHAR2'' None [] None None =
     Returned (c, []) \<and> typed_column c \<and> linkClassCount ''ChildLinkGroupID-LinkFE'' = 1"
proof -
  let ?r = "newColumnInfo False ''ChildLinkGroupID-LinkFE'' ''LinkToFEGroupID'' ''LINK_TO_FE_GROUP_ID'' ''VARCHAR2'' None [] None None"
  have "\<exists>c. ?r = Returned (c, [])"
    by (simp add: newColumnInfo_def getDefaultDefaultValue_def getDataChoicesFromString_def getlines.simps limitValue_def
        getMinDefaultValue_def getMaxDefaultValue_def columnProblems_iff extractBitMapInfo_def Let_def column_constants)
      (simp add: typed_column_def linkClassCount_def link_classes tagged_def column_types data_types typeChar_def nameChar_def
        storageChar_def upper_char_def is_digit_def is_alnum_def plain_type_def less_eq_char_def)
  then obtain c where c: "?r = Returned (c, [])" by blast
  show ?thesis
    using newColumnInfo_typed [OF c] c by (auto simp: plain_type_def column_types)
qed

end
