(* ===== verification/TableViews.thy ===== *)
theory TableViews
  imports TableColumns MapStrings WildCards
begin

text \<open>
  \<open>TableCore/TableView.cc\<close> and \<open>TableView.icc\<close>: one version of a table, that is its columns and its rows of
  text. This theory holds the state, the searches, the access to cells by type, the links between
  columns and the groups of rows. Rows and columns are counted by \<open>unsigned int\<close>; \<open>INVALID_INDEX\<close> is the
  value -1, and tables are taken to be smaller than that.
\<close>

section \<open>State\<close>

definition INVALID_INDEX :: nat where "INVALID_INDEX = 2 ^ 32 - 1"

datatype table_error =
    ColumnFault column_error | VariableFault env_error | InvalidRowCol | MissingUIDColumn | MissingStatusColumn
  | MissingPriorityColumn | ColumnNotFound | RowNotFound | IncompatibleGroupLink | EmptyLinkIndex
  | IncompleteChildLink | WrongDataType | NoNumber | NotAChoice | NotABool | ImpossibleRequest
  | AlreadyInGroup | NotInGroup | AnonymousView | BadTableName | ColumnCountMismatch
  | RepeatedColumnName | CommentColumn | AuthorColumn | TimestampColumn
  | RepeatedUID | EmptyUID | BadUIDChar | RepeatedUniqueData | RepeatedGroupData
  | RowSizeMismatch | DefaultsMismatch | BadFixedChoice | BadLinkChoice | BadBoolValue | BadLinkDataType
  | BadLimit | LimitsCrossed | OutsideLimits | RepeatedGroupIdLabel | RepeatedLinkLabel | RepeatedLinkIdLabel
  | RowOutOfBounds | CustomStorage | MissingColumns

record table_view =
  storageData :: string
  tableName :: string
  version :: u32
  comment :: string
  author :: string
  creationTime :: int
  lastAccessTime :: int
  rowDefaultValues :: "string list"
  colUID :: nat
  colStatus :: nat
  colPriority :: nat
  colLinkGroupIDs :: "(string, nat) omap"
  fillWithLooseColumnMatching :: bool
  getSourceRawData :: bool
  sourceRawData :: string
  sourceColumnMismatchCount :: nat
  sourceColumnMissingCount :: nat
  sourceColumnNames :: "string set"
  columnsInfo :: "column_info list"
  dataView :: "string list list"

type_synonym 'a view_act = "(table_view, table_error, 'a) act"

abbreviation getNumberOfRows :: "table_view \<Rightarrow> nat" where
  "getNumberOfRows v \<equiv> length (dataView v)"

abbreviation getNumberOfColumns :: "table_view \<Rightarrow> nat" where
  "getNumberOfColumns v \<equiv> length (columnsInfo v)"

abbreviation typeOf :: "table_view \<Rightarrow> nat \<Rightarrow> string" where
  "typeOf v c \<equiv> ctype (columnsInfo v ! c)"

text \<open>
  What a view reads from outside: the environment variables, the clock, \<open>getNumber<double>\<close> with the
  comparison of doubles, and the text form of a time stamp.
\<close>

record 'd table_env =
  te_variables :: variables
  te_now :: int
  getDouble :: "string \<Rightarrow> 'd option"
  exceeds :: "'d \<Rightarrow> 'd \<Rightarrow> bool"
  getTimestampString :: "string \<Rightarrow> string"

text \<open>\<open>theDataView_[r][c]\<close>, read and written.\<close>

definition cell :: "table_view \<Rightarrow> nat \<Rightarrow> nat \<Rightarrow> ('e, string) outcome" where
  "cell v r c =
     (if r < getNumberOfRows v \<and> c < length (dataView v ! r) then Returned (dataView v ! r ! c) else Undef)"

definition putCell :: "nat \<Rightarrow> nat \<Rightarrow> string \<Rightarrow> table_view \<Rightarrow> table_view" where
  "putCell r c s v = v\<lparr>dataView := (dataView v)[r := (dataView v ! r)[c := s]]\<rparr>"

definition setCell :: "nat \<Rightarrow> nat \<Rightarrow> string \<Rightarrow> unit view_act" where
  "setCell r c s v =
     (if r < getNumberOfRows v \<and> c < length (dataView v ! r) then (Returned (), putCell r c s v) else (Undef, v))"

definition columnResult :: "(column_error, 'a) outcome \<Rightarrow> (table_error, 'a) outcome" where
  "columnResult r = (case r of Returned x \<Rightarrow> Returned x | Raised e \<Rightarrow> Raised (ColumnFault e) | Undef \<Rightarrow> Undef)"

definition converted :: "variables \<Rightarrow> bool \<Rightarrow> string \<Rightarrow> (table_error, string) outcome" where
  "converted vs convert s =
     (if convert then
        (case convertEnvironmentVariables vs s of
           None \<Rightarrow> Undef | Some (Inl e) \<Rightarrow> Raised (VariableFault e) | Some (Inr t) \<Rightarrow> Returned t)
      else Returned s)"

section \<open>Searches\<close>

definition findCol :: "table_view \<Rightarrow> string \<Rightarrow> (table_error, nat) outcome" where
  "findCol v wildCardName =
     (case index_of (\<lambda>c. fst (wildCardMatch wildCardName (cname c))) (columnsInfo v) of
        Some c \<Rightarrow> Returned c | None \<Rightarrow> Raised ColumnNotFound)"

definition findColByType :: "table_view \<Rightarrow> string \<Rightarrow> nat \<Rightarrow> nat" where
  "findColByType v t start =
     (case index_of (\<lambda>c. ctype c = t) (drop start (columnsInfo v)) of
        Some c \<Rightarrow> start + c | None \<Rightarrow> INVALID_INDEX)"

fun findRowLoop :: "table_view \<Rightarrow> (nat \<Rightarrow> (table_error, bool) outcome) \<Rightarrow> nat list \<Rightarrow> (table_error, nat option) outcome" where
  "findRowLoop v P [] = Returned None"
| "findRowLoop v P (r # rs) =
     outcome_bind (P r) (\<lambda>b. if b then Returned (Some r) else findRowLoop v P rs)"

definition findRow :: "table_view \<Rightarrow> nat \<Rightarrow> string \<Rightarrow> nat \<Rightarrow> bool \<Rightarrow> (table_error, nat) outcome" where
  "findRow v c value offset doNotThrow =
     outcome_bind (findRowLoop v (\<lambda>r. outcome_bind (cell v r c) (\<lambda>x. Returned (x = value))) [offset..<getNumberOfRows v])
       (\<lambda>r. case r of Some row \<Rightarrow> Returned row | None \<Rightarrow> if doNotThrow then Returned INVALID_INDEX else Raised RowNotFound)"

definition getColUID :: "table_view \<Rightarrow> (table_error, nat) outcome" where
  "getColUID v = (if colUID v \<noteq> INVALID_INDEX then Returned (colUID v) else Raised MissingUIDColumn)"

definition getColStatus :: "table_view \<Rightarrow> (table_error, nat) outcome" where
  "getColStatus v = (if colStatus v \<noteq> INVALID_INDEX then Returned (colStatus v) else Raised MissingStatusColumn)"

definition getColPriority :: "table_view \<Rightarrow> (table_error, nat) outcome" where
  "getColPriority v = (if colPriority v \<noteq> INVALID_INDEX then Returned (colPriority v) else Raised MissingPriorityColumn)"

section \<open>Special columns\<close>

definition initColUID :: "unit view_act" where
  "initColUID v =
     (if colUID v \<noteq> INVALID_INDEX then (Returned (), v)
      else
        (let c = findColByType v TYPE_UID 0; v' = v\<lparr>colUID := c\<rparr>
         in if c = INVALID_INDEX then (Raised MissingUIDColumn, v') else (Returned (), v')))"

definition initColStatus :: "unit view_act" where
  "initColStatus v =
     (if colStatus v \<noteq> INVALID_INDEX then (Returned (), v)
      else
        (case index_of (\<lambda>c. cname c = COL_NAME_STATUS) (columnsInfo v) of
           Some c \<Rightarrow> (Returned (), v\<lparr>colStatus := c\<rparr>)
         | None \<Rightarrow>
             (case index_of (\<lambda>c. cname c = COL_NAME_ENABLED) (columnsInfo v) of
                Some c \<Rightarrow> (Returned (), v\<lparr>colStatus := c\<rparr>)
              | None \<Rightarrow> (Raised MissingStatusColumn, v))))"

text \<open>\<open>findCol\<close> throws before the member is assigned.\<close>

definition initColPriority :: "unit view_act" where
  "initColPriority v =
     (if colPriority v \<noteq> INVALID_INDEX then (Returned (), v)
      else
        (case findCol v (CHR ''*'' # COL_NAME_PRIORITY) of
           Returned c \<Rightarrow> (Returned (), v\<lparr>colPriority := c\<rparr>)
         | Raised e \<Rightarrow> (Raised e, v)
         | Undef \<Rightarrow> (Undef, v)))"

text \<open>
  \<open>initRowDefaults\<close>: a link with fixed choices that do not contain its default starts with the first
  choice.
\<close>

definition realChoices :: "string list \<Rightarrow> string list" where
  "realChoices ch = (if ch \<noteq> [] \<and> hd ch = ''arbitraryBool=0'' then tl ch else ch)"

definition rowDefault :: "column_info \<Rightarrow> string" where
  "rowDefault c =
     (if isChildLink (ctype c) then
        (if dataChoices c = [] \<or> hd (dataChoices c) = ''arbitraryBool=1'' then defaultValue c
         else if defaultValue c \<notin> set (realChoices (dataChoices c)) \<and> realChoices (dataChoices c) \<noteq> []
         then hd (realChoices (dataChoices c)) else defaultValue c)
      else defaultValue c)"

definition initRowDefaults :: "table_view \<Rightarrow> table_view" where
  "initRowDefaults v = v\<lparr>rowDefaultValues := map rowDefault (columnsInfo v)\<rparr>"

section \<open>Values of cells\<close>

text \<open>\<open>validateValueForColumn\<close> of a string.\<close>

definition firstChoice :: "string list \<Rightarrow> string option" where
  "firstChoice ch =
     (let i = (if ch \<noteq> [] \<and> take 14 (hd ch) = ''arbitraryBool='' then 1 else 0)
      in if i < length ch then Some (ch ! i) else None)"

definition chosenDefault :: "column_info \<Rightarrow> string \<Rightarrow> (table_error, string option) outcome" where
  "chosenDefault c s =
     (if ctype c = TYPE_FIXED_CHOICE_DATA then
        outcome_bind (columnResult (getDefaultDefaultValue (ctype c) (dataType c))) (\<lambda>d.
          Returned (if s = d then firstChoice (dataChoices c) else None))
      else Returned None)"

definition validateString :: "'d table_env \<Rightarrow> table_view \<Rightarrow> string \<Rightarrow> nat \<Rightarrow> bool \<Rightarrow> (table_error, string) outcome" where
  "validateString te v value c convert =
     (if getNumberOfColumns v \<le> c then Raised InvalidRowCol
      else
        (let ci = columnsInfo v ! c in
         outcome_bind (chosenDefault ci value) (\<lambda>choice.
           case choice of
             Some ch \<Rightarrow> converted (te_variables te) convert ch
           | None \<Rightarrow>
               if dataType ci = DATATYPE_STRING then converted (te_variables te) convert value
               else if dataType ci = DATATYPE_TIME then
                 outcome_bind (converted (te_variables te) convert value) (\<lambda>t. Returned (getTimestampString te t))
               else Raised WrongDataType)))"

text \<open>
  \<open>validateValueForColumn<T>\<close> for the other types: \<open>num\<close> is \<open>getNumber<T>\<close> on a NUMBER column, \<open>str\<close> what the
  template does on a STRING column. Every exception is thrown on as a \<open>std::runtime_error\<close>.
\<close>

definition validateValueForColumn ::
  "variables \<Rightarrow> (string \<Rightarrow> (table_error, 'a) outcome) \<Rightarrow> (column_info \<Rightarrow> string \<Rightarrow> (table_error, 'a) outcome)
    \<Rightarrow> table_view \<Rightarrow> string \<Rightarrow> nat \<Rightarrow> bool \<Rightarrow> (table_error, 'a) outcome" where
  "validateValueForColumn vs num str v value c convert =
     (if getNumberOfColumns v \<le> c then Raised InvalidRowCol
      else
        (let ci = columnsInfo v ! c in
         if dataType ci = DATATYPE_NUMBER then
           outcome_bind (chosenDefault ci value) (\<lambda>choice.
             outcome_bind (converted vs convert (case choice of Some ch \<Rightarrow> ch | None \<Rightarrow> value)) num)
         else if dataType ci = DATATYPE_STRING then str ci value
         else Raised ImpossibleRequest))"

definition wordOutcome :: "'a::len word num_result \<Rightarrow> (table_error, 'a word) outcome" where
  "wordOutcome r = (case r of Number w \<Rightarrow> Returned w | NotANumber _ \<Rightarrow> Raised NoNumber | _ \<Rightarrow> Undef)"

definition boolOutcome :: "bool option \<Rightarrow> (table_error, bool) outcome" where
  "boolOutcome r = (case r of Some b \<Rightarrow> Returned b | None \<Rightarrow> Raised NoNumber)"

definition boolCell :: "column_info \<Rightarrow> string \<Rightarrow> (table_error, bool) outcome" where
  "boolCell ci value =
     (if ctype ci = TYPE_ON_OFF then Returned (value = TYPE_VALUE_ON)
      else if ctype ci = TYPE_TRUE_FALSE then Returned (value = TYPE_VALUE_TRUE)
      else if ctype ci = TYPE_YES_NO then Returned (value = TYPE_VALUE_YES)
      else if value \<noteq> [] \<and> hd value = CHR ''1'' then Returned True
      else if value \<noteq> [] \<and> hd value = CHR ''0'' then Returned False
      else Raised NotABool)"

text \<open>For \<open>int\<close> and \<open>unsigned int\<close> of a fixed choice: the place among the choices, 0 for the default.\<close>

definition choiceIndex :: "column_info \<Rightarrow> string \<Rightarrow> (table_error, nat) outcome" where
  "choiceIndex ci value =
     (if value = defaultValue ci then Returned 0
      else
        (let ch = dataChoices ci;
             ch' = (if ch \<noteq> [] \<and> take 14 (hd ch) = ''arbitraryBool='' then tl ch else ch)
         in case index_of (\<lambda>x. x = value) ch' of Some i \<Rightarrow> Returned (Suc i) | None \<Rightarrow> Raised NotAChoice))"

definition getValue :: "(table_view \<Rightarrow> string \<Rightarrow> nat \<Rightarrow> bool \<Rightarrow> (table_error, 'a) outcome)
    \<Rightarrow> table_view \<Rightarrow> nat \<Rightarrow> nat \<Rightarrow> bool \<Rightarrow> (table_error, 'a) outcome" where
  "getValue validate v r c convert =
     (if \<not> (c < getNumberOfColumns v \<and> r < getNumberOfRows v) then Raised InvalidRowCol
      else outcome_bind (cell v r c) (\<lambda>s. validate v s c convert))"

definition getValueBool :: "'d table_env \<Rightarrow> table_view \<Rightarrow> nat \<Rightarrow> nat \<Rightarrow> (table_error, bool) outcome" where
  "getValueBool te v r c =
     getValue (validateValueForColumn (te_variables te) (\<lambda>s. boolOutcome (getNumberBool s)) boolCell) v r c True"

definition getValueU64 :: "'d table_env \<Rightarrow> table_view \<Rightarrow> nat \<Rightarrow> nat \<Rightarrow> (table_error, u64) outcome" where
  "getValueU64 te v r c =
     getValue (validateValueForColumn (te_variables te) (\<lambda>s. wordOutcome (getNumber s))
       (\<lambda>ci s. outcome_bind (converted (te_variables te) True s) (\<lambda>t. wordOutcome (getNumber t)))) v r c True"

definition getValueU32 :: "'d table_env \<Rightarrow> table_view \<Rightarrow> nat \<Rightarrow> nat \<Rightarrow> (table_error, u32) outcome" where
  "getValueU32 te v r c =
     getValue (validateValueForColumn (te_variables te) (\<lambda>s. wordOutcome (getNumber s))
       (\<lambda>ci s. if ctype ci = TYPE_FIXED_CHOICE_DATA then outcome_bind (choiceIndex ci s) (\<lambda>i. Returned (of_nat i))
               else outcome_bind (converted (te_variables te) True s) (\<lambda>t. wordOutcome (getNumber t)))) v r c True"

definition getValueDouble :: "'d table_env \<Rightarrow> table_view \<Rightarrow> nat \<Rightarrow> nat \<Rightarrow> (table_error, 'd) outcome" where
  "getValueDouble te v r c =
     (let num = (\<lambda>s. case getDouble te s of Some d \<Rightarrow> Returned d | None \<Rightarrow> Raised NoNumber)
      in getValue (validateValueForColumn (te_variables te) num
           (\<lambda>ci s. outcome_bind (converted (te_variables te) True s) num)) v r c True)"

text \<open>The string version tests the row's own size; its message reads the size of the row, also of one that does not exist.\<close>

definition getValueString :: "'d table_env \<Rightarrow> table_view \<Rightarrow> nat \<Rightarrow> nat \<Rightarrow> bool \<Rightarrow> (table_error, string) outcome" where
  "getValueString te v r c convert =
     (if \<not> r < getNumberOfRows v then Undef
      else if \<not> c < length (dataView v ! r) then Raised InvalidRowCol
      else validateString te v (dataView v ! r ! c) c convert)"

definition boolText :: "string \<Rightarrow> string \<Rightarrow> string" where
  "boolText t s =
     (if t = TYPE_ON_OFF then
        (if s \<in> {''1'', ''on'', ''On'', ''ON''} then TYPE_VALUE_ON else TYPE_VALUE_OFF)
      else if t = TYPE_TRUE_FALSE then
        (if s \<in> {''1'', ''true'', ''True'', ''TRUE''} then TYPE_VALUE_TRUE else TYPE_VALUE_FALSE)
      else (if s \<in> {''1'', ''yes'', ''Yes'', ''YES''} then TYPE_VALUE_YES else TYPE_VALUE_NO))"

definition getValueAsString :: "variables \<Rightarrow> table_view \<Rightarrow> nat \<Rightarrow> nat \<Rightarrow> bool \<Rightarrow> (table_error, string) outcome" where
  "getValueAsString vs v r c convert =
     (if \<not> (c < getNumberOfColumns v \<and> r < getNumberOfRows v) then Raised InvalidRowCol
      else outcome_bind (cell v r c) (\<lambda>s.
        if isBoolType (typeOf v c) then Returned (boolText (typeOf v c) s)
        else converted vs convert s))"

primrec escapeValue :: "bool \<Rightarrow> string \<Rightarrow> string" where
  "escapeValue quotesToDoubleQuotes [] = []"
| "escapeValue quotesToDoubleQuotes (c # cs) =
     (if c = CHR 0x0A then [CHR 0x5C, CHR ''n'']
      else if c = CHR 0x09 then [CHR 0x5C, CHR ''t'']
      else if c = CHR 0x0D then [CHR 0x5C, CHR ''r'']
      else (if c = CHR 0x5C then [CHR 0x5C] else []) @
           (if quotesToDoubleQuotes \<and> c = CHR 0x22 then [CHR 0x22]
            else if \<not> quotesToDoubleQuotes \<and> c = CHR 0x22 then [CHR 0x5C] else []) @ [c])
     @ escapeValue quotesToDoubleQuotes cs"

definition getEscapedValueAsString ::
  "variables \<Rightarrow> table_view \<Rightarrow> nat \<Rightarrow> nat \<Rightarrow> bool \<Rightarrow> bool \<Rightarrow> (table_error, string) outcome" where
  "getEscapedValueAsString vs v r c convert quotesToDoubleQuotes =
     outcome_bind (getValueAsString vs v r c convert) (\<lambda>s. Returned (escapeValue quotesToDoubleQuotes s))"

text \<open>\<open>setValue\<close> of a string, of a \<open>time_t\<close>, and \<open>setValueAsString\<close>.\<close>

definition inTable :: "table_view \<Rightarrow> nat \<Rightarrow> nat \<Rightarrow> bool" where
  "inTable v r c \<longleftrightarrow> c < getNumberOfColumns v \<and> r < getNumberOfRows v"

definition setValue :: "string \<Rightarrow> nat \<Rightarrow> nat \<Rightarrow> unit view_act" where
  "setValue value r c v =
     (if \<not> inTable v r c then (Raised InvalidRowCol, v)
      else if dataType (columnsInfo v ! c) = DATATYPE_STRING then setCell r c value v
      else (Raised WrongDataType, v))"

definition setValueTime :: "int \<Rightarrow> nat \<Rightarrow> nat \<Rightarrow> unit view_act" where
  "setValueTime t r c v =
     (if \<not> inTable v r c then (Raised InvalidRowCol, v)
      else if dataType (columnsInfo v ! c) = DATATYPE_NUMBER \<or> dataType (columnsInfo v ! c) = DATATYPE_TIME
      then setCell r c (int64_to_string t) v
      else (Raised WrongDataType, v))"

definition setValueAsString :: "string \<Rightarrow> nat \<Rightarrow> nat \<Rightarrow> unit view_act" where
  "setValueAsString value r c v = (if \<not> inTable v r c then (Raised InvalidRowCol, v) else setCell r c value v)"

section \<open>Links\<close>

definition linkMember :: "string \<Rightarrow> bool" where
  "linkMember t \<longleftrightarrow> isChildLink t \<or> isChildLinkUID t \<or> isChildLinkGroupID t \<or> isGroupID t"

text \<open>The part of a child link index after the first space, if there is one.\<close>

definition targetIndex :: "string \<Rightarrow> string" where
  "targetIndex s =
     c_str (case findp '' '' s of
              Some p \<Rightarrow> if p + 1 < length s then drop (p + 1) s else s
            | None \<Rightarrow> s)"

definition getLinkGroupIDColumn :: "table_view \<Rightarrow> string \<Rightarrow> (table_error, nat) outcome" where
  "getLinkGroupIDColumn v childLinkIndex =
     (if childLinkIndex = [] then Raised EmptyLinkIndex
      else
        (case omap_get (colLinkGroupIDs v) (targetIndex childLinkIndex) of
           Some c \<Rightarrow> Returned c
         | None \<Rightarrow>
             (case index_of (\<lambda>c. linkMember (ctype c) \<and> getChildLinkIndex (ctype c) = Returned (targetIndex childLinkIndex))
                     (columnsInfo v) of
                Some c \<Rightarrow> Returned c
              | None \<Rightarrow> Raised IncompatibleGroupLink)))"

text \<open>
  \<open>getChildLink\<close>: \<open>Some (isGroup, link column, link id column)\<close> for a member of a link, \<^term>\<open>None\<close>
  (\<open>false\<close>) for another column.
\<close>

definition isLinkId :: "string \<Rightarrow> bool" where
  "isLinkId t \<longleftrightarrow> isChildLinkUID t \<or> isChildLinkGroupID t"

definition linkMate :: "table_view \<Rightarrow> nat \<Rightarrow> (string \<Rightarrow> bool) \<Rightarrow> nat option" where
  "linkMate v c P =
     (case filter (\<lambda>d. d \<noteq> c \<and> P (typeOf v d) \<and> getChildLinkIndex (typeOf v d) = getChildLinkIndex (typeOf v c))
             [0..<getNumberOfColumns v] of
        [] \<Rightarrow> None | d # ds \<Rightarrow> Some d)"

definition getChildLink :: "table_view \<Rightarrow> nat \<Rightarrow> (table_error, (bool \<times> nat \<times> nat) option) outcome" where
  "getChildLink v c =
     (if \<not> c < getNumberOfColumns v then Raised InvalidRowCol
      else if isChildLinkGroupID (typeOf v c) \<or> isChildLinkUID (typeOf v c) then
        (case linkMate v c isChildLink of
           Some d \<Rightarrow> Returned (Some (isChildLinkGroupID (typeOf v c), d, c))
         | None \<Rightarrow> Raised IncompleteChildLink)
      else if \<not> isChildLink (typeOf v c) then Returned None
      else
        (case linkMate v c isLinkId of
           Some d \<Rightarrow> Returned (Some (\<not> isChildLinkUID (typeOf v d), c, d))
         | None \<Rightarrow> Raised IncompleteChildLink))"

section \<open>Groups of rows\<close>

text \<open>The loop of \<open>isEntryInGroupCol\<close>: the names between spaces and bars.\<close>

definition groupSep :: "char \<Rightarrow> bool" where
  "groupSep c \<longleftrightarrow> c = CHR '' '' \<or> c = CHR ''|''"

fun groupLoop :: "string \<Rightarrow> nat \<Rightarrow> nat \<Rightarrow> string \<Rightarrow> string list" where
  "groupLoop s i j [] = (if i \<noteq> j then [substr s i (j - i)] else [])"
| "groupLoop s i j (c # rest) =
     (if groupSep c \<and> i = j then groupLoop s (Suc i) (Suc j) rest
      else if groupSep c \<and> i \<noteq> j then substr s i (j - i) # groupLoop s (Suc j) (Suc j) rest
      else groupLoop s i (Suc j) rest)"

definition groupNames :: "string \<Rightarrow> string list" where
  "groupNames s = groupLoop s 0 0 s"

text \<open>Without a list to fill, the names of the cell are patterns for the name searched.\<close>

definition isEntryInGroupCol :: "table_view \<Rightarrow> nat \<Rightarrow> nat \<Rightarrow> string \<Rightarrow> (table_error, bool) outcome" where
  "isEntryInGroupCol v r c groupNeedle =
     (if getNumberOfRows v \<le> r \<or> getNumberOfColumns v \<le> c then Raised InvalidRowCol
      else outcome_bind (cell v r c) (\<lambda>s.
        Returned (list_ex (\<lambda>g. fst (wildCardMatch g groupNeedle)) (groupNames s))))"

definition groupIDList :: "table_view \<Rightarrow> nat \<Rightarrow> nat \<Rightarrow> (table_error, string list) outcome" where
  "groupIDList v r c =
     (if getNumberOfRows v \<le> r \<or> getNumberOfColumns v \<le> c then Raised InvalidRowCol
      else outcome_bind (cell v r c) (\<lambda>s. Returned (map fst (fold (\<lambda>g m. omap_put g () m) (groupNames s) []))))"

definition isEntryInGroup :: "table_view \<Rightarrow> nat \<Rightarrow> string \<Rightarrow> string \<Rightarrow> (table_error, bool) outcome" where
  "isEntryInGroup v r childLinkIndex groupNeedle =
     outcome_bind (getLinkGroupIDColumn v childLinkIndex) (\<lambda>c. isEntryInGroupCol v r c groupNeedle)"

definition findRowInGroup ::
  "table_view \<Rightarrow> nat \<Rightarrow> string \<Rightarrow> string \<Rightarrow> string \<Rightarrow> nat \<Rightarrow> (table_error, nat) outcome" where
  "findRowInGroup v c value groupId childLinkIndex offset =
     outcome_bind (getLinkGroupIDColumn v childLinkIndex) (\<lambda>g.
     outcome_bind (findRowLoop v (\<lambda>r. outcome_bind (cell v r c) (\<lambda>x.
         if x = value then isEntryInGroupCol v r g groupId else Returned False)) [offset..<getNumberOfRows v])
       (\<lambda>r. case r of Some row \<Rightarrow> Returned row | None \<Rightarrow> Raised RowNotFound))"

text \<open>\<open>getSetOfGroupIDs\<close> uses the default delimiters of \<open>getSetFromString\<close>.\<close>

definition addGroupIDs :: "table_view \<Rightarrow> nat \<Rightarrow> nat \<Rightarrow> string list \<Rightarrow> (table_error, string list) outcome" where
  "addGroupIDs v c r ids = outcome_bind (cell v r c) (\<lambda>s. Returned (getSetFromString s ids pair_delimiter blank))"

fun allGroupIDs :: "table_view \<Rightarrow> nat \<Rightarrow> nat list \<Rightarrow> string list \<Rightarrow> (table_error, string list) outcome" where
  "allGroupIDs v c [] ids = Returned ids"
| "allGroupIDs v c (r # rs) ids = outcome_bind (addGroupIDs v c r ids) (allGroupIDs v c rs)"

definition getSetOfGroupIDs :: "table_view \<Rightarrow> nat \<Rightarrow> nat \<Rightarrow> (table_error, string list) outcome" where
  "getSetOfGroupIDs v c r =
     (if r \<noteq> INVALID_INDEX then
        (if getNumberOfRows v \<le> r then Raised InvalidRowCol else addGroupIDs v c r [])
      else allGroupIDs v c [0..<getNumberOfRows v] [])"

text \<open>\<open>addRowToGroup\<close>.\<close>

definition hasNoGroup :: "table_view \<Rightarrow> nat \<Rightarrow> string \<Rightarrow> (table_error, bool) outcome" where
  "hasNoGroup v c s =
     (if s = [] then Returned True
      else if c < length (rowDefaultValues v) then Returned (s = rowDefaultValues v ! c) else Undef)"

definition addRowToGroup :: "nat \<Rightarrow> nat \<Rightarrow> string \<Rightarrow> unit view_act" where
  "addRowToGroup r c groupID =
     andThen (asks (\<lambda>v. isEntryInGroupCol v r c groupID)) (\<lambda>present.
       if present then fails AlreadyInGroup
       else andThen (asks (\<lambda>v. cell v r c)) (\<lambda>s.
         andThen (asks (\<lambda>v. hasNoGroup v c s)) (\<lambda>none.
           setValue (if none then groupID else groupID @ '' | '' @ s) r c)))"

definition deleteRow :: "int \<Rightarrow> unit view_act" where
  "deleteRow r v =
     (if int (getNumberOfRows v) \<le> r then (Raised RowOutOfBounds, v)
      else if r < 0 then (Undef, v)
      else (Returned (), v\<lparr>dataView := take (nat r) (dataView v) @ drop (Suc (nat r)) (dataView v)\<rparr>))"

text \<open>\<open>removeRowFromGroup\<close>: \<open>cnt\<close> stays 0 through the loop.\<close>

fun keptGroups :: "string \<Rightarrow> nat \<Rightarrow> string \<Rightarrow> string list \<Rightarrow> string" where
  "keptGroups needle cnt newValue [] = newValue"
| "keptGroups needle cnt newValue (g # gs) =
     (if g = needle then keptGroups needle cnt newValue gs
      else keptGroups needle cnt (newValue @ (if cnt \<noteq> 0 then '' | '' else []) @ g) gs)"

definition removeRowFromGroup :: "nat \<Rightarrow> nat \<Rightarrow> string \<Rightarrow> bool \<Rightarrow> bool view_act" where
  "removeRowFromGroup r c groupNeedle deleteRowIfNoGroupLeft =
     andThen (asks (\<lambda>v. groupIDList v r c)) (\<lambda>ids.
       if groupNeedle \<notin> set ids then fails NotInGroup
       else
         (let newValue = keptGroups groupNeedle 0 [] ids
          in if deleteRowIfNoGroupLeft \<and> newValue = [] then thenDo (deleteRow (int r)) (give True)
             else thenDo (setValue newValue r c) (give False)))"

text \<open>
  \<open>getGroupRowsInVectors\<close>: the rows of a group, in one vector or, by priority, one vector for each
  priority; a priority of 0 counts as 100.
\<close>

definition rowInGroup :: "table_view \<Rightarrow> nat \<Rightarrow> string \<Rightarrow> nat \<Rightarrow> (table_error, bool) outcome" where
  "rowInGroup v groupIdCol groupID r =
     (if groupID = [] \<or> groupID = ''*'' \<or> groupIdCol = INVALID_INDEX then Returned True
      else isEntryInGroupCol v r groupIdCol groupID)"

definition rowEnabled :: "'d table_env \<Rightarrow> table_view \<Rightarrow> bool \<Rightarrow> nat \<Rightarrow> (table_error, bool) outcome" where
  "rowEnabled te v onlyStatusTrue r =
     (if onlyStatusTrue \<and> colStatus v \<noteq> INVALID_INDEX then getValueBool te v r (colStatus v) else Returned True)"

definition rowPriority :: "'d table_env \<Rightarrow> table_view \<Rightarrow> nat \<Rightarrow> (table_error, u64) outcome" where
  "rowPriority te v r =
     outcome_bind (getValueU64 te v r (colPriority v)) (\<lambda>p. Returned (if p \<noteq> 0 then p else 100))"

fun collectRows ::
  "(nat \<Rightarrow> (table_error, bool) outcome) \<Rightarrow> (nat \<Rightarrow> (table_error, u64) outcome) \<Rightarrow> nat list
    \<Rightarrow> (u64, nat list) omap \<Rightarrow> (table_error, (u64, nat list) omap) outcome" where
  "collectRows P prio [] m = Returned m"
| "collectRows P prio (r # rs) m =
     outcome_bind (P r) (\<lambda>b.
       if \<not> b then collectRows P prio rs m
       else outcome_bind (prio r) (\<lambda>p.
         collectRows P prio rs (omap_put p ((case omap_get m p of Some l \<Rightarrow> l | None \<Rightarrow> []) @ [r]) m)))"

definition getGroupRowsInVectors ::
  "'d table_env \<Rightarrow> table_view \<Rightarrow> nat \<Rightarrow> string \<Rightarrow> bool \<Rightarrow> bool \<Rightarrow> (table_error, nat list list) outcome" where
  "getGroupRowsInVectors te v groupIdCol groupID onlyStatusTrue orderedByPriority =
     (let byPriority = (orderedByPriority \<and> colPriority v \<noteq> INVALID_INDEX);
          P = (\<lambda>r. outcome_bind (rowInGroup v groupIdCol groupID r) (\<lambda>b.
                  if b then rowEnabled te v onlyStatusTrue r else Returned False));
          prio = (if byPriority then rowPriority te v else (\<lambda>r. Returned 0))
      in outcome_bind (collectRows P prio [0..<getNumberOfRows v] (if byPriority then [] else [(0, [])]))
           (\<lambda>m. Returned (map snd m)))"

definition getGroupRows ::
  "'d table_env \<Rightarrow> table_view \<Rightarrow> nat \<Rightarrow> string \<Rightarrow> bool \<Rightarrow> bool \<Rightarrow> (table_error, nat list) outcome" where
  "getGroupRows te v groupIdCol groupID onlyStatusTrue orderedByPriority =
     outcome_bind (getGroupRowsInVectors te v groupIdCol groupID onlyStatusTrue orderedByPriority)
       (\<lambda>vs. Returned (concat vs))"

definition getGroupRowsByPriority ::
  "'d table_env \<Rightarrow> table_view \<Rightarrow> nat \<Rightarrow> string \<Rightarrow> bool \<Rightarrow> (table_error, nat list list) outcome" where
  "getGroupRowsByPriority te v groupIdCol groupID onlyStatusTrue =
     getGroupRowsInVectors te v groupIdCol groupID onlyStatusTrue True"

end
