(* ===== verification/TableRows.thy ===== *)
theory TableRows
  imports TableViews
begin

text \<open>
  \<open>TableCore/TableView.cc\<close>: construction and copying of a view, adding and copying rows, and the generation
  of unique values for a new row.
\<close>

section \<open>Construction and copies\<close>

definition GROUP_CACHE_PREPEND :: string where "GROUP_CACHE_PREPEND = ''GroupCache_''"
definition JSON_DOC_PREPEND :: string where "JSON_DOC_PREPEND = ''JSONDoc_''"

definition lower_char :: "char \<Rightarrow> bool" where
  "lower_char c \<longleftrightarrow> CHR ''a'' \<le> c \<and> c \<le> CHR ''z''"

text \<open>\<open>TableBase::convertToCaps\<close>: \<open>tablePos\<close> is where the suffix starts, \<^term>\<open>None\<close> for \<open>npos\<close>.\<close>

definition startsWord :: "string \<Rightarrow> nat option \<Rightarrow> nat \<Rightarrow> bool" where
  "startsWord s tablePos c \<longleftrightarrow>
     Some c = tablePos \<or>
     (c \<noteq> 0 \<and> lower_char (s ! (c - 1))) \<or>
     (c \<noteq> 0 \<and> upper_char (s ! (c - 1)) \<and> c + 1 < length s \<and> lower_char (s ! (c + 1))) \<or>
     (c \<noteq> 0 \<and> is_digit (s ! (c - 1)) \<and> c + 1 < length s \<and> lower_char (s ! (c + 1)))"

definition capsChar :: "string \<Rightarrow> nat option \<Rightarrow> nat \<Rightarrow> string option" where
  "capsChar s tablePos c =
     (let x = s ! c in
      if upper_char x then Some ((if startsWord s tablePos c then ''_'' else []) @ [x])
      else if lower_char x then Some [char_of (of_char x - 32 :: nat)]
      else if is_digit x then Some [x]
      else if (take (length GROUP_CACHE_PREPEND) s = GROUP_CACHE_PREPEND \<or> take (length JSON_DOC_PREPEND) s = JSON_DOC_PREPEND) \<and>
              x = CHR ''_''
      then Some ''-'' else None)"

definition convertToCaps :: "bool \<Rightarrow> string \<Rightarrow> (table_error, string) outcome" where
  "convertToCaps isTableName str =
     (let pos = (if isTableName then findp ''Table'' str else None);
          ends = (5 \<le> length str \<and> pos = Some (length str - 5));
          s = (if isTableName \<and> \<not> ends then str @ ''Table'' else str)
      in case those (map (capsChar s pos) [0..<length s]) of
           Some parts \<Rightarrow> Returned (concat parts) | None \<Rightarrow> Raised BadTableName)"

definition newTableView :: "int \<Rightarrow> string \<Rightarrow> (table_error, table_view) outcome" where
  "newTableView now name =
     outcome_bind (convertToCaps False name) (\<lambda>caps.
       if name = [] then Raised AnonymousView
       else Returned
         \<lparr>storageData = [], tableName = caps, version = INVALID, comment = [], author = [],
          creationTime = now, lastAccessTime = 0, rowDefaultValues = [], colUID = INVALID_INDEX,
          colStatus = INVALID_INDEX, colPriority = INVALID_INDEX, colLinkGroupIDs = [],
          fillWithLooseColumnMatching = False, getSourceRawData = False, sourceRawData = [],
          sourceColumnMismatchCount = 0, sourceColumnMissingCount = 0, sourceColumnNames = {},
          columnsInfo = [], dataView = []\<rparr>)"

text \<open>The tables kept as one document: group caches and JSON documents.\<close>

definition hasPrefix :: "table_view \<Rightarrow> string \<Rightarrow> bool" where
  "hasPrefix v pre =
     (case convertToCaps False pre of Returned p \<Rightarrow> take (length p) (tableName v) = p | _ \<Rightarrow> False)"

definition customStorage :: "table_view \<Rightarrow> bool" where
  "customStorage v \<longleftrightarrow> hasPrefix v GROUP_CACHE_PREPEND \<or> hasPrefix v JSON_DOC_PREPEND"

definition copyView :: "int \<Rightarrow> table_view \<Rightarrow> u32 \<Rightarrow> string \<Rightarrow> unit view_act" where
  "copyView now src destinationVersion newAuthor =
     thenDo (modifies (\<lambda>v. v\<lparr>version := destinationVersion, comment := comment src, author := newAuthor,
               lastAccessTime := now, columnsInfo := columnsInfo src, dataView := dataView src,
               sourceColumnNames := sourceColumnNames src\<rparr>))
       (\<lambda>v. if customStorage v then give () v
            else thenDo initColUID (thenDo (modifies initRowDefaults)
                   (thenDo (attempt initColStatus) (attempt initColPriority))) v)"

definition resetView :: "table_view \<Rightarrow> table_view" where
  "resetView v = v\<lparr>version := INVALID, comment := [], author := [], columnsInfo := [], dataView := []\<rparr>"

text \<open>\<open>theDataView_.resize(nRows, std::vector<std::string>(nCols))\<close>.\<close>

definition resizeDataView :: "nat \<Rightarrow> nat \<Rightarrow> table_view \<Rightarrow> table_view" where
  "resizeDataView nRows nCols v =
     v\<lparr>dataView := take nRows (dataView v) @ replicate (nRows - getNumberOfRows v) (replicate nCols [])\<rparr>"

section \<open>Unique values\<close>

text \<open>The part of a text before its longest suffix of some characters, and that suffix.\<close>

definition stem :: "(char \<Rightarrow> bool) \<Rightarrow> string \<Rightarrow> string" where
  "stem P s = rev (dropWhile P (rev s))"

definition trailing :: "(char \<Rightarrow> bool) \<Rightarrow> string \<Rightarrow> string" where
  "trailing P s = rev (takeWhile P (rev s))"

definition plusOp :: "char \<Rightarrow> bool" where
  "plusOp c \<longleftrightarrow> c = CHR ''+'' \<or> c = CHR '' ''"

record unique_state =
  firstConflict :: bool
  maxUniqueData :: int
  baseValue :: string

definition noteConflict :: "unique_state \<Rightarrow> unique_state" where
  "noteConflict st =
     (if firstConflict st then
        st\<lparr>firstConflict := False,
           baseValue := (if baseValue st \<noteq> [] \<and> is_digit (last (baseValue st)) then baseValue st @ ''_'' else baseValue st)\<rparr>
      else st)"

text \<open>One row of the search: its value, split into base and number.\<close>

definition valueBase :: "bool \<Rightarrow> string \<Rightarrow> string" where
  "valueBase math s = (if math then stem plusOp (stem is_digit s) else stem is_digit s)"

definition valueNumber :: "string \<Rightarrow> int" where
  "valueNumber s = (case scan_unsigned (trailing is_digit s) of Some w \<Rightarrow> sint (w :: u32) | None \<Rightarrow> - 1)"

definition uniqueStep :: "bool \<Rightarrow> string \<Rightarrow> unique_state \<Rightarrow> unique_state" where
  "uniqueStep math s st =
     (if trailing is_digit s \<noteq> [] then
        (if baseValue st \<noteq> [] \<and> valueBase math s \<noteq> baseValue st then st
         else
           (let st1 = noteConflict st in
            if maxUniqueData st1 < valueNumber s
            then st1\<lparr>maxUniqueData := valueNumber s,
                     baseValue := (if baseValue st1 = [] then valueBase math s else baseValue st1)\<rparr>
            else st1))
      else if maxUniqueData st < 0 \<and> (baseValue st = [] \<or> s = baseValue st)
      then (noteConflict st)\<lparr>maxUniqueData := 0\<rparr>
      else st)"

definition newUnique :: "bool \<Rightarrow> string \<Rightarrow> unique_state \<Rightarrow> string option" where
  "newUnique math dflt st =
     (if maxUniqueData st = - 1 then Some (if baseValue st \<noteq> [] then baseValue st else dflt)
      else if maxUniqueData st = 2 ^ 31 - 1 then None
      else Some (baseValue st @ (if math then '' + '' else []) @ to_string (nat (maxUniqueData st + 1))))"

text \<open>The values the search looks at: the other rows, in a group-unique column those of the group.\<close>

fun otherValues :: "table_view \<Rightarrow> nat \<Rightarrow> (nat \<times> string) option \<Rightarrow> nat list \<Rightarrow> nat \<Rightarrow> (table_error, string list) outcome" where
  "otherValues v row grp [] c = Returned []"
| "otherValues v row grp (r # rs) c =
     (if r = row then otherValues v row grp rs c
      else
        outcome_bind (case grp of None \<Rightarrow> Returned True | Some (g, groupId) \<Rightarrow> isEntryInGroupCol v r g groupId) (\<lambda>b.
          if \<not> b then otherValues v row grp rs c
          else outcome_bind (cell v r c) (\<lambda>s.
            outcome_bind (otherValues v row grp rs c) (\<lambda>ss. Returned (s # ss)))))"

definition uniqueGroup :: "table_view \<Rightarrow> nat \<Rightarrow> string \<Rightarrow> string \<Rightarrow> (table_error, (nat \<times> string) option) outcome" where
  "uniqueGroup v c childLinkIndex groupId =
     (if typeOf v c = TYPE_UNIQUE_GROUP_DATA
      then outcome_bind (getLinkGroupIDColumn v childLinkIndex) (\<lambda>g. Returned (Some (g, groupId)))
      else Returned None)"

definition setUniqueColumnValue ::
  "nat \<Rightarrow> nat \<Rightarrow> string \<Rightarrow> bool \<Rightarrow> string \<Rightarrow> string \<Rightarrow> unit view_act" where
  "setUniqueColumnValue row c base math childLinkIndex groupId v =
     (if \<not> inTable v row c then (Raised InvalidRowCol, v)
      else
        andThen (asks (\<lambda>v. outcome_bind (uniqueGroup v c childLinkIndex groupId) (\<lambda>grp.
                   otherValues v row grp [0..<getNumberOfRows v] c))) (\<lambda>vals.
          case newUnique math (defaultValue (columnsInfo v ! c))
                 (fold (uniqueStep math) vals \<lparr>firstConflict = True, maxUniqueData = - 1, baseValue = base\<rparr>) of
            Some s \<Rightarrow> setCell row c s
          | None \<Rightarrow> crash) v)"

section \<open>Rows\<close>

text \<open>
  \<open>addRow\<close>: a row is appended, the rows from the place of the new one are copied down cell by cell, and
  the cells of the new row are filled.
\<close>

definition shiftRows :: "nat \<Rightarrow> nat \<Rightarrow> string list list \<Rightarrow> string list list" where
  "shiftRows n k rows =
     (let ext = rows @ [replicate n []] in
      map (\<lambda>i. if i \<le> k then ext ! i else take n (ext ! (i - 1)) @ drop n (ext ! i)) [0..<length ext])"

definition insertRow :: "nat \<Rightarrow> unit view_act" where
  "insertRow k v =
     (if list_all (\<lambda>row. getNumberOfColumns v \<le> length row) (drop k (dataView v))
      then (Returned (), v\<lparr>dataView := shiftRows (getNumberOfColumns v) k (dataView v)\<rparr>)
      else (Undef, v))"

definition uniqueColumn :: "table_view \<Rightarrow> nat \<Rightarrow> nat \<Rightarrow> bool" where
  "uniqueColumn v uid c \<longleftrightarrow>
     c = uid \<or> isChildLinkGroupID (typeOf v c) \<or>
     (1 < getNumberOfRows v \<and> (typeOf v c = TYPE_UNIQUE_DATA \<or> typeOf v c = TYPE_UNIQUE_GROUP_DATA))"

definition setDefault :: "nat \<Rightarrow> nat \<Rightarrow> unit view_act" where
  "setDefault row c v =
     (if c < length (rowDefaultValues v) then setCell row c (rowDefaultValues v ! c) v else (Undef, v))"

definition fillColumn :: "bool \<Rightarrow> string \<Rightarrow> string \<Rightarrow> string \<Rightarrow> nat \<Rightarrow> nat \<Rightarrow> unit view_act" where
  "fillColumn incrementUniqueData baseNameAutoUID childLinkIndex groupId row c =
     (if \<not> incrementUniqueData then setDefault row c
      else andThen (asks getColUID) (\<lambda>uid v.
        if uniqueColumn v uid c then
          (if c = uid \<or> isChildLinkGroupID (typeOf v c)
           then setUniqueColumnValue row c baseNameAutoUID False [] [] v
           else setUniqueColumnValue row c [] False childLinkIndex groupId v)
        else setDefault row c v))"

definition stampRow :: "int \<Rightarrow> string \<Rightarrow> nat \<Rightarrow> unit view_act" where
  "stampRow now auth row v =
     thenDo (setValue auth row (findColByType v TYPE_AUTHOR 0))
       (setValueTime now row (findColByType v TYPE_TIMESTAMP 0)) v"

definition addRow :: "int \<Rightarrow> string \<Rightarrow> bool \<Rightarrow> string \<Rightarrow> nat \<Rightarrow> string \<Rightarrow> string \<Rightarrow> nat view_act" where
  "addRow now auth incrementUniqueData baseNameAutoUID rowToAdd0 childLinkIndex groupId v =
     (let row = (if rowToAdd0 = INVALID_INDEX then getNumberOfRows v else rowToAdd0) in
      thenDo (insertRow row)
        (thenDo (each (fillColumn incrementUniqueData baseNameAutoUID childLinkIndex groupId row) [0..<getNumberOfColumns v])
          (thenDo (if auth \<noteq> [] then stampRow now auth row else give ()) (give row))) v)"

text \<open>\<open>copyRows\<close>: the source is another view.\<close>

definition skipColumn :: "bool \<Rightarrow> table_view \<Rightarrow> nat \<Rightarrow> bool" where
  "skipColumn unique v c \<longleftrightarrow>
     unique \<and> (typeOf v c = TYPE_UID \<or> typeOf v c = TYPE_UNIQUE_DATA \<or> typeOf v c = TYPE_UNIQUE_GROUP_DATA)"

definition copyCell :: "table_view \<Rightarrow> bool \<Rightarrow> nat \<Rightarrow> nat \<Rightarrow> nat \<Rightarrow> unit view_act" where
  "copyCell src unique srcRow row c v =
     (if skipColumn unique v c then (Returned (), v)
      else andThen (asks (\<lambda>_. cell src srcRow c)) (setCell row c) v)"

fun copyLoop :: "int \<Rightarrow> string \<Rightarrow> table_view \<Rightarrow> bool \<Rightarrow> string \<Rightarrow> nat list \<Rightarrow> nat \<Rightarrow> nat \<Rightarrow> nat view_act" where
  "copyLoop now auth src unique base [] dest ret = give ret"
| "copyLoop now auth src unique base (sr # srs) dest ret =
     andThen (addRow now auth unique base dest [] []) (\<lambda>row v.
       thenDo (each (copyCell src unique sr row) [0..<getNumberOfColumns v])
         (copyLoop now auth src unique base srs (Suc row) (if ret = INVALID_INDEX then row else ret)) v)"

definition copyRows ::
  "int \<Rightarrow> string \<Rightarrow> table_view \<Rightarrow> nat \<Rightarrow> nat \<Rightarrow> nat \<Rightarrow> bool \<Rightarrow> string \<Rightarrow> nat view_act" where
  "copyRows now auth src srcOffsetRow srcRowsToCopy destOffsetRow unique base v =
     (if getNumberOfColumns src \<noteq> getNumberOfColumns v then (Raised ColumnCountMismatch, v)
      else copyLoop now auth src unique base
             [srcOffsetRow..<min (srcOffsetRow + srcRowsToCopy) (getNumberOfRows src)] destOffsetRow INVALID_INDEX v)"

end
