(* ===== verification/TableInit.thy ===== *)
theory TableInit
  imports TableRows
begin

text \<open>
  \<open>TableView::init\<close>: the verification of a view after it was filled. It finds the special columns, checks
  the columns and the data, brings boolean values into one form and records the group columns. The
  steps are in the order of the source; a row is read before the check that it has every column.
\<close>

section \<open>Columns\<close>

definition capsColName :: "column_info \<Rightarrow> string" where
  "capsColName c =
     filter (\<lambda>x. x \<noteq> CHR ''_'') (if storageName c = ''COMMENT_DESCRIPTION'' then ''COMMENT'' else storageName c)"

definition checkColumnNames :: "unit view_act" where
  "checkColumnNames v = unless (distinct (map capsColName (columnsInfo v))) RepeatedColumnName v"

definition fixSourceColumns :: "table_view \<Rightarrow> table_view" where
  "fixSourceColumns v =
     (if sourceColumnNames v = {} then v\<lparr>sourceColumnNames := set (map storageName (columnsInfo v))\<rparr> else v)"

text \<open>The comment, author and time stamp columns: exactly one of each, at the end of the row.\<close>

definition checkTrailer :: "string \<Rightarrow> nat \<Rightarrow> (column_info \<Rightarrow> bool) \<Rightarrow> table_error \<Rightarrow> unit view_act" where
  "checkTrailer t fromEnd named e v =
     (let c = findColByType v t 0 in
      if c = INVALID_INDEX then (Raised e, v)
      else if \<not> named (columnsInfo v ! c) then (Raised e, v)
      else if findColByType v t (c + 1) \<noteq> INVALID_INDEX then (Raised e, v)
      else if c + fromEnd \<noteq> getNumberOfColumns v then (Raised e, v)
      else (Returned (), v))"

definition checkTrailers :: "unit view_act" where
  "checkTrailers =
     thenDo (checkTrailer TYPE_COMMENT 3 (\<lambda>c. cname c = COL_NAME_COMMENT) CommentColumn)
       (thenDo (checkTrailer TYPE_AUTHOR 2 (\<lambda>c. True) AuthorColumn)
         (checkTrailer TYPE_TIMESTAMP 1 (\<lambda>c. True) TimestampColumn))"

section \<open>Unique values\<close>

fun uidLoop :: "table_view \<Rightarrow> nat list \<Rightarrow> string list \<Rightarrow> (table_error, string list) outcome" where
  "uidLoop v [] seen = Returned seen"
| "uidLoop v (r # rs) seen =
     outcome_bind (cell v r (colUID v)) (\<lambda>s.
       if s \<in> set seen then Raised RepeatedUID
       else if s = [] then Raised EmptyUID
       else if \<not> list_all nameChar s then Raised BadUIDChar
       else uidLoop v rs (s # seen))"

definition checkUIDs :: "table_view \<Rightarrow> (table_error, unit) outcome" where
  "checkUIDs v =
     outcome_bind (uidLoop v [0..<getNumberOfRows v] []) (\<lambda>seen.
       if length seen \<noteq> getNumberOfRows v then Raised RepeatedUID else Returned ())"

fun distinctLoop :: "table_view \<Rightarrow> nat \<Rightarrow> nat list \<Rightarrow> string list \<Rightarrow> (table_error, string list) outcome" where
  "distinctLoop v c [] seen = Returned seen"
| "distinctLoop v c (r # rs) seen =
     outcome_bind (cell v r c) (\<lambda>s. if s \<in> set seen then Raised RepeatedUniqueData else distinctLoop v c rs (s # seen))"

text \<open>The loop \<open>while((colPos = findColByType(t, colPos + 1)) != INVALID)\<close>.\<close>

function columnsOfType :: "table_view \<Rightarrow> string \<Rightarrow> nat \<Rightarrow> nat list" where
  "columnsOfType v t start =
     (let c = findColByType v t start
      in if c = INVALID_INDEX \<or> \<not> (start \<le> c \<and> c < getNumberOfColumns v) then [] else c # columnsOfType v t (Suc c))"
  by pat_completeness auto
termination by (relation "measure (\<lambda>(v, t, start). getNumberOfColumns v - start)") auto

declare columnsOfType.simps [simp del]

fun checkUniqueData :: "table_view \<Rightarrow> nat list \<Rightarrow> (table_error, unit) outcome" where
  "checkUniqueData v [] = Returned ()"
| "checkUniqueData v (c # cs) =
     outcome_bind (distinctLoop v c [0..<getNumberOfRows v] []) (\<lambda>seen.
       if length seen \<noteq> getNumberOfRows v then Raised RepeatedUniqueData else checkUniqueData v cs)"

text \<open>
  Group-unique columns: for every group column, the members of each group and the values seen there.
\<close>

type_synonym group_sets = "(string, nat \<times> string list) omap"

definition groupEntry :: "group_sets \<Rightarrow> string \<Rightarrow> nat \<times> string list" where
  "groupEntry m g = (case omap_get m g of Some e \<Rightarrow> e | None \<Rightarrow> (0, []))"

fun groupMember :: "string \<Rightarrow> string list \<Rightarrow> group_sets \<Rightarrow> (table_error, group_sets) outcome" where
  "groupMember x [] m = Returned m"
| "groupMember x (g # gs) m =
     (if x \<in> set (snd (groupEntry m g)) then Raised RepeatedGroupData
      else groupMember x gs (omap_put g (fst (groupEntry m g) + 1, x # snd (groupEntry m g)) m))"

fun groupDataLoop :: "table_view \<Rightarrow> nat \<Rightarrow> nat \<Rightarrow> nat list \<Rightarrow> group_sets \<Rightarrow> (table_error, group_sets) outcome" where
  "groupDataLoop v c gc [] m = Returned m"
| "groupDataLoop v c gc (r # rs) m =
     outcome_bind (getSetOfGroupIDs v gc r) (\<lambda>groups.
     outcome_bind (cell v r c) (\<lambda>x.
     outcome_bind (groupMember x groups m) (groupDataLoop v c gc rs)))"

fun checkGroupData :: "table_view \<Rightarrow> (nat \<times> nat) list \<Rightarrow> (table_error, unit) outcome" where
  "checkGroupData v [] = Returned ()"
| "checkGroupData v ((c, gc) # ps) =
     outcome_bind (groupDataLoop v c gc [0..<getNumberOfRows v] []) (\<lambda>m.
       if \<not> list_all (\<lambda>(g, n, s). length s = n) m then Raised RepeatedGroupData else checkGroupData v ps)"

definition groupDataPairs :: "table_view \<Rightarrow> (nat \<times> nat) list" where
  "groupDataPairs v =
     concat (map (\<lambda>c. map (Pair c) (filter (\<lambda>gc. isGroupID (typeOf v gc)) [0..<getNumberOfColumns v]))
       (columnsOfType v TYPE_UNIQUE_GROUP_DATA 0))"

section \<open>Values\<close>

definition checkSizes :: "unit view_act" where
  "checkSizes v =
     thenDo (unless (list_all (\<lambda>row. length row = getNumberOfColumns v) (dataView v)) RowSizeMismatch)
       (unless (length (rowDefaultValues v) = getNumberOfColumns v) DefaultsMismatch) v"

definition boolForm :: "string \<Rightarrow> string \<Rightarrow> string option" where
  "boolForm t s =
     (if t = TYPE_ON_OFF then
        (if s \<in> {''1'', ''TRUE'', ''on'', ''On'', ''ON''} then Some TYPE_VALUE_ON
         else if s \<in> {''0'', ''FALSE'', ''off'', ''Off'', ''OFF''} then Some TYPE_VALUE_OFF else None)
      else if t = TYPE_TRUE_FALSE then
        (if s \<in> {''1'', ''true'', ''True'', ''TRUE''} then Some TYPE_VALUE_TRUE
         else if s \<in> {''0'', ''false'', ''False'', ''FALSE''} then Some TYPE_VALUE_FALSE else None)
      else
        (if s \<in> {''1'', ''TRUE'', ''yes'', ''Yes'', ''YES''} then Some TYPE_VALUE_YES
         else if s \<in> {''0'', ''FALSE'', ''no'', ''No'', ''NO''} then Some TYPE_VALUE_NO else None))"

text \<open>A pass over the cells of a column: each is replaced, or the exception is thrown.\<close>

definition eachRow :: "(string \<Rightarrow> (table_error, string) outcome) \<Rightarrow> nat \<Rightarrow> unit view_act" where
  "eachRow f c v =
     each (\<lambda>r. andThen (asks (\<lambda>v. outcome_bind (cell v r c) f)) (setCell r c)) [0..<getNumberOfRows v] v"

definition keepIf :: "(string \<Rightarrow> bool) \<Rightarrow> table_error \<Rightarrow> string \<Rightarrow> (table_error, string) outcome" where
  "keepIf P e s = (if P s then Returned s else Raised e)"

definition noLinkSpellings :: "string set" where
  "noLinkSpellings = {''NoLink'', ''No_Link'', ''NOLINK'', ''NO_LINK'', ''Nolink'', ''nolink'', ''noLink''}"

text \<open>The labels a column contributes: group ids, child links and child link ids.\<close>

type_synonym link_labels = "string list \<times> string list \<times> string list"

definition labelOf :: "string \<Rightarrow> (table_error, string) outcome" where
  "labelOf t = columnResult (getChildLinkIndex t)"

definition hasLinkMate :: "nat \<Rightarrow> unit view_act" where
  "hasLinkMate c = andThen (asks (\<lambda>v. getChildLink v c)) (\<lambda>_. give ())"

text \<open>
  The chain of cases on the type of a column; \<open>False\<close> in the result is a \<open>continue\<close>, which leaves out the
  limits. The second case of a child link is not reached.
\<close>

definition checkColumnType :: "nat \<Rightarrow> (bool \<times> link_labels) view_act" where
  "checkColumnType c v =
     (let t = typeOf v c; ch = dataChoices (columnsInfo v ! c); d = rowDefaultValues v ! c; none = ([], [], []) in
      if t = TYPE_FIXED_CHOICE_DATA then
        (if ch \<noteq> [] \<and> hd ch = ''arbitraryBool=1'' then (Returned (False, none), v)
         else thenDo (eachRow (keepIf (\<lambda>s. s = d \<or> s \<in> set ch) BadFixedChoice) c) (give (True, none)) v)
      else if isChildLink t then
        (if ch = [] \<or> hd ch = ''arbitraryBool=1'' then (Returned (False, none), v)
         else thenDo (eachRow (keepIf (\<lambda>s. s \<in> set (realChoices ch)) BadLinkChoice) c) (give (True, none)) v)
      else if isBoolType t then
        thenDo (eachRow (\<lambda>s. case boolForm t s of Some b \<Rightarrow> Returned b | None \<Rightarrow> Raised BadBoolValue) c) (give (True, none)) v
      else if isGroupID t then
        andThen (asks (\<lambda>_. labelOf t)) (\<lambda>i.
          thenDo (modifies (\<lambda>v. v\<lparr>colLinkGroupIDs := omap_put i c (colLinkGroupIDs v)\<rparr>)) (give (True, [i], [], []))) v
      else if isChildLink t then
        thenDo (eachRow (\<lambda>s. Returned (if s \<in> noLinkSpellings then DATATYPE_LINK_DEFAULT else s)) c)
          (andThen (asks (\<lambda>_. labelOf t)) (\<lambda>i.
            thenDo (unless (dataType (columnsInfo v ! c) = DATATYPE_STRING) BadLinkDataType)
              (thenDo (hasLinkMate c) (give (True, [], [i], []))))) v
      else if isChildLinkUID t \<or> isChildLinkGroupID t then
        andThen (asks (\<lambda>_. labelOf t)) (\<lambda>i.
          thenDo (eachRow (\<lambda>s. Returned (if s = [] then d else s)) c)
            (thenDo (hasLinkMate c) (give (True, [], [], [i])))) v
      else (Returned (True, none), v))"

text \<open>The limits of a number column.\<close>

definition limitOf :: "'d table_env \<Rightarrow> string \<Rightarrow> (table_error, 'd option) outcome" where
  "limitOf te s =
     (if s = [] then Returned None
      else outcome_bind (converted (te_variables te) True s) (\<lambda>t.
        case getDouble te t of Some d \<Rightarrow> Returned (Some d) | None \<Rightarrow> Raised BadLimit))"

definition withinLimits :: "'d table_env \<Rightarrow> 'd option \<Rightarrow> 'd option \<Rightarrow> 'd \<Rightarrow> bool" where
  "withinLimits te lo hi x \<longleftrightarrow>
     \<not> (\<exists>l \<in> set_option lo. exceeds te l x) \<and> \<not> (\<exists>h \<in> set_option hi. exceeds te x h)"

definition checkNumber :: "'d table_env \<Rightarrow> nat \<Rightarrow> unit view_act" where
  "checkNumber te c v =
     (if dataType (columnsInfo v ! c) \<noteq> DATATYPE_NUMBER then (Returned (), v)
      else
        andThen (asks (\<lambda>v. limitOf te (minValue (columnsInfo v ! c)))) (\<lambda>lo.
        andThen (asks (\<lambda>v. limitOf te (maxValue (columnsInfo v ! c)))) (\<lambda>hi.
          thenDo (unless (\<not> (\<exists>l \<in> set_option lo. \<exists>h \<in> set_option hi. exceeds te l h)) LimitsCrossed)
            (if lo = None \<and> hi = None then give ()
             else each (\<lambda>r. andThen (asks (\<lambda>v. getValueDouble te v r c)) (\<lambda>x.
                    unless (withinLimits te lo hi x) OutsideLimits)) [0..<getNumberOfRows v]))) v)"

definition checkColumn :: "'d table_env \<Rightarrow> nat \<Rightarrow> link_labels view_act" where
  "checkColumn te c =
     andThen (checkColumnType c) (\<lambda>(goOn, labels).
       if goOn then thenDo (checkNumber te c) (give labels) else give labels)"

fun columnLoop :: "'d table_env \<Rightarrow> nat list \<Rightarrow> link_labels \<Rightarrow> link_labels view_act" where
  "columnLoop te [] acc = give acc"
| "columnLoop te (c # cs) (gs, ls, is) =
     andThen (checkColumn te c) (\<lambda>(g, l, i). columnLoop te cs (gs @ g, ls @ l, is @ i))"

definition checkLabels :: "link_labels \<Rightarrow> unit view_act" where
  "checkLabels = (\<lambda>(gs, ls, is).
     thenDo (unless (distinct gs) RepeatedGroupIdLabel)
       (thenDo (unless (distinct ls) RepeatedLinkLabel) (unless (distinct is) RepeatedLinkIdLabel)))"

section \<open>The check of a view\<close>

definition initStructure :: "unit view_act" where
  "initStructure =
     thenDo checkColumnNames
      (thenDo initColUID
        (thenDo (attempt initColStatus)
          (thenDo (attempt initColPriority)
            (thenDo (modifies fixSourceColumns) checkTrailers))))"

definition initUniqueness :: "unit view_act" where
  "initUniqueness =
     thenDo (asks checkUIDs)
      (thenDo (asks (\<lambda>v. checkUniqueData v (columnsOfType v TYPE_UNIQUE_DATA 0)))
        (asks (\<lambda>v. checkGroupData v (groupDataPairs v))))"

definition initValues :: "'d table_env \<Rightarrow> unit view_act" where
  "initValues te v = andThen (columnLoop te [0..<getNumberOfColumns v] ([], [], [])) checkLabels v"

definition initContent :: "'d table_env \<Rightarrow> unit view_act" where
  "initContent te = thenDo (modifies initRowDefaults) (thenDo checkSizes (initValues te))"

definition init :: "'d table_env \<Rightarrow> unit view_act" where
  "init te = thenDo initStructure (thenDo initUniqueness (initContent te))"

end
