(* ===== verification/TableText.thy ===== *)
theory TableText
  imports TableRows TableInit StringTools
begin

text \<open>
  \<open>TableCore/TableView.cc\<close>: the text formats of a view. \<open>printJSON\<close> and \<open>fillFromJSON\<close> are what is stored in
  and loaded from the database, \<open>printCSV\<close> and \<open>fillFromCSV\<close> exchange tables with spreadsheets, and
  \<open>fillFromEncodedCSV\<close> takes the edits of a web page. The JSON reader is a scanner over characters
  with a path of open objects, arrays and keys; one definition models each case of its \<open>switch\<close>.
\<close>

section \<open>Printing\<close>

abbreviation quote :: char where "quote \<equiv> CHR 0x22"
abbreviation backslash :: char where "backslash \<equiv> CHR 0x5C"
abbreviation newline :: char where "newline \<equiv> CHR 0x0A"
abbreviation tab :: char where "tab \<equiv> CHR 0x09"

definition jsonString :: "string \<Rightarrow> string" where
  "jsonString s = quote # s @ [quote]"

fun outcomes :: "('e, 'a) outcome list \<Rightarrow> ('e, 'a list) outcome" where
  "outcomes [] = Returned []"
| "outcomes (r # rs) = outcome_bind r (\<lambda>x. outcome_bind (outcomes rs) (\<lambda>xs. Returned (x # xs)))"

text \<open>The lines of an object: names and texts, separated by commas.\<close>

definition jsonField :: "string \<Rightarrow> string \<Rightarrow> string" where
  "jsonField key text = [tab, tab] @ jsonString key @ '' : '' @ jsonString text"

fun jsonLines :: "string list \<Rightarrow> string" where
  "jsonLines [] = []"
| "jsonLines [l] = l @ [newline]"
| "jsonLines (l # m # ls) = l @ [CHR '','', newline] @ jsonLines (m # ls)"

definition jsonRow :: "string list \<Rightarrow> string list \<Rightarrow> string" where
  "jsonRow names texts = [tab, CHR ''{'', newline] @ jsonLines (map2 jsonField names texts) @ [tab, CHR ''}'']"

definition rowTexts :: "variables \<Rightarrow> table_view \<Rightarrow> nat \<Rightarrow> (table_error, string list) outcome" where
  "rowTexts vs v r = outcomes (map (\<lambda>c. getEscapedValueAsString vs v r c False False) [0..<getNumberOfColumns v])"

definition jsonText :: "table_view \<Rightarrow> string list list \<Rightarrow> string" where
  "jsonText v rows =
     [CHR ''{'', newline] @
     jsonString ''NAME'' @ '' : '' @ jsonString (tableName v) @ [CHR '','', newline] @
     jsonString ''COMMENT'' @ '' : '' @ jsonString (escapeValue False (comment v)) @ [CHR '','', newline] @
     jsonString ''AUTHOR'' @ '' : '' @ jsonString (author v) @ [CHR '','', newline] @
     jsonString ''CREATION_TIME'' @ '' : '' @ int64_to_string (creationTime v) @ [CHR '','', newline] @
     jsonString ''COL_TYPES'' @ '' : {'' @ [newline] @
     jsonLines (map (\<lambda>c. jsonField (storageName c) (dataType c)) (columnsInfo v)) @ ''},'' @ [newline] @
     jsonString ''DATA_SET'' @ '' : ['' @ [newline] @
     jsonLines (map (jsonRow (map storageName (columnsInfo v))) rows) @ [CHR '']'', newline] @ ''}''"

definition printJSON :: "variables \<Rightarrow> table_view \<Rightarrow> (table_error, string) outcome" where
  "printJSON vs v =
     (if customStorage v then Returned (storageData v)
      else outcome_bind (outcomes (map (rowTexts vs v) [0..<getNumberOfRows v])) (\<lambda>rows. Returned (jsonText v rows)))"

definition csvRecord :: "string \<Rightarrow> string list \<Rightarrow> string" where
  "csvRecord valueDelimeter texts =
     (case texts of [] \<Rightarrow> [] | t # ts \<Rightarrow> jsonString t @ concat (map (\<lambda>u. valueDelimeter @ jsonString u) ts))"

definition csvTexts :: "variables \<Rightarrow> table_view \<Rightarrow> nat \<Rightarrow> (table_error, string list) outcome" where
  "csvTexts vs v r = outcomes (map (\<lambda>c. getEscapedValueAsString vs v r c False True) [0..<getNumberOfColumns v])"

definition printCSV :: "variables \<Rightarrow> table_view \<Rightarrow> string \<Rightarrow> string \<Rightarrow> bool \<Rightarrow> (table_error, string) outcome" where
  "printCSV vs v valueDelimeter recordDelimeter includeColumnNames =
     (if customStorage v then Raised CustomStorage
      else
        outcome_bind (outcomes (map (csvTexts vs v) [0..<getNumberOfRows v])) (\<lambda>rows.
          Returned ((if includeColumnNames then csvRecord valueDelimeter (map storageName (columnsInfo v)) @ recordDelimeter else []) @
                    concat (map (\<lambda>texts. csvRecord valueDelimeter texts @ recordDelimeter) rows))))"

section \<open>The JSON scanner\<close>

text \<open>
  \<open>path\<close> holds the two vectors \<open>jsonPathType\<close> and \<open>jsonPath\<close>, which grow and shrink together; the
  innermost entry is the last. A text of up to \<open>INVALID_INDEX\<close> characters is assumed. The scanner stops by
  returning -1 or by an exception of the view.
\<close>

record json_state =
  view :: table_view
  keyEntryCountMap :: "(string, nat) omap"
  colFoundCount :: nat
  row :: nat
  colSpeedup :: nat
  startString :: nat
  startNumber :: nat
  endNumber :: nat
  bracketCount :: nat
  sqBracketCount :: nat
  inQuotes :: bool
  newString :: bool
  newValue :: bool
  extractedString :: string
  currKey :: string
  currVal :: string
  currDepth :: nat
  path :: "(char \<times> string) list"
  lastPopType :: char
  lastCol :: nat

datatype fill_stop = MinusOne | Throws table_error

type_synonym json_act = "(json_state, fill_stop, unit) act"

definition pathTop :: "json_state \<Rightarrow> (fill_stop, char) outcome" where
  "pathTop st = (if path st = [] then Undef else Returned (fst (last (path st))))"

definition pushPath :: "char \<Rightarrow> string \<Rightarrow> json_state \<Rightarrow> json_state" where
  "pushPath t s st = st\<lparr>path := path st @ [(t, s)]\<rparr>"

definition popPath :: "json_state \<Rightarrow> json_state" where
  "popPath st = st\<lparr>path := butlast (path st)\<rparr>"

definition quoteStep :: "string \<Rightarrow> nat \<Rightarrow> json_state \<Rightarrow> json_state" where
  "quoteStep json i st =
     (if 0 < i \<and> json ! (i - 1) = backslash then st
      else if \<not> inQuotes st then st\<lparr>inQuotes := True, startString := i\<rparr>
      else st\<lparr>inQuotes := False, newString := True,
              extractedString := restoreJSONStringEntities (substr json (startString st + 1) (i - startString st - 1))\<rparr>)"

definition colonStep :: "nat \<Rightarrow> json_act" where
  "colonStep i =
     andThen (asks pathTop) (\<lambda>top st.
       if top \<noteq> CHR ''{'' \<or> \<not> newString st then (Raised MinusOne, st)
       else (Returned (), (pushPath (CHR ''K'') (extractedString st) st)\<lparr>startNumber := i, newString := False, endNumber := INVALID_INDEX\<rparr>))"

text \<open>The value that ends at position \<open>i\<close>: the last string, or the text since the last separator.\<close>

definition closeValue :: "string \<Rightarrow> nat \<Rightarrow> json_state \<Rightarrow> json_state" where
  "closeValue json i st =
     (if newString st then st\<lparr>currVal := extractedString st\<rparr>
      else
        (let e = (if endNumber st = INVALID_INDEX \<or> endNumber st \<le> startNumber st then i else endNumber st)
         in st\<lparr>endNumber := e,
               currVal := (if e \<le> startNumber st then [] else substr json (startNumber st + 1) (e - startNumber st - 1))\<rparr>))"

definition keyValue :: "json_state \<Rightarrow> json_state" where
  "keyValue st = popPath (st\<lparr>currKey := snd (last (path st)), newValue := True\<rparr>)"

text \<open>The loop from the entry below the top for the last key; with one entry only it does not run.\<close>

definition arrayKey :: "json_act" where
  "arrayKey st =
     (case filter (\<lambda>e. fst e = CHR ''K'') (butlast (path st)) of
        [] \<Rightarrow> if length (path st) \<le> 1 then (Returned (), st) else (Raised MinusOne, st)
      | ks \<Rightarrow> (Returned (), st\<lparr>currKey := snd (last ks)\<rparr>))"

definition commaStep :: "string \<Rightarrow> nat \<Rightarrow> json_act" where
  "commaStep json i st0 =
     (if lastPopType st0 = CHR ''{'' then
        andThen (asks pathTop) (\<lambda>top. modifies (\<lambda>st. if top = CHR ''K'' then popPath (st\<lparr>lastPopType := CHR ''K''\<rparr>) else st)) st0
      else
        thenDo (modifies (\<lambda>st. (closeValue json i st)\<lparr>currDepth := bracketCount st\<rparr>))
          (andThen (asks pathTop) (\<lambda>top.
            thenDo
              (if top = CHR ''K'' then modifies (\<lambda>st. (keyValue st)\<lparr>lastPopType := CHR ''K''\<rparr>)
               else if top = CHR ''['' then thenDo arrayKey (modifies (\<lambda>st. st\<lparr>newValue := True\<rparr>))
               else fails MinusOne)
              (modifies (\<lambda>st. st\<lparr>startNumber := i\<rparr>)))) st0)"

definition openStep :: "json_state \<Rightarrow> json_state" where
  "openStep st = (pushPath (CHR ''{'') ''{'' st)\<lparr>lastPopType := CHR ''_'', bracketCount := Suc (bracketCount st)\<rparr>"

definition closeObject :: json_act where
  "closeObject =
     andThen (asks pathTop) (\<lambda>top st.
       if top \<noteq> CHR ''{'' then (Raised MinusOne, st)
       else (Returned (), (popPath st)\<lparr>lastPopType := CHR ''{'', bracketCount := bracketCount st - 1\<rparr>))"

definition closeStep :: "string \<Rightarrow> nat \<Rightarrow> json_act" where
  "closeStep json i st0 =
     (if lastPopType st0 = CHR ''{'' then closeObject st0
      else
        andThen (asks pathTop) (\<lambda>top.
          thenDo
            (modifies (\<lambda>st. if top = CHR ''K'' then keyValue ((closeValue json i st)\<lparr>currDepth := bracketCount st\<rparr>) else st))
            closeObject) st0)"

definition openArray :: "nat \<Rightarrow> json_state \<Rightarrow> json_state" where
  "openArray i st = (pushPath (CHR ''['') ''['' st)\<lparr>sqBracketCount := Suc (sqBracketCount st), startNumber := i\<rparr>"

definition closeArray :: "string \<Rightarrow> nat \<Rightarrow> json_act" where
  "closeArray json i =
     andThen (asks pathTop) (\<lambda>top.
       if top \<noteq> CHR ''['' then fails MinusOne
       else thenDo (modifies (\<lambda>st. (closeValue json i st)\<lparr>currDepth := bracketCount st\<rparr>))
              (thenDo arrayKey
                (modifies (\<lambda>st. (popPath st)\<lparr>lastPopType := CHR ''['', sqBracketCount := sqBracketCount st - 1\<rparr>))))"

definition blankStep :: "nat \<Rightarrow> json_state \<Rightarrow> json_state" where
  "blankStep i st =
     st\<lparr>endNumber := (if startNumber st \<noteq> INVALID_INDEX \<and> endNumber st = INVALID_INDEX then i else endNumber st), startNumber := i\<rparr>"

definition charStep :: "string \<Rightarrow> nat \<Rightarrow> json_act" where
  "charStep json i st =
     (let c = json ! i in
      if c = quote then (Returned (), quoteStep json i st)
      else if inQuotes st then (Returned (), st)
      else if c = CHR '':'' then colonStep i st
      else if c = CHR '','' then commaStep json i st
      else if c = CHR ''{'' then (Returned (), openStep st)
      else if c = CHR ''}'' then closeStep json i st
      else if c = CHR ''['' then (Returned (), openArray i st)
      else if c = CHR '']'' then closeArray json i st
      else if c = CHR '' '' \<or> c = tab \<or> c = newline \<or> c = CHR 0x0D then (Returned (), blankStep i st)
      else (Returned (), st))"

section \<open>Values read\<close>

text \<open>
  The comparison of a key with a storage name ignores underscores. \<open>keyIsMatchCommentIndex\<close> is never
  advanced, so the alternative comment key is one of letters C only. A position behind the
  terminating zero of the storage name has no meaning.
\<close>

definition charAt :: "string \<Rightarrow> nat \<Rightarrow> ('e, char) outcome" where
  "charAt s i = (if i < length s then Returned (s ! i) else if i = length s then Returned (CHR 0x00) else Undef)"

fun keyLoop :: "string \<Rightarrow> string \<Rightarrow> nat \<Rightarrow> bool \<Rightarrow> bool \<Rightarrow> ('e, bool) outcome" where
  "keyLoop storage [] si isMatch isComment = Returned (isMatch \<or> isComment)"
| "keyLoop storage (k # ks) si isMatch isComment =
     outcome_bind (charAt storage si) (\<lambda>x.
       let si1 = (if x = CHR ''_'' then Suc si else si);
           differs = (length storage \<le> si1 \<or> k \<noteq> storage ! si1)
       in if k = CHR ''_'' then keyLoop storage ks si1 isMatch isComment
          else if differs \<and> \<not> isComment then Returned False
          else keyLoop storage ks (Suc si1) (isMatch \<and> \<not> differs) (isComment \<and> k = CHR ''C''))"

text \<open>The columns tried, from \<open>colSpeedup\<close> on.\<close>

fun sourceColumn :: "table_view \<Rightarrow> string \<Rightarrow> nat list \<Rightarrow> ('e, nat option) outcome" where
  "sourceColumn v key [] = Returned None"
| "sourceColumn v key (c # cs) =
     outcome_bind (keyLoop (storageName (columnsInfo v ! c)) key 0 True True) (\<lambda>b.
       if b then Returned (Some c) else sourceColumn v key cs)"

definition onView :: "'a view_act \<Rightarrow> (json_state, fill_stop, 'a) act" where
  "onView m st =
     (case m (view st) of
        (Returned x, v) \<Rightarrow> (Returned x, st\<lparr>view := v\<rparr>)
      | (Raised e, v) \<Rightarrow> (Raised (Throws e), st\<lparr>view := v\<rparr>)
      | (Undef, v) \<Rightarrow> (Undef, st\<lparr>view := v\<rparr>))"

text \<open>\<open>addRow()\<close> with its default arguments, which reads no clock; \<open>sourceColumnNames_.emplace\<close>.\<close>

definition newRow :: json_act where
  "newRow = andThen (onView (addRow 0 [] False [] INVALID_INDEX [] [])) (\<lambda>r. modifies (\<lambda>st. st\<lparr>row := r\<rparr>))"

definition noteSourceName :: json_act where
  "noteSourceName =
     modifies (\<lambda>st. if getNumberOfRows (view st) = 1
       then st\<lparr>view := (view st)\<lparr>sourceColumnNames := insert (currKey st) (sourceColumnNames (view st))\<rparr>\<rparr> else st)"

definition storeValue :: "nat \<Rightarrow> json_act" where
  "storeValue c st =
     (if getNumberOfRows (view st) \<le> row st then (Raised (Throws InvalidRowCol), st)
      else onView (setCell (row st) c (currVal st)) st)"

definition nextColumn :: "json_state \<Rightarrow> json_state" where
  "nextColumn st = st\<lparr>colSpeedup := Suc (colSpeedup st) mod getNumberOfColumns (view st)\<rparr>"

definition looseValue :: json_act where
  "looseValue st0 =
     (let c = colSpeedup st0 in
      thenDo (if c \<le> lastCol st0 then newRow else give ())
        (thenDo (modifies (\<lambda>st. st\<lparr>lastCol := c\<rparr>)) (thenDo noteSourceName (thenDo (storeValue c) (modifies nextColumn)))) st0)"

definition countEntry :: "json_state \<Rightarrow> json_state" where
  "countEntry st =
     st\<lparr>keyEntryCountMap :=
          (case omap_get (keyEntryCountMap st) (currKey st) of
             None \<Rightarrow> omap_put (currKey st) 0 (keyEntryCountMap st)
           | Some n \<Rightarrow> omap_put (currKey st) (Suc n) (keyEntryCountMap st))\<rparr>"

definition entryCount :: "json_state \<Rightarrow> nat" where
  "entryCount st = (case omap_get (keyEntryCountMap st) (currKey st) of Some n \<Rightarrow> n | None \<Rightarrow> 0)"

definition startsRow :: "json_state \<Rightarrow> bool" where
  "startsRow st \<longleftrightarrow> length (keyEntryCountMap st) = 1 \<or> (entryCount st \<noteq> 0 \<and> row st < entryCount st)"

definition countMissing :: "json_state \<Rightarrow> json_state" where
  "countMissing st =
     (if getNumberOfRows (view st) \<noteq> 0 then
        st\<lparr>colFoundCount := 0, view := (view st)\<lparr>sourceColumnMissingCount :=
             (sourceColumnMissingCount (view st) + (getNumberOfColumns (view st) + 2 ^ 32 - colFoundCount st)) mod 2 ^ 32\<rparr>\<rparr>
      else st\<lparr>colFoundCount := 0\<rparr>)"

definition matchedValue :: "nat \<Rightarrow> json_act" where
  "matchedValue c =
     thenDo (modifies countEntry)
       (thenDo (\<lambda>st. if startsRow st then thenDo (modifies countMissing) newRow st else (Returned (), st))
         (thenDo (modifies (\<lambda>st. st\<lparr>lastCol := c, colFoundCount := Suc (colFoundCount st)\<rparr>))
           (thenDo noteSourceName (thenDo (storeValue c) (modifies nextColumn)))))"

definition mismatchedValue :: json_act where
  "mismatchedValue =
     thenDo (modifies (\<lambda>st. st\<lparr>view := (view st)\<lparr>sourceColumnMismatchCount := Suc (sourceColumnMismatchCount (view st))\<rparr>\<rparr>))
       noteSourceName"

definition dataValue :: json_act where
  "dataValue st =
     (let noc = getNumberOfColumns (view st) in
      if fillWithLooseColumnMatching (view st) then (if noc = 0 then mismatchedValue st else looseValue st)
      else
        andThen (asks (\<lambda>st. sourceColumn (view st) (currKey st) (map (\<lambda>ccnt. (ccnt + colSpeedup st) mod noc) [0..<noc])))
          (\<lambda>found. case found of Some c \<Rightarrow> matchedValue c | None \<Rightarrow> mismatchedValue) st)"

definition jsonKeys :: "string list" where
  "jsonKeys = [''NAME'', ''COMMENT'', ''AUTHOR'', ''CREATION_TIME'', ''DATA_SET'']"

text \<open>\<open>matchedKey\<close>; below the first level the key is the second entry of the path.\<close>

definition matchedKey :: "json_state \<Rightarrow> ('e, string option) outcome" where
  "matchedKey st =
     (if currDepth st = 1 then Returned (if currKey st \<in> set jsonKeys then Some (currKey st) else None)
      else if 1 < currDepth st then
        (if length (path st) < 2 then Undef
         else Returned (if snd (path st ! 1) \<in> set jsonKeys then Some (snd (path st ! 1)) else None))
      else Returned None)"

definition onMember :: "string \<Rightarrow> json_state \<Rightarrow> json_state" where
  "onMember key st =
     (if key = ''COMMENT'' then st\<lparr>view := (view st)\<lparr>comment := currVal st\<rparr>\<rparr>
      else if key = ''AUTHOR'' then st\<lparr>view := (view st)\<lparr>author := currVal st\<rparr>\<rparr>
      else if key = ''CREATION_TIME'' then st\<lparr>view := (view st)\<lparr>creationTime := strtol10 (dropWhile isspace (c_str (currVal st)))\<rparr>\<rparr>
      else st)"

definition rawValue :: "json_state \<Rightarrow> json_state" where
  "rawValue st =
     st\<lparr>view := (view st)\<lparr>sourceRawData := sourceRawData (view st) @ encodeURIComponent (currKey st) @ '','' @
                             encodeURIComponent (currVal st) @ '','',
                           sourceColumnNames := insert (currKey st) (sourceColumnNames (view st))\<rparr>\<rparr>"

definition handleValue :: "bool \<Rightarrow> json_act" where
  "handleValue rawData =
     andThen (asks matchedKey) (\<lambda>key.
       if rawData then
         modifies (\<lambda>st. if currDepth st = 1 then onMember (case key of Some k \<Rightarrow> k | None \<Rightarrow> []) st
                        else if currDepth st = 2 then rawValue st else st)
       else
         (\<lambda>st. case key of
            None \<Rightarrow> (Returned (), st)
          | Some k \<Rightarrow> if k = ''DATA_SET'' then (if currDepth st = 2 then dataValue st else (Returned (), st))
                      else (Returned (), if currDepth st = 1 then onMember k st else st)))"

definition scanChar :: "bool \<Rightarrow> string \<Rightarrow> nat \<Rightarrow> json_act" where
  "scanChar rawData json i =
     thenDo (charStep json i) (\<lambda>st.
       if newValue st
       then thenDo (handleValue rawData)
              (modifies (\<lambda>st. st\<lparr>newString := False, newValue := False, endNumber := INVALID_INDEX\<rparr>)) st
       else (Returned (), st))"

definition newScan :: "table_view \<Rightarrow> json_state" where
  "newScan v =
     \<lparr>view = v, keyEntryCountMap = [], colFoundCount = 0, row = INVALID_INDEX, colSpeedup = 0, startString = 0,
      startNumber = 0, endNumber = INVALID_INDEX, bracketCount = 0, sqBracketCount = 0, inQuotes = False,
      newString = False, newValue = False, extractedString = [], currKey = [], currVal = [], currDepth = 0, path = [],
      lastPopType = CHR ''_'', lastCol = INVALID_INDEX\<rparr>"

definition clearSource :: "table_view \<Rightarrow> table_view" where
  "clearSource v =
     v\<lparr>getSourceRawData := False, sourceRawData := (if getSourceRawData v then [] else sourceRawData v),
       sourceColumnMismatchCount := 0, sourceColumnMissingCount := 0, sourceColumnNames := {}\<rparr>"

definition finishFill :: "int view_act" where
  "finishFill v =
     (if \<not> fillWithLooseColumnMatching v \<and> 0 < sourceColumnMissingCount v then (Raised MissingColumns, v)
      else (Returned 0, fixSourceColumns v))"

definition fillFromJSON :: "string \<Rightarrow> int view_act" where
  "fillFromJSON json v =
     (if customStorage v then (Returned 0, v\<lparr>storageData := json\<rparr>)
      else
        (case each (scanChar (getSourceRawData v) json) [0..<length json] (newScan (clearSource v)) of
           (Returned _, st) \<Rightarrow> finishFill (view st)
         | (Raised MinusOne, st) \<Rightarrow> (Returned (- 1), view st)
         | (Raised (Throws e), st) \<Rightarrow> (Raised e, view st)
         | (Undef, st) \<Rightarrow> (Undef, view st)))"

section \<open>CSV\<close>

text \<open>
  \<open>fillFromCSV\<close>. Rows and columns are counted by \<open>int\<close> and passed as \<open>unsigned int\<close>. The record holds the
  local variables of the loop beside the view.
\<close>

record csv_state =
  csv_view :: table_view
  csv_row :: int
  csv_col :: nat
  csv_value :: string
  csv_quotes :: bool

type_synonym csv_act = "(csv_state, table_error, unit) act"

definition unsignedIndex :: "int \<Rightarrow> nat" where
  "unsignedIndex i = nat (i mod 2 ^ 32)"

definition onCsvView :: "'a view_act \<Rightarrow> (csv_state, table_error, 'a) act" where
  "onCsvView m st = (case m (csv_view st) of (r, v) \<Rightarrow> (r, st\<lparr>csv_view := v\<rparr>))"

definition setCurrent :: csv_act where
  "setCurrent st = onCsvView (setValueAsString (trim (csv_value st)) (unsignedIndex (csv_row st)) (csv_col st)) st"

text \<open>
  The end of a record: a row whose last value is the storage name of its column holds the names of the columns and
  is deleted. At the end of the text the message before it also reads the time stamp.
\<close>

definition endRecord :: "'d table_env \<Rightarrow> string \<Rightarrow> bool \<Rightarrow> csv_act" where
  "endRecord te auth atEnd =
     thenDo setCurrent (\<lambda>st.
       let v = csv_view st; r = unsignedIndex (csv_row st) in
       andThen (asks (\<lambda>_. getValueAsString (te_variables te) v r (csv_col st) True)) (\<lambda>shown.
         thenDo (asks (\<lambda>_. if atEnd then getValueAsString (te_variables te) v r (findColByType v TYPE_TIMESTAMP 0) True else Returned []))
           (thenDo
             (if shown = storageName (columnsInfo v ! csv_col st)
              then thenDo (onCsvView (deleteRow (csv_row st))) (modifies (\<lambda>st. st\<lparr>csv_row := csv_row st - 1\<rparr>))
              else thenDo (onCsvView (setValue auth r (findColByType v TYPE_AUTHOR 0)))
                     (onCsvView (setValueTime (te_now te) r (findColByType v TYPE_TIMESTAMP 0))))
             (modifies (\<lambda>st. st\<lparr>csv_col := 0, csv_row := csv_row st + 1, csv_value := []\<rparr>)))) st)"

definition endCell :: "'d table_env \<Rightarrow> string \<Rightarrow> csv_act" where
  "endCell te auth st0 =
     thenDo (if csv_col st0 = 0 \<and> int (getNumberOfRows (csv_view st0)) \<le> csv_row st0
             then thenDo (onCsvView (addRow (te_now te) auth False [] INVALID_INDEX [] [])) (give ()) else give ())
       (thenDo setCurrent (modifies (\<lambda>st. st\<lparr>csv_col := Suc (csv_col st), csv_value := []\<rparr>))) st0"

fun csvLoop :: "'d table_env \<Rightarrow> string \<Rightarrow> char \<Rightarrow> char \<Rightarrow> string \<Rightarrow> csv_act" where
  "csvLoop te auth rowDelimter colDelimter [] = give ()"
| "csvLoop te auth rowDelimter colDelimter (c # cs) =
     (\<lambda>st.
       if c = quote then
         (if csv_quotes st \<and> cs \<noteq> [] \<and> hd cs = quote
          then csvLoop te auth rowDelimter colDelimter (tl cs) (st\<lparr>csv_value := csv_value st @ [quote]\<rparr>)
          else csvLoop te auth rowDelimter colDelimter cs (st\<lparr>csv_quotes := \<not> csv_quotes st\<rparr>))
       else if c = rowDelimter \<and> \<not> csv_quotes st then
         thenDo (endCell te auth) (csvLoop te auth rowDelimter colDelimter cs) st
       else if (c = colDelimter \<or> c = CHR 0x0D) \<and> \<not> csv_quotes st then
         thenDo (if 0 < csv_col st then endRecord te auth False else give ()) (csvLoop te auth rowDelimter colDelimter cs) st
       else csvLoop te auth rowDelimter colDelimter cs (st\<lparr>csv_value := csv_value st @ [c]\<rparr>))"

definition fillFromCSV :: "'d table_env \<Rightarrow> string \<Rightarrow> int \<Rightarrow> string \<Rightarrow> char \<Rightarrow> char \<Rightarrow> unit view_act" where
  "fillFromCSV te data dataOffset auth rowDelimter colDelimter v =
     (case thenDo (csvLoop te auth rowDelimter colDelimter data) (\<lambda>st. if 0 < csv_col st then endRecord te auth True st else (Returned (), st))
             \<lparr>csv_view = v, csv_row = dataOffset, csv_col = 0, csv_value = [], csv_quotes = False\<rparr> of
        (Returned _, st) \<Rightarrow> init te (csv_view st)
      | (Raised e, st) \<Rightarrow> (Raised e, csv_view st)
      | (Undef, st) \<Rightarrow> (Undef, csv_view st))"

section \<open>Encoded CSV\<close>

text \<open>The texts before each delimiter; what follows the last one is not looked at.\<close>

fun beforeEach :: "char \<Rightarrow> string \<Rightarrow> string \<Rightarrow> string list" where
  "beforeEach d w [] = []"
| "beforeEach d w (c # cs) = (if c = d then w # beforeEach d [] cs else beforeEach d (w @ [c]) cs)"

definition decoded :: "string \<Rightarrow> ('e, string) outcome" where
  "decoded s = (case decodeURIComponent s of Some t \<Rightarrow> Returned t | None \<Rightarrow> Undef)"

text \<open>A cell of a number column has its variables converted, for the exceptions only.\<close>

definition storeDecoded :: "'d table_env \<Rightarrow> string \<Rightarrow> nat \<Rightarrow> nat \<Rightarrow> unit view_act" where
  "storeDecoded te s r c v =
     (if dataType (columnsInfo v ! c) = DATATYPE_NUMBER
      then thenDo (asks (\<lambda>_. converted (te_variables te) True s)) (setCell r c s) v
      else if dataType (columnsInfo v ! c) = DATATYPE_TIME
      then setValueTime (strtol10 (dropWhile isspace (c_str s))) r c v
      else setCell r c s v)"

definition setURIEncodedValue :: "'d table_env \<Rightarrow> string \<Rightarrow> nat \<Rightarrow> nat \<Rightarrow> string \<Rightarrow> bool view_act" where
  "setURIEncodedValue te value r c auth v0 =
     (if \<not> inTable v0 r c then (Raised InvalidRowCol, v0)
      else
        andThen (asks (\<lambda>_. decoded value)) (\<lambda>s.
        andThen (asks (\<lambda>v. getValueAsString (te_variables te) v r c False)) (\<lambda>original.
        thenDo (storeDecoded te s r c)
        (andThen (asks (\<lambda>v. getValueAsString (te_variables te) v r c False)) (\<lambda>shown.
          thenDo (if auth \<noteq> [] \<and> original \<noteq> shown then stampRow (te_now te) auth r else give ()) (give (original \<noteq> shown)))))) v0)"

fun encodedCells :: "'d table_env \<Rightarrow> nat \<Rightarrow> nat \<Rightarrow> bool \<Rightarrow> string list \<Rightarrow> bool view_act" where
  "encodedCells te r c changed [] = give changed"
| "encodedCells te r c changed (s # ss) =
     (\<lambda>v. if int (getNumberOfColumns v) - 2 \<le> int c then encodedCells te r (Suc c) changed ss v
          else andThen (setURIEncodedValue te s r c []) (\<lambda>b. encodedCells te r (Suc c) (changed \<or> b) ss) v)"

definition encodedRow :: "'d table_env \<Rightarrow> string \<Rightarrow> nat \<Rightarrow> string \<Rightarrow> bool view_act" where
  "encodedRow te auth r rowText v0 =
     (let added = (getNumberOfRows v0 \<le> r) in
      thenDo (if added then thenDo (addRow (te_now te) [] False [] INVALID_INDEX [] []) (give ()) else give ())
        (andThen (encodedCells te r 0 added (beforeEach (CHR '','') [] rowText)) (\<lambda>changed.
          thenDo (if auth \<noteq> [] \<and> changed then stampRow (te_now te) auth r else give ()) (give changed))) v0)"

fun encodedRows :: "'d table_env \<Rightarrow> string \<Rightarrow> nat \<Rightarrow> nat \<Rightarrow> string list \<Rightarrow> (nat \<times> nat) view_act" where
  "encodedRows te auth r modified [] = give (r, modified)"
| "encodedRows te auth r modified (t # ts) =
     andThen (encodedRow te auth r t) (\<lambda>changed. encodedRows te auth (Suc r) (if changed then Suc modified else modified) ts)"

definition deleteExcess :: "nat \<Rightarrow> nat view_act" where
  "deleteExcess r v =
     (if getNumberOfRows v \<le> r then (Returned 0, v)
      else (Returned (getNumberOfRows v - r), v\<lparr>dataView := take r (dataView v)\<rparr>))"

definition sameSource :: "table_view \<Rightarrow> bool" where
  "sameSource v \<longleftrightarrow>
     card (set (map storageName (columnsInfo v))) = card (sourceColumnNames v) \<and>
     set (map storageName (columnsInfo v)) \<subseteq> sourceColumnNames v"

definition fillFromEncodedCSV :: "'d table_env \<Rightarrow> string \<Rightarrow> nat \<Rightarrow> string \<Rightarrow> int view_act" where
  "fillFromEncodedCSV te data dataOffset auth =
     andThen (encodedRows te auth dataOffset 0 (beforeEach (CHR '';'') [] data)) (\<lambda>(r, modified).
     andThen (deleteExcess r) (\<lambda>deleted v.
       if modified + deleted = 0 \<and> sameSource v then (Returned (- 1), v)
       else
         thenDo (modifies (\<lambda>v. v\<lparr>sourceColumnNames := set (map storageName (columnsInfo v))\<rparr>))
           (thenDo (init te) (give (if modified + deleted = 0 then 1 else 0))) v))"

end
