(* ===== verification/TableProps.thy ===== *)
theory TableProps
  imports TableInit
begin

text \<open>
  What \<open>TableView::init\<close> establishes: an explicit description of the runs that return, and from it the
  invariant of an initialised table and that a second initialisation changes nothing.
\<close>

section \<open>Cells and columns\<close>

definition rectangular :: "table_view \<Rightarrow> bool" where
  "rectangular v \<longleftrightarrow> (\<forall>row \<in> set (dataView v). length row = getNumberOfColumns v)"

definition columnCells :: "table_view \<Rightarrow> nat \<Rightarrow> string list" where
  "columnCells v c = map (\<lambda>row. row ! c) (dataView v)"

definition mapColumn :: "nat \<Rightarrow> (string \<Rightarrow> string) \<Rightarrow> table_view \<Rightarrow> table_view" where
  "mapColumn c g v = v\<lparr>dataView := map (\<lambda>row. row[c := g (row ! c)]) (dataView v)\<rparr>"

lemma cell_rectangular [simp]:
  "\<lbrakk>rectangular v; r < getNumberOfRows v; c < getNumberOfColumns v\<rbrakk> \<Longrightarrow> cell v r c = Returned (dataView v ! r ! c)"
  by (simp add: cell_def rectangular_def)

lemma mapColumn_fields [simp]:
  "columnsInfo (mapColumn c g v) = columnsInfo v" "rowDefaultValues (mapColumn c g v) = rowDefaultValues v"
  "colLinkGroupIDs (mapColumn c g v) = colLinkGroupIDs v" "getNumberOfRows (mapColumn c g v) = getNumberOfRows v"
  "colUID (mapColumn c g v) = colUID v" "colStatus (mapColumn c g v) = colStatus v"
  "colPriority (mapColumn c g v) = colPriority v" "sourceColumnNames (mapColumn c g v) = sourceColumnNames v"
  by (simp_all add: mapColumn_def)

lemma rectangular_mapColumn [simp]: "rectangular v \<Longrightarrow> rectangular (mapColumn c g v)"
  by (auto simp: rectangular_def mapColumn_def)

lemma columnCells_length [simp]: "length (columnCells v c) = getNumberOfRows v"
  by (simp add: columnCells_def)

lemma columnCells_mapColumn:
  "\<lbrakk>rectangular v; c < getNumberOfColumns v; d < getNumberOfColumns v\<rbrakk> \<Longrightarrow>
    columnCells (mapColumn c g v) d = (if c = d then map g (columnCells v c) else columnCells v d)"
  by (auto simp: columnCells_def mapColumn_def rectangular_def)

lemma mapColumn_ident: "(\<And>s. s \<in> set (columnCells v c) \<Longrightarrow> g s = s) \<Longrightarrow> mapColumn c g v = v"
proof -
  assume "\<And>s. s \<in> set (columnCells v c) \<Longrightarrow> g s = s"
  then have "map (\<lambda>row. row[c := g (row ! c)]) (dataView v) = dataView v"
    by (intro map_idI) (auto simp: columnCells_def)
  then show ?thesis by (simp add: mapColumn_def)
qed

text \<open>A pass over a column replaces its cells, or stops at the first exception.\<close>

definition returned :: "('e, 'a) outcome \<Rightarrow> bool" where
  "returned r \<longleftrightarrow> (\<exists>x. r = Returned x)"

definition resultOr :: "'a \<Rightarrow> ('e, 'a) outcome \<Rightarrow> 'a" where
  "resultOr d r = (case r of Returned x \<Rightarrow> x | _ \<Rightarrow> d)"

lemma returned_simps [simp]:
  "returned (Returned x)" "\<not> returned (Raised e)" "\<not> returned Undef" "resultOr d (Returned x) = x"
  by (simp_all add: returned_def resultOr_def)

lemma rowStep_run:
  assumes "r < getNumberOfRows v" "c < length (dataView v ! r)"
  shows "andThen (asks (\<lambda>v. outcome_bind (cell v r c) f)) (setCell r c) v =
    (case f (dataView v ! r ! c) of Returned s \<Rightarrow> (Returned (), putCell r c s v) | Raised e \<Rightarrow> (Raised e, v) | Undef \<Rightarrow> (Undef, v))"
  using assms by (simp add: andThen_def asks_def cell_def setCell_def split: outcome.split)

lemma eachRow_prefix:
  assumes "rectangular v" "c < getNumberOfColumns v" "k \<le> getNumberOfRows v"
  shows "each (\<lambda>r. andThen (asks (\<lambda>v. outcome_bind (cell v r c) f)) (setCell r c)) [0..<k] v = (Returned (), v') \<longleftrightarrow>
    (\<forall>row \<in> set (take k (dataView v)). returned (f (row ! c))) \<and>
    v' = v\<lparr>dataView := map (\<lambda>row. row[c := resultOr (row ! c) (f (row ! c))]) (take k (dataView v)) @ drop k (dataView v)\<rparr>"
  using assms(3)
proof (induction k arbitrary: v')
  case 0
  then show ?case by (auto simp: run_simps)
next
  case (Suc k)
  let ?f = "\<lambda>row. row[c := resultOr (row ! c) (f (row ! c))]"
  let ?u = "v\<lparr>dataView := map ?f (take k (dataView v)) @ drop k (dataView v)\<rparr>"
  have k: "k < getNumberOfRows v" using Suc.prems by simp
  have row: "dataView ?u ! k = dataView v ! k" "k < getNumberOfRows ?u" using k by (simp_all add: nth_append)
  have len: "c < length (dataView ?u ! k)" using assms(1,2) k unfolding row(1) by (simp add: rectangular_def)
  have drop: "drop k (dataView v) = dataView v ! k # drop (Suc k) (dataView v)" using k by (simp add: Cons_nth_drop_Suc)
  have put: "putCell k c s ?u = v\<lparr>dataView := map ?f (take k (dataView v)) @ (dataView v ! k)[c := s] # drop (Suc k) (dataView v)\<rparr>" for s
    using k by (simp add: putCell_def drop list_update_append nth_append)
  have step: "andThen (asks (\<lambda>v. outcome_bind (cell v k c) f)) (setCell k c) ?u = (Returned (), v') \<longleftrightarrow>
      returned (f (dataView v ! k ! c)) \<and> v' = putCell k c (resultOr (dataView v ! k ! c) (f (dataView v ! k ! c))) ?u" for v'
    unfolding rowStep_run [OF row(2) len] row(1) by (auto split: outcome.split)
  have split: "[0..<Suc k] = [0..<k] @ [k]" by simp
  have "each (\<lambda>r. andThen (asks (\<lambda>v. outcome_bind (cell v r c) f)) (setCell r c)) [0..<Suc k] v = (Returned (), v') \<longleftrightarrow>
      (\<forall>row \<in> set (take k (dataView v)). returned (f (row ! c))) \<and>
      andThen (asks (\<lambda>v. outcome_bind (cell v k c) f)) (setCell k c) ?u = (Returned (), v')"
    unfolding split each_append using Suc.IH Suc.prems by (auto simp: run_simps)
  also have "\<dots> \<longleftrightarrow> (\<forall>row \<in> set (take (Suc k) (dataView v)). returned (f (row ! c))) \<and>
      v' = v\<lparr>dataView := map ?f (take (Suc k) (dataView v)) @ drop (Suc k) (dataView v)\<rparr>"
    unfolding step put using k by (auto simp: take_Suc_conv_app_nth)
  finally show ?case .
qed

lemma eachRow_run:
  assumes "rectangular v" "c < getNumberOfColumns v"
  shows "eachRow f c v = (Returned (), v') \<longleftrightarrow>
    (\<forall>s \<in> set (columnCells v c). returned (f s)) \<and> v' = mapColumn c (\<lambda>s. resultOr s (f s)) v"
  using eachRow_prefix [OF assms, of "getNumberOfRows v" f v']
  by (simp add: eachRow_def mapColumn_def columnCells_def)

section \<open>One column\<close>

text \<open>The classes of column types exclude each other.\<close>

lemma fixed_class: "t = TYPE_FIXED_CHOICE_DATA \<Longrightarrow> \<not> isChildLink t \<and> \<not> isGroupID t \<and> \<not> isLinkId t \<and> \<not> isBoolType t"
  by (simp add: link_classes isLinkId_def isBoolType_def tagged_def column_types)

lemma bool_class: "isBoolType t \<Longrightarrow> t \<noteq> TYPE_FIXED_CHOICE_DATA \<and> \<not> isGroupID t \<and> \<not> isLinkId t \<and> \<not> isChildLink t"
  using plain_not_linked [of t] boolType_plain [of t] fixed_class [of t] by (auto simp: isLinkId_def)

lemma link_class: "isChildLink t \<Longrightarrow> t \<noteq> TYPE_FIXED_CHOICE_DATA \<and> \<not> isGroupID t \<and> \<not> isLinkId t \<and> \<not> isBoolType t"
  using link_classes_disjoint [of t] fixed_class [of t] bool_class [of t] by (auto simp: isLinkId_def)

lemma group_class: "isGroupID t \<Longrightarrow> t \<noteq> TYPE_FIXED_CHOICE_DATA \<and> \<not> isLinkId t \<and> \<not> isBoolType t \<and> \<not> isChildLink t"
  using link_classes_disjoint [of t] fixed_class [of t] bool_class [of t] by (auto simp: isLinkId_def)

lemma ids_class: "isLinkId t \<Longrightarrow> t \<noteq> TYPE_FIXED_CHOICE_DATA \<and> \<not> isGroupID t \<and> \<not> isBoolType t \<and> \<not> isChildLink t"
  using group_class [of t] fixed_class [of t] bool_class [of t] link_class [of t] by blast

text \<open>What the check of a column demands of a cell, and the form it gives it.\<close>

definition anyChoice :: "string list \<Rightarrow> bool" where
  "anyChoice ch \<longleftrightarrow> ch \<noteq> [] \<and> hd ch = ''arbitraryBool=1''"

definition cellGood :: "column_info \<Rightarrow> string \<Rightarrow> string \<Rightarrow> bool" where
  "cellGood ci d s \<longleftrightarrow>
     (ctype ci = TYPE_FIXED_CHOICE_DATA \<longrightarrow> anyChoice (dataChoices ci) \<or> s = d \<or> s \<in> set (dataChoices ci)) \<and>
     (isChildLink (ctype ci) \<longrightarrow> dataChoices ci = [] \<or> anyChoice (dataChoices ci) \<or> s \<in> set (realChoices (dataChoices ci))) \<and>
     (isBoolType (ctype ci) \<longrightarrow> boolForm (ctype ci) s \<noteq> None)"

definition cellForm :: "column_info \<Rightarrow> string \<Rightarrow> string \<Rightarrow> string" where
  "cellForm ci d s =
     (if isBoolType (ctype ci) then (case boolForm (ctype ci) s of Some b \<Rightarrow> b | None \<Rightarrow> s)
      else if isLinkId (ctype ci) \<and> s = [] then d else s)"

definition limitsChecked :: "column_info \<Rightarrow> bool" where
  "limitsChecked ci \<longleftrightarrow>
     \<not> (ctype ci = TYPE_FIXED_CHOICE_DATA \<and> anyChoice (dataChoices ci)) \<and>
     \<not> (isChildLink (ctype ci) \<and> (dataChoices ci = [] \<or> anyChoice (dataChoices ci)))"

definition linkIndex :: "string \<Rightarrow> string" where
  "linkIndex t = resultOr [] (getChildLinkIndex t)"

definition columnLabels :: "string \<Rightarrow> link_labels" where
  "columnLabels t =
     (if isGroupID t then [linkIndex t] else [], [], if isLinkId t then [linkIndex t] else [])"

definition normColumn :: "nat \<Rightarrow> table_view \<Rightarrow> table_view" where
  "normColumn c v =
     (if isGroupID (typeOf v c) then v\<lparr>colLinkGroupIDs := omap_put (linkIndex (typeOf v c)) c (colLinkGroupIDs v)\<rparr>
      else mapColumn c (cellForm (columnsInfo v ! c) (rowDefaultValues v ! c)) v)"

lemma normColumn_fields [simp]:
  "columnsInfo (normColumn c v) = columnsInfo v" "rowDefaultValues (normColumn c v) = rowDefaultValues v"
  "getNumberOfRows (normColumn c v) = getNumberOfRows v" "colUID (normColumn c v) = colUID v"
  "colStatus (normColumn c v) = colStatus v" "colPriority (normColumn c v) = colPriority v"
  "sourceColumnNames (normColumn c v) = sourceColumnNames v"
  by (simp_all add: normColumn_def)

lemma rectangular_normColumn [simp]: "rectangular v \<Longrightarrow> rectangular (normColumn c v)"
  by (simp add: normColumn_def) (simp add: rectangular_def)

lemma columnCells_normColumn:
  assumes "rectangular v" "c < getNumberOfColumns v" "d < getNumberOfColumns v"
  shows "columnCells (normColumn c v) d =
    (if c = d then map (cellForm (columnsInfo v ! c) (rowDefaultValues v ! c)) (columnCells v c) else columnCells v d)"
proof (cases "isGroupID (typeOf v c)")
  case True
  from group_class [OF True] have "cellForm (columnsInfo v ! c) x = (\<lambda>s. s)" for x by (simp add: cellForm_def fun_eq_iff)
  then show ?thesis using True by (cases "c = d") (auto simp: normColumn_def columnCells_def)
qed (use assms in \<open>simp add: normColumn_def columnCells_mapColumn\<close>)

lemma linkLabel: "linkMember t \<Longrightarrow> labelOf t = Returned (linkIndex t)"
  by (auto simp: labelOf_def columnResult_def linkIndex_def linkMember_def getChildLinkIndex_def)

lemma hasLinkMate_run:
  "\<lbrakk>c < getNumberOfColumns v; isLinkId (typeOf v c)\<rbrakk> \<Longrightarrow>
    hasLinkMate c v = (Returned (), v') \<longleftrightarrow> linkMate v c isChildLink \<noteq> None \<and> v' = v"
  by (auto simp: hasLinkMate_def run_simps getChildLink_def isLinkId_def split: option.split)

lemma linkMate_fields: "columnsInfo u = columnsInfo v \<Longrightarrow> linkMate u c P = linkMate v c P"
  by (simp add: linkMate_def)

lemma keepIf_returned [simp]: "returned (keepIf P e s) \<longleftrightarrow> P s" "resultOr s (keepIf P e s) = s"
  by (simp_all add: keepIf_def resultOr_def)

lemma mapColumn_id [simp]: "mapColumn c (\<lambda>s. s) v = v"
  by (rule mapColumn_ident) simp

text \<open>The check of one column returns exactly when its cells are good, and then has normalised the column.\<close>

lemma checkColumnType_run:
  assumes v: "rectangular v" "c < getNumberOfColumns v"
  defines "ci \<equiv> columnsInfo v ! c" and "d \<equiv> rowDefaultValues v ! c"
  shows "checkColumnType c v = (Returned (b, labels), v') \<longleftrightarrow>
    (\<forall>s \<in> set (columnCells v c). cellGood ci d s) \<and>
    (isLinkId (ctype ci) \<longrightarrow> linkMate v c isChildLink \<noteq> None) \<and>
    b = limitsChecked ci \<and> labels = columnLabels (ctype ci) \<and> v' = normColumn c v"
proof -
  let ?t = "ctype ci"
  consider (fixed) "?t = TYPE_FIXED_CHOICE_DATA" | (link) "isChildLink ?t" | (bool) "isBoolType ?t"
    | (group) "isGroupID ?t" | (ids) "isLinkId ?t"
    | (other) "?t \<noteq> TYPE_FIXED_CHOICE_DATA" "\<not> isChildLink ?t" "\<not> isBoolType ?t" "\<not> isGroupID ?t" "\<not> isLinkId ?t"
    by blast
  then show ?thesis
  proof cases
    case fixed
    note n = fixed_class [OF fixed]
    then have id: "normColumn c v = v" unfolding normColumn_def cellForm_def ci_def by simp
    show ?thesis
      using fixed n unfolding checkColumnType_def id
      by (auto simp: Let_def ci_def [symmetric] d_def [symmetric] run_simps eachRow_run [OF v] cellGood_def limitsChecked_def
          columnLabels_def anyChoice_def)
  next
    case link
    note n = link_class [OF link]
    then have id: "normColumn c v = v" unfolding normColumn_def cellForm_def ci_def by simp
    show ?thesis
      using link n unfolding checkColumnType_def id
      by (auto simp: Let_def ci_def [symmetric] d_def [symmetric] run_simps eachRow_run [OF v] cellGood_def limitsChecked_def
          columnLabels_def anyChoice_def)
  next
    case bool
    note n = bool_class [OF bool]
    have f: "(\<lambda>s. resultOr s (case boolForm ?t s of None \<Rightarrow> Raised BadBoolValue | Some b \<Rightarrow> Returned b)) = cellForm ci d"
      using bool by (auto simp: cellForm_def resultOr_def split: option.split)
    have r: "returned (case boolForm ?t s of None \<Rightarrow> Raised BadBoolValue | Some b \<Rightarrow> Returned b) \<longleftrightarrow> boolForm ?t s \<noteq> None" for s
      by (simp split: option.split)
    show ?thesis
      using bool n unfolding checkColumnType_def normColumn_def
      by (auto simp: Let_def ci_def [symmetric] d_def [symmetric] run_simps eachRow_run [OF v] f r cellGood_def limitsChecked_def
          columnLabels_def anyChoice_def)
  next
    case group
    note n = group_class [OF group]
    have l: "labelOf ?t = Returned (linkIndex ?t)" using group by (intro linkLabel) (simp add: linkMember_def)
    show ?thesis
      using group n unfolding checkColumnType_def normColumn_def
      by (auto simp: Let_def ci_def [symmetric] d_def [symmetric] run_simps l cellGood_def limitsChecked_def columnLabels_def anyChoice_def)
  next
    case ids
    note n = ids_class [OF ids]
    have l: "labelOf ?t = Returned (linkIndex ?t)" using ids by (intro linkLabel) (auto simp: linkMember_def isLinkId_def)
    have f: "(\<lambda>s. if s = [] then d else s) = cellForm ci d"
      using ids n by (auto simp: cellForm_def)
    have m: "hasLinkMate c (mapColumn c g v) = (Returned (), u) \<longleftrightarrow> linkMate v c isChildLink \<noteq> None \<and> u = mapColumn c g v" for g u
      using hasLinkMate_run [of c "mapColumn c g v" u] ids v(2) linkMate_fields [of "mapColumn c g v" v c]
      by (simp add: ci_def)
    from ids have "isChildLinkUID ?t \<or> isChildLinkGroupID ?t" by (simp add: isLinkId_def)
    then show ?thesis
      using ids n unfolding checkColumnType_def normColumn_def
      by (auto simp: Let_def ci_def [symmetric] d_def [symmetric] run_simps eachRow_run [OF v] l f m cellGood_def limitsChecked_def
          columnLabels_def anyChoice_def)
  next
    case other
    then have id: "normColumn c v = v" unfolding normColumn_def cellForm_def ci_def by simp
    show ?thesis
      using other unfolding checkColumnType_def id
      by (auto simp: Let_def ci_def [symmetric] d_def [symmetric] isLinkId_def cellGood_def limitsChecked_def columnLabels_def)
  qed
qed

section \<open>Limits of numbers\<close>

definition cellNumber :: "'d table_env \<Rightarrow> column_info \<Rightarrow> string \<Rightarrow> (table_error, 'd) outcome" where
  "cellNumber te ci s =
     outcome_bind (chosenDefault ci s) (\<lambda>choice.
       outcome_bind (converted (te_variables te) True (case choice of Some ch \<Rightarrow> ch | None \<Rightarrow> s)) (\<lambda>t.
         case getDouble te t of Some d \<Rightarrow> Returned d | None \<Rightarrow> Raised NoNumber))"

definition numbersGood :: "'d table_env \<Rightarrow> column_info \<Rightarrow> string list \<Rightarrow> bool" where
  "numbersGood te ci cells \<longleftrightarrow>
     dataType ci = DATATYPE_NUMBER \<longrightarrow>
       (\<exists>lo hi. limitOf te (minValue ci) = Returned lo \<and> limitOf te (maxValue ci) = Returned hi \<and>
          \<not> (\<exists>l \<in> set_option lo. \<exists>h \<in> set_option hi. exceeds te l h) \<and>
          (lo = None \<and> hi = None \<or>
           (\<forall>s \<in> set cells. \<exists>x. cellNumber te ci s = Returned x \<and> withinLimits te lo hi x)))"

lemma each_asks_run:
  "each (\<lambda>r. andThen (asks (\<lambda>v. g v r)) (\<lambda>x. unless (P x) e)) rs v = (Returned (), v') \<longleftrightarrow>
    (\<forall>r \<in> set rs. \<exists>x. g v r = Returned x \<and> P x) \<and> v' = v"
proof (induction rs)
  case (Cons r rs)
  then show ?case by (cases "g v r") (auto simp: run_simps)
qed (auto simp: run_simps)

lemma getValueDouble_cell:
  assumes "rectangular v" "c < getNumberOfColumns v" "r < getNumberOfRows v" "dataType (columnsInfo v ! c) = DATATYPE_NUMBER"
  shows "getValueDouble te v r c = cellNumber te (columnsInfo v ! c) (dataView v ! r ! c)"
  using assms by (simp add: getValueDouble_def getValue_def validateValueForColumn_def cellNumber_def Let_def)

lemma checkNumber_run:
  assumes "rectangular v" "c < getNumberOfColumns v"
  shows "checkNumber te c v = (Returned (), v') \<longleftrightarrow> numbersGood te (columnsInfo v ! c) (columnCells v c) \<and> v' = v"
proof (cases "dataType (columnsInfo v ! c) = DATATYPE_NUMBER")
  case True
  have "(\<forall>r \<in> set [0..<getNumberOfRows v]. \<exists>x. getValueDouble te v r c = Returned x \<and> P x) \<longleftrightarrow>
      (\<forall>s \<in> set (columnCells v c). \<exists>x. cellNumber te (columnsInfo v ! c) s = Returned x \<and> P x)" for P
    unfolding columnCells_def all_set_conv_all_nth by (simp add: getValueDouble_cell [OF assms _ True])
  note rows = this
  show ?thesis
  proof (cases "limitOf te (minValue (columnsInfo v ! c))")
    case (Returned lo)
    note lo = this
    show ?thesis
    proof (cases "limitOf te (maxValue (columnsInfo v ! c))")
      case (Returned hi)
      show ?thesis
        unfolding checkNumber_def numbersGood_def
        by (simp add: True lo Returned run_simps each_asks_run rows del: set_upt) (auto simp: run_simps each_asks_run rows simp del: set_upt)
    qed (auto simp: checkNumber_def numbersGood_def True lo run_simps)
  qed (auto simp: checkNumber_def numbersGood_def True run_simps)
qed (auto simp: checkNumber_def numbersGood_def)

section \<open>All columns\<close>

definition columnGood :: "'d table_env \<Rightarrow> table_view \<Rightarrow> nat \<Rightarrow> bool" where
  "columnGood te v c \<longleftrightarrow>
     (let ci = columnsInfo v ! c; d = rowDefaultValues v ! c in
      (\<forall>s \<in> set (columnCells v c). cellGood ci d s) \<and>
      (isLinkId (ctype ci) \<longrightarrow> linkMate v c isChildLink \<noteq> None) \<and>
      (limitsChecked ci \<longrightarrow> numbersGood te ci (map (cellForm ci d) (columnCells v c))))"

lemma checkColumn_run:
  assumes "rectangular v" "c < getNumberOfColumns v"
  shows "checkColumn te c v = (Returned labels, v') \<longleftrightarrow>
    columnGood te v c \<and> labels = columnLabels (typeOf v c) \<and> v' = normColumn c v"
proof -
  have n: "checkNumber te c (normColumn c v) = (Returned (), u) \<longleftrightarrow>
      numbersGood te (columnsInfo v ! c) (map (cellForm (columnsInfo v ! c) (rowDefaultValues v ! c)) (columnCells v c)) \<and>
      u = normColumn c v" for u
    using checkNumber_run [of "normColumn c v" c te u] assms columnCells_normColumn [OF assms(1,2,2)] by simp
  show ?thesis
    unfolding checkColumn_def columnGood_def
    by (auto simp: run_simps checkColumnType_run [OF assms] Let_def n split: prod.splits if_splits)
qed

lemma columnGood_normColumn:
  assumes "rectangular v" "c < getNumberOfColumns v" "d < getNumberOfColumns v" "c \<noteq> d"
  shows "columnGood te (normColumn c v) d \<longleftrightarrow> columnGood te v d"
  using columnCells_normColumn [OF assms(1-3)] assms(4) linkMate_fields [of "normColumn c v" v]
  by (simp add: columnGood_def Let_def)

definition labelSum :: "table_view \<Rightarrow> nat list \<Rightarrow> link_labels" where
  "labelSum v cs =
     (concat (map (\<lambda>c. fst (columnLabels (typeOf v c))) cs), [],
      concat (map (\<lambda>c. snd (snd (columnLabels (typeOf v c)))) cs))"

lemma columnLoop_run:
  assumes "rectangular v" "\<forall>c \<in> set cs. c < getNumberOfColumns v" "distinct cs"
  shows "columnLoop te cs (gs, ls, is) v = (Returned labels, v') \<longleftrightarrow>
    (\<forall>c \<in> set cs. columnGood te v c) \<and> v' = fold normColumn cs v \<and>
    labels = (gs @ fst (labelSum v cs), ls, is @ snd (snd (labelSum v cs)))"
  using assms
proof (induction cs arbitrary: gs ls "is" v)
  case Nil
  then show ?case by (auto simp: run_simps labelSum_def)
next
  case (Cons c cs)
  from Cons.prems have c: "rectangular v" "c < getNumberOfColumns v" by auto
  have rest: "(\<forall>d \<in> set cs. columnGood te (normColumn c v) d) \<longleftrightarrow> (\<forall>d \<in> set cs. columnGood te v d)"
    using Cons.prems columnGood_normColumn [OF c] by auto
  have "columnLoop te (c # cs) (gs, ls, is) v = (Returned labels, v') \<longleftrightarrow>
      columnGood te v c \<and>
      columnLoop te cs (gs @ fst (columnLabels (typeOf v c)), ls @ fst (snd (columnLabels (typeOf v c))),
        is @ snd (snd (columnLabels (typeOf v c)))) (normColumn c v) = (Returned labels, v')"
    by (auto simp: run_simps checkColumn_run [OF c] split: prod.splits)
  also have "\<dots> \<longleftrightarrow> (\<forall>c \<in> set (c # cs). columnGood te v c) \<and> v' = fold normColumn (c # cs) v \<and>
      labels = (gs @ fst (labelSum v (c # cs)), ls, is @ snd (snd (labelSum v (c # cs))))"
    using Cons.prems rest by (subst Cons.IH) (auto simp: labelSum_def columnLabels_def)
  finally show ?case .
qed

definition groupLabels :: "table_view \<Rightarrow> string list" where
  "groupLabels v = fst (labelSum v [0..<getNumberOfColumns v])"

definition linkIdLabels :: "table_view \<Rightarrow> string list" where
  "linkIdLabels v = snd (snd (labelSum v [0..<getNumberOfColumns v]))"

definition normalised :: "table_view \<Rightarrow> table_view" where
  "normalised v = fold normColumn [0..<getNumberOfColumns v] v"

lemma initValues_run:
  assumes "rectangular v"
  shows "initValues te v = (Returned (), v') \<longleftrightarrow>
    (\<forall>c < getNumberOfColumns v. columnGood te v c) \<and> distinct (groupLabels v) \<and> distinct (linkIdLabels v) \<and> v' = normalised v"
  using columnLoop_run [OF assms, of "[0..<getNumberOfColumns v]" te "[]" "[]" "[]"]
  by (auto simp: initValues_def run_simps checkLabels_def groupLabels_def linkIdLabels_def normalised_def labelSum_def)

section \<open>Special columns\<close>

definition statusCol :: "table_view \<Rightarrow> nat" where
  "statusCol v = colStatus (snd (initColStatus v))"

definition priorityCol :: "table_view \<Rightarrow> nat" where
  "priorityCol v = colPriority (snd (initColPriority v))"

definition uidCol :: "table_view \<Rightarrow> nat" where
  "uidCol v = (if colUID v \<noteq> INVALID_INDEX then colUID v else findColByType v TYPE_UID 0)"

definition structured :: "table_view \<Rightarrow> table_view" where
  "structured v =
     fixSourceColumns (v\<lparr>colUID := uidCol v, colStatus := statusCol v, colPriority := priorityCol v\<rparr>)"

definition trailerGood :: "table_view \<Rightarrow> string \<Rightarrow> nat \<Rightarrow> (column_info \<Rightarrow> bool) \<Rightarrow> bool" where
  "trailerGood v t fromEnd named \<longleftrightarrow>
     (let c = findColByType v t 0 in
      c \<noteq> INVALID_INDEX \<and> named (columnsInfo v ! c) \<and> findColByType v t (c + 1) = INVALID_INDEX \<and>
      c + fromEnd = getNumberOfColumns v)"

definition structureGood :: "table_view \<Rightarrow> bool" where
  "structureGood v \<longleftrightarrow>
     distinct (map capsColName (columnsInfo v)) \<and> uidCol v \<noteq> INVALID_INDEX \<and>
     trailerGood v TYPE_COMMENT 3 (\<lambda>c. cname c = COL_NAME_COMMENT) \<and>
     trailerGood v TYPE_AUTHOR 2 (\<lambda>c. True) \<and> trailerGood v TYPE_TIMESTAMP 1 (\<lambda>c. True)"

lemma findColByType_fields: "columnsInfo u = columnsInfo v \<Longrightarrow> findColByType u t k = findColByType v t k"
  by (simp add: findColByType_def)

lemma trailerGood_fields: "columnsInfo u = columnsInfo v \<Longrightarrow> trailerGood u t k P = trailerGood v t k P"
  by (simp add: trailerGood_def findColByType_def)

lemma checkTrailer_run:
  "checkTrailer t k P e v = (Returned (), v') \<longleftrightarrow> trailerGood v t k P \<and> v' = v"
  by (auto simp: checkTrailer_def trailerGood_def Let_def)

lemma initColUID_run:
  "initColUID v = (Returned (), v') \<longleftrightarrow> uidCol v \<noteq> INVALID_INDEX \<and> v' = v\<lparr>colUID := uidCol v\<rparr>"
  by (auto simp: initColUID_def uidCol_def Let_def)

lemma initColStatus_snd: "snd (initColStatus v) = v\<lparr>colStatus := statusCol v\<rparr>" "fst (initColStatus v) \<noteq> Undef"
  by (auto simp: initColStatus_def statusCol_def split: option.split)

lemma initColPriority_snd: "snd (initColPriority v) = v\<lparr>colPriority := priorityCol v\<rparr>" "fst (initColPriority v) \<noteq> Undef"
  by (auto simp: initColPriority_def priorityCol_def findCol_def split: option.split)

lemma attempt_special:
  "attempt initColStatus v = (Returned (), v\<lparr>colStatus := statusCol v\<rparr>)"
  "attempt initColPriority v = (Returned (), v\<lparr>colPriority := priorityCol v\<rparr>)"
  using initColStatus_snd [of v] initColPriority_snd [of v]
  by (simp_all add: attempt_run) (metis prod.collapse)+

lemma special_fields [simp]:
  "statusCol (v\<lparr>colUID := x\<rparr>) = statusCol v"
  "priorityCol (v\<lparr>colUID := x, colStatus := y\<rparr>) = priorityCol v"
  by (auto simp: statusCol_def priorityCol_def initColStatus_def initColPriority_def findCol_def split: option.split)

lemma structured_fields [simp]:
  "columnsInfo (structured v) = columnsInfo v" "dataView (structured v) = dataView v"
  "rowDefaultValues (structured v) = rowDefaultValues v" "colUID (structured v) = uidCol v"
  "colStatus (structured v) = statusCol v" "colPriority (structured v) = priorityCol v"
  "colLinkGroupIDs (structured v) = colLinkGroupIDs v"
  by (simp_all add: structured_def fixSourceColumns_def)

lemma initStructure_run:
  "initStructure v = (Returned (), v') \<longleftrightarrow> structureGood v \<and> v' = structured v"
  unfolding initStructure_def structureGood_def
  using trailerGood_fields [of "structured v" v]
  by (auto simp: run_simps checkColumnNames_def initColUID_run attempt_special checkTrailers_def checkTrailer_run structured_def [symmetric])

section \<open>Uniqueness\<close>

definition columnReadable :: "table_view \<Rightarrow> nat \<Rightarrow> bool" where
  "columnReadable v c \<longleftrightarrow> (\<forall>row \<in> set (dataView v). c < length row)"

lemma cell_readable:
  "\<lbrakk>columnReadable v c; r < getNumberOfRows v\<rbrakk> \<Longrightarrow> cell v r c = Returned (columnCells v c ! r)"
  by (simp add: columnReadable_def cell_def columnCells_def)

lemma cell_Returned:
  "cell v r c = Returned s \<longleftrightarrow> r < getNumberOfRows v \<and> c < length (dataView v ! r) \<and> s = columnCells v c ! r"
  by (auto simp: cell_def columnCells_def)

lemma columnReadable_nth:
  "columnReadable v c \<longleftrightarrow> (\<forall>r < getNumberOfRows v. c < length (dataView v ! r))"
  by (simp add: columnReadable_def all_set_conv_all_nth)

definition uidGood :: "string \<Rightarrow> bool" where
  "uidGood s \<longleftrightarrow> s \<noteq> [] \<and> list_all nameChar s"

lemma uidLoop_run:
  assumes "\<forall>r \<in> set rs. r < getNumberOfRows v"
  shows "uidLoop v rs seen = Returned out \<longleftrightarrow>
    (\<forall>r \<in> set rs. colUID v < length (dataView v ! r) \<and> uidGood (columnCells v (colUID v) ! r)) \<and>
    distinct (map ((!) (columnCells v (colUID v))) rs) \<and> set seen \<inter> set (map ((!) (columnCells v (colUID v))) rs) = {} \<and>
    out = rev (map ((!) (columnCells v (colUID v))) rs) @ seen"
  using assms
proof (induction rs arbitrary: seen)
  case (Cons r rs)
  then show ?case
    by (auto simp: outcome_bind_Returned cell_Returned uidGood_def split: if_splits)
qed auto

lemma distinctLoop_run:
  assumes "\<forall>r \<in> set rs. r < getNumberOfRows v"
  shows "distinctLoop v c rs seen = Returned out \<longleftrightarrow>
    (\<forall>r \<in> set rs. c < length (dataView v ! r)) \<and>
    distinct (map ((!) (columnCells v c)) rs) \<and> set seen \<inter> set (map ((!) (columnCells v c)) rs) = {} \<and>
    out = rev (map ((!) (columnCells v c)) rs) @ seen"
  using assms
proof (induction rs arbitrary: seen)
  case (Cons r rs)
  then show ?case by (auto simp: outcome_bind_Returned cell_Returned split: if_splits)
qed auto

lemma map_nth_rows: "map ((!) (columnCells v c)) [0..<getNumberOfRows v] = columnCells v c"
  using map_nth [of "columnCells v c"] by simp

lemma checkUIDs_run:
  "checkUIDs v = Returned () \<longleftrightarrow>
     columnReadable v (colUID v) \<and> distinct (columnCells v (colUID v)) \<and> (\<forall>s \<in> set (columnCells v (colUID v)). uidGood s)"
  unfolding checkUIDs_def outcome_bind_Returned
  by (subst uidLoop_run) (auto simp: map_nth_rows columnReadable_nth all_set_conv_all_nth [of "columnCells v (colUID v)"])

lemma checkUniqueData_run:
  "checkUniqueData v cs = Returned () \<longleftrightarrow> (\<forall>c \<in> set cs. columnReadable v c \<and> distinct (columnCells v c))"
proof (induction cs)
  case (Cons c cs)
  then show ?case
    unfolding checkUniqueData.simps outcome_bind_Returned
    by (subst distinctLoop_run) (auto simp: map_nth_rows columnReadable_nth)
qed simp

text \<open>A search by type finds the first column of the type from a place on.\<close>

lemma findColByType_Some:
  assumes "findColByType v t k = c" "c \<noteq> INVALID_INDEX"
  shows "k \<le> c \<and> c < getNumberOfColumns v \<and> typeOf v c = t \<and> (\<forall>d. k \<le> d \<and> d < c \<longrightarrow> typeOf v d \<noteq> t)"
proof -
  obtain i where i: "index_of (\<lambda>c. ctype c = t) (drop k (columnsInfo v)) = Some i" "c = k + i"
    using assms by (auto simp: findColByType_def split: option.splits)
  then have s: "k + i < getNumberOfColumns v" "typeOf v (k + i) = t" "\<forall>j < i. typeOf v (k + j) \<noteq> t"
    by (auto simp: index_of_iff)
  have "typeOf v d \<noteq> t" if "k \<le> d" "d < c" for d
  proof -
    have "d - k < i" "k + (d - k) = d" using that i(2) by auto
    then show ?thesis using s(3) by metis
  qed
  then show ?thesis using s(1,2) i(2) by simp
qed

lemma findColByType_None:
  assumes "findColByType v t k = INVALID_INDEX" "getNumberOfColumns v \<le> INVALID_INDEX" "k \<le> d" "d < getNumberOfColumns v"
  shows "typeOf v d \<noteq> t"
proof -
  have "index_of (\<lambda>c. ctype c = t) (drop k (columnsInfo v)) = None"
  proof (cases "index_of (\<lambda>c. ctype c = t) (drop k (columnsInfo v))")
    case (Some i)
    then have "k + i < getNumberOfColumns v" by (auto simp: index_of_iff)
    then show ?thesis using assms(1,2) Some by (simp add: findColByType_def)
  qed
  then have "\<forall>c \<in> set (drop k (columnsInfo v)). ctype c \<noteq> t" by (simp add: index_of_None)
  moreover have "columnsInfo v ! d \<in> set (drop k (columnsInfo v))"
    using assms(3,4) by (auto simp: in_set_conv_nth intro: exI [of _ "d - k"])
  ultimately show ?thesis by blast
qed

lemma set_columnsOfType:
  assumes "getNumberOfColumns v \<le> INVALID_INDEX"
  shows "set (columnsOfType v t k) = {c. k \<le> c \<and> c < getNumberOfColumns v \<and> typeOf v c = t}"
  using assms
proof (induction v t k rule: columnsOfType.induct)
  case (1 v t k)
  let ?c = "findColByType v t k"
  show ?case
  proof (cases "?c = INVALID_INDEX")
    case True
    then show ?thesis using findColByType_None [OF True 1(2)] by (subst columnsOfType.simps) auto
  next
    case False
    note c = findColByType_Some [OF refl False]
    then have "set (columnsOfType v t (Suc ?c)) = {c. Suc ?c \<le> c \<and> c < getNumberOfColumns v \<and> typeOf v c = t}"
      using 1(1) [OF refl] False 1(2) by auto
    then show ?thesis using c False by (subst columnsOfType.simps) (auto simp: Let_def not_less_eq_eq [symmetric] le_less)
  qed
qed

text \<open>Group names as sets.\<close>

lemma omap_ok_setLoop: "omap_ok acc \<Longrightarrow> omap_ok (setLoop ws dl s i j rest acc)"
  by (induction ws dl s i j rest acc rule: setLoop.induct) auto

definition groupIds :: "table_view \<Rightarrow> nat \<Rightarrow> nat \<Rightarrow> string list" where
  "groupIds v gc r = getSetFromString (columnCells v gc ! r) [] pair_delimiter blank"

lemma distinct_groupIds [simp]: "distinct (groupIds v gc r)"
  using omap_ok_setLoop [of "[]"] by (simp add: groupIds_def getSetFromString_def omap_ok_def)

lemma getSetOfGroupIDs_row:
  "\<lbrakk>columnReadable v gc; r < getNumberOfRows v; getNumberOfRows v \<le> INVALID_INDEX\<rbrakk> \<Longrightarrow>
    getSetOfGroupIDs v gc r = Returned (groupIds v gc r)"
  by (simp add: getSetOfGroupIDs_def addGroupIDs_def cell_readable groupIds_def)

lemma groupEntry_put: "groupEntry (omap_put g e m) h = (if h = g then e else groupEntry m h)"
  by (simp add: groupEntry_def)

lemma groupMember_run:
  "\<lbrakk>groupMember x gs m = Returned m'; distinct gs\<rbrakk> \<Longrightarrow>
      (\<forall>g \<in> set gs. x \<notin> set (snd (groupEntry m g))) \<and>
      (\<forall>g. groupEntry m' g = (if g \<in> set gs then (fst (groupEntry m g) + 1, x # snd (groupEntry m g)) else groupEntry m g))"
proof (induction gs arbitrary: m)
  case (Cons g gs)
  let ?m = "omap_put g (fst (groupEntry m g) + 1, x # snd (groupEntry m g)) m"
  from Cons.prems have p: "x \<notin> set (snd (groupEntry m g))" "groupMember x gs ?m = Returned m'" "distinct gs" "g \<notin> set gs"
    by (auto split: if_splits)
  have e: "groupEntry ?m h = groupEntry m h" if "h \<in> set gs" for h using that p(4) by (auto simp: groupEntry_put)
  show ?case using Cons.IH [OF p(2,3)] p(1,4) e by (auto simp: groupEntry_put)
qed simp

lemma groupMember_returns:
  "\<lbrakk>distinct gs; \<forall>g \<in> set gs. x \<notin> set (snd (groupEntry m g))\<rbrakk> \<Longrightarrow> \<exists>m'. groupMember x gs m = Returned m'"
proof (induction gs arbitrary: m)
  case (Cons g gs)
  let ?m = "omap_put g (fst (groupEntry m g) + 1, x # snd (groupEntry m g)) m"
  have "\<forall>h \<in> set gs. x \<notin> set (snd (groupEntry ?m h))" using Cons.prems by (auto simp: groupEntry_put)
  then have "\<exists>m'. groupMember x gs ?m = Returned m'" using Cons.IH [of ?m] Cons.prems(1) by simp
  then show ?case using Cons.prems(2) by simp
qed simp

text \<open>The values that the members of a group have in a column, from the last row to the first.\<close>

definition groupValues :: "table_view \<Rightarrow> nat \<Rightarrow> nat \<Rightarrow> string \<Rightarrow> nat list \<Rightarrow> string list" where
  "groupValues v c gc g rs = rev (map ((!) (columnCells v c)) (filter (\<lambda>r. g \<in> set (groupIds v gc r)) rs))"

lemma groupValues_Cons:
  "groupValues v c gc g (r # rs) =
     groupValues v c gc g rs @ (if g \<in> set (groupIds v gc r) then [columnCells v c ! r] else [])"
  by (simp add: groupValues_def)

lemma groupDataLoop_Cons:
  assumes "columnReadable v c" "columnReadable v gc" "getNumberOfRows v \<le> INVALID_INDEX" "r < getNumberOfRows v"
  shows "groupDataLoop v c gc (r # rs) m =
    outcome_bind (groupMember (columnCells v c ! r) (groupIds v gc r) m) (groupDataLoop v c gc rs)"
  by (simp add: getSetOfGroupIDs_row [OF assms(2,4,3)] cell_readable [OF assms(1,4)])

lemma groupDataLoop_run:
  assumes "columnReadable v c" "columnReadable v gc" "getNumberOfRows v \<le> INVALID_INDEX" "\<forall>r \<in> set rs. r < getNumberOfRows v"
    and "\<forall>g. distinct (snd (groupEntry m g))" "groupDataLoop v c gc rs m = Returned m'"
  shows "(\<forall>g. distinct (groupValues v c gc g rs @ snd (groupEntry m g))) \<and>
    (\<forall>g. groupEntry m' g = (fst (groupEntry m g) + length (groupValues v c gc g rs), groupValues v c gc g rs @ snd (groupEntry m g)))"
  using assms(4-6)
proof (induction rs arbitrary: m)
  case Nil
  then show ?case by (simp add: groupValues_def)
next
  case (Cons r rs)
  then obtain m1 where m1: "groupMember (columnCells v c ! r) (groupIds v gc r) m = Returned m1"
      "groupDataLoop v c gc rs m1 = Returned m'"
    using groupDataLoop_Cons [OF assms(1-3), of r rs m] by (auto simp: outcome_bind_Returned simp del: groupDataLoop.simps)
  note e = groupMember_run [OF m1(1) distinct_groupIds]
  then have d: "\<forall>g. distinct (snd (groupEntry m1 g))" using Cons.prems(2) by auto
  have ih: "distinct (groupValues v c gc g rs @ snd (groupEntry m1 g))"
      "groupEntry m' g = (fst (groupEntry m1 g) + length (groupValues v c gc g rs), groupValues v c gc g rs @ snd (groupEntry m1 g))" for g
    using Cons.IH [OF _ d m1(2)] Cons.prems(1) by auto
  have "distinct (groupValues v c gc g (r # rs) @ snd (groupEntry m g)) \<and>
      groupEntry m' g = (fst (groupEntry m g) + length (groupValues v c gc g (r # rs)), groupValues v c gc g (r # rs) @ snd (groupEntry m g))" for g
    using ih [of g] e [THEN conjunct2, rule_format, of g]
    by (cases "g \<in> set (groupIds v gc r)") (auto simp: groupValues_Cons)
  then show ?case by blast
qed

lemma groupDataLoop_returns:
  assumes "columnReadable v c" "columnReadable v gc" "getNumberOfRows v \<le> INVALID_INDEX" "\<forall>r \<in> set rs. r < getNumberOfRows v"
    and "\<forall>g. distinct (groupValues v c gc g rs @ snd (groupEntry m g))"
  shows "\<exists>m'. groupDataLoop v c gc rs m = Returned m'"
  using assms(4,5)
proof (induction rs arbitrary: m)
  case (Cons r rs)
  have "\<forall>g \<in> set (groupIds v gc r). columnCells v c ! r \<notin> set (snd (groupEntry m g))"
    using Cons.prems(2) by (auto simp: groupValues_Cons)
  then obtain m1 where m1: "groupMember (columnCells v c ! r) (groupIds v gc r) m = Returned m1"
    using groupMember_returns [OF distinct_groupIds] by blast
  have "\<forall>g. distinct (groupValues v c gc g rs @ snd (groupEntry m1 g))"
    using Cons.prems(2) groupMember_run [OF m1 distinct_groupIds] by (auto simp: groupValues_Cons split: if_splits)
  then show ?case
    using Cons.IH [of m1] Cons.prems(1) m1 groupDataLoop_Cons [OF assms(1-3), of r rs m] by (simp del: groupDataLoop.simps)
qed simp

lemma groupDataLoop_ok: "\<lbrakk>groupDataLoop v c gc rs m = Returned m'; omap_ok m\<rbrakk> \<Longrightarrow> omap_ok m'"
proof (induction rs arbitrary: m)
  case (Cons r rs)
  have "groupMember x gs m = Returned m1 \<Longrightarrow> omap_ok m \<Longrightarrow> omap_ok m1" for x gs m m1
    by (induction gs arbitrary: m) (auto split: if_splits)
  then show ?case using Cons by (auto simp: outcome_bind_Returned)
qed simp

definition groupsGood :: "table_view \<Rightarrow> nat \<times> nat \<Rightarrow> bool" where
  "groupsGood v = (\<lambda>(c, gc). \<forall>g. distinct (groupValues v c gc g [0..<getNumberOfRows v]))"

lemma checkGroupData_run:
  assumes "getNumberOfRows v \<le> INVALID_INDEX" "\<forall>(c, gc) \<in> set ps. columnReadable v c \<and> columnReadable v gc"
  shows "checkGroupData v ps = Returned () \<longleftrightarrow> (\<forall>p \<in> set ps. groupsGood v p)"
  using assms(2)
proof (induction ps)
  case (Cons p ps)
  obtain c gc where p: "p = (c, gc)" by force
  then have rd: "columnReadable v c" "columnReadable v gc" using Cons.prems by auto
  have e: "groupEntry [] g = (0, [])" for g by (simp add: groupEntry_def)
  let ?loop = "groupDataLoop v c gc [0..<getNumberOfRows v] []"
  have counts: "list_all (\<lambda>(g, n, s). length s = n) m" if m: "?loop = Returned m" for m
  proof -
    have ok: "omap_ok m" using groupDataLoop_ok [OF m] by simp
    have ent: "groupEntry m g = (length (groupValues v c gc g [0..<getNumberOfRows v]), groupValues v c gc g [0..<getNumberOfRows v])" for g
      using groupDataLoop_run [OF rd assms(1) _ _ m] by (simp add: e)
    have "length s = n" if "(g, n, s) \<in> set m" for g n s
      using ent [of g] that omap_ok_mem [OF ok, of g "(n, s)"] by (simp add: groupEntry_def)
    then show ?thesis by (auto simp: list_all_iff)
  qed
  have "returned ?loop \<longleftrightarrow> groupsGood v p"
    using groupDataLoop_run [OF rd assms(1), of "[0..<getNumberOfRows v]" "[]"]
      groupDataLoop_returns [OF rd assms(1), of "[0..<getNumberOfRows v]" "[]"]
    by (auto simp: returned_def groupsGood_def p e)
  moreover have "checkGroupData v (p # ps) = Returned () \<longleftrightarrow> returned ?loop \<and> checkGroupData v ps = Returned ()"
    using counts by (auto simp: p outcome_bind_Returned returned_def)
  ultimately show ?case using Cons by auto
qed simp

section \<open>The runs of \<open>init\<close> that return\<close>

definition uniqueGood :: "table_view \<Rightarrow> bool" where
  "uniqueGood v \<longleftrightarrow>
     colUID v < getNumberOfColumns v \<and> distinct (columnCells v (colUID v)) \<and> (\<forall>s \<in> set (columnCells v (colUID v)). uidGood s) \<and>
     (\<forall>c < getNumberOfColumns v. typeOf v c = TYPE_UNIQUE_DATA \<longrightarrow> distinct (columnCells v c)) \<and>
     (\<forall>c < getNumberOfColumns v. \<forall>gc < getNumberOfColumns v.
        typeOf v c = TYPE_UNIQUE_GROUP_DATA \<and> isGroupID (typeOf v gc) \<longrightarrow> groupsGood v (c, gc))"

text \<open>
  The views that the functions of the class build: sizes within the range of \<open>unsigned int\<close>, and special
  columns that, once found, are what they should be.
\<close>

definition sized :: "table_view \<Rightarrow> bool" where
  "sized v \<longleftrightarrow> getNumberOfRows v \<le> INVALID_INDEX \<and> getNumberOfColumns v \<le> INVALID_INDEX \<and>
     (colUID v \<noteq> INVALID_INDEX \<longrightarrow> colUID v < getNumberOfColumns v \<and> typeOf v (colUID v) = TYPE_UID) \<and>
     omap_ok (colLinkGroupIDs v)"

lemma readable_rectangular: "\<lbrakk>rectangular v; c < getNumberOfColumns v\<rbrakk> \<Longrightarrow> columnReadable v c"
  by (simp add: rectangular_def columnReadable_def)

lemma uidCol_range:
  "\<lbrakk>sized v; uidCol v \<noteq> INVALID_INDEX\<rbrakk> \<Longrightarrow> uidCol v < getNumberOfColumns v \<and> typeOf v (uidCol v) = TYPE_UID"
  using findColByType_Some [of v TYPE_UID 0] by (auto simp: uidCol_def sized_def split: if_splits)

lemma initUniqueness_run:
  assumes "rectangular v" "sized v" "colUID v < getNumberOfColumns v"
  shows "initUniqueness v = (Returned (), v') \<longleftrightarrow> uniqueGood v \<and> v' = v"
proof -
  have n: "getNumberOfColumns v \<le> INVALID_INDEX" "getNumberOfRows v \<le> INVALID_INDEX" using assms(2) by (auto simp: sized_def)
  note rd = readable_rectangular [OF assms(1)]
  have ps: "set (groupDataPairs v) = {(c, gc). c < getNumberOfColumns v \<and> gc < getNumberOfColumns v \<and>
      typeOf v c = TYPE_UNIQUE_GROUP_DATA \<and> isGroupID (typeOf v gc)}"
    by (auto simp: groupDataPairs_def set_columnsOfType [OF n(1)])
  then have "checkGroupData v (groupDataPairs v) = Returned () \<longleftrightarrow>
      (\<forall>c < getNumberOfColumns v. \<forall>gc < getNumberOfColumns v.
        typeOf v c = TYPE_UNIQUE_GROUP_DATA \<and> isGroupID (typeOf v gc) \<longrightarrow> groupsGood v (c, gc))"
    using rd by (subst checkGroupData_run [OF n(2)]) auto
  moreover have "checkUniqueData v (columnsOfType v TYPE_UNIQUE_DATA 0) = Returned () \<longleftrightarrow>
      (\<forall>c < getNumberOfColumns v. typeOf v c = TYPE_UNIQUE_DATA \<longrightarrow> distinct (columnCells v c))"
    using rd by (auto simp: checkUniqueData_run set_columnsOfType [OF n(1)])
  ultimately show ?thesis
    using rd [OF assms(3)] assms(3)
    by (auto simp: initUniqueness_def run_simps checkUIDs_run uniqueGood_def eq_commute [of "Returned ()"])
qed

definition valuesGood :: "'d table_env \<Rightarrow> table_view \<Rightarrow> bool" where
  "valuesGood te v \<longleftrightarrow>
     (\<forall>c < getNumberOfColumns v. columnGood te v c) \<and> distinct (groupLabels v) \<and> distinct (linkIdLabels v)"

lemma initRowDefaults_fields [simp]:
  "columnsInfo (initRowDefaults v) = columnsInfo v" "dataView (initRowDefaults v) = dataView v"
  "rowDefaultValues (initRowDefaults v) = map rowDefault (columnsInfo v)" "colUID (initRowDefaults v) = colUID v"
  "colStatus (initRowDefaults v) = colStatus v" "colPriority (initRowDefaults v) = colPriority v"
  "sourceColumnNames (initRowDefaults v) = sourceColumnNames v" "colLinkGroupIDs (initRowDefaults v) = colLinkGroupIDs v"
  by (simp_all add: initRowDefaults_def)

lemma checkSizes_run:
  "checkSizes v = (Returned (), v') \<longleftrightarrow> rectangular v \<and> length (rowDefaultValues v) = getNumberOfColumns v \<and> v' = v"
  by (auto simp: checkSizes_def run_simps rectangular_def list_all_iff)

definition prepared :: "table_view \<Rightarrow> table_view" where
  "prepared v = initRowDefaults (structured v)"

lemma initContent_run:
  "initContent te v = (Returned (), v') \<longleftrightarrow>
     rectangular v \<and> valuesGood te (initRowDefaults v) \<and> v' = normalised (initRowDefaults v)"
proof -
  have "rectangular (initRowDefaults v) = rectangular v" by (simp add: rectangular_def)
  then show ?thesis
    using initValues_run [of "initRowDefaults v" te v']
    by (auto simp: initContent_def run_simps checkSizes_run valuesGood_def)
qed

lemma init_run:
  assumes "sized v"
  shows "init te v = (Returned (), v') \<longleftrightarrow>
    structureGood v \<and> rectangular v \<and> uniqueGood (structured v) \<and> valuesGood te (prepared v) \<and> v' = normalised (prepared v)"
proof (cases "structureGood v \<and> rectangular v")
  case True
  then have "uidCol v < getNumberOfColumns v" "typeOf v (uidCol v) = TYPE_UID"
    using uidCol_range assms by (simp_all add: structureGood_def)
  moreover have "rectangular (structured v)" "sized (structured v)"
    using True assms calculation by (simp_all add: rectangular_def sized_def)
  ultimately show ?thesis
    using True initUniqueness_run [of "structured v"]
    by (auto simp: init_def andThen_Returned initStructure_run initContent_run prepared_def)
next
  case False
  have "structureGood v \<and> rectangular v" if "init te v = (Returned (), v')"
  proof -
    from that obtain t where t: "structureGood v" "initUniqueness (structured v) = (Returned (), t)" "rectangular t"
      by (auto simp: init_def andThen_Returned initStructure_run initContent_run)
    then have "t = structured v" by (auto simp: initUniqueness_def run_simps)
    then show ?thesis using t by (simp add: rectangular_def)
  qed
  then show ?thesis using False by blast
qed

text \<open>The state after the pass over the columns.\<close>

lemma fold_normColumn_fields [simp]:
  "columnsInfo (fold normColumn cs v) = columnsInfo v" "rowDefaultValues (fold normColumn cs v) = rowDefaultValues v"
  "getNumberOfRows (fold normColumn cs v) = getNumberOfRows v" "colUID (fold normColumn cs v) = colUID v"
  "colStatus (fold normColumn cs v) = colStatus v" "colPriority (fold normColumn cs v) = colPriority v"
  "sourceColumnNames (fold normColumn cs v) = sourceColumnNames v"
  by (induction cs arbitrary: v) simp_all

lemma fold_normColumn_rectangular [simp]: "rectangular v \<Longrightarrow> rectangular (fold normColumn cs v)"
  by (induction cs arbitrary: v) simp_all

lemma fold_normColumn_cells:
  assumes "rectangular v" "\<forall>c \<in> set cs. c < getNumberOfColumns v" "distinct cs" "d < getNumberOfColumns v"
  shows "columnCells (fold normColumn cs v) d =
    (if d \<in> set cs then map (cellForm (columnsInfo v ! d) (rowDefaultValues v ! d)) (columnCells v d) else columnCells v d)"
  using assms
proof (induction cs arbitrary: v)
  case (Cons c cs)
  then show ?case using Cons.IH [of "normColumn c v"] columnCells_normColumn [of v c d] by auto
qed simp

lemma normalised_fields [simp]:
  "columnsInfo (normalised v) = columnsInfo v" "rowDefaultValues (normalised v) = rowDefaultValues v"
  "getNumberOfRows (normalised v) = getNumberOfRows v" "colUID (normalised v) = colUID v"
  "colStatus (normalised v) = colStatus v" "colPriority (normalised v) = colPriority v"
  "sourceColumnNames (normalised v) = sourceColumnNames v" "rectangular v \<Longrightarrow> rectangular (normalised v)"
  by (simp_all add: normalised_def)

lemma normalised_cells:
  "\<lbrakk>rectangular v; d < getNumberOfColumns v\<rbrakk> \<Longrightarrow>
    columnCells (normalised v) d = map (cellForm (columnsInfo v ! d) (rowDefaultValues v ! d)) (columnCells v d)"
  by (simp add: normalised_def fold_normColumn_cells)

lemma fold_normColumn_groups:
  "colLinkGroupIDs (fold normColumn cs v) =
     fold (\<lambda>c m. if isGroupID (typeOf v c) then omap_put (linkIndex (typeOf v c)) c m else m) cs (colLinkGroupIDs v)"
  by (induction cs arbitrary: v) (auto simp: normColumn_def intro!: fold_cong)

section \<open>Initialised tables\<close>

definition cellTyped :: "column_info \<Rightarrow> string \<Rightarrow> string \<Rightarrow> bool" where
  "cellTyped ci d s \<longleftrightarrow>
     (ctype ci = TYPE_ON_OFF \<longrightarrow> s = TYPE_VALUE_ON \<or> s = TYPE_VALUE_OFF) \<and>
     (ctype ci = TYPE_TRUE_FALSE \<longrightarrow> s = TYPE_VALUE_TRUE \<or> s = TYPE_VALUE_FALSE) \<and>
     (ctype ci = TYPE_YES_NO \<longrightarrow> s = TYPE_VALUE_YES \<or> s = TYPE_VALUE_NO) \<and>
     (ctype ci = TYPE_FIXED_CHOICE_DATA \<longrightarrow> anyChoice (dataChoices ci) \<or> s = d \<or> s \<in> set (dataChoices ci)) \<and>
     (isChildLink (ctype ci) \<longrightarrow> dataChoices ci = [] \<or> anyChoice (dataChoices ci) \<or> s \<in> set (realChoices (dataChoices ci))) \<and>
     (isLinkId (ctype ci) \<longrightarrow> s \<noteq> [] \<or> d = [])"

definition trailed :: "table_view \<Rightarrow> bool" where
  "trailed v \<longleftrightarrow>
     (let n = getNumberOfColumns v in
      3 \<le> n \<and> typeOf v (n - 3) = TYPE_COMMENT \<and> cname (columnsInfo v ! (n - 3)) = COL_NAME_COMMENT \<and>
      typeOf v (n - 2) = TYPE_AUTHOR \<and> typeOf v (n - 1) = TYPE_TIMESTAMP \<and>
      (\<forall>c < n - 3. typeOf v c \<notin> {TYPE_COMMENT, TYPE_AUTHOR, TYPE_TIMESTAMP}))"

definition table_ok :: "'d table_env \<Rightarrow> table_view \<Rightarrow> bool" where
  "table_ok te v \<longleftrightarrow>
     sized v \<and> rectangular v \<and> rowDefaultValues v = map rowDefault (columnsInfo v) \<and>
     distinct (map capsColName (columnsInfo v)) \<and> trailed v \<and> uniqueGood v \<and>
     (\<forall>c < getNumberOfColumns v. \<forall>s \<in> set (columnCells v c). cellTyped (columnsInfo v ! c) (rowDefaultValues v ! c) s) \<and>
     (\<forall>c < getNumberOfColumns v. limitsChecked (columnsInfo v ! c) \<longrightarrow> numbersGood te (columnsInfo v ! c) (columnCells v c)) \<and>
     (\<forall>c < getNumberOfColumns v. isLinkId (typeOf v c) \<longrightarrow> linkMate v c isChildLink \<noteq> None) \<and>
     (\<forall>c < getNumberOfColumns v. isGroupID (typeOf v c) \<longrightarrow> omap_get (colLinkGroupIDs v) (linkIndex (typeOf v c)) = Some c)"

lemma boolForm_cases:
  "boolForm t s = Some b \<Longrightarrow> isBoolType t \<Longrightarrow>
     boolForm t b = Some b \<and>
     (t = TYPE_ON_OFF \<longrightarrow> b = TYPE_VALUE_ON \<or> b = TYPE_VALUE_OFF) \<and>
     (t = TYPE_TRUE_FALSE \<longrightarrow> b = TYPE_VALUE_TRUE \<or> b = TYPE_VALUE_FALSE) \<and>
     (t = TYPE_YES_NO \<longrightarrow> b = TYPE_VALUE_YES \<or> b = TYPE_VALUE_NO)"
  unfolding isBoolType_def
  by (elim disjE) (auto simp: boolForm_def column_types bool_values split: if_splits)

lemma cellForm_good:
  assumes "cellGood ci d s"
  shows "cellGood ci d (cellForm ci d s)" "cellTyped ci d (cellForm ci d s)" "cellForm ci d (cellForm ci d s) = cellForm ci d s"
proof -
  consider (bool) b where "isBoolType (ctype ci)" "boolForm (ctype ci) s = Some b" | (other) "\<not> isBoolType (ctype ci)"
    using assms by (auto simp: cellGood_def)
  then have "cellGood ci d (cellForm ci d s) \<and> cellTyped ci d (cellForm ci d s) \<and> cellForm ci d (cellForm ci d s) = cellForm ci d s"
  proof cases
    case bool
    then show ?thesis
      using boolForm_cases [OF bool(2,1)] bool_class [OF bool(1)]
      by (auto simp: cellForm_def cellGood_def cellTyped_def)
  next
    case other
    then have n: "ctype ci \<noteq> TYPE_ON_OFF" "ctype ci \<noteq> TYPE_TRUE_FALSE" "ctype ci \<noteq> TYPE_YES_NO" by (auto simp: isBoolType_def)
    show ?thesis
      using assms other n ids_class [of "ctype ci"] by (auto simp: cellForm_def cellGood_def cellTyped_def)
  qed
  then show "cellGood ci d (cellForm ci d s)" "cellTyped ci d (cellForm ci d s)" "cellForm ci d (cellForm ci d s) = cellForm ci d s"
    by blast+
qed

lemma plain_data_class:
  "t \<in> {TYPE_UID, TYPE_UNIQUE_DATA, TYPE_UNIQUE_GROUP_DATA} \<Longrightarrow> \<not> isBoolType t \<and> \<not> isLinkId t"
  using plain_not_linked [of t] by (auto simp: isLinkId_def isBoolType_def plain_type_def column_types)

lemma normalised_same:
  assumes "rectangular v" "c < getNumberOfColumns v" "\<not> isBoolType (typeOf v c)" "\<not> isLinkId (typeOf v c)"
  shows "columnCells (normalised v) c = columnCells v c"
  unfolding normalised_cells [OF assms(1,2)] using assms(3,4) by (intro map_idI) (simp add: cellForm_def)

lemma uniqueGood_normalised:
  assumes "rectangular v" "uniqueGood v" "typeOf v (colUID v) = TYPE_UID"
  shows "uniqueGood (normalised v)"
proof -
  have same: "columnCells (normalised v) c = columnCells v c"
    if "c < getNumberOfColumns v" "typeOf v c \<in> {TYPE_UID, TYPE_UNIQUE_DATA, TYPE_UNIQUE_GROUP_DATA} \<or> isGroupID (typeOf v c)" for c
    using normalised_same [OF assms(1) that(1)] that(2) plain_data_class [of "typeOf v c"] group_class [of "typeOf v c"] by blast
  have "groupsGood (normalised v) (c, gc) = groupsGood v (c, gc)"
    if "c < getNumberOfColumns v" "gc < getNumberOfColumns v" "typeOf v c = TYPE_UNIQUE_GROUP_DATA" "isGroupID (typeOf v gc)" for c gc
    using same [of c] same [of gc] that by (simp add: groupsGood_def groupValues_def groupIds_def)
  then show ?thesis using assms(2,3) same by (simp add: uniqueGood_def)
qed

lemma structureGood_trailed:
  assumes "structureGood v" "sized v"
  shows "trailed v"
proof -
  let ?n = "getNumberOfColumns v"
  have n: "?n \<le> INVALID_INDEX" using assms(2) by (simp add: sized_def)
  have only: "c + k = ?n \<and> k \<le> ?n" if "trailerGood v t k P" "c < ?n" "typeOf v c = t" "k \<noteq> 0" for t k P c
  proof -
    let ?c = "findColByType v t 0"
    have g: "?c \<noteq> INVALID_INDEX" "findColByType v t (?c + 1) = INVALID_INDEX" "?c + k = ?n"
      using that(1) by (auto simp: trailerGood_def Let_def)
    have "\<not> c < ?c" using findColByType_Some [OF refl g(1)] that(3) by auto
    moreover have "\<not> ?c < c" using findColByType_None [OF g(2) n, of c] that(2,3) by auto
    ultimately show ?thesis using g(3) by auto
  qed
  have at: "k \<le> ?n \<and> typeOf v (?n - k) = t \<and> P (columnsInfo v ! (?n - k))" if "trailerGood v t k P" "k \<noteq> 0" for t k P
  proof -
    have g: "findColByType v t 0 \<noteq> INVALID_INDEX" "P (columnsInfo v ! findColByType v t 0)" "findColByType v t 0 + k = ?n"
      using that(1) by (auto simp: trailerGood_def Let_def)
    then have "findColByType v t 0 = ?n - k" "k \<le> ?n" by auto
    then show ?thesis using findColByType_Some [OF refl g(1)] g(2) by simp
  qed
  note t = assms(1) [unfolded structureGood_def]
  have "typeOf v c \<noteq> TYPE_COMMENT \<and> typeOf v c \<noteq> TYPE_AUTHOR \<and> typeOf v c \<noteq> TYPE_TIMESTAMP" if "c < ?n - 3" for c
    using only [of TYPE_COMMENT 3 _ c] only [of TYPE_AUTHOR 2 _ c] only [of TYPE_TIMESTAMP 1 _ c] t that by fastforce
  then show ?thesis
    using at [of TYPE_COMMENT 3 "\<lambda>c. cname c = COL_NAME_COMMENT"] at [of TYPE_AUTHOR 2 "\<lambda>c. True"] at [of TYPE_TIMESTAMP 1 "\<lambda>c. True"] t
    by (simp add: trailed_def Let_def)
qed

lemma groupLabels_alt: "groupLabels v = map (\<lambda>c. linkIndex (typeOf v c)) (filter (\<lambda>c. isGroupID (typeOf v c)) [0..<getNumberOfColumns v])"
proof -
  have "concat (map (\<lambda>c. if P c then [f c] else []) cs) = map f (filter P cs)" for P f and cs :: "nat list"
    by (induction cs) auto
  then show ?thesis by (simp add: groupLabels_def labelSum_def columnLabels_def)
qed

lemma fold_puts:
  "\<lbrakk>distinct (map f (filter P cs)); c \<in> set cs; P c\<rbrakk> \<Longrightarrow>
    omap_get (fold (\<lambda>c m. if P c then omap_put (f c) c m else m) cs m) (f c) = Some c"
proof (induction cs arbitrary: m)
  case (Cons d cs)
  have keep: "k \<notin> f ` set (filter P cs) \<Longrightarrow> omap_get (fold (\<lambda>c m. if P c then omap_put (f c) c m else m) cs m) k = omap_get m k" for k m
    by (induction cs arbitrary: m) auto
  show ?case
  proof (cases "c = d")
    case True
    then have "f c \<notin> f ` set (filter P cs)" using Cons.prems(1,3) by simp
    then show ?thesis using True Cons.prems(3) keep [of "f c"] by simp
  qed (use Cons in \<open>auto split: if_splits\<close>)
qed simp

lemma omap_ok_fold_puts: "omap_ok m \<Longrightarrow> omap_ok (fold (\<lambda>c m. if P c then omap_put (f c) c m else m) cs m)"
  by (induction cs arbitrary: m) auto

lemma prepared_fields [simp]:
  "columnsInfo (prepared v) = columnsInfo v" "dataView (prepared v) = dataView v" "colUID (prepared v) = uidCol v"
  "rowDefaultValues (prepared v) = map rowDefault (columnsInfo v)" "colLinkGroupIDs (prepared v) = colLinkGroupIDs v"
  "colStatus (prepared v) = statusCol v" "colPriority (prepared v) = priorityCol v"
  by (simp_all add: prepared_def)

lemma columnGood_cells:
  "\<lbrakk>valuesGood te v; c < getNumberOfColumns v; s \<in> set (columnCells v c)\<rbrakk> \<Longrightarrow> cellGood (columnsInfo v ! c) (rowDefaultValues v ! c) s"
  by (simp add: valuesGood_def columnGood_def Let_def)

lemma init_result:
  assumes "sized v" "init te v = (Returned (), v')"
  shows "table_ok te v' \<and> columnsInfo v' = columnsInfo v \<and>
    (\<forall>c < getNumberOfColumns v. columnCells v' c = map (cellForm (columnsInfo v ! c) (rowDefault (columnsInfo v ! c))) (columnCells v c))"
proof -
  let ?p = "prepared v"
  have r: "structureGood v" "rectangular v" "uniqueGood (structured v)" "valuesGood te ?p" "v' = normalised ?p"
    using assms(2) init_run [OF assms(1)] by blast+
  have rp: "rectangular ?p" using r(2) by (simp add: rectangular_def)
  have uid: "uidCol v < getNumberOfColumns v" "typeOf v (uidCol v) = TYPE_UID"
    using uidCol_range [OF assms(1)] r(1) by (simp_all add: structureGood_def)
  have same: "columnCells ?p c = columnCells v c" for c by (simp add: columnCells_def)
  have cells: "columnCells v' c = map (cellForm (columnsInfo v ! c) (rowDefault (columnsInfo v ! c))) (columnCells v c)"
    if "c < getNumberOfColumns v" for c
    using normalised_cells [OF rp, of c] that same by (simp add: r(5))
  have "uniqueGood ?p = uniqueGood (structured v)"
    by (simp add: uniqueGood_def groupsGood_def groupValues_def groupIds_def columnCells_def)
  then have "uniqueGood v'" using uniqueGood_normalised [OF rp] r(3,5) uid(2) by simp
  moreover have "cellTyped (columnsInfo v ! c) (rowDefault (columnsInfo v ! c)) s"
    if "c < getNumberOfColumns v" "s \<in> set (columnCells v' c)" for c s
    using that cells cellForm_good(2) columnGood_cells [OF r(4)] same by auto
  moreover have "numbersGood te (columnsInfo v ! c) (columnCells v' c)"
    if "c < getNumberOfColumns v" "limitsChecked (columnsInfo v ! c)" for c
    using r(4) that cells same by (simp add: valuesGood_def columnGood_def Let_def)
  moreover have "linkMate v' c isChildLink \<noteq> None" if "c < getNumberOfColumns v" "isLinkId (typeOf v c)" for c
    using r(4) that linkMate_fields [of v' ?p c] by (simp add: valuesGood_def columnGood_def Let_def r(5))
  moreover have "omap_get (colLinkGroupIDs v') (linkIndex (typeOf v c)) = Some c" if "c < getNumberOfColumns v" "isGroupID (typeOf v c)" for c
    using r(4) that fold_puts [of "\<lambda>c. linkIndex (typeOf v c)" "\<lambda>c. isGroupID (typeOf v c)" "[0..<getNumberOfColumns v]" c]
    by (simp add: r(5) normalised_def fold_normColumn_groups valuesGood_def groupLabels_alt cong: if_cong)
  moreover have "sized v'"
    using assms(1) uid r(5) rp by (simp add: sized_def normalised_def fold_normColumn_groups omap_ok_fold_puts)
  moreover have "trailed v'" using structureGood_trailed [OF r(1) assms(1)] by (simp add: trailed_def r(5))
  ultimately show ?thesis
    using r(1) rp cells by (simp add: table_ok_def structureGood_def r(5))
qed

text \<open>
  C13. When \<open>init\<close> returns, the table is well formed: every row has every column; names of columns are
  unique up to underscores and the last three columns are comment, author and time stamp; the unique
  names of the rows are legal and distinct, as are unique values, overall or within each group; boolean
  cells are in their one form, chosen values are among the choices, numbers within their limits, link
  ids are not empty and have their link, and the column of every group is registered. The cells changed
  are boolean cells and empty link ids.
\<close>

theorem init_establishes:
  assumes "sized v" "init te v = (Returned (), v')"
  shows "table_ok te v' \<and> columnsInfo v' = columnsInfo v \<and>
    (\<forall>c < getNumberOfColumns v. columnCells v' c = map (cellForm (columnsInfo v ! c) (rowDefault (columnsInfo v ! c))) (columnCells v c))"
  using init_result [OF assms] .

text \<open>A well-formed table is left as it is.\<close>

lemma fold_puts_same:
  "\<lbrakk>omap_ok m; \<forall>c \<in> set cs. P c \<longrightarrow> omap_get m (f c) = Some c\<rbrakk> \<Longrightarrow>
    fold (\<lambda>c m. if P c then omap_put (f c) c m else m) cs m = m"
  by (induction cs) (auto simp: omap_put_same)

lemma boolForm_values:
  "boolForm TYPE_ON_OFF TYPE_VALUE_ON = Some TYPE_VALUE_ON" "boolForm TYPE_ON_OFF TYPE_VALUE_OFF = Some TYPE_VALUE_OFF"
  "boolForm TYPE_TRUE_FALSE TYPE_VALUE_TRUE = Some TYPE_VALUE_TRUE" "boolForm TYPE_TRUE_FALSE TYPE_VALUE_FALSE = Some TYPE_VALUE_FALSE"
  "boolForm TYPE_YES_NO TYPE_VALUE_YES = Some TYPE_VALUE_YES" "boolForm TYPE_YES_NO TYPE_VALUE_NO = Some TYPE_VALUE_NO"
  by (simp_all add: boolForm_def column_types bool_values)

lemma cellTyped_form: "cellTyped ci d s \<Longrightarrow> cellForm ci d s = s \<and> cellGood ci d s"
proof -
  assume t: "cellTyped ci d s"
  have "boolForm (ctype ci) s = Some s" if "isBoolType (ctype ci)"
  proof -
    have on: "ctype ci = TYPE_ON_OFF \<longrightarrow> s = TYPE_VALUE_ON \<or> s = TYPE_VALUE_OFF"
      and tf: "ctype ci = TYPE_TRUE_FALSE \<longrightarrow> s = TYPE_VALUE_TRUE \<or> s = TYPE_VALUE_FALSE"
      and yn: "ctype ci = TYPE_YES_NO \<longrightarrow> s = TYPE_VALUE_YES \<or> s = TYPE_VALUE_NO"
      using t unfolding cellTyped_def by blast+
    from that consider "ctype ci = TYPE_ON_OFF" | "ctype ci = TYPE_TRUE_FALSE" | "ctype ci = TYPE_YES_NO"
      unfolding isBoolType_def by blast
    then show ?thesis
    proof cases
      case 1
      then show ?thesis using on by (auto simp: boolForm_values)
    next
      case 2
      then show ?thesis using tf by (auto simp: boolForm_values)
    next
      case 3
      then show ?thesis using yn by (auto simp: boolForm_values)
    qed
  qed
  then show ?thesis using t by (simp add: cellForm_def cellGood_def cellTyped_def)
qed

lemma structured_same:
  assumes "table_ok te v" "sourceColumnNames v \<noteq> {}" "statusCol v = colStatus v" "priorityCol v = colPriority v"
  shows "structured v = v" "prepared v = v"
proof -
  have "colUID v < getNumberOfColumns v" "getNumberOfColumns v \<le> INVALID_INDEX"
    using assms(1) by (simp_all add: table_ok_def uniqueGood_def sized_def)
  then have "uidCol v = colUID v" by (simp add: uidCol_def)
  then show "structured v = v" using assms(2-4) by (simp add: structured_def fixSourceColumns_def)
  then show "prepared v = v" using assms(1) by (simp add: prepared_def initRowDefaults_def table_ok_def)
qed

lemma table_ok_cells:
  "\<lbrakk>table_ok te v; c < getNumberOfColumns v; s \<in> set (columnCells v c)\<rbrakk> \<Longrightarrow> cellTyped (columnsInfo v ! c) (rowDefaultValues v ! c) s"
  unfolding table_ok_def by blast

lemma table_ok_normalised:
  assumes ok: "table_ok te v"
  shows "normalised v = v"
proof -
  have "mapColumn c (cellForm (columnsInfo v ! c) (rowDefaultValues v ! c)) v = v" if "c < getNumberOfColumns v" for c
    using table_ok_cells [OF ok that] cellTyped_form by (intro mapColumn_ident) blast
  moreover have "omap_put (linkIndex (typeOf v c)) c (colLinkGroupIDs v) = colLinkGroupIDs v"
    if "c < getNumberOfColumns v" "isGroupID (typeOf v c)" for c
    using ok that by (intro omap_put_same) (simp_all add: table_ok_def sized_def)
  ultimately have "normColumn c v = v" if "c < getNumberOfColumns v" for c using that by (simp add: normColumn_def)
  then have "fold normColumn cs v = v" if "\<forall>c \<in> set cs. c < getNumberOfColumns v" for cs
    using that by (induction cs) simp_all
  then show ?thesis by (simp add: normalised_def)
qed

lemma table_ok_values:
  assumes "table_ok te v" "distinct (groupLabels v)" "distinct (linkIdLabels v)"
  shows "valuesGood te v"
proof -
  have "columnGood te v c" if c: "c < getNumberOfColumns v" for c
  proof -
    have typed: "\<forall>s \<in> set (columnCells v c). cellTyped (columnsInfo v ! c) (rowDefaultValues v ! c) s"
      using table_ok_cells [OF assms(1) c] by blast
    then have "map (cellForm (columnsInfo v ! c) (rowDefaultValues v ! c)) (columnCells v c) = columnCells v c"
      using cellTyped_form by (intro map_idI) blast
    moreover have "\<forall>s \<in> set (columnCells v c). cellGood (columnsInfo v ! c) (rowDefaultValues v ! c) s"
      using typed cellTyped_form by blast
    ultimately show ?thesis using assms(1) c unfolding columnGood_def table_ok_def Let_def by simp
  qed
  then show ?thesis using assms(2,3) by (simp add: valuesGood_def)
qed

lemma special_idem:
  "columnsInfo u = columnsInfo v \<Longrightarrow> colStatus u = statusCol v \<Longrightarrow> statusCol u = statusCol v"
  "columnsInfo u = columnsInfo v \<Longrightarrow> colPriority u = priorityCol v \<Longrightarrow> priorityCol u = priorityCol v"
  by (auto simp: statusCol_def priorityCol_def initColStatus_def initColPriority_def findCol_def split: option.splits if_splits)

text \<open>
  A second \<open>init\<close> of a table that was initialised returns and changes nothing.
\<close>

theorem init_idempotent:
  assumes "sized v" "init te v = (Returned (), v')"
  shows "init te v' = (Returned (), v')"
proof -
  have r: "structureGood v" "valuesGood te (prepared v)" "v' = normalised (prepared v)"
    using assms(2) init_run [OF assms(1)] by blast+
  have ok: "table_ok te v'" using init_result [OF assms] by blast
  then have s: "sized v'" "rectangular v'" "uniqueGood v'" "3 \<le> getNumberOfColumns v'"
    by (simp_all add: table_ok_def trailed_def Let_def)
  have src: "sourceColumnNames v' \<noteq> {}"
    using s(4) by (auto simp: r(3) prepared_def structured_def fixSourceColumns_def)
  have "statusCol v' = colStatus v'" "priorityCol v' = colPriority v'"
    using special_idem [of v' v] by (simp_all add: r(3))
  note same = structured_same [OF ok src this]
  have "uidCol v' = uidCol v" using same(1) structured_fields(4) [of v'] by (simp add: r(3))
  then have "structureGood v'"
    using r(1) trailerGood_fields [of v' v] by (simp add: structureGood_def r(3))
  moreover have "valuesGood te v'"
    using r(2) by (intro table_ok_values [OF ok]) (simp_all add: r(3) valuesGood_def groupLabels_def linkIdLabels_def labelSum_def)
  ultimately show ?thesis
    using init_run [OF s(1), of te v'] s same table_ok_normalised [OF ok] by simp
qed

end
