(* ===== verification/TableRowProps.thy ===== *)
theory TableRowProps
  imports TableProps "HOL-Library.Multiset"
begin

text \<open>
  Properties of the rows of a view: the value generated for a unique column differs from the others, a new
  row leaves the other rows alone, and the rows of a group are found in the order of their priority.
\<close>

section \<open>Generated values\<close>

lemma stem_trailing: "stem P s @ trailing P s = s"
  by (simp add: stem_def trailing_def rev_append [symmetric])

lemma trailing_all: "x \<in> set (trailing P s) \<Longrightarrow> P x"
  by (auto simp: trailing_def dest: set_takeWhileD)

lemma stem_last: "stem P s \<noteq> [] \<Longrightarrow> \<not> P (last (stem P s))"
  using hd_dropWhile [of P "rev s"] by (auto simp: stem_def last_rev)

lemma stem_append: "(b = [] \<or> \<not> P (last b)) \<Longrightarrow> \<forall>x \<in> set ds. P x \<Longrightarrow> stem P (b @ ds) = b \<and> trailing P (b @ ds) = ds"
proof -
  assume b: "b = [] \<or> \<not> P (last b)" and ds: "\<forall>x \<in> set ds. P x"
  have "dropWhile P (rev b) = rev b" "takeWhile P (rev b) = []"
    using b by (cases "rev b"; auto simp: last_rev [symmetric] dropWhile_eq_self_iff hd_rev)+
  then show ?thesis using ds by (simp add: stem_def trailing_def dropWhile_append takeWhile_append)
qed

definition finalNumber :: "string \<Rightarrow> int" where
  "finalNumber s = digits_value 10 (trailing is_digit s)"

lemma digit_no_space: "is_digit c \<Longrightarrow> \<not> isspace c \<and> c \<noteq> CHR ''-'' \<and> c \<noteq> CHR ''+''"
  by (auto simp: is_digit_def isspace_def less_eq_char_def)

lemma valueNumber_small:
  assumes "trailing is_digit s \<noteq> []" "finalNumber s < 2 ^ 31" "0 \<le> finalNumber s"
  shows "valueNumber s = finalNumber s"
proof -
  let ?t = "trailing is_digit s"
  have d: "\<forall>c \<in> set ?t. is_digit c" by (simp add: trailing_all)
  have "is_digit (hd ?t)" using assms(1) d by simp
  then have h: "\<not> isspace (hd ?t)" "hd ?t \<noteq> CHR ''-''" "hd ?t \<noteq> CHR ''+''" using digit_no_space by blast+
  have "dropWhile isspace ?t = ?t" using h(1) assms(1) by (cases ?t) auto
  moreover have t: "takeWhile is_digit ?t = ?t" using d by (simp add: takeWhile_eq_all_conv)
  ultimately have "scan_unsigned ?t = Some (word_of_int (finalNumber s) :: u32)"
    using assms h by (simp add: scan_unsigned_def Let_def finalNumber_def t)
  moreover have "sint (word_of_int (finalNumber s) :: u32) = finalNumber s"
    using assms by (simp add: sint_sbintrunc' signed_take_bit_int_eq_self)
  ultimately show ?thesis by (simp add: valueNumber_def)
qed

lemma digit_value_nonneg: "is_digit c \<Longrightarrow> 0 \<le> digit_value c"
  by (simp add: digit_value_def is_digit_def less_eq_char_def)

lemma finalNumber_nonneg: "0 \<le> finalNumber s"
proof -
  have "0 \<le> a \<Longrightarrow> 0 \<le> foldl (\<lambda>acc c. acc * 10 + digit_value c) a ds" if "\<forall>c \<in> set ds. is_digit c" for a ds
    using that by (induction ds arbitrary: a) (auto simp: digit_value_nonneg)
  then show ?thesis by (simp add: finalNumber_def digits_value_def trailing_all)
qed

text \<open>What the search knows of the values it has seen.\<close>

definition uniqueSeen :: "string set \<Rightarrow> unique_state \<Rightarrow> bool" where
  "uniqueSeen vals st \<longleftrightarrow>
     (baseValue st = [] \<or> \<not> is_digit (last (baseValue st))) \<and> - 1 \<le> maxUniqueData st \<and> maxUniqueData st < 2 ^ 31 - 1 \<and>
     (\<forall>s \<in> vals. trailing is_digit s \<noteq> [] \<and> (baseValue st = [] \<or> stem is_digit s = baseValue st) \<longrightarrow> finalNumber s \<le> maxUniqueData st) \<and>
     (\<forall>s \<in> vals. trailing is_digit s = [] \<and> (baseValue st = [] \<or> s = baseValue st) \<longrightarrow> 0 \<le> maxUniqueData st)"

lemma noteConflict_fields:
  "uniqueSeen vals st \<Longrightarrow> baseValue (noteConflict st) = baseValue st \<and> maxUniqueData (noteConflict st) = maxUniqueData st"
  by (auto simp: noteConflict_def uniqueSeen_def)

lemma uniqueStep_seen:
  assumes st: "uniqueSeen vals st" and n: "finalNumber s < 2 ^ 31 - 1"
  shows "uniqueSeen (insert s vals) (uniqueStep False s st)"
proof (cases "trailing is_digit s = []")
  case True
  then show ?thesis using st noteConflict_fields [OF st] by (auto simp: uniqueStep_def uniqueSeen_def)
next
  case False
  then have v: "valueNumber s = finalNumber s" using n finalNumber_nonneg by (intro valueNumber_small) simp_all
  have nn: "0 \<le> finalNumber s" by (rule finalNumber_nonneg)
  have last: "stem is_digit s \<noteq> [] \<Longrightarrow> \<not> is_digit (last (stem is_digit s))" by (rule stem_last)
  show ?thesis
  proof (cases "baseValue st \<noteq> [] \<and> stem is_digit s \<noteq> baseValue st")
    case True
    then show ?thesis using st False by (auto simp: uniqueStep_def uniqueSeen_def valueBase_def)
  next
    case match: False
    show ?thesis
    proof (cases "maxUniqueData st < finalNumber s")
      case True
      then show ?thesis
        using st False match n nn last noteConflict_fields [OF st]
        by (auto simp: uniqueStep_def uniqueSeen_def valueBase_def Let_def v)
    next
      case small: False
      then show ?thesis
        using st False match noteConflict_fields [OF st]
        by (auto simp: uniqueStep_def uniqueSeen_def valueBase_def Let_def v)
    qed
  qed
qed

lemma uniqueFold_seen:
  "\<lbrakk>uniqueSeen vals st; \<forall>s \<in> set ss. finalNumber s < 2 ^ 31 - 1\<rbrakk> \<Longrightarrow> uniqueSeen (vals \<union> set ss) (fold (uniqueStep False) ss st)"
proof (induction ss arbitrary: vals st)
  case (Cons s ss)
  then show ?case using Cons.IH [OF uniqueStep_seen] by simp
qed simp

lemma newUnique_fresh:
  assumes st: "uniqueSeen vals st"
  shows "\<exists>new. newUnique False dflt st = Some new \<and> new \<notin> vals"
proof (cases "maxUniqueData st = - 1")
  case True
  have "s \<notin> vals" if "s = baseValue st \<or> baseValue st = []" for s
  proof
    assume s: "s \<in> vals"
    show False
    proof (cases "trailing is_digit s = []")
      case t: True
      then show False using st s that True by (auto simp: uniqueSeen_def)
    next
      case t: False
      then have "is_digit (last s)" using stem_trailing [of is_digit s] trailing_all by (metis last_appendR last_in_set)
      then have "baseValue st = []" using that st t by (auto simp: uniqueSeen_def)
      then show False using st s t True finalNumber_nonneg [of s] by (force simp: uniqueSeen_def)
    qed
  qed
  then show ?thesis using True by (simp add: newUnique_def)
next
  case False
  then have m: "0 \<le> maxUniqueData st" "maxUniqueData st < 2 ^ 31 - 1" using st by (auto simp: uniqueSeen_def)
  let ?new = "baseValue st @ to_string (nat (maxUniqueData st + 1))"
  have t: "stem is_digit ?new = baseValue st \<and> trailing is_digit ?new = to_string (nat (maxUniqueData st + 1))"
    using st to_string_digits by (intro stem_append) (auto simp: uniqueSeen_def)
  then have "finalNumber ?new = maxUniqueData st + 1" using m by (simp add: finalNumber_def digits_value_to_string)
  moreover have "finalNumber ?new \<le> maxUniqueData st" if "?new \<in> vals"
    using st that t to_string_nonempty unfolding uniqueSeen_def by metis
  ultimately have "?new \<notin> vals" by auto
  then show ?thesis using m False by (simp add: newUnique_def)
qed

text \<open>The rows whose values a generated value has to avoid.\<close>

definition inGroupCell :: "table_view \<Rightarrow> nat \<Rightarrow> string \<Rightarrow> nat \<Rightarrow> bool" where
  "inGroupCell v g groupId r \<longleftrightarrow> list_ex (\<lambda>n. fst (wildCardMatch n groupId)) (groupNames (dataView v ! r ! g))"

definition considered :: "table_view \<Rightarrow> nat \<Rightarrow> (nat \<times> string) option \<Rightarrow> nat \<Rightarrow> bool" where
  "considered v row grp r \<longleftrightarrow>
     r \<noteq> row \<and> (case grp of None \<Rightarrow> True | Some (g, groupId) \<Rightarrow> inGroupCell v g groupId r)"

lemma isEntryInGroupCol_run:
  "\<lbrakk>rectangular v; r < getNumberOfRows v; g < getNumberOfColumns v\<rbrakk> \<Longrightarrow>
    isEntryInGroupCol v r g groupId = Returned (inGroupCell v g groupId r)"
  by (simp add: isEntryInGroupCol_def inGroupCell_def rectangular_def cell_def)

lemma otherValues_run:
  assumes "rectangular v" "c < getNumberOfColumns v" "\<forall>g groupId. grp = Some (g, groupId) \<longrightarrow> g < getNumberOfColumns v"
    "\<forall>r \<in> set rs. r < getNumberOfRows v"
  shows "otherValues v row grp rs c = Returned (map (\<lambda>r. dataView v ! r ! c) (filter (considered v row grp) rs))"
  using assms
proof (induction rs)
  case (Cons r rs)
  have "(case grp of None \<Rightarrow> Returned True | Some (g, groupId) \<Rightarrow> isEntryInGroupCol v r g groupId)
      = Returned (case grp of None \<Rightarrow> True | Some (g, groupId) \<Rightarrow> inGroupCell v g groupId r)"
    using Cons.prems by (auto simp: isEntryInGroupCol_run split: option.split)
  moreover have "cell v r c = Returned (dataView v ! r ! c)" using Cons.prems by (simp add: cell_def rectangular_def)
  ultimately show ?case using Cons by (simp add: considered_def)
qed simp

lemma setUnique_fresh:
  assumes r: "rectangular v" "row < getNumberOfRows v" "c < getNumberOfColumns v"
    and b: "base = [] \<or> \<not> is_digit (last base)"
    and g: "uniqueGroup v c childLinkIndex groupId = Returned grp"
      "\<forall>g groupId. grp = Some (g, groupId) \<longrightarrow> g < getNumberOfColumns v"
    and n: "\<forall>r < getNumberOfRows v. considered v row grp r \<longrightarrow> finalNumber (dataView v ! r ! c) < 2 ^ 31 - 1"
  shows "\<exists>new. setUniqueColumnValue row c base False childLinkIndex groupId v = (Returned (), putCell row c new v) \<and>
    (\<forall>r < getNumberOfRows v. considered v row grp r \<longrightarrow> dataView v ! r ! c \<noteq> new)"
proof -
  let ?vals = "map (\<lambda>r. dataView v ! r ! c) (filter (considered v row grp) [0..<getNumberOfRows v])"
  let ?st = "\<lparr>firstConflict = True, maxUniqueData = - 1, baseValue = base\<rparr>"
  have o: "otherValues v row grp [0..<getNumberOfRows v] c = Returned ?vals"
    using r g by (intro otherValues_run) auto
  have "uniqueSeen {} ?st" using b by (simp add: uniqueSeen_def)
  then have "uniqueSeen ({} \<union> set ?vals) (fold (uniqueStep False) ?vals ?st)" using n by (intro uniqueFold_seen) auto
  then obtain new where new: "newUnique False (defaultValue (columnsInfo v ! c)) (fold (uniqueStep False) ?vals ?st) = Some new"
      "new \<notin> set ?vals" using newUnique_fresh by fastforce
  have "setUniqueColumnValue row c base False childLinkIndex groupId v = (Returned (), putCell row c new v)"
    using r new(1) by (simp add: setUniqueColumnValue_def inTable_def asks_def andThen_def g(1) o setCell_def rectangular_def)
  then show ?thesis using new(2) by (intro exI [of _ new]) auto
qed


text \<open>A base name that ends in a digit is never recognised as taken.\<close>

lemma digit_base_repeated:
  "newUnique False dflt (fold (uniqueStep False) [''FE1'', ''FE2''] \<lparr>firstConflict = True, maxUniqueData = - 1, baseValue = ''FE1''\<rparr>)
    = Some ''FE1''"
  by (simp add: uniqueStep_def trailing_def stem_def valueBase_def is_digit_def less_eq_char_def newUnique_def)

section \<open>New rows\<close>

text \<open>The view with one more row at place \<open>k\<close>.\<close>

definition withRow :: "nat \<Rightarrow> string list \<Rightarrow> table_view \<Rightarrow> table_view" where
  "withRow k x v = v\<lparr>dataView := take k (dataView v) @ x # drop k (dataView v)\<rparr>"

lemma withRow_fields [simp]:
  "columnsInfo (withRow k x v) = columnsInfo v" "colUID (withRow k x v) = colUID v"
  "rowDefaultValues (withRow k x v) = rowDefaultValues v" "getNumberOfRows (withRow k x v) = Suc (getNumberOfRows v)"
  "k \<le> getNumberOfRows v \<Longrightarrow> dataView (withRow k x v) ! k = x"
  by (simp_all add: withRow_def nth_append)

lemma withRow_put: "k \<le> getNumberOfRows v \<Longrightarrow> putCell k c s (withRow k x v) = withRow k (x[c := s]) v"
  by (simp add: withRow_def putCell_def list_update_append nth_append)

lemma withRow_rectangular:
  "\<lbrakk>rectangular v; length x = getNumberOfColumns v\<rbrakk> \<Longrightarrow> rectangular (withRow k x v)"
  by (auto simp: rectangular_def withRow_def dest: in_set_takeD in_set_dropD)

lemma insertRow_run:
  assumes "rectangular v" "k \<le> getNumberOfRows v"
  shows "\<exists>x. length x = getNumberOfColumns v \<and> insertRow k v = (Returned (), withRow k x v)"
proof -
  let ?n = "getNumberOfColumns v" and ?rows = "dataView v"
  let ?ext = "?rows @ [replicate ?n []]"
  have "\<forall>row \<in> set ?ext. length row = ?n" using assms(1) by (auto simp: rectangular_def)
  then have len: "j < Suc (getNumberOfRows v) \<Longrightarrow> length (?ext ! j) = ?n" for j
    using nth_mem [of j ?ext] by (metis length_append_singleton)
  have "shiftRows ?n k ?rows = take k ?rows @ ?ext ! k # drop k ?rows" (is "?l = ?r")
  proof (rule nth_equalityI)
    show "length ?l = length ?r" using assms(2) by (simp add: shiftRows_def Let_def)
    fix i
    assume "i < length ?l"
    then have i: "i < Suc (getNumberOfRows v)" by (simp add: shiftRows_def Let_def)
    have "length (?ext ! i) = ?n" "length (?ext ! (i - 1)) = ?n" using i by (simp_all add: len)
    then have "?l ! i = (if i \<le> k then ?ext ! i else ?ext ! (i - 1))" using i by (simp add: shiftRows_def Let_def del: upt_Suc)
    also have "... = ?r ! i" using i assms(2) by (auto simp: nth_append nth_Cons' min_def)
    finally show "?l ! i = ?r ! i" .
  qed
  moreover have "length (?ext ! k) = ?n" using assms(2) by (simp add: len)
  moreover have "list_all (\<lambda>row. ?n \<le> length row) (drop k ?rows)"
    using assms(1) by (auto simp: list_all_iff rectangular_def dest: in_set_dropD)
  ultimately show ?thesis by (intro exI [of _ "?ext ! k"]) (simp add: insertRow_def withRow_def)
qed

lemma setUnique_puts:
  "setUniqueColumnValue row c base math li gid v = (Returned (), w) \<Longrightarrow> \<exists>s. w = putCell row c s v"
  by (auto simp: setUniqueColumnValue_def run_simps setCell_def split: if_splits option.splits)

lemma fillColumn_puts:
  "fillColumn inc base li gid row c v = (Returned (), w) \<Longrightarrow> \<exists>s. w = putCell row c s v"
  by (auto simp: fillColumn_def run_simps setDefault_def setCell_def split: if_splits dest: setUnique_puts)

lemma fillColumn_uid:
  assumes "rectangular v" "row < getNumberOfRows v" "colUID v < getNumberOfColumns v" "typeOf v (colUID v) = TYPE_UID"
    "base = [] \<or> \<not> is_digit (last base)"
    "\<forall>r < getNumberOfRows v. r \<noteq> row \<longrightarrow> finalNumber (dataView v ! r ! colUID v) < 2 ^ 31 - 1"
    "fillColumn True base li gid row (colUID v) v = (Returned (), w)"
  shows "\<exists>new. w = putCell row (colUID v) new v \<and> (\<forall>r < getNumberOfRows v. r \<noteq> row \<longrightarrow> dataView v ! r ! colUID v \<noteq> new)"
proof -
  have "uniqueGroup v (colUID v) [] [] = Returned None" using assms(4) by (simp add: uniqueGroup_def column_types)
  then have "\<exists>new. setUniqueColumnValue row (colUID v) base False [] [] v = (Returned (), putCell row (colUID v) new v) \<and>
    (\<forall>r < getNumberOfRows v. considered v row None r \<longrightarrow> dataView v ! r ! colUID v \<noteq> new)"
    using assms by (intro setUnique_fresh) (auto simp: considered_def)
  moreover have "setUniqueColumnValue row (colUID v) base False [] [] v = (Returned (), w)"
    using assms(7) by (auto simp: fillColumn_def run_simps getColUID_def uniqueColumn_def split: if_splits)
  ultimately show ?thesis by (auto simp: considered_def)
qed

lemma withRow_other:
  assumes "k \<le> getNumberOfRows v"
  shows "(\<forall>r < Suc (getNumberOfRows v). r \<noteq> k \<longrightarrow> P (dataView (withRow k x v) ! r)) \<longleftrightarrow> (\<forall>row \<in> set (dataView v). P row)"
proof -
  have before: "dataView (withRow k x v) ! r = dataView v ! r" if "r < k" for r
    using that assms by (simp add: withRow_def nth_append)
  have after: "dataView (withRow k x v) ! Suc r = dataView v ! r" if "k \<le> r" "r < getNumberOfRows v" for r
    using that assms by (simp add: withRow_def nth_append nth_Cons' min_def Suc_diff_le)
  have "(\<forall>r < Suc (getNumberOfRows v). r \<noteq> k \<longrightarrow> P (dataView (withRow k x v) ! r)) \<longleftrightarrow> (\<forall>r < getNumberOfRows v. P (dataView v ! r))"
    (is "?l \<longleftrightarrow> ?r")
  proof
    assume l: ?l
    show ?r
    proof (intro allI impI)
      fix r
      assume r: "r < getNumberOfRows v"
      show "P (dataView v ! r)"
        using l [rule_format, of r] l [rule_format, of "Suc r"] r before [of r] after [of r] by (cases "r < k") auto
    qed
  next
    assume r: ?r
    show ?l
    proof (intro allI impI)
      fix i
      assume i: "i < Suc (getNumberOfRows v)" "i \<noteq> k"
      show "P (dataView (withRow k x v) ! i)"
      proof (cases "i < k")
        case True
        then show ?thesis using r before assms by simp
      next
        case False
        then obtain j where "i = Suc j" "k \<le> j" "j < getNumberOfRows v" using i by (cases i) auto
        then show ?thesis using r after by simp
      qed
    qed
  qed
  then show ?thesis by (simp add: all_set_conv_all_nth)
qed

text \<open>The loop over the columns: the row stays as long as it should be, and the name is fresh once it is set.\<close>

lemma fillLoop_run:
  assumes v: "rectangular v" "k \<le> getNumberOfRows v" "colUID v < getNumberOfColumns v" "typeOf v (colUID v) = TYPE_UID"
    and b: "base = [] \<or> \<not> is_digit (last base)" "\<forall>s \<in> set (columnCells v (colUID v)). finalNumber s < 2 ^ 31 - 1"
    and e: "each (fillColumn True base li gid k) [0..<getNumberOfColumns v] (withRow k x v) = (Returned (), w)"
      "length x = getNumberOfColumns v"
  shows "\<exists>y. length y = getNumberOfColumns v \<and> w = withRow k y v \<and> y ! colUID v \<notin> set (columnCells v (colUID v))"
proof -
  define I where "I pre u \<longleftrightarrow> (\<exists>y. length y = getNumberOfColumns v \<and> u = withRow k y v \<and>
      (colUID v \<in> set pre \<longrightarrow> y ! colUID v \<notin> set (columnCells v (colUID v))))" for pre and u :: table_view
  have "I [0..<getNumberOfColumns v] w"
  proof (rule each_invariant [where I = I, OF e(1)])
    show "I [] (withRow k x v)" using e(2) by (auto simp: I_def)
    fix pre c rest u t
    assume split: "[0..<getNumberOfColumns v] = pre @ c # rest" and "I pre u" and run: "fillColumn True base li gid k c u = (Returned (), t)"
    then obtain y where y: "length y = getNumberOfColumns v" "u = withRow k y v"
        "colUID v \<in> set pre \<longrightarrow> y ! colUID v \<notin> set (columnCells v (colUID v))" by (auto simp: I_def)
    have "c \<in> set [0..<getNumberOfColumns v]" "c \<notin> set pre"
      using split distinct_upt [of 0 "getNumberOfColumns v"] by auto
    then have c: "c < getNumberOfColumns v" "c \<notin> set pre" by simp_all
    show "I (pre @ [c]) t"
    proof (cases "c = colUID v")
      case True
      have "\<exists>new. t = putCell k (colUID u) new u \<and> (\<forall>r < getNumberOfRows u. r \<noteq> k \<longrightarrow> dataView u ! r ! colUID u \<noteq> new)"
        using v b y run True withRow_rectangular [OF v(1) y(1)] withRow_other [OF v(2), where P = "\<lambda>row. finalNumber (row ! colUID v) < 2 ^ 31 - 1"]
        by (intro fillColumn_uid) (auto simp: columnCells_def)
      then obtain new where "t = withRow k (y[c := new]) v" "\<forall>row \<in> set (dataView v). row ! c \<noteq> new"
        using y v True withRow_put [OF v(2)] withRow_other [OF v(2), where P = "\<lambda>row. row ! colUID v \<noteq> _"] by auto
      then show ?thesis using y(1) c True unfolding I_def by (intro exI [of _ "y[c := new]"]) (auto simp: columnCells_def)
    next
      case False
      obtain s where "t = withRow k (y[c := s]) v" using fillColumn_puts [OF run] y(2) withRow_put [OF v(2)] by auto
      then show ?thesis using y False c unfolding I_def by (intro exI [of _ "y[c := s]"]) auto
    qed
  qed
  then show ?thesis using v(3) by (auto simp: I_def)
qed

lemma findColByType_type:
  "\<lbrakk>findColByType v t 0 < getNumberOfColumns v; getNumberOfColumns v \<le> INVALID_INDEX\<rbrakk> \<Longrightarrow> typeOf v (findColByType v t 0) = t"
  using findColByType_Some [of v t 0 "findColByType v t 0"] by simp

lemma stampRow_run:
  assumes "stampRow now auth k (withRow k y v) = (Returned (), w)" "k \<le> getNumberOfRows v" "sized v" "typeOf v uid = TYPE_UID"
  shows "\<exists>z. length z = length y \<and> w = withRow k z v \<and> z ! uid = y ! uid"
proof -
  let ?a = "findColByType v TYPE_AUTHOR 0" and ?t = "findColByType v TYPE_TIMESTAMP 0"
  have same: "findColByType (withRow k z v) = findColByType v" for z by (simp add: findColByType_def fun_eq_iff)
  have w: "w = withRow k (y[?a := auth, ?t := int64_to_string now]) v" and cols: "?a < getNumberOfColumns v" "?t < getNumberOfColumns v"
    using assms(1,2) by (auto simp: stampRow_def run_simps same setValue_def setValueTime_def inTable_def setCell_def withRow_put split: if_splits)
  then have "?a \<noteq> uid" "?t \<noteq> uid"
    using assms(3,4) findColByType_type [of v] by (auto simp: sized_def column_types)
  then show ?thesis using w by (intro exI [of _ "y[?a := auth, ?t := int64_to_string now]"]) simp
qed

lemma columnCells_withRow:
  "k \<le> getNumberOfRows v \<Longrightarrow> distinct (columnCells v c) \<Longrightarrow> x ! c \<notin> set (columnCells v c) \<Longrightarrow> distinct (columnCells (withRow k x v) c)"
  using append_take_drop_id [of k "columnCells v c"] distinct_append [of "take k (columnCells v c)" "drop k (columnCells v c)"]
  by (auto simp: columnCells_def withRow_def take_map drop_map dest: in_set_takeD in_set_dropD)


section \<open>Rows of a group\<close>

text \<open>A map from keys to the elements with that key, in their order.\<close>

definition bucket :: "('k, 'a list) omap \<Rightarrow> 'k \<Rightarrow> 'a list" where
  "bucket m k = (case omap_get m k of Some l \<Rightarrow> l | None \<Rightarrow> [])"

definition grouped :: "('a \<Rightarrow> 'k::linorder) \<Rightarrow> 'a list \<Rightarrow> ('k, 'a list) omap \<Rightarrow> bool" where
  "grouped q xs m \<longleftrightarrow> omap_ok m \<and> (\<forall>k. bucket m k = filter (\<lambda>x. q x = k) xs)"

lemma grouped_key:
  "\<lbrakk>omap_ok m; \<forall>(k, l) \<in> set m. \<forall>x \<in> set l. q x = k\<rbrakk> \<Longrightarrow>
    filter (\<lambda>x. q x = k) (concat (map snd m)) = bucket m k"
proof (induction m)
  case (Cons kl m)
  obtain k' l where kl: "kl = (k', l)" by fastforce
  have "omap_get m k' = None" using Cons.prems(1) by (auto simp: kl omap_ok_Cons map_of_eq_None_iff)
  then show ?case using Cons by (cases "k = k'") (auto simp: kl omap_ok_Cons filter_id_conv filter_empty_conv bucket_def)
qed (simp add: bucket_def)

lemma grouped_sorted:
  "\<lbrakk>omap_ok m; \<forall>(k, l) \<in> set m. \<forall>x \<in> set l. q x = k\<rbrakk> \<Longrightarrow> sorted (map q (concat (map snd m)))"
proof (induction m)
  case (Cons kl m)
  obtain k l where kl: "kl = (k, l)" by fastforce
  have "sorted (map q l)" using Cons.prems(2) by (auto simp: kl sorted_iff_nth_mono)
  moreover have "q x \<le> q y" if "x \<in> set l" "y \<in> set (concat (map snd m))" for x y
    using that Cons.prems by (fastforce simp: kl omap_ok_Cons)
  ultimately show ?case using Cons by (auto simp: kl omap_ok_Cons sorted_append)
qed simp

lemma grouped_sort: "grouped q xs m \<Longrightarrow> concat (map snd m) = sort_key q xs"
proof -
  assume g: "grouped q xs m"
  have q: "\<forall>(k, l) \<in> set m. \<forall>x \<in> set l. q x = k"
  proof (clarify)
    fix k l x
    assume l: "(k, l) \<in> set m" "x \<in> set l"
    then have "bucket m k = l" using g by (simp add: grouped_def bucket_def omap_ok_def)
    then have "x \<in> set (filter (\<lambda>x. q x = k) xs)" using g l by (simp add: grouped_def)
    then show "q x = k" by simp
  qed
  have f: "filter (\<lambda>x. q x = k) (concat (map snd m)) = filter (\<lambda>x. q x = k) xs" for k
    using g grouped_key [OF _ q, of k] by (simp add: grouped_def)
  have "count (mset (concat (map snd m))) x = count (mset xs) x" for x
    using f [of "q x"] by (metis (mono_tags, lifting) count_filter_mset mset_filter)
  then have "mset (concat (map snd m)) = mset xs" by (intro multiset_eqI) blast
  moreover have "filter (\<lambda>x. q k = q x) (concat (map snd m)) = filter (\<lambda>x. q k = q x) xs" for k
    using f [of "q k"] by (simp add: eq_commute)
  ultimately show ?thesis
    using grouped_sorted [OF _ q] g by (intro properties_for_sort_key [symmetric]) (auto simp: grouped_def)
qed

lemma grouped_add:
  "grouped q xs m \<Longrightarrow> grouped q (xs @ [x]) (omap_put (q x) (bucket m (q x) @ [x]) m)"
  by (auto simp: grouped_def bucket_def)

lemma collectRows_grouped:
  "\<lbrakk>collectRows P prio rs m = Returned m'; grouped q xs m; \<forall>r p. prio r = Returned p \<longrightarrow> q r = p\<rbrakk> \<Longrightarrow>
    grouped q (xs @ filter (\<lambda>r. P r = Returned True) rs) m'"
proof (induction rs arbitrary: m xs)
  case (Cons r rs)
  obtain b where b: "P r = Returned b" using Cons.prems(1) by (cases "P r") auto
  show ?case
  proof (cases b)
    case True
    then obtain p where p: "prio r = Returned p" using Cons.prems(1) b by (cases "prio r") auto
    then have "q r = p" using Cons.prems(3) by blast
    then have "grouped q (xs @ [r]) (omap_put p (bucket m p @ [r]) m)" using grouped_add [OF Cons.prems(2), of r] by simp
    from Cons.IH [OF _ this] show ?thesis using Cons.prems(1,3) b True p by (simp add: bucket_def)
  next
    case False
    then show ?thesis using Cons.IH [OF _ Cons.prems(2)] Cons.prems b by simp
  qed
qed simp

text \<open>The rows of the group that count, and the priority a row is sorted by.\<close>

definition groupRow :: "'d table_env \<Rightarrow> table_view \<Rightarrow> nat \<Rightarrow> string \<Rightarrow> bool \<Rightarrow> nat \<Rightarrow> bool" where
  "groupRow te v groupIdCol groupID onlyStatusTrue r \<longleftrightarrow>
     rowInGroup v groupIdCol groupID r = Returned True \<and> rowEnabled te v onlyStatusTrue r = Returned True"

definition priorityOf :: "'d table_env \<Rightarrow> table_view \<Rightarrow> bool \<Rightarrow> nat \<Rightarrow> u64" where
  "priorityOf te v ordered r = (if ordered \<and> colPriority v \<noteq> INVALID_INDEX then resultOr 0 (rowPriority te v r) else 0)"

text \<open>
  C19. The rows of a group: \<open>getGroupRows\<close> lists exactly the rows that are in the group and, if asked,
  enabled, stably sorted by their priority, where 0 counts as 100; without priorities they come in
  the order of the table.
\<close>

theorem getGroupRows_sorted:
  assumes "getGroupRows te v groupIdCol groupID onlyStatusTrue ordered = Returned rows"
  shows "rows = sort_key (priorityOf te v ordered)
    (filter (groupRow te v groupIdCol groupID onlyStatusTrue) [0..<getNumberOfRows v])"
proof -
  let ?by = "ordered \<and> colPriority v \<noteq> INVALID_INDEX"
  let ?P = "\<lambda>r. outcome_bind (rowInGroup v groupIdCol groupID r) (\<lambda>b. if b then rowEnabled te v onlyStatusTrue r else Returned False)"
  let ?prio = "if ?by then rowPriority te v else (\<lambda>r. Returned 0)"
  obtain m where m: "collectRows ?P ?prio [0..<getNumberOfRows v] (if ?by then [] else [(0, [])]) = Returned m"
      "rows = concat (map snd m)"
    using assms by (auto simp: getGroupRows_def getGroupRowsInVectors_def Let_def outcome_bind_Returned)
  have P: "(\<lambda>r. ?P r = Returned True) = groupRow te v groupIdCol groupID onlyStatusTrue"
    by (auto simp: groupRow_def outcome_bind_Returned fun_eq_iff)
  have "grouped (priorityOf te v ordered) [] (if ?by then [] else [(0, [])])"
    by (simp add: grouped_def bucket_def omap_ok_def)
  moreover have "\<forall>r p. ?prio r = Returned p \<longrightarrow> priorityOf te v ordered r = p"
    by (auto simp: priorityOf_def resultOr_def)
  ultimately have "grouped (priorityOf te v ordered) ([] @ filter (\<lambda>r. ?P r = Returned True) [0..<getNumberOfRows v]) m"
    using m(1) by (intro collectRows_grouped)
  then show ?thesis using grouped_sort m(2) unfolding P by simp
qed

section \<open>Group names\<close>

text \<open>The splitting loop with the word in progress instead of two indices.\<close>

fun words :: "string \<Rightarrow> string \<Rightarrow> string list" where
  "words w [] = (if w = [] then [] else [w])"
| "words w (c # r) = (if groupSep c then (if w = [] then words [] r else w # words [] r) else words (w @ [c]) r)"

lemma groupLoop_words: "groupLoop (pre @ w @ rest) (length pre) (length pre + length w) rest = words w rest"
proof (induction rest arbitrary: pre w)
  case Nil
  then show ?case by (simp add: substr_def)
next
  case (Cons c rest)
  show ?case
  proof (cases "groupSep c")
    case True
    then show ?thesis using Cons.IH [of "pre @ w @ [c]" "[]"] by (cases "w = []") (simp_all add: substr_def)
  next
    case False
    then show ?thesis using Cons.IH [of pre "w @ [c]"] by simp
  qed
qed

lemma groupNames_words: "groupNames s = words [] s"
  using groupLoop_words [of "[]" "[]" s] by (simp add: groupNames_def)

lemma words_name: "\<forall>c \<in> set g. \<not> groupSep c \<Longrightarrow> words w (g @ r) = words (w @ g) r"
  by (induction g arbitrary: w) simp_all

lemma groupNames_add:
  assumes "g \<noteq> []" "\<forall>c \<in> set g. \<not> groupSep c"
  shows "groupNames g = [g]" "groupNames (g @ '' | '' @ s) = g # groupNames s"
proof -
  have "words [] (g @ r) = words g r" for r using words_name [OF assms(2), of "[]" r] by simp
  note w = this [of "[]"] this [of "'' | '' @ s"]
  have sep: "groupSep (CHR '' '')" "groupSep (CHR ''|'')" by (simp_all add: groupSep_def)
  show "groupNames g = [g]" using w(1) assms(1) by (simp add: groupNames_words)
  show "groupNames (g @ '' | '' @ s) = g # groupNames s" using w(2) assms(1) sep by (simp add: groupNames_words)
qed

lemma words_clean: "\<lbrakk>n \<in> set (words w s); \<forall>c \<in> set w. \<not> groupSep c\<rbrakk> \<Longrightarrow> n \<noteq> [] \<and> (\<forall>c \<in> set n. \<not> groupSep c)"
proof (induction s arbitrary: w)
  case Nil
  then show ?case by (cases "w = []") simp_all
next
  case (Cons c r)
  have e: "n \<in> set (words [] r) \<Longrightarrow> ?case" using Cons.IH [of "[]"] by simp
  show ?case
  proof (cases "groupSep c")
    case True
    then have "n \<in> set (words [] r) \<or> n = w \<and> w \<noteq> []" using Cons.prems(1) by (auto split: if_splits)
    then show ?thesis using e Cons.prems(2) by blast
  next
    case False
    then show ?thesis using Cons.IH [of "w @ [c]"] Cons.prems by simp
  qed
qed

lemma groupNames_clean: "n \<in> set (groupNames s) \<Longrightarrow> n \<noteq> [] \<and> (\<forall>c \<in> set n. \<not> groupSep c)"
  using words_clean [of n "[]" s] by (simp add: groupNames_words)

lemma wildCardMatch_same: "fst (wildCardMatch g g)"
  by (simp add: wildCardMatch_def)

lemma keptGroups_concat: "keptGroups n 0 acc gs = acc @ concat (filter (\<lambda>g. g \<noteq> n) gs)"
  by (induction gs arbitrary: acc) simp_all

text \<open>The groups that are left of two or more are run together.\<close>

lemma groups_run_together: "keptGroups ''C'' 0 [] [''A'', ''B'', ''C''] = ''AB''"
  by (simp add: keptGroups_concat)

lemma putCell_fields [simp]:
  "columnsInfo (putCell r c s v) = columnsInfo v" "rowDefaultValues (putCell r c s v) = rowDefaultValues v"
  "getNumberOfRows (putCell r c s v) = getNumberOfRows v"
  by (simp_all add: putCell_def)

lemma putCell_twice: "r < getNumberOfRows v \<Longrightarrow> putCell r c s (putCell r c t v) = putCell r c s v"
  by (simp add: putCell_def)

lemma putCell_rectangular: "rectangular v \<Longrightarrow> r < getNumberOfRows v \<Longrightarrow> rectangular (putCell r c s v)"
  using set_update_subset_insert [of "dataView v" r "(dataView v ! r)[c := s]"]
  by (auto simp: rectangular_def putCell_def)

lemma putCell_cell:
  "\<lbrakk>rectangular v; r < getNumberOfRows v; c < getNumberOfColumns v\<rbrakk> \<Longrightarrow> dataView (putCell r c s v) ! r ! c = s"
  by (simp add: rectangular_def putCell_def)

lemma setValue_run:
  "\<lbrakk>rectangular v; r < getNumberOfRows v; c < getNumberOfColumns v; dataType (columnsInfo v ! c) = DATATYPE_STRING\<rbrakk> \<Longrightarrow>
    setValue s r c v = (Returned (), putCell r c s v)"
  by (simp add: setValue_def inTable_def setCell_def rectangular_def)

lemma groupIDList_run:
  "\<lbrakk>rectangular v; r < getNumberOfRows v; c < getNumberOfColumns v\<rbrakk> \<Longrightarrow>
    groupIDList v r c = Returned (map fst (fold (\<lambda>g m. omap_put g () m) (groupNames (dataView v ! r ! c)) []))"
  by (simp add: groupIDList_def cell_def rectangular_def)

text \<open>
  C20. \<open>addRowToGroup\<close> makes a row a member of the group and keeps its groups; for a row in at most one
  other group, \<open>removeRowFromGroup\<close> then restores the groups it had.
\<close>

theorem addRowToGroup_undone:
  assumes v: "rectangular v" "r < getNumberOfRows v" "c < getNumberOfColumns v"
      "dataType (columnsInfo v ! c) = DATATYPE_STRING" "length (rowDefaultValues v) = getNumberOfColumns v"
    and g: "groupID \<noteq> []" "\<forall>x \<in> set groupID. \<not> groupSep x" "\<not> inGroupCell v c groupID r"
    and old: "old = (if dataView v ! r ! c = rowDefaultValues v ! c then [] else groupNames (dataView v ! r ! c))" "length old \<le> 1"
  shows "\<exists>s t. addRowToGroup r c groupID v = (Returned (), putCell r c s v) \<and> groupNames s = groupID # old \<and>
    isEntryInGroupCol (putCell r c s v) r c groupID = Returned True \<and>
    removeRowFromGroup r c groupID False (putCell r c s v) = (Returned False, putCell r c t v) \<and> groupNames t = old"
proof -
  let ?x = "dataView v ! r ! c"
  let ?none = "?x = [] \<or> ?x = rowDefaultValues v ! c"
  define s where "s = (if ?none then groupID else groupID @ '' | '' @ ?x)"
  have cell: "cell v r c = (Returned ?x :: (table_error, string) outcome)" using v by (simp add: cell_def rectangular_def)
  have "hasNoGroup v c ?x = Returned ?none" using v by (simp add: hasNoGroup_def)
  then have add: "addRowToGroup r c groupID v = (Returned (), putCell r c s v)"
    using isEntryInGroupCol_run [OF v(1-3), of groupID] g(3) cell setValue_run [OF v(1-4), of s]
    by (simp add: addRowToGroup_def asks_def andThen_def s_def)
  have "groupNames [] = []" by (simp add: groupNames_words)
  then have names: "groupNames s = groupID # old" using groupNames_add [OF g(1,2)] old(1) by (simp add: s_def)
  let ?w = "putCell r c s v"
  have w: "rectangular ?w" "r < getNumberOfRows ?w" "c < getNumberOfColumns ?w" "dataType (columnsInfo ?w ! c) = DATATYPE_STRING"
    "dataView ?w ! r ! c = s" using putCell_rectangular [OF v(1,2)] putCell_cell [OF v(1-3)] v(2-4) by simp_all
  have member: "isEntryInGroupCol ?w r c groupID = Returned True"
    using isEntryInGroupCol_run [OF w(1-3), of groupID] wildCardMatch_same [of groupID] by (simp add: inGroupCell_def w(5) names)
  have fresh: "h \<noteq> groupID" if "h \<in> set old" for h
    using that g(3) wildCardMatch_same [of groupID] by (auto simp: inGroupCell_def list_ex_iff old(1) split: if_splits)
  obtain ids where ids: "groupIDList ?w r c = Returned ids" "groupID \<in> set ids" "filter (\<lambda>n. n \<noteq> groupID) ids = old"
  proof (cases old)
    case Nil
    then show thesis using groupIDList_run [OF w(1-3)] that [of "[groupID]"] by (simp add: w(5) names)
  next
    case (Cons h hs)
    then have "old = [h]" "h \<noteq> groupID" using old(2) fresh by simp_all
    then show thesis
      using groupIDList_run [OF w(1-3)] that [of "if h < groupID then [h, groupID] else [groupID, h]"]
      by (auto simp: w(5) names)
  qed
  have "removeRowFromGroup r c groupID False ?w = (Returned False, putCell r c (concat old) v)"
    using ids setValue_run [OF w(1-4), of "concat old"] putCell_twice [OF v(2)]
    by (simp add: removeRowFromGroup_def asks_def andThen_def keptGroups_concat give_def)
  moreover have "groupNames (concat old) = old"
  proof (cases old)
    case (Cons h hs)
    then have "old = [h]" "h \<in> set (groupNames ?x)" using old by (auto split: if_splits)
    then show ?thesis using groupNames_clean [of h ?x] groupNames_add(1) [of h] by simp
  qed (simp add: \<open>groupNames [] = []\<close>)
  ultimately show ?thesis using add names member by blast
qed

end
