(* ===== verification/TableTextProps.thy ===== *)
theory TableTextProps
  imports TableText TableRowProps
begin

text \<open>
  The text that \<open>printJSON\<close> stores is read back by \<open>fillFromJSON\<close>. Pieces of text are specified by triples of
  a condition before, the text and a condition after, in the style of a Hoare logic over the scanner.
\<close>

section \<open>Pieces of text\<close>

definition scanText :: "string \<Rightarrow> string \<Rightarrow> string \<Rightarrow> json_act" where
  "scanText pre text post = each (scanChar False (pre @ text @ post)) [length pre..<length pre + length text]"

definition plainEnd :: "string \<Rightarrow> bool" where
  "plainEnd s \<longleftrightarrow> s = [] \<or> last s \<noteq> backslash"

definition reads :: "(json_state \<Rightarrow> bool) \<Rightarrow> string \<Rightarrow> (json_state \<Rightarrow> bool) \<Rightarrow> bool" where
  "reads P text Q \<longleftrightarrow>
     (\<forall>pre post st. plainEnd pre \<and> P st \<longrightarrow> (\<exists>st'. scanText pre text post st = (Returned (), st') \<and> Q st'))"

lemma scanText_append:
  "scanText pre a (b @ post) st = (Returned (), st1) \<Longrightarrow> scanText pre (a @ b) post st = scanText (pre @ a) b post st1"
proof -
  have "[length pre..<length pre + length (a @ b)] = [length pre..<length pre + length a] @ [length (pre @ a)..<length (pre @ a) + length b]"
    using upt_add_eq_append [of "length pre" "length pre + length a" "length b"] by (simp add: add.assoc)
  moreover have "each f (xs @ ys) st = each f ys st1" if "each f xs st = (Returned (), st1)" for f xs ys
    using that
  proof (induction xs arbitrary: st)
    case (Cons x xs)
    then obtain st2 where "f x st = (Returned (), st2)" by (auto simp: run_simps)
    then show ?case using Cons by simp
  qed (simp add: give_def)
  ultimately show "scanText pre a (b @ post) st = (Returned (), st1) \<Longrightarrow> ?thesis" by (simp add: scanText_def)
qed

lemma reads_seq:
  assumes "reads P a Q" "reads Q b R" "plainEnd a"
  shows "reads P (a @ b) R"
  unfolding reads_def
proof (intro allI impI, elim conjE)
  fix pre post st
  assume pre: "plainEnd pre" "P st"
  then obtain st1 where st1: "scanText pre a (b @ post) st = (Returned (), st1)" "Q st1"
    using assms(1) unfolding reads_def by blast
  moreover have "plainEnd (pre @ a)" using pre(1) assms(3) by (auto simp: plainEnd_def last_append)
  ultimately show "\<exists>st'. scanText pre (a @ b) post st = (Returned (), st') \<and> R st'"
    using assms(2) scanText_append [OF st1(1)] unfolding reads_def by metis
qed

lemma reads_nil: "reads P [] P"
  by (simp add: reads_def scanText_def give_def)

lemma reads_weaken: "\<lbrakk>reads P' text Q'; \<And>st. P st \<Longrightarrow> P' st; \<And>st. Q' st \<Longrightarrow> Q st\<rbrakk> \<Longrightarrow> reads P text Q"
  unfolding reads_def by blast

text \<open>One character.\<close>

lemma reads_char:
  assumes "\<And>json i st. \<lbrakk>i < length json; json ! i = c; i = 0 \<or> json ! (i - 1) \<noteq> backslash; P st\<rbrakk> \<Longrightarrow>
    \<exists>st'. scanChar False json i st = (Returned (), st') \<and> Q st'"
  shows "reads P [c] Q"
  unfolding reads_def
proof (intro allI impI, elim conjE)
  fix pre post st
  assume "plainEnd pre" "P st"
  moreover from this have "length pre = 0 \<or> (pre @ [c] @ post) ! (length pre - 1) \<noteq> backslash"
    by (auto simp: plainEnd_def nth_append last_conv_nth)
  ultimately obtain st' where "scanChar False (pre @ [c] @ post) (length pre) st = (Returned (), st')" "Q st'"
    using assms [of "length pre" "pre @ [c] @ post" st] by auto
  then show "\<exists>st'. scanText pre [c] post st = (Returned (), st') \<and> Q st'"
    by (simp add: scanText_def give_def)
qed

text \<open>The part of the state that does not hold positions or the value in progress.\<close>

definition core :: "json_state \<Rightarrow> json_state" where
  "core st = st\<lparr>startString := 0, startNumber := 0, endNumber := 0, currKey := [], currVal := [], currDepth := 0,
     sqBracketCount := 0, lastCol := 0, extractedString := (if newString st then extractedString st else [])\<rparr>"

lemma core_fields [simp]:
  "view (core st) = view st" "keyEntryCountMap (core st) = keyEntryCountMap st" "colFoundCount (core st) = colFoundCount st"
  "row (core st) = row st" "colSpeedup (core st) = colSpeedup st" "bracketCount (core st) = bracketCount st"
  "inQuotes (core st) = inQuotes st" "newString (core st) = newString st" "newValue (core st) = newValue st"
  "extractedString (core st) = (if newString st then extractedString st else [])" "path (core st) = path st" "lastPopType (core st) = lastPopType st"
  by (simp_all add: core_def)

definition during :: "json_state \<Rightarrow> json_state \<Rightarrow> bool" where
  "during s st \<longleftrightarrow> core st = s"

definition consumed :: "json_state \<Rightarrow> json_state" where
  "consumed s = s\<lparr>newString := False, newValue := False, extractedString := []\<rparr>"

text \<open>Between tokens.\<close>

definition idle :: "json_state \<Rightarrow> bool" where
  "idle s \<longleftrightarrow> \<not> inQuotes s \<and> \<not> newValue s"

lemma reads_blank:
  assumes "idle s" "c = CHR '' '' \<or> c = tab \<or> c = newline"
  shows "reads (during s) [c] (during s)"
proof (rule reads_char)
  fix json i st
  assume a: "json ! i = c" "during s st"
  then have f: "\<not> inQuotes st" "\<not> newValue st" using assms(1) by (auto simp: during_def idle_def)
  have "scanChar False json i st = (Returned (), blankStep i st)"
    using a(1) f assms(2) by (auto simp: scanChar_def charStep_def blankStep_def andThen_def)
  moreover have "core (blankStep i st) = core st" by (simp add: blankStep_def core_def)
  then have "during s (blankStep i st)" using a(2) unfolding during_def by (rule trans)
  ultimately show "\<exists>st'. scanChar False json i st = (Returned (), st') \<and> during s st'" by blast
qed

lemma reads_blanks:
  assumes "idle s" "\<forall>c \<in> set text. c = CHR '' '' \<or> c = tab \<or> c = newline"
  shows "reads (during s) text (during s)"
  using assms(2)
proof (induction "text")
  case (Cons c "text")
  then have "reads (during s) [c] (during s)" "plainEnd [c]" using reads_blank [OF assms(1)] by (auto simp: plainEnd_def)
  then show ?case using reads_seq [OF _ Cons.IH] Cons.prems by fastforce
qed (rule reads_nil)

text \<open>
  Texts between quotes: a quote follows a backslash, and the last character is none. \<open>safeFrom b\<close> is for
  a text that follows a backslash (\<open>b\<close>) or not.
\<close>

fun safeFrom :: "bool \<Rightarrow> string \<Rightarrow> bool" where
  "safeFrom b [] \<longleftrightarrow> \<not> b"
| "safeFrom b (c # cs) \<longleftrightarrow> (c = quote \<longrightarrow> b) \<and> safeFrom (c = backslash) cs"

lemma inside_run:
  assumes "json = pre @ text @ post" "inQuotes st" "\<not> newValue st" "safeFrom (pre \<noteq> [] \<and> last pre = backslash) text" "pre \<noteq> []"
  shows "each (scanChar False json) [length pre..<length pre + length text] st = (Returned (), st) \<and>
    plainEnd (pre @ text)"
  using assms
proof (induction "text" arbitrary: pre)
  case Nil
  then show ?case by (simp add: give_def plainEnd_def)
next
  case (Cons c "text")
  have "json ! length pre = c" "json ! (length pre - 1) = last pre"
    using Cons.prems(1,5) by (simp_all add: nth_append last_conv_nth)
  then have "scanChar False json (length pre) st = (Returned (), st)"
    using Cons.prems(2-5) by (auto simp: scanChar_def charStep_def quoteStep_def)
  moreover have "each (scanChar False json) [length (pre @ [c])..<length (pre @ [c]) + length text] st = (Returned (), st) \<and>
    plainEnd ((pre @ [c]) @ text)"
    using Cons.prems by (intro Cons.IH) auto
  moreover have "[length pre..<length pre + length (c # text)] = length pre # [length (pre @ [c])..<length (pre @ [c]) + length text]"
    by (simp add: upt_conv_Cons del: upt_Suc)
  ultimately show ?case by simp
qed

lemma reads_string:
  assumes "idle s" "safeFrom False t"
  shows "reads (during s) (jsonString t) (during (s\<lparr>newString := True, extractedString := restoreJSONStringEntities t\<rparr>))"
  unfolding reads_def
proof (intro allI impI, elim conjE)
  fix pre post st
  assume pre: "plainEnd pre" and st: "during s st"
  let ?json = "pre @ jsonString t @ post" and ?n = "length pre" and ?i = "length pre + 1 + length t"
  let ?st = "st\<lparr>inQuotes := True, startString := ?n\<rparr>"
  have q: "\<not> inQuotes st" "\<not> newValue st" using st assms(1) by (auto simp: during_def idle_def)
  have "?n = 0 \<or> ?json ! (?n - 1) \<noteq> backslash" "?json ! ?n = quote"
    using pre by (auto simp: plainEnd_def nth_append last_conv_nth jsonString_def)
  then have open_q: "scanChar False ?json ?n st = (Returned (), ?st)" using q by (auto simp: scanChar_def charStep_def quoteStep_def)
  have inner: "each (scanChar False ?json) [?n + 1..<?i] ?st = (Returned (), ?st)" "plainEnd ((pre @ [quote]) @ t)"
    using inside_run [of ?json "pre @ [quote]" t "quote # post" ?st] q assms(2) by (simp_all add: jsonString_def)
  have "?json ! ?i = quote" "?json ! (?i - 1) = last ((pre @ [quote]) @ t)"
    by (simp_all add: jsonString_def nth_append last_conv_nth nth_Cons')
  then have close_q: "scanChar False ?json ?i ?st =
      (Returned (), st\<lparr>inQuotes := False, startString := ?n, newString := True, extractedString := restoreJSONStringEntities t\<rparr>)"
    using q inner(2) by (simp add: scanChar_def charStep_def quoteStep_def plainEnd_def substr_def jsonString_def)
  have "[?n..<?n + length (jsonString t)] = [?n..<Suc ?i]" by (simp add: jsonString_def)
  also have "... = ?n # [?n + 1..<?i] @ [?i]" by (simp add: upt_conv_Cons [of ?n] del: upt_Suc) simp
  finally have split: "[?n..<?n + length (jsonString t)] = ?n # [?n + 1..<?i] @ [?i]" .
  have "scanText pre (jsonString t) post st =
      (Returned (), st\<lparr>inQuotes := False, startString := ?n, newString := True, extractedString := restoreJSONStringEntities t\<rparr>)"
    using open_q close_q inner(1) unfolding scanText_def split by (simp add: run_simps)
  moreover have "during (s\<lparr>newString := True, extractedString := restoreJSONStringEntities t\<rparr>)
      (st\<lparr>inQuotes := False, startString := ?n, newString := True, extractedString := restoreJSONStringEntities t\<rparr>)"
    using st q(1) by (auto simp: during_def core_def)
  ultimately show "\<exists>st'. scanText pre (jsonString t) post st = (Returned (), st') \<and>
      during (s\<lparr>newString := True, extractedString := restoreJSONStringEntities t\<rparr>) st'" by blast
qed

section \<open>Tokens\<close>

lemma handled:
  "scanChar False json i st = (Returned (), st') \<longleftrightarrow>
    (\<exists>st1. charStep json i st = (Returned (), st1) \<and>
       (if newValue st1 then \<exists>st2. handleValue False st1 = (Returned (), st2) \<and>
            st' = st2\<lparr>newString := False, newValue := False, endNumber := INVALID_INDEX\<rparr>
        else st' = st1))"
  by (auto simp: scanChar_def run_simps)

lemma reads_silent:
  assumes "\<And>json i st. \<lbrakk>json ! i = c; core st = s\<rbrakk> \<Longrightarrow>
    charStep json i st = (Returned (), g json i st) \<and> \<not> newValue (g json i st) \<and> core (g json i st) = t"
  shows "reads (during s) [c] (during t)"
proof (rule reads_char)
  fix json i st
  assume "i < length json" "json ! i = c" "during s st"
  then show "\<exists>st'. scanChar False json i st = (Returned (), st') \<and> during t st'"
    using assms [of json i st] unfolding handled during_def by (intro exI [of _ "g json i st"]) auto
qed

lemmas token_defs = charStep_def pathTop_def pushPath_def popPath_def andThen_def asks_def modifies_def idle_def core_def Let_def

lemma reads_colon:
  assumes "idle s" "newString s" "path s = p @ [(CHR ''{'', x)]"
  shows "reads (during s) '':'' (during (s\<lparr>path := path s @ [(CHR ''K'', extractedString s)], newString := False, extractedString := []\<rparr>))"
proof (rule reads_silent [where g = "\<lambda>json i st.
    (pushPath (CHR ''K'') (extractedString st) st)\<lparr>startNumber := i, newString := False, endNumber := INVALID_INDEX\<rparr>"])
  fix json i st
  assume a: "json ! i = CHR '':''" "core st = s"
  have f: "\<not> inQuotes st" "\<not> newValue st" "newString st" "path st = p @ [(CHR ''{'', x)]"
    using a(2) assms by (auto simp: idle_def)
  show "charStep json i st = (Returned (), (pushPath (CHR ''K'') (extractedString st) st)\<lparr>startNumber := i, newString := False, endNumber := INVALID_INDEX\<rparr>) \<and>
      \<not> newValue ((pushPath (CHR ''K'') (extractedString st) st)\<lparr>startNumber := i, newString := False, endNumber := INVALID_INDEX\<rparr>) \<and>
      core ((pushPath (CHR ''K'') (extractedString st) st)\<lparr>startNumber := i, newString := False, endNumber := INVALID_INDEX\<rparr>) =
        s\<lparr>path := path s @ [(CHR ''K'', extractedString s)], newString := False, extractedString := []\<rparr>"
    using a(1) f unfolding a(2) [symmetric]
    by (simp add: charStep_def colonStep_def pathTop_def pushPath_def andThen_def asks_def core_def)
qed

text \<open>Brackets that end no value, and the comma behind an object.\<close>

lemma reads_open:
  "idle s \<Longrightarrow> reads (during s) ''{'' (during (s\<lparr>path := path s @ [(CHR ''{'', ''{'')], lastPopType := CHR ''_'', bracketCount := Suc (bracketCount s)\<rparr>))"
  by (rule reads_silent [where g = "\<lambda>json i st. openStep st"]) (clarsimp simp: token_defs openStep_def)

lemma reads_array:
  "idle s \<Longrightarrow> reads (during s) ''['' (during (s\<lparr>path := path s @ [(CHR ''['', ''['')]\<rparr>))"
  by (rule reads_silent [where g = "\<lambda>json i st. openArray i st"]) (clarsimp simp: token_defs openArray_def)

lemma reads_comma_object:
  assumes "idle s" "lastPopType s = CHR ''{''" "path s \<noteq> []"
  shows "reads (during s) '','' (during (if fst (last (path s)) = CHR ''K'' then s\<lparr>path := butlast (path s), lastPopType := CHR ''K''\<rparr> else s))"
proof (rule reads_silent)
  fix json i st
  assume a: "json ! i = CHR '',''" "core st = s"
  let ?st = "if fst (last (path st)) = CHR ''K'' then popPath (st\<lparr>lastPopType := CHR ''K''\<rparr>) else st"
  have f: "\<not> inQuotes st" "\<not> newValue st" "path st = path s" "lastPopType st = CHR ''{''"
    using a(2) assms by (auto simp: idle_def)
  have "charStep json i st = (Returned (), ?st)"
    using a(1) f assms(3) by (simp add: charStep_def commaStep_def pathTop_def andThen_def asks_def modifies_def)
  moreover have "core ?st = (if fst (last (path s)) = CHR ''K'' then s\<lparr>path := butlast (path s), lastPopType := CHR ''K''\<rparr> else s)"
    using a(2) f by (auto simp: core_def popPath_def)
  ultimately show "charStep json i st = (Returned (), ?st) \<and> \<not> newValue ?st \<and>
      core ?st = (if fst (last (path s)) = CHR ''K'' then s\<lparr>path := butlast (path s), lastPopType := CHR ''K''\<rparr> else s)"
    using f by (simp add: popPath_def)
qed

lemma closeValue_form: "\<exists>e w. closeValue json i st = st\<lparr>endNumber := e, currVal := w\<rparr>"
proof -
  have "closeValue json i st = st\<lparr>endNumber := endNumber (closeValue json i st), currVal := currVal (closeValue json i st)\<rparr>"
    by (simp add: closeValue_def Let_def)
  then show ?thesis by blast
qed

lemma reads_end_array:
  assumes "idle s" "\<not> newString s" "path s = [(CHR ''{'', x), (CHR ''K'', k), (CHR ''['', y)]"
  shows "reads (during s) '']'' (during (s\<lparr>path := [(CHR ''{'', x), (CHR ''K'', k)], lastPopType := CHR ''[''\<rparr>))"
proof (rule reads_silent)
  fix json i st
  assume a: "json ! i = CHR '']''" "core st = s"
  obtain e w where v: "closeValue json i st = st\<lparr>endNumber := e, currVal := w\<rparr>" using closeValue_form by blast
  have f: "\<not> inQuotes st" "\<not> newValue st" "path st = [(CHR ''{'', x), (CHR ''K'', k), (CHR ''['', y)]"
    using a(2) assms by (auto simp: idle_def)
  let ?st = "(popPath ((closeValue json i st)\<lparr>currDepth := bracketCount st, currKey := k\<rparr>))
      \<lparr>lastPopType := CHR ''['', sqBracketCount := sqBracketCount st - 1\<rparr>"
  have "charStep json i st = (Returned (), ?st)"
    using a(1) f by (simp add: charStep_def closeArray_def arrayKey_def pathTop_def popPath_def andThen_def asks_def modifies_def v)
  moreover have "core ?st = s\<lparr>path := [(CHR ''{'', x), (CHR ''K'', k)], lastPopType := CHR ''[''\<rparr>"
    using a(2) f by (auto simp: core_def popPath_def v)
  ultimately show "charStep json i st = (Returned (), ?st) \<and> \<not> newValue ?st \<and>
      core ?st = s\<lparr>path := [(CHR ''{'', x), (CHR ''K'', k)], lastPopType := CHR ''[''\<rparr>"
    using f by (simp add: popPath_def v)
qed

text \<open>A string value that ends at a comma or at the end of its object.\<close>

lemma reads_comma_value:
  assumes s: "idle s" "newString s" "lastPopType s \<noteq> CHR ''{''" "path s = p @ [(CHR ''K'', k)]"
    and h: "\<And>st. \<lbrakk>core st = s\<lparr>path := p, lastPopType := CHR ''K'', newValue := True\<rparr>; currKey st = k;
        currVal st = extractedString s; currDepth st = bracketCount s\<rbrakk> \<Longrightarrow> \<exists>st'. handleValue False st = (Returned (), st') \<and> core st' = t"
  shows "reads (during s) '','' (during (consumed t))"
proof (rule reads_char)
  fix json i st
  assume a: "i < length json" "json ! i = CHR '',''" "during s st"
  let ?st = "(keyValue (st\<lparr>currVal := extractedString st, currDepth := bracketCount st\<rparr>))\<lparr>lastPopType := CHR ''K'', startNumber := i\<rparr>"
  have c: "core st = s" using a(3) by (simp add: during_def)
  have f: "\<not> inQuotes st" "\<not> newValue st" "newString st" "lastPopType st \<noteq> CHR ''{''" "path st = p @ [(CHR ''K'', k)]"
    using c s by (auto simp: idle_def)
  have e: "extractedString s = extractedString st" "bracketCount s = bracketCount st" using c f(3) by auto
  have "charStep json i st = (Returned (), ?st)"
    using a f by (simp add: charStep_def commaStep_def closeValue_def modifies_def asks_def andThen_def pathTop_def keyValue_def popPath_def)
  moreover have "core ?st = s\<lparr>path := p, lastPopType := CHR ''K'', newValue := True\<rparr>"
    using f unfolding c [symmetric] by (simp add: core_def keyValue_def popPath_def)
  moreover have "currKey ?st = k" "currVal ?st = extractedString s" "currDepth ?st = bracketCount s" "newValue ?st"
    using f e by (simp_all add: keyValue_def popPath_def)
  moreover obtain st' where "handleValue False ?st = (Returned (), st')" "core st' = t" using h [of ?st] calculation by blast
  ultimately show "\<exists>st'. scanChar False json i st = (Returned (), st') \<and> during (consumed t) st'"
    unfolding handled by (intro exI [of _ "st'\<lparr>newString := False, newValue := False, endNumber := INVALID_INDEX\<rparr>"])
      (auto simp: during_def core_def consumed_def)
qed

lemma reads_close_value:
  assumes s: "idle s" "newString s" "lastPopType s \<noteq> CHR ''{''" "path s = p @ [(CHR ''{'', x), (CHR ''K'', k)]"
    and h: "\<And>st. \<lbrakk>core st = s\<lparr>path := p, lastPopType := CHR ''{'', bracketCount := bracketCount s - 1, newValue := True\<rparr>; currKey st = k;
        currVal st = extractedString s; currDepth st = bracketCount s\<rbrakk> \<Longrightarrow> \<exists>st'. handleValue False st = (Returned (), st') \<and> core st' = t"
  shows "reads (during s) ''}'' (during (consumed t))"
proof (rule reads_char)
  fix json i st
  assume a: "i < length json" "json ! i = CHR ''}''" "during s st"
  let ?st = "(popPath (keyValue (st\<lparr>currVal := extractedString st, currDepth := bracketCount st\<rparr>)))
      \<lparr>lastPopType := CHR ''{'', bracketCount := bracketCount st - 1\<rparr>"
  have c: "core st = s" using a(3) by (simp add: during_def)
  have f: "\<not> inQuotes st" "\<not> newValue st" "newString st" "lastPopType st \<noteq> CHR ''{''" "path st = p @ [(CHR ''{'', x), (CHR ''K'', k)]"
    using c s by (auto simp: idle_def)
  have e: "extractedString s = extractedString st" "bracketCount s = bracketCount st" using c f(3) by auto
  have "charStep json i st = (Returned (), ?st)"
    using a f by (simp add: charStep_def closeStep_def closeObject_def closeValue_def modifies_def asks_def andThen_def pathTop_def
        keyValue_def popPath_def butlast_append)
  moreover have "core ?st = s\<lparr>path := p, lastPopType := CHR ''{'', bracketCount := bracketCount s - 1, newValue := True\<rparr>"
    using f unfolding c [symmetric] by (simp add: core_def keyValue_def popPath_def butlast_append)
  moreover have "currKey ?st = k" "currVal ?st = extractedString s" "currDepth ?st = bracketCount s" "newValue ?st"
    using f e by (simp_all add: keyValue_def popPath_def)
  moreover obtain st' where "handleValue False ?st = (Returned (), st')" "core st' = t" using h [of ?st] calculation by blast
  ultimately show "\<exists>st'. scanChar False json i st = (Returned (), st') \<and> during (consumed t) st'"
    unfolding handled by (intro exI [of _ "st'\<lparr>newString := False, newValue := False, endNumber := INVALID_INDEX\<rparr>"])
      (auto simp: during_def core_def consumed_def)
qed

text \<open>A number value: the text between the blank behind the colon and the comma.\<close>

definition plainChar :: "char \<Rightarrow> bool" where
  "plainChar c \<longleftrightarrow> c \<notin> {quote, CHR '':'', CHR '','', CHR ''{'', CHR ''}'', CHR ''['', CHR '']'', CHR '' '', tab, newline, CHR 0x0D}"

lemma plain_run:
  assumes "json = pre @ t @ post" "\<not> newValue st" "\<forall>c \<in> set t. plainChar c"
  shows "each (scanChar False json) [length pre..<length pre + length t] st = (Returned (), st)"
  using assms
proof (induction t arbitrary: pre)
  case Nil
  then show ?case by (simp add: give_def)
next
  case (Cons c t)
  have "scanChar False json (length pre) st = (Returned (), st)"
    using Cons.prems by (simp add: scanChar_def charStep_def plainChar_def nth_append andThen_def)
  moreover have "each (scanChar False json) [length (pre @ [c])..<length (pre @ [c]) + length t] st = (Returned (), st)"
    using Cons.prems by (intro Cons.IH) auto
  moreover have "[length pre..<length pre + length (c # t)] = length pre # [length (pre @ [c])..<length (pre @ [c]) + length t]"
    by (simp add: upt_conv_Cons del: upt_Suc)
  ultimately show ?case by simp
qed

lemma reads_number:
  assumes s: "idle s" "newString s" "path s = p @ [(CHR ''{'', x)]" "lastPopType s \<noteq> CHR ''{''" and t: "\<forall>c \<in> set t. plainChar c"
    and h: "\<And>st. \<lbrakk>core st = s\<lparr>newString := False, extractedString := [], lastPopType := CHR ''K'', newValue := True\<rparr>;
        currKey st = extractedString s; currVal st = t; currDepth st = bracketCount s\<rbrakk> \<Longrightarrow>
        \<exists>st'. handleValue False st = (Returned (), st') \<and> core st' = r"
  shows "reads (during s) ('': '' @ t @ '','') (during (consumed r))"
  unfolding reads_def
proof (intro allI impI, elim conjE)
  fix pre post st
  assume "plainEnd pre" and "during s st"
  then have c: "core st = s" by (simp add: during_def)
  have f: "\<not> inQuotes st" "\<not> newValue st" "newString st" "lastPopType st \<noteq> CHR ''{''" "path st = p @ [(CHR ''{'', x)]"
    using c s by (auto simp: idle_def)
  have e: "extractedString s = extractedString st" "bracketCount s = bracketCount st" using c f(3) by auto
  define json where "json = pre @ ('': '' @ t @ '','') @ post"
  define i where "i = length pre + 2 + length t"
  let ?n = "length pre"
  let ?st1 = "(pushPath (CHR ''K'') (extractedString st) st)\<lparr>startNumber := ?n, newString := False, endNumber := INVALID_INDEX\<rparr>"
  define st2 where "st2 = blankStep (?n + 1) ?st1"
  let ?st3 = "(keyValue (st2\<lparr>endNumber := i, currVal := t, currDepth := bracketCount st\<rparr>))\<lparr>lastPopType := CHR ''K'', startNumber := i\<rparr>"
  have g: "\<not> inQuotes st2" "\<not> newValue st2" "\<not> newString st2" "lastPopType st2 \<noteq> CHR ''{''" "path st2 = path s @ [(CHR ''K'', extractedString s)]"
      "bracketCount st2 = bracketCount st" "startNumber st2 = ?n + 1" "endNumber st2 = INVALID_INDEX \<or> endNumber st2 = ?n + 1"
      "core st2 = s\<lparr>newString := False, extractedString := [], path := path s @ [(CHR ''K'', extractedString s)]\<rparr>"
    using f e unfolding c [symmetric] by (simp_all add: st2_def blankStep_def pushPath_def core_def)
  have j: "json ! ?n = CHR '':''" "json ! (?n + 1) = CHR '' ''" "json ! i = CHR '',''"
    by (simp_all add: json_def i_def nth_append nth_Cons')
  have 1: "scanChar False json ?n st = (Returned (), ?st1)"
    using f j(1) by (simp add: scanChar_def charStep_def colonStep_def pathTop_def pushPath_def andThen_def asks_def)
  have 2: "scanChar False json (?n + 1) ?st1 = (Returned (), st2)"
    using f j(2) by (simp add: scanChar_def charStep_def pushPath_def andThen_def blankStep_def st2_def)
  have 3: "each (scanChar False json) [?n + 2..<i] st2 = (Returned (), st2)"
    using plain_run [of json "pre @ '': ''" t "'','' @ post" st2] t g(2) by (simp add: json_def i_def)
  have val: "closeValue json i st2 = st2\<lparr>endNumber := i, currVal := t\<rparr>"
  proof -
    have "(if endNumber st2 = INVALID_INDEX \<or> endNumber st2 \<le> startNumber st2 then i else endNumber st2) = i" using g(7,8) by presburger
    moreover have "substr json (startNumber st2 + 1) (i - startNumber st2 - 1) = t" "\<not> i \<le> startNumber st2" by (simp_all add: json_def i_def substr_def g(7))
    ultimately show ?thesis unfolding closeValue_def Let_def by (simp only: g(3) if_False)
  qed
  have 4: "charStep json i st2 = (Returned (), ?st3)"
    using g j(3) by (simp add: charStep_def commaStep_def modifies_def asks_def andThen_def pathTop_def val Let_def)
  have "core ?st3 = (core st2)\<lparr>path := butlast (path (core st2)), newValue := True, lastPopType := CHR ''K''\<rparr>"
    by (simp add: core_def keyValue_def popPath_def)
  also have "... = s\<lparr>newString := False, extractedString := [], lastPopType := CHR ''K'', newValue := True\<rparr>"
    unfolding g(9) by simp
  finally have "core ?st3 = s\<lparr>newString := False, extractedString := [], lastPopType := CHR ''K'', newValue := True\<rparr>" .
  moreover have "currKey ?st3 = extractedString s" "currVal ?st3 = t" "currDepth ?st3 = bracketCount s" "newValue ?st3"
    using g(5) e(2) by (simp_all add: keyValue_def popPath_def)
  moreover obtain st' where st': "handleValue False ?st3 = (Returned (), st')" "core st' = r" using h [of ?st3] calculation by blast
  ultimately have 5: "scanChar False json i st2 = (Returned (), st'\<lparr>newString := False, newValue := False, endNumber := INVALID_INDEX\<rparr>)"
    using 4 by (simp add: handled)
  have "[?n..<?n + length ('': '' @ t @ '','')] = [?n..<Suc i]" by (simp add: i_def)
  also have "... = ?n # (?n + 1) # [?n + 2..<i] @ [i]" by (simp add: upt_conv_Cons [of ?n] upt_conv_Cons [of "Suc ?n"] del: upt_Suc add: i_def) simp
  finally have split: "[?n..<?n + length ('': '' @ t @ '','')] = ?n # (?n + 1) # [?n + 2..<i] @ [i]" .
  have "scanText pre ('': '' @ t @ '','') post st = (Returned (), st'\<lparr>newString := False, newValue := False, endNumber := INVALID_INDEX\<rparr>)"
    unfolding scanText_def json_def [symmetric] split using 1 2 3 5 by (simp add: run_simps)
  moreover have "during (consumed r) (st'\<lparr>newString := False, newValue := False, endNumber := INVALID_INDEX\<rparr>)"
    using st'(2) by (auto simp: during_def core_def consumed_def)
  ultimately show "\<exists>st'. scanText pre ('': '' @ t @ '','') post st = (Returned (), st') \<and> during (consumed r) st'" by blast
qed

section \<open>Escaped texts\<close>

lemma safeFrom_escape: "safeFrom b (escapeValue False s) \<longleftrightarrow> (if s = [] then \<not> b else last s \<noteq> backslash)"
proof (induction s arbitrary: b)
  case (Cons c s)
  then show ?case by (cases "s = []") auto
qed simp

lemma restore_escapeValue: "restoreJSONStringEntities (escapeValue False s) = s"
  by (induction s) (simp_all add: json_restore_def restore_literal)

definition cleanText :: "string \<Rightarrow> bool" where
  "cleanText s \<longleftrightarrow> quote \<notin> set s \<and> backslash \<notin> set s"

lemma clean_safe: "cleanText s \<Longrightarrow> safeFrom False s \<and> restoreJSONStringEntities s = s"
  by (induction s) (auto simp: cleanText_def restore_literal)

lemma plainEnd_simps [simp]:
  "plainEnd []" "plainEnd [c] \<longleftrightarrow> c \<noteq> backslash" "t \<noteq> [] \<Longrightarrow> plainEnd (c # t) \<longleftrightarrow> plainEnd t"
  "b \<noteq> [] \<Longrightarrow> plainEnd (a @ b) \<longleftrightarrow> plainEnd b" "plainEnd (jsonString t)" "jsonString t \<noteq> []"
  by (simp_all add: plainEnd_def jsonString_def)

section \<open>Members\<close>

text \<open>A key with its string.\<close>

lemma reads_key:
  assumes "idle s" "path s = p @ [(CHR ''{'', x)]" "cleanText k"
  shows "reads (during s) (jsonString k @ '' '') (during (s\<lparr>newString := True, extractedString := k\<rparr>))"
proof -
  have "reads (during s) (jsonString k) (during (s\<lparr>newString := True, extractedString := k\<rparr>))"
    using reads_string [OF assms(1), of k] clean_safe [OF assms(3)] by simp
  moreover have "idle (s\<lparr>newString := True, extractedString := k\<rparr>)" using assms(1) by (simp add: idle_def)
  ultimately show ?thesis by (rule reads_seq [OF _ reads_blanks]) simp_all
qed

lemma reads_field:
  assumes "idle s" "path s = p @ [(CHR ''{'', x)]" "cleanText k" "safeFrom False t"
  shows "reads (during s) (jsonString k @ '' : '' @ jsonString t)
    (during (s\<lparr>path := path s @ [(CHR ''K'', k)], newString := True, extractedString := restoreJSONStringEntities t\<rparr>))"
proof -
  let ?s1 = "s\<lparr>newString := True, extractedString := k\<rparr>"
  let ?s2 = "?s1\<lparr>path := path s @ [(CHR ''K'', k)], newString := False, extractedString := []\<rparr>"
  have 1: "reads (during s) (jsonString k @ '' '') (during ?s1)" by (rule reads_key [OF assms(1-3)])
  have 2: "reads (during ?s1) '':'' (during ?s2)" using reads_colon [of ?s1 p x] assms(1,2) by (simp add: idle_def)
  have 3: "reads (during ?s2) '' '' (during ?s2)" using assms(1) by (intro reads_blanks) (auto simp: idle_def)
  have 4: "reads (during ?s2) (jsonString t) (during (?s2\<lparr>newString := True, extractedString := restoreJSONStringEntities t\<rparr>))"
    using assms(1,4) by (intro reads_string) (simp_all add: idle_def)
  have "reads (during s) ((jsonString k @ '' '') @ '':'' @ '' '' @ jsonString t)
      (during (?s2\<lparr>newString := True, extractedString := restoreJSONStringEntities t\<rparr>))"
    by (rule reads_seq [OF 1 reads_seq [OF 2 reads_seq [OF 3 4]]]) simp_all
  then show ?thesis by simp
qed

definition memberView :: "string \<Rightarrow> string \<Rightarrow> table_view \<Rightarrow> table_view" where
  "memberView k w u =
     (if k = ''COMMENT'' then u\<lparr>comment := w\<rparr> else if k = ''AUTHOR'' then u\<lparr>author := w\<rparr>
      else if k = ''CREATION_TIME'' then u\<lparr>creationTime := strtol10 (dropWhile isspace (c_str w))\<rparr> else u)"

lemma handle_member:
  assumes "currDepth st = 1" "currKey st \<in> set jsonKeys"
  shows "handleValue False st = (Returned (), st\<lparr>view := memberView (currKey st) (currVal st) (view st)\<rparr>)"
  using assms by (auto simp: handleValue_def matchedKey_def andThen_def asks_def memberView_def onMember_def jsonKeys_def)

definition memberDone :: "string \<Rightarrow> string \<Rightarrow> json_state \<Rightarrow> json_state" where
  "memberDone k w s = s\<lparr>view := memberView k w (view s), lastPopType := CHR ''K''\<rparr>"

definition atMembers :: "json_state \<Rightarrow> bool" where
  "atMembers s \<longleftrightarrow> idle s \<and> \<not> newString s \<and> extractedString s = [] \<and> path s = [(CHR ''{'', ''{'')] \<and> bracketCount s = 1 \<and> lastPopType s \<noteq> CHR ''{''"

lemma core_view: "core (st\<lparr>view := u\<rparr>) = (core st)\<lparr>view := u\<rparr>"
  by (simp add: core_def)

lemma reads_member:
  assumes "atMembers s" "k \<in> set jsonKeys" "safeFrom False t"
  shows "reads (during s) (jsonString k @ '' : '' @ jsonString t @ [CHR '','', newline]) (during (memberDone k (restoreJSONStringEntities t) s))"
proof -
  let ?w = "restoreJSONStringEntities t"
  let ?s1 = "s\<lparr>path := path s @ [(CHR ''K'', k)], newString := True, extractedString := ?w\<rparr>"
  have k: "cleanText k" using assms(2) by (auto simp: jsonKeys_def cleanText_def)
  have s: "idle s" "path s = [] @ [(CHR ''{'', ''{'')]" using assms(1) by (simp_all add: atMembers_def)
  let ?r = "?s1\<lparr>path := [(CHR ''{'', ''{'')], lastPopType := CHR ''K'', newValue := True, view := memberView k ?w (view s)\<rparr>"
  have 2: "reads (during ?s1) '','' (during (consumed ?r))"
  proof (rule reads_comma_value [where k = k and p = "[(CHR ''{'', ''{'')]"])
    fix st
    assume c: "core st = ?s1\<lparr>path := [(CHR ''{'', ''{'')], lastPopType := CHR ''K'', newValue := True\<rparr>" and
      v: "currKey st = k" "currVal st = extractedString ?s1" "currDepth st = bracketCount ?s1"
    have "view st = view s" using arg_cong [OF c, of view] by simp
    then show "\<exists>st'. handleValue False st = (Returned (), st') \<and> core st' = ?r"
      using handle_member [of st] v assms(1,2) c by (simp add: atMembers_def core_view)
  qed (use assms(1) in \<open>simp_all add: atMembers_def idle_def\<close>)
  have r: "consumed ?r = memberDone k ?w s" using assms(1) by (simp add: consumed_def memberDone_def atMembers_def idle_def)
  have 3: "reads (during (memberDone k ?w s)) [newline] (during (memberDone k ?w s))"
    using s(1) by (intro reads_blanks) (simp_all add: idle_def memberDone_def)
  have "reads (during s) ((jsonString k @ '' : '' @ jsonString t) @ '','' @ [newline]) (during (memberDone k ?w s))"
    by (rule reads_seq [OF reads_field [OF s k assms(3)] reads_seq [OF 2 [unfolded r] 3]]) simp_all
  then show ?thesis by simp
qed

lemma reads_number_member:
  assumes "atMembers s" "k \<in> set jsonKeys" "\<forall>c \<in> set t. plainChar c"
  shows "reads (during s) (jsonString k @ '' : '' @ t @ [CHR '','', newline]) (during (memberDone k t s))"
proof -
  let ?s1 = "s\<lparr>newString := True, extractedString := k\<rparr>"
  have k: "cleanText k" using assms(2) by (auto simp: jsonKeys_def cleanText_def)
  have s: "idle s" "path s = [] @ [(CHR ''{'', ''{'')]" using assms(1) by (simp_all add: atMembers_def)
  let ?r = "s\<lparr>newString := False, extractedString := [], lastPopType := CHR ''K'', newValue := True, view := memberView k t (view s)\<rparr>"
  have 2: "reads (during ?s1) ('': '' @ t @ '','') (during (consumed ?r))"
  proof (rule reads_number [where x = "''{''" and p = "[]"])
    fix st
    assume c: "core st = ?s1\<lparr>newString := False, extractedString := [], lastPopType := CHR ''K'', newValue := True\<rparr>" and
      v: "currKey st = extractedString ?s1" "currVal st = t" "currDepth st = bracketCount ?s1"
    have "view st = view s" using arg_cong [OF c, of view] by simp
    then show "\<exists>st'. handleValue False st = (Returned (), st') \<and> core st' = ?r"
      using handle_member [of st] v assms(1,2) c by (simp add: atMembers_def core_view)
  qed (use assms(1,3) in \<open>simp_all add: atMembers_def idle_def\<close>)
  have r: "consumed ?r = memberDone k t s" using assms(1) by (simp add: consumed_def memberDone_def atMembers_def idle_def)
  have 3: "reads (during (memberDone k t s)) [newline] (during (memberDone k t s))"
    using s(1) by (intro reads_blanks) (simp_all add: idle_def memberDone_def)
  have "reads (during s) ((jsonString k @ '' '') @ ('': '' @ t @ '','') @ [newline]) (during (memberDone k t s))"
    by (rule reads_seq [OF reads_key [OF s k] reads_seq [OF 2 [unfolded r] 3]]) simp_all
  then show ?thesis by simp
qed

section \<open>Objects\<close>

text \<open>What the values of a data set change.\<close>

type_synonym fill_data = "table_view \<times> (string, nat) omap \<times> nat \<times> nat \<times> nat"

definition dataOf :: "json_state \<Rightarrow> fill_data" where
  "dataOf st = (view st, keyEntryCountMap st, colFoundCount st, row st, colSpeedup st)"

definition withData :: "fill_data \<Rightarrow> json_state \<Rightarrow> json_state" where
  "withData d st = (case d of (v, m, f, r, c) \<Rightarrow> st\<lparr>view := v, keyEntryCountMap := m, colFoundCount := f, row := r, colSpeedup := c\<rparr>)"

lemma withData_simps [simp]:
  "withData (dataOf st) st = st" "dataOf (withData d st) = d" "withData d (withData e st) = withData d st"
  "inQuotes (withData d st) = inQuotes st" "newString (withData d st) = newString st" "newValue (withData d st) = newValue st"
  "path (withData d st) = path st" "lastPopType (withData d st) = lastPopType st" "bracketCount (withData d st) = bracketCount st"
  "extractedString (withData d st) = extractedString st" "dataOf (core st) = dataOf st"
  by (simp_all add: withData_def dataOf_def split: prod.splits)

lemma withData_updates:
  "withData d (st\<lparr>path := p\<rparr>) = (withData d st)\<lparr>path := p\<rparr>" "withData d (st\<lparr>lastPopType := c\<rparr>) = (withData d st)\<lparr>lastPopType := c\<rparr>"
  "withData d (st\<lparr>newString := b\<rparr>) = (withData d st)\<lparr>newString := b\<rparr>" "withData d (st\<lparr>newValue := b\<rparr>) = (withData d st)\<lparr>newValue := b\<rparr>"
  "withData d (st\<lparr>extractedString := x\<rparr>) = (withData d st)\<lparr>extractedString := x\<rparr>"
  "withData d (st\<lparr>bracketCount := n\<rparr>) = (withData d st)\<lparr>bracketCount := n\<rparr>"
  by (simp_all add: withData_def split: prod.splits)

text \<open>
  \<open>takes p b D fs\<close>: at depth \<open>b\<close> inside the path \<open>p\<close>, the values of the fields \<open>fs\<close> take the data from \<open>D 0\<close>
  to \<open>D (length fs)\<close>, one step for each field.
\<close>

definition takes :: "(char \<times> string) list \<Rightarrow> nat \<Rightarrow> (nat \<Rightarrow> fill_data) \<Rightarrow> (string \<times> string) list \<Rightarrow> bool" where
  "takes p b D fs \<longleftrightarrow>
     (\<forall>j < length fs. \<forall>st q. dataOf st = D j \<and> currKey st = fst (fs ! j) \<and> currVal st = restoreJSONStringEntities (snd (fs ! j)) \<and>
        currDepth st = b \<and> path st = p @ q \<longrightarrow>
        (\<exists>st'. handleValue False st = (Returned (), st') \<and> core st' = withData (D (Suc j)) (core st)))"

definition atFields :: "(char \<times> string) list \<Rightarrow> nat \<Rightarrow> json_state \<Rightarrow> bool" where
  "atFields p b s \<longleftrightarrow>
     idle s \<and> \<not> newString s \<and> extractedString s = [] \<and> path s = p @ [(CHR ''{'', ''{'')] \<and> bracketCount s = b \<and> lastPopType s \<noteq> CHR ''{''"

lemma reads_line_comma:
  assumes "atFields p b s" "takes p b D fs" "j < length fs" "dataOf s = D j" "cleanText (fst (fs ! j))" "safeFrom False (snd (fs ! j))"
  shows "reads (during s) (jsonField (fst (fs ! j)) (snd (fs ! j)) @ [CHR '','', newline])
    (during (withData (D (Suc j)) (s\<lparr>lastPopType := CHR ''K''\<rparr>)))"
proof -
  let ?k = "fst (fs ! j)" and ?t = "snd (fs ! j)"
  let ?w = "restoreJSONStringEntities ?t" and ?q = "[(CHR ''{'', ''{'')]"
  let ?s1 = "s\<lparr>path := path s @ [(CHR ''K'', ?k)], newString := True, extractedString := ?w\<rparr>"
  let ?s2 = "?s1\<lparr>path := p @ ?q, lastPopType := CHR ''K'', newValue := True\<rparr>"
  have s: "idle s" "path s = p @ ?q" using assms(1) by (simp_all add: atFields_def)
  have 2: "reads (during ?s1) '','' (during (consumed (withData (D (Suc j)) ?s2)))"
  proof (rule reads_comma_value [where k = ?k and p = "p @ ?q"])
    fix st
    assume c: "core st = ?s2" and v: "currKey st = ?k" "currVal st = extractedString ?s1" "currDepth st = bracketCount ?s1"
    have "dataOf st = D j" using arg_cong [OF c, of dataOf] assms(4) by (simp add: dataOf_def)
    moreover have "path st = p @ ?q" using arg_cong [OF c, of path] by simp
    ultimately show "\<exists>st'. handleValue False st = (Returned (), st') \<and> core st' = withData (D (Suc j)) ?s2"
      using assms(2) assms(3) v assms(1) unfolding takes_def c [symmetric] atFields_def by simp
  qed (use assms(1) in \<open>simp_all add: atFields_def idle_def\<close>)
  have r: "consumed (withData (D (Suc j)) ?s2) = withData (D (Suc j)) (s\<lparr>lastPopType := CHR ''K''\<rparr>)" (is "_ = ?r")
    using assms(1) by (simp add: consumed_def withData_def atFields_def idle_def split: prod.split)
  have 0: "reads (during s) [tab, tab] (during s)" using s(1) by (intro reads_blanks) simp_all
  have 3: "reads (during ?r) [newline] (during ?r)" using s(1) by (intro reads_blanks) (simp_all add: idle_def)
  have "reads (during s) ([tab, tab] @ (jsonString ?k @ '' : '' @ jsonString ?t) @ '','' @ [newline]) (during ?r)"
    by (rule reads_seq [OF 0 reads_seq [OF reads_field [OF s assms(5,6)] reads_seq [OF 2 [unfolded r] 3]]]) simp_all
  then show ?thesis by (simp add: jsonField_def)
qed

definition objectDone :: "(char \<times> string) list \<Rightarrow> fill_data \<Rightarrow> json_state \<Rightarrow> json_state" where
  "objectDone p d s = withData d (s\<lparr>path := p, lastPopType := CHR ''{'', bracketCount := bracketCount s - 1\<rparr>)"

lemma reads_line_close:
  assumes "atFields p b s" "takes p b D fs" "j < length fs" "dataOf s = D j" "cleanText (fst (fs ! j))" "safeFrom False (snd (fs ! j))"
    "\<forall>c \<in> set blanks. c = CHR '' '' \<or> c = tab \<or> c = newline"
  shows "reads (during s) (jsonField (fst (fs ! j)) (snd (fs ! j)) @ newline # blanks @ ''}'') (during (objectDone p (D (Suc j)) s))"
proof -
  let ?k = "fst (fs ! j)" and ?t = "snd (fs ! j)"
  let ?w = "restoreJSONStringEntities ?t" and ?q = "[(CHR ''{'', ''{'')]"
  let ?s1 = "s\<lparr>path := path s @ [(CHR ''K'', ?k)], newString := True, extractedString := ?w\<rparr>"
  let ?s2 = "?s1\<lparr>path := p, lastPopType := CHR ''{'', bracketCount := bracketCount ?s1 - 1, newValue := True\<rparr>"
  have s: "idle s" "path s = p @ ?q" using assms(1) by (simp_all add: atFields_def)
  have 2: "reads (during ?s1) ''}'' (during (consumed (withData (D (Suc j)) ?s2)))"
  proof (rule reads_close_value [where k = ?k and p = p and x = "''{''"])
    fix st
    assume c: "core st = ?s2" and v: "currKey st = ?k" "currVal st = extractedString ?s1" "currDepth st = bracketCount ?s1"
    have "dataOf st = D j" using arg_cong [OF c, of dataOf] assms(4) by (simp add: dataOf_def)
    moreover have "path st = p @ []" using arg_cong [OF c, of path] by simp
    ultimately show "\<exists>st'. handleValue False st = (Returned (), st') \<and> core st' = withData (D (Suc j)) ?s2"
      using assms(2) assms(3) v assms(1) unfolding takes_def c [symmetric] atFields_def by simp
  qed (use assms(1) in \<open>simp_all add: atFields_def idle_def\<close>)
  have r: "consumed (withData (D (Suc j)) ?s2) = objectDone p (D (Suc j)) s"
    using assms(1) by (simp add: consumed_def objectDone_def withData_def atFields_def idle_def split: prod.split)
  have 0: "reads (during s) [tab, tab] (during s)" using s(1) by (intro reads_blanks) simp_all
  have 3: "reads (during ?s1) (newline # blanks) (during ?s1)" using s(1) assms(7) by (intro reads_blanks) (simp_all add: idle_def)
  have "c \<noteq> backslash" if "c \<in> set (newline # blanks)" for c using that assms(7) by fastforce
  then have "plainEnd (newline # blanks)" using last_in_set [of "newline # blanks"] unfolding plainEnd_def by blast
  then have "reads (during s) ([tab, tab] @ (jsonString ?k @ '' : '' @ jsonString ?t) @ (newline # blanks) @ ''}'') (during (objectDone p (D (Suc j)) s))"
    by (intro reads_seq [OF 0 reads_seq [OF reads_field [OF s assms(5,6)] reads_seq [OF 3 2 [unfolded r]]]]) simp_all
  then show ?thesis by (simp add: jsonField_def)
qed

lemma reads_object:
  assumes "takes p b D fs" "\<forall>f \<in> set fs. cleanText (fst f) \<and> safeFrom False (snd f)"
    "\<forall>c \<in> set blanks. c = CHR '' '' \<or> c = tab \<or> c = newline" "j < length fs" "atFields p b s" "dataOf s = D j"
  shows "reads (during s) (jsonLines (map (\<lambda>f. jsonField (fst f) (snd f)) (drop j fs)) @ blanks @ ''}'')
    (during (objectDone p (D (length fs)) s))"
  using assms(4-6)
proof (induction "length fs - j" arbitrary: j s)
  case (Suc n)
  have d: "drop j fs = fs ! j # drop (Suc j) fs" using Suc.prems(1) by (rule Cons_nth_drop_Suc [symmetric])
  have f: "cleanText (fst (fs ! j))" "safeFrom False (snd (fs ! j))" using assms(2) Suc.prems(1) by simp_all
  show ?case
  proof (cases "Suc j = length fs")
    case True
    then show ?thesis using reads_line_close [OF Suc.prems(2) assms(1) Suc.prems(1,3) f assms(3)] by (simp add: d)
  next
    case False
    then have j: "Suc j < length fs" using Suc.prems(1) by simp
    let ?r = "withData (D (Suc j)) (s\<lparr>lastPopType := CHR ''K''\<rparr>)"
    have "atFields p b ?r" using Suc.prems(2) by (simp add: atFields_def idle_def)
    then have "reads (during ?r) (jsonLines (map (\<lambda>f. jsonField (fst f) (snd f)) (drop (Suc j) fs)) @ blanks @ ''}'')
        (during (objectDone p (D (length fs)) ?r))"
      using Suc.hyps(2) j by (intro Suc.hyps(1)) simp_all
    moreover have "objectDone p (D (length fs)) ?r = objectDone p (D (length fs)) s"
      by (simp add: objectDone_def withData_def split: prod.split)
    ultimately have "reads (during s) ((jsonField (fst (fs ! j)) (snd (fs ! j)) @ [CHR '','', newline]) @
        jsonLines (map (\<lambda>f. jsonField (fst f) (snd f)) (drop (Suc j) fs)) @ blanks @ ''}'') (during (objectDone p (D (length fs)) s))"
      by (intro reads_seq [OF reads_line_comma [OF Suc.prems(2) assms(1) Suc.prems(1,3) f]]) simp_all
    moreover have "drop (Suc j) fs = fs ! Suc j # drop (Suc (Suc j)) fs" using j by (rule Cons_nth_drop_Suc [symmetric])
    ultimately show ?thesis by (simp add: d)
  qed
qed simp

text \<open>The types of the columns change nothing.\<close>

lemma takes_ignored:
  assumes "length p = 2" "snd (p ! 1) \<notin> set jsonKeys"
  shows "takes p 2 (\<lambda>_. d) fs"
proof -
  have "handleValue False st = (Returned (), st)" if "currDepth st = 2" "path st = p @ q" for st q
    using that assms by (simp add: handleValue_def matchedKey_def andThen_def asks_def nth_append)
  then show ?thesis by (metis takes_def withData_simps(1) withData_simps(11))
qed

section \<open>Rows of a data set\<close>

lemma setDefaults_run:
  assumes "k \<le> getNumberOfRows v" "length x = getNumberOfColumns v" "length (rowDefaultValues v) = getNumberOfColumns v"
    "m \<le> getNumberOfColumns v"
  shows "each (setDefault k) [0..<m] (withRow k x v) = (Returned (), withRow k (take m (rowDefaultValues v) @ drop m x) v)"
  using assms(4)
proof (induction m)
  case (Suc m)
  let ?y = "take m (rowDefaultValues v) @ drop m x" and ?d = "rowDefaultValues v ! m"
  have "each (setDefault k) [0..<m] (withRow k x v) = (Returned (), withRow k ?y v)" using Suc by simp
  moreover have "setDefault k m (withRow k ?y v) = (Returned (), withRow k (?y[m := ?d]) v)"
    using assms Suc.prems by (simp add: setDefault_def setCell_def withRow_put)
  moreover have "?y[m := ?d] = take (Suc m) (rowDefaultValues v) @ drop (Suc m) x"
    using assms(2,3) Suc.prems by (simp add: list_update_append take_Suc_conv_app_nth Cons_nth_drop_Suc [symmetric])
  ultimately show ?case by (simp add: run_simps)
qed (simp add: give_def)

lemma addRow_default:
  assumes "rectangular v" "length (rowDefaultValues v) = getNumberOfColumns v"
  shows "addRow now [] False base INVALID_INDEX li gid v = (Returned (getNumberOfRows v), v\<lparr>dataView := dataView v @ [rowDefaultValues v]\<rparr>)"
proof -
  obtain x where x: "length x = getNumberOfColumns v" "insertRow (getNumberOfRows v) v = (Returned (), withRow (getNumberOfRows v) x v)"
    using insertRow_run [OF assms(1)] by blast
  have "fillColumn False base li gid k = setDefault k" for k by (simp add: fillColumn_def fun_eq_iff)
  then show ?thesis
    using x setDefaults_run [of "getNumberOfRows v" v x "getNumberOfColumns v"] assms(2)
    by (simp add: addRow_def Let_def andThen_def give_def withRow_def)
qed

text \<open>The entry counts: one more for every key seen again.\<close>

definition bump :: "string \<Rightarrow> (string, nat) omap \<Rightarrow> (string, nat) omap" where
  "bump k m = (case omap_get m k of None \<Rightarrow> omap_put k 0 m | Some n \<Rightarrow> omap_put k (Suc n) m)"

lemma bumps:
  "omap_ok (fold bump xs []) \<and> fst ` set (fold bump xs []) = set xs \<and>
    (\<forall>x \<in> set xs. omap_get (fold bump xs []) x = Some (count_list xs x - 1))"
proof (induction xs rule: rev_induct)
  case (snoc y xs)
  let ?m = "fold bump xs []"
  have "omap_get ?m y = (if y \<in> set xs then Some (count_list xs y - 1) else None)"
    using snoc by (auto simp: map_of_eq_None_iff)
  moreover have "0 < count_list xs y" if "y \<in> set xs" using that by (metis count_list_0_iff neq0_conv)
  ultimately have "bump y ?m = omap_put y (count_list (xs @ [y]) y - 1) ?m"
    by (auto simp: bump_def)
  then show ?case using snoc by auto
qed (simp add: omap_ok_def)

lemma length_bumps: "length (fold bump xs []) = card (set xs)"
proof -
  have "distinct (map fst (fold bump xs []))" using bumps [of xs] by (simp add: omap_ok_def)
  then have "length (map fst (fold bump xs [])) = card (set (map fst (fold bump xs [])))" using distinct_card by fastforce
  then show ?thesis using bumps [of xs] by simp
qed

definition keysSeen :: "string list \<Rightarrow> nat \<Rightarrow> nat \<Rightarrow> string list" where
  "keysSeen names k c = concat (replicate k names) @ take c names"

lemma keysSeen_Suc: "c < length names \<Longrightarrow> keysSeen names k (Suc c) = keysSeen names k c @ [names ! c]"
  by (simp add: keysSeen_def take_Suc_conv_app_nth)

lemma keysSeen_next: "keysSeen names k (length names) = keysSeen names (Suc k) 0"
  by (induction k) (simp_all add: keysSeen_def)

lemma keysSeen_set: "names \<noteq> [] \<Longrightarrow> set (keysSeen names k c) = (if k = 0 then set (take c names) else set names)"
  by (auto simp: keysSeen_def dest: in_set_takeD)

lemma count_list_distinct: "distinct xs \<Longrightarrow> count_list xs x = (if x \<in> set xs then 1 else 0)"
  by (induction xs) auto

lemma count_keysSeen: "distinct names \<Longrightarrow> j < length names \<Longrightarrow> count_list (keysSeen names k c) (names ! j) = k + (if j < c then 1 else 0)"
proof -
  assume n: "distinct names" "j < length names"
  have "count_list (concat (replicate k names)) (names ! j) = k" using n by (induction k) (simp_all add: count_list_distinct)
  moreover have "names ! j \<in> set (take c names) \<longleftrightarrow> j < c" using n by (auto simp: in_set_conv_nth nth_eq_iff_index_eq)
  ultimately show ?thesis using n by (simp add: keysSeen_def count_list_distinct)
qed

lemma keyLoop_self: "keyLoop s (drop i s) i True c = Returned True"
proof (induction "length s - i" arbitrary: i c)
  case 0
  then show ?case by simp
next
  case (Suc n)
  then have i: "i < length s" "drop i s = s ! i # drop (Suc i) s" by (simp_all add: Cons_nth_drop_Suc)
  show ?case
    using i Suc.hyps(1) [of "Suc i" c] Suc.hyps(1) [of "Suc i" "c \<and> s ! i = CHR ''C''"] Suc.hyps(2)
    by (simp add: charAt_def Let_def)
qed

text \<open>
  The data after \<open>k\<close> whole rows and \<open>c\<close> fields of the next one, of a view \<open>u\<close> that is filled with \<open>rows\<close>.
\<close>

abbreviation storageNames :: "table_view \<Rightarrow> string list" where
  "storageNames v \<equiv> map storageName (columnsInfo v)"

definition fillView :: "table_view \<Rightarrow> string list list \<Rightarrow> nat \<Rightarrow> nat \<Rightarrow> table_view" where
  "fillView u rows k c =
     u\<lparr>dataView := take k rows @ (if c = 0 then [] else [take c (rows ! k) @ drop c (rowDefaultValues u)]),
       sourceColumnNames := (if k = 0 then set (take c (storageNames u)) else set (storageNames u))\<rparr>"

definition fillData :: "table_view \<Rightarrow> string list list \<Rightarrow> nat \<Rightarrow> nat \<Rightarrow> fill_data" where
  "fillData u rows k c =
     (fillView u rows k c, fold bump (keysSeen (storageNames u) k c) [],
      if c = 0 \<and> 0 < k then getNumberOfColumns u else c,
      if c = 0 then (if k = 0 then INVALID_INDEX else k - 1) else k,
      c mod getNumberOfColumns u)"

text \<open>What is asked of the view that is filled, and of the rows.\<close>

definition fillable :: "table_view \<Rightarrow> bool" where
  "fillable u \<longleftrightarrow>
     \<not> fillWithLooseColumnMatching u \<and> dataView u = [] \<and> sourceColumnMissingCount u = 0 \<and> sourceColumnNames u = {} \<and>
     columnsInfo u \<noteq> [] \<and> length (rowDefaultValues u) = getNumberOfColumns u \<and> distinct (storageNames u)"

lemma fillData_next:
  assumes "fillable u" "k < length rows" "length (rows ! k) = getNumberOfColumns u"
  shows "fillData u rows k (getNumberOfColumns u) = fillData u rows (Suc k) 0"
proof -
  have "take k rows @ [rows ! k] = take (Suc k) rows" using assms(2) by (simp add: take_Suc_conv_app_nth)
  moreover have "keysSeen (storageNames u) k (getNumberOfColumns u) = keysSeen (storageNames u) (Suc k) 0"
    using keysSeen_next [of "storageNames u" k] by simp
  ultimately show ?thesis using assms by (simp add: fillData_def fillView_def fillable_def)
qed

lemma startsRow_iff:
  assumes u: "fillable u" "c < getNumberOfColumns u"
    and st: "keyEntryCountMap st = fold bump (keysSeen (storageNames u) k (Suc c)) []" "currKey st = storageNames u ! c"
      "row st = (if c = 0 then (if k = 0 then INVALID_INDEX else k - 1) else k)"
  shows "startsRow st \<longleftrightarrow> c = 0"
proof -
  let ?names = "storageNames u"
  have n: "distinct ?names" "c < length ?names" "?names \<noteq> []" using u by (simp_all add: fillable_def)
  have "?names ! c \<in> set (keysSeen ?names k (Suc c))" using n(2) by (simp add: keysSeen_Suc)
  then have "omap_get (keyEntryCountMap st) (currKey st) = Some k"
    using bumps [of "keysSeen ?names k (Suc c)"] count_keysSeen [OF n(1,2), of k "Suc c"] st(1,2) by simp
  moreover have "length (keyEntryCountMap st) = (if k = 0 then Suc c else length ?names)"
    using n distinct_card [of ?names] distinct_card [of "take (Suc c) ?names"] unfolding st(1) length_bumps keysSeen_set [OF n(3)]
    by (simp add: min_def)
  ultimately show ?thesis using st(3) n(2) by (auto simp: startsRow_def entryCount_def)
qed

text \<open>The view in which the field \<open>c\<close> of row \<open>k\<close> is about to be stored.\<close>

definition openView :: "table_view \<Rightarrow> string list list \<Rightarrow> nat \<Rightarrow> nat \<Rightarrow> table_view" where
  "openView u rows k c =
     u\<lparr>dataView := take k rows @ [take c (rows ! k) @ drop c (rowDefaultValues u)],
       sourceColumnNames := (if k = 0 then set (take c (storageNames u)) else set (storageNames u))\<rparr>"

definition openData :: "table_view \<Rightarrow> string list list \<Rightarrow> nat \<Rightarrow> nat \<Rightarrow> fill_data" where
  "openData u rows k c = (openView u rows k c, fold bump (keysSeen (storageNames u) k (Suc c)) [], c, k, c)"

lemma startRow_run:
  assumes u: "fillable u" "c < getNumberOfColumns u" "k < length rows" "\<forall>r \<in> set rows. length r = getNumberOfColumns u"
    and st: "dataOf st = fillData u rows k c" "currKey st = storageNames u ! c"
  shows "(\<lambda>st. if startsRow st then thenDo (modifies countMissing) newRow st else (Returned (), st)) (countEntry st) =
    (Returned (), withData (openData u rows k c) st)"
proof -
  let ?m = "fold bump (keysSeen (storageNames u) k (Suc c)) []" and ?n = "getNumberOfColumns u"
  let ?st = "st\<lparr>keyEntryCountMap := ?m\<rparr>"
  have f: "view st = fillView u rows k c" "keyEntryCountMap st = fold bump (keysSeen (storageNames u) k c) []"
      "colFoundCount st = (if c = 0 \<and> 0 < k then ?n else c)" "colSpeedup st = c"
      "row st = (if c = 0 then (if k = 0 then INVALID_INDEX else k - 1) else k)"
    using st(1) u(2) by (simp_all add: dataOf_def fillData_def)
  have entry: "countEntry st = ?st"
    using u(2) by (simp add: countEntry_def f(2) st(2) keysSeen_Suc bump_def split: option.split)
  have starts: "startsRow ?st \<longleftrightarrow> c = 0" using startsRow_iff [OF u(1,2), of ?st k] st(2) f(5) by simp
  show ?thesis
  proof (cases "c = 0")
    case True
    have len: "\<forall>r \<in> set (take k rows). length r = ?n" using u(4) by (auto dest: in_set_takeD)
    have "countMissing ?st = ?st\<lparr>colFoundCount := 0\<rparr>"
      using u(1,3) True by (cases k) (simp_all add: countMissing_def f fillView_def fillable_def)
    moreover have "rectangular (fillView u rows k 0)" "length (rowDefaultValues (fillView u rows k 0)) = getNumberOfColumns (fillView u rows k 0)"
      using len u(1) by (simp_all add: rectangular_def fillView_def fillable_def)
    ultimately have "thenDo (modifies countMissing) newRow ?st =
        (Returned (), ?st\<lparr>colFoundCount := 0, row := k, view := (fillView u rows k 0)\<lparr>dataView := take k rows @ [rowDefaultValues u]\<rparr>\<rparr>)"
      using True u(3) addRow_default [of "fillView u rows k 0" 0 "[]" "[]" "[]"]
      by (simp add: newRow_def onView_def andThen_def modifies_def f) (simp add: fillView_def)
    then show ?thesis
      using True starts unfolding entry by (simp add: withData_def openData_def openView_def fillView_def f(4))
  next
    case False
    then show ?thesis
      using starts f unfolding entry by (simp add: withData_def openData_def openView_def fillView_def)
  qed
qed

lemma storeField_run:
  assumes u: "fillable u" "c < getNumberOfColumns u" "k < length rows" "\<forall>r \<in> set rows. length r = getNumberOfColumns u"
    and st: "dataOf st = openData u rows k c" "currKey st = storageNames u ! c" "currVal st = rows ! k ! c"
  shows "\<exists>st'. thenDo (modifies (\<lambda>st. st\<lparr>lastCol := c, colFoundCount := Suc (colFoundCount st)\<rparr>))
      (thenDo noteSourceName (thenDo (storeValue c) (modifies nextColumn))) st = (Returned (), st') \<and>
    core st' = withData (fillData u rows k (Suc c)) (core st)"
proof -
  let ?n = "getNumberOfColumns u" and ?names = "storageNames u"
  let ?v1 = "(openView u rows k c)\<lparr>sourceColumnNames := (if k = 0 then set (take (Suc c) ?names) else set ?names)\<rparr>"
  have f: "view st = openView u rows k c" "colFoundCount st = c" "row st = k" "colSpeedup st = c"
      "keyEntryCountMap st = fold bump (keysSeen ?names k (Suc c)) []"
    using st(1) by (simp_all add: dataOf_def openData_def)
  have r: "length (rows ! k) = ?n" "length (rowDefaultValues u) = ?n" using u by (simp_all add: fillable_def)
  have "getNumberOfRows (openView u rows k c) = 1 \<longleftrightarrow> k = 0" using u(3) by (simp add: openView_def)
  have "set (take (Suc c) ?names) = insert (?names ! c) (set (take c ?names))" using u(2) by (simp add: take_Suc_conv_app_nth)
  have 1: "noteSourceName (st\<lparr>lastCol := c, colFoundCount := Suc c\<rparr>) = (Returned (), st\<lparr>lastCol := c, colFoundCount := Suc c, view := ?v1\<rparr>)"
  proof (cases "k = 0")
    case True
    then show ?thesis using \<open>set (take (Suc c) ?names) = _\<close> \<open>_ \<longleftrightarrow> k = 0\<close>
      by (simp add: noteSourceName_def modifies_def f(1) st(2)) (simp add: openView_def)
  next
    case False
    then have "?v1 = view st" by (simp add: f(1) openView_def)
    then show ?thesis using False \<open>_ \<longleftrightarrow> k = 0\<close> unfolding f(1) [symmetric] by (simp add: noteSourceName_def modifies_def)
  qed
  have upd: "(take c (rows ! k) @ drop c (rowDefaultValues u))[c := rows ! k ! c] = take (Suc c) (rows ! k) @ drop (Suc c) (rowDefaultValues u)"
    using r u(2) by (simp add: list_update_append take_Suc_conv_app_nth Cons_nth_drop_Suc [symmetric])
  have cell: "setCell k c (rows ! k ! c) ?v1 = (Returned (), fillView u rows k (Suc c))"
    using u(2,3) r upd by (simp add: setCell_def putCell_def openView_def fillView_def nth_append list_update_append min_def)
  have 2: "storeValue c (st\<lparr>lastCol := c, colFoundCount := Suc c, view := ?v1\<rparr>) =
      (Returned (), st\<lparr>lastCol := c, colFoundCount := Suc c, view := fillView u rows k (Suc c)\<rparr>)"
    using cell u(3) by (simp add: storeValue_def onView_def f(3) st(3)) (simp add: openView_def)
  have "thenDo (modifies (\<lambda>st. st\<lparr>lastCol := c, colFoundCount := Suc (colFoundCount st)\<rparr>))
      (thenDo noteSourceName (thenDo (storeValue c) (modifies nextColumn))) st =
      (Returned (), nextColumn (st\<lparr>lastCol := c, colFoundCount := Suc c, view := fillView u rows k (Suc c)\<rparr>))"
    using 1 2 by (simp add: andThen_def modifies_def f(2))
  moreover have "core (nextColumn (st\<lparr>lastCol := c, colFoundCount := Suc c, view := fillView u rows k (Suc c)\<rparr>)) =
      withData (fillData u rows k (Suc c)) (core st)"
    using f by (simp add: core_def nextColumn_def withData_def fillData_def) (simp add: fillView_def)
  ultimately show ?thesis by blast
qed

abbreviation dataPath :: "(char \<times> string) list" where
  "dataPath \<equiv> [(CHR ''{'', ''{''), (CHR ''K'', ''DATA_SET''), (CHR ''['', ''['')]"

lemma takes_row:
  assumes u: "fillable u" "k < length rows" "\<forall>r \<in> set rows. length r = getNumberOfColumns u"
    and t: "length texts = getNumberOfColumns u" "map restoreJSONStringEntities texts = rows ! k"
  shows "takes dataPath 2 (fillData u rows k) (zip (storageNames u) texts)"
  unfolding takes_def
proof (intro allI impI, elim conjE)
  fix c st q
  assume "c < length (zip (storageNames u) texts)" and d: "dataOf st = fillData u rows k c"
    and key: "currKey st = fst (zip (storageNames u) texts ! c)" "currVal st = restoreJSONStringEntities (snd (zip (storageNames u) texts ! c))"
    and depth: "currDepth st = 2" "path st = dataPath @ q"
  then have c: "c < getNumberOfColumns u" "currKey st = storageNames u ! c" "currVal st = rows ! k ! c"
    using t by (simp_all flip: t(2))
  have v: "view st = fillView u rows k c" "colSpeedup st = c" using d c(1) by (simp_all add: dataOf_def fillData_def)
  have n: "[0..<getNumberOfColumns u] = 0 # [1..<getNumberOfColumns u]" using upt_conv_Cons [of 0 "getNumberOfColumns u"] c(1) by fastforce
  have "sourceColumn (view st) (currKey st) (map (\<lambda>i. (i + c) mod getNumberOfColumns u) [0..<getNumberOfColumns u]) = (Returned (Some c) :: (fill_stop, nat option) outcome)"
    using keyLoop_self [of "storageNames u ! c" 0 True, where 'a = fill_stop] c unfolding n by (simp add: v fillView_def)
  then have "dataValue st = matchedValue c st"
    using u(1) v by (simp add: dataValue_def andThen_def asks_def fillView_def fillable_def)
  moreover have "handleValue False st = dataValue st"
    using depth by (simp add: handleValue_def matchedKey_def andThen_def asks_def jsonKeys_def)
  moreover have "\<exists>st'. matchedValue c st = (Returned (), st') \<and> core st' = withData (fillData u rows k (Suc c)) (core st)"
  proof -
    let ?st = "withData (openData u rows k c) st"
    have same: "currKey ?st = currKey st" "currVal ?st = currVal st" "core ?st = withData (openData u rows k c) (core st)"
      by (simp_all add: withData_def core_def split: prod.split)
    have "matchedValue c st = thenDo (modifies (\<lambda>st. st\<lparr>lastCol := c, colFoundCount := Suc (colFoundCount st)\<rparr>))
        (thenDo noteSourceName (thenDo (storeValue c) (modifies nextColumn))) ?st"
      using startRow_run [OF u(1) c(1) u(2,3) d c(2)] by (simp add: matchedValue_def andThen_def [of "modifies countEntry"] modifies_def)
    then show ?thesis using storeField_run [OF u(1) c(1) u(2,3), of ?st] c same by simp
  qed
  ultimately show "\<exists>st'. handleValue False st = (Returned (), st') \<and> core st' = withData (fillData u rows k (Suc c)) (core st)" by simp
qed

definition atRows :: "json_state \<Rightarrow> bool" where
  "atRows s \<longleftrightarrow> idle s \<and> \<not> newString s \<and> extractedString s = [] \<and> path s = dataPath \<and> bracketCount s = 1"

lemma reads_row:
  assumes u: "fillable u" "k < length rows" "\<forall>r \<in> set rows. length r = getNumberOfColumns u" "\<forall>n \<in> set (storageNames u). cleanText n"
    and t: "length texts = getNumberOfColumns u" "map restoreJSONStringEntities texts = rows ! k" "\<forall>t \<in> set texts. safeFrom False t"
    and s: "atRows s" "dataOf s = fillData u rows k 0"
  shows "reads (during s) (jsonRow (storageNames u) texts) (during (withData (fillData u rows (Suc k) 0) (s\<lparr>lastPopType := CHR ''{''\<rparr>)))"
proof -
  let ?fs = "zip (storageNames u) texts"
  let ?s1 = "s\<lparr>path := path s @ [(CHR ''{'', ''{'')], lastPopType := CHR ''_'', bracketCount := Suc (bracketCount s)\<rparr>"
  have i: "idle s" "idle ?s1" using s(1) by (simp_all add: atRows_def idle_def)
  have n: "length ?fs = getNumberOfColumns u" "0 < length ?fs" using t(1) u(1) by (simp_all add: fillable_def)
  have "\<forall>f \<in> set ?fs. cleanText (fst f) \<and> safeFrom False (snd f)" using u(4) t(3) set_zip_leftD [of _ _ "storageNames u" texts] set_zip_rightD [of _ _ "storageNames u" texts] by fastforce
  moreover have "atFields dataPath 2 ?s1" using s(1) by (simp add: atRows_def atFields_def idle_def)
  moreover have "dataOf ?s1 = fillData u rows k 0" using s(2) by (simp add: dataOf_def)
  ultimately have "reads (during ?s1) (jsonLines (map (\<lambda>f. jsonField (fst f) (snd f)) (drop 0 ?fs)) @ [tab] @ ''}'')
      (during (objectDone dataPath (fillData u rows k (length ?fs)) ?s1))"
    using takes_row [OF u(1-3) t(1,2)] n(2) by (intro reads_object) simp_all
  moreover have "objectDone dataPath (fillData u rows k (length ?fs)) ?s1 = withData (fillData u rows (Suc k) 0) (s\<lparr>lastPopType := CHR ''{''\<rparr>)"
  proof -
    have "fillData u rows k (length ?fs) = fillData u rows (Suc k) 0" using fillData_next [OF u(1,2)] u(2,3) n(1) by simp
    moreover have "dataPath = path s" using s(1) by (simp add: atRows_def)
    moreover have "?s1\<lparr>path := path s, lastPopType := CHR ''{'', bracketCount := bracketCount ?s1 - 1\<rparr> = s\<lparr>lastPopType := CHR ''{''\<rparr>" by simp
    ultimately show ?thesis unfolding objectDone_def by (simp only:)
  qed
  moreover have mp: "map2 jsonField (storageNames u) texts = map (\<lambda>f. jsonField (fst f) (snd f)) (drop 0 ?fs)" by (simp add: case_prod_beta')
  ultimately have 3: "reads (during ?s1) (jsonLines (map2 jsonField (storageNames u) texts) @ [tab] @ ''}'')
      (during (withData (fillData u rows (Suc k) 0) (s\<lparr>lastPopType := CHR ''{''\<rparr>)))" unfolding mp by metis
  have 0: "reads (during s) [tab] (during s)" and 2: "reads (during ?s1) [newline] (during ?s1)"
    using i by (auto intro: reads_blanks)
  have "reads (during s) ([tab] @ ''{'' @ [newline] @ (jsonLines (map2 jsonField (storageNames u) texts) @ [tab] @ ''}''))
      (during (withData (fillData u rows (Suc k) 0) (s\<lparr>lastPopType := CHR ''{''\<rparr>)))"
    by (rule reads_seq [OF 0 reads_seq [OF reads_open [OF i(1)] reads_seq [OF 2 3]]]) simp_all
  then show ?thesis by (simp add: jsonRow_def)
qed

lemma reads_cases: "(\<And>x. reads (P x) t Q) \<Longrightarrow> reads (\<lambda>st. \<exists>x. P x st) t Q"
  unfolding reads_def by blast

definition rowsDone :: "table_view \<Rightarrow> string list list \<Rightarrow> nat \<Rightarrow> json_state \<Rightarrow> json_state \<Rightarrow> bool" where
  "rowsDone u rows k s st \<longleftrightarrow> (\<exists>lp. during (withData (fillData u rows k 0) (s\<lparr>lastPopType := lp\<rparr>)) st)"

lemma reads_rows:
  assumes u: "fillable u" "\<forall>r \<in> set rows. length r = getNumberOfColumns u" "\<forall>n \<in> set (storageNames u). cleanText n"
    and t: "length textss = length rows" "\<forall>k < length rows. length (textss ! k) = getNumberOfColumns u \<and>
      map restoreJSONStringEntities (textss ! k) = rows ! k \<and> (\<forall>t \<in> set (textss ! k). safeFrom False t)"
    and "k \<le> length rows" "atRows s" "dataOf s = fillData u rows k 0"
  shows "reads (during s) (jsonLines (map (jsonRow (storageNames u)) (drop k textss))) (rowsDone u rows (length rows) s)"
  using assms(6-8)
proof (induction "length rows - k" arbitrary: k s)
  case 0
  then have "during s st \<Longrightarrow> rowsDone u rows (length rows) s st" for st
    unfolding rowsDone_def using withData_simps(1) [of s] 0 by (intro exI [of _ "lastPopType s"]) simp
  then show ?case using 0 t(1) reads_weaken [OF reads_nil [of "during s"], of "during s" "rowsDone u rows (length rows) s"] by simp
next
  case (Suc n)
  then have k: "k < length rows" by simp
  let ?s1 = "withData (fillData u rows (Suc k) 0) (s\<lparr>lastPopType := CHR ''{''\<rparr>)"
  have r: "reads (during s) (jsonRow (storageNames u) (textss ! k)) (during ?s1)"
    using t(2) k Suc.prems by (intro reads_row [OF u(1) k u(2,3)]) auto
  have a: "atRows ?s1" "idle ?s1" using Suc.prems(2) by (simp_all add: atRows_def idle_def)
  have d: "drop k textss = textss ! k # drop (Suc k) textss" using k t(1) by (simp add: Cons_nth_drop_Suc)
  have same: "rowsDone u rows (length rows) ?s1 = rowsDone u rows (length rows) s"
    by (auto simp: rowsDone_def fun_eq_iff withData_def split: prod.split)
  have nl: "reads (during ?s1) [newline] (during ?s1)" using a(2) by (intro reads_blanks) simp_all
  have plain: "plainEnd (jsonRow (storageNames u) (textss ! k))" by (simp add: jsonRow_def)
  have rest: "reads (during ?s1) (jsonLines (map (jsonRow (storageNames u)) (drop (Suc k) textss))) (rowsDone u rows (length rows) s)"
    using Suc.hyps(1) [of "Suc k" ?s1] Suc.hyps(2) k a(1) unfolding same by simp
  show ?case
  proof (cases "Suc k = length rows")
    case True
    then have "drop (Suc k) textss = []" using t(1) by simp
    then have "reads (during ?s1) [] (rowsDone u rows (length rows) s)" using rest by simp
    then have "reads (during s) (jsonRow (storageNames u) (textss ! k) @ [newline] @ []) (rowsDone u rows (length rows) s)"
      using plain by (intro reads_seq [OF r reads_seq [OF nl]]) simp_all
    then show ?thesis using \<open>drop (Suc k) textss = []\<close> by (simp add: d)
  next
    case False
    then have e: "drop (Suc k) textss = textss ! Suc k # drop (Suc (Suc k)) textss" using k t(1) by (simp add: Cons_nth_drop_Suc)
    have comma: "reads (during ?s1) '','' (during ?s1)"
      using reads_comma_object [OF a(2)] a(1) by (simp add: atRows_def)
    have "reads (during s) (jsonRow (storageNames u) (textss ! k) @ '','' @ [newline] @ jsonLines (map (jsonRow (storageNames u)) (drop (Suc k) textss)))
        (rowsDone u rows (length rows) s)"
      using plain by (intro reads_seq [OF r reads_seq [OF comma reads_seq [OF nl rest]]]) simp_all
    then show ?thesis by (simp add: d e)
  qed
qed

end
