(* ===== verification/TableRoundTrip.thy ===== *)
theory TableRoundTrip
  imports TableTextProps
begin

text \<open>
  The whole document: its members, the types of its columns and its data set are read in sequence, so
  that a view filled from the text of another one has the same content.
\<close>

section \<open>The end of the document\<close>

lemma reads_last_close:
  assumes "idle s" "\<not> newString s" "extractedString s = []" "lastPopType s \<noteq> CHR ''{''" "bracketCount s = 1"
    "path s = [(CHR ''{'', ''{''), (CHR ''K'', ''DATA_SET'')]"
  shows "reads (during s) ''}'' (\<lambda>st. view st = view s)"
proof (rule reads_char)
  fix json i st
  assume a: "json ! i = CHR ''}''" "during s st"
  then have f: "\<not> inQuotes st" "\<not> newValue st" "lastPopType st \<noteq> CHR ''{''" "bracketCount st = 1" "view st = view s"
    "path st = [(CHR ''{'', ''{''), (CHR ''K'', ''DATA_SET'')]"
    using assms by (auto simp: during_def idle_def)
  obtain e w where v: "closeValue json i st = st\<lparr>endNumber := e, currVal := w\<rparr>" using closeValue_form by blast
  let ?st = "(popPath (keyValue (st\<lparr>endNumber := e, currVal := w, currDepth := 1\<rparr>)))\<lparr>lastPopType := CHR ''{'', bracketCount := 0\<rparr>"
  have "charStep json i st = (Returned (), ?st)"
    using a(1) f by (simp add: charStep_def closeStep_def closeObject_def v modifies_def asks_def andThen_def pathTop_def keyValue_def popPath_def)
  moreover have "handleValue False ?st = (Returned (), ?st\<lparr>view := memberView ''DATA_SET'' (currVal ?st) (view ?st)\<rparr>)"
    using handle_member [of ?st] f(6) by (simp add: keyValue_def popPath_def jsonKeys_def)
  moreover have "newValue ?st" by (simp add: keyValue_def popPath_def)
  ultimately show "\<exists>st'. scanChar False json i st = (Returned (), st') \<and> view st' = view s"
    using f(5) unfolding handled by (intro exI [of _ "(?st\<lparr>view := memberView ''DATA_SET'' (currVal ?st) (view ?st)\<rparr>)
        \<lparr>newString := False, newValue := False, endNumber := INVALID_INDEX\<rparr>"]) (auto simp: memberView_def keyValue_def popPath_def)
qed

lemma jsonLines_plain: "plainEnd (jsonLines ls)"
  by (induction ls rule: jsonLines.induct) (auto simp: plainEnd_def last_append)

lemma reads_dataSet:
  assumes u: "fillable u" "\<forall>r \<in> set rows. length r = getNumberOfColumns u" "\<forall>n \<in> set (storageNames u). cleanText n"
    and t: "length textss = length rows" "\<forall>k < length rows. length (textss ! k) = getNumberOfColumns u \<and>
      map restoreJSONStringEntities (textss ! k) = rows ! k \<and> (\<forall>t \<in> set (textss ! k). safeFrom False t)"
    and s: "atMembers s" "dataOf s = fillData u rows 0 0"
  shows "reads (during s) (jsonString ''DATA_SET'' @ '' : ['' @ [newline] @
      jsonLines (map (jsonRow (storageNames u)) textss) @ [CHR '']'', newline] @ ''}'') (\<lambda>st. view st = fillView u rows (length rows) 0)"
proof -
  let ?s1 = "s\<lparr>newString := True, extractedString := ''DATA_SET''\<rparr>"
  let ?s2 = "s\<lparr>path := [(CHR ''{'', ''{''), (CHR ''K'', ''DATA_SET'')]\<rparr>" and ?s3 = "s\<lparr>path := dataPath\<rparr>"
  have i: "idle s" "idle ?s1" "idle ?s2" "idle ?s3" using s(1) by (simp_all add: atMembers_def idle_def)
  have p: "path s = [] @ [(CHR ''{'', ''{'')]" "\<not> newString s" "extractedString s = []" "bracketCount s = 1" using s(1) by (simp_all add: atMembers_def)
  have 1: "reads (during s) (jsonString ''DATA_SET'' @ '' '') (during ?s1)"
    by (rule reads_key [OF i(1) p(1)]) (simp add: cleanText_def)
  have "?s1\<lparr>path := path ?s1 @ [(CHR ''K'', extractedString ?s1)], newString := False, extractedString := []\<rparr> = ?s2" using p by simp
  then have 2: "reads (during ?s1) '':'' (during ?s2)" using reads_colon [OF i(2), of "[]" "''{''"] p(1) by simp
  have 3: "reads (during ?s2) '' '' (during ?s2)" "reads (during ?s3) [newline] (during ?s3)" using i by (auto intro: reads_blanks)
  have 4: "reads (during ?s2) ''['' (during ?s3)" using reads_array [OF i(3)] by simp
  have "atRows ?s3" "dataOf ?s3 = fillData u rows 0 0" using s p by (simp_all add: atRows_def atMembers_def idle_def dataOf_def)
  then have 5: "reads (during ?s3) (jsonLines (map (jsonRow (storageNames u)) textss)) (rowsDone u rows (length rows) ?s3)"
    using reads_rows [OF u t, of 0 ?s3] by simp
  let ?d = "fillData u rows (length rows) 0"
  have 6: "reads (rowsDone u rows (length rows) ?s3) ('']'' @ [newline] @ ''}'') (\<lambda>st. view st = fillView u rows (length rows) 0)"
    unfolding rowsDone_def
  proof (rule reads_cases)
    fix lp
    let ?a = "withData ?d (?s3\<lparr>lastPopType := lp\<rparr>)"
    let ?b = "?a\<lparr>path := [(CHR ''{'', ''{''), (CHR ''K'', ''DATA_SET'')], lastPopType := CHR ''[''\<rparr>"
    have a: "idle ?a" "idle ?b" using i(1) by (simp_all add: idle_def)
    have "reads (during ?a) '']'' (during ?b)" using p by (intro reads_end_array [OF a(1)]) simp_all
    moreover have "reads (during ?b) [newline] (during ?b)" using a(2) by (intro reads_blanks) simp_all
    moreover have "reads (during ?b) ''}'' (\<lambda>st. view st = view ?b)" using p by (intro reads_last_close [OF a(2)]) simp_all
    ultimately have "reads (during ?a) ('']'' @ [newline] @ ''}'') (\<lambda>st. view st = view ?b)"
      by (intro reads_seq [OF _ reads_seq]) simp_all
    then show "reads (during ?a) ('']'' @ [newline] @ ''}'') (\<lambda>st. view st = fillView u rows (length rows) 0)"
      by (simp add: withData_def fillData_def)
  qed
  have "reads (during s) ((jsonString ''DATA_SET'' @ '' '') @ '':'' @ '' '' @ ''['' @ [newline] @
      jsonLines (map (jsonRow (storageNames u)) textss) @ ('']'' @ [newline] @ ''}'')) (\<lambda>st. view st = fillView u rows (length rows) 0)"
    using jsonLines_plain by (intro reads_seq [OF 1 reads_seq [OF 2 reads_seq [OF 3(1) reads_seq [OF 4 reads_seq [OF 3(2) reads_seq [OF 5 6]]]]]]) simp_all
  then show ?thesis by simp
qed

lemma reads_colTypes:
  assumes s: "atMembers s" and c: "cols \<noteq> []" "\<forall>c \<in> set cols. cleanText (storageName c) \<and> cleanText (dataType c)"
  shows "reads (during s) (jsonString ''COL_TYPES'' @ '' : {'' @ [newline] @
      jsonLines (map (\<lambda>c. jsonField (storageName c) (dataType c)) cols) @ ''},'' @ [newline]) (during (s\<lparr>lastPopType := CHR ''K''\<rparr>))"
proof -
  let ?fs = "map (\<lambda>c. (storageName c, dataType c)) cols" and ?p = "[(CHR ''{'', ''{''), (CHR ''K'', ''COL_TYPES'')]"
  let ?s1 = "s\<lparr>newString := True, extractedString := ''COL_TYPES''\<rparr>" and ?s2 = "s\<lparr>path := ?p\<rparr>"
  let ?s3 = "s\<lparr>path := ?p @ [(CHR ''{'', ''{'')], lastPopType := CHR ''_'', bracketCount := 2\<rparr>"
  let ?s4 = "s\<lparr>path := ?p, lastPopType := CHR ''{''\<rparr>" and ?s5 = "s\<lparr>lastPopType := CHR ''K''\<rparr>"
  have i: "idle s" "idle ?s1" "idle ?s2" "idle ?s3" "idle ?s4" "idle ?s5" using s by (simp_all add: atMembers_def idle_def)
  have p: "path s = [] @ [(CHR ''{'', ''{'')]" "\<not> newString s" "extractedString s = []" "bracketCount s = 1" using s by (simp_all add: atMembers_def)
  have 1: "reads (during s) (jsonString ''COL_TYPES'' @ '' '') (during ?s1)"
    by (rule reads_key [OF i(1) p(1)]) (simp add: cleanText_def)
  have "?s1\<lparr>path := path ?s1 @ [(CHR ''K'', extractedString ?s1)], newString := False, extractedString := []\<rparr> = ?s2" using p by simp
  then have 2: "reads (during ?s1) '':'' (during ?s2)" using reads_colon [OF i(2), of "[]" "''{''"] p(1) by simp
  have 3: "reads (during ?s2) '' '' (during ?s2)" "reads (during ?s3) [newline] (during ?s3)" "reads (during ?s5) [newline] (during ?s5)"
    using i by (auto intro: reads_blanks)
  have 4: "reads (during ?s2) ''{'' (during ?s3)" using reads_open [OF i(3)] p(4) by (simp add: numeral_2_eq_2)
  have "atFields ?p 2 ?s3" using s by (simp add: atFields_def atMembers_def idle_def)
  moreover have "\<forall>f \<in> set ?fs. cleanText (fst f) \<and> safeFrom False (snd f)" using c(2) clean_safe by auto
  ultimately have "reads (during ?s3) (jsonLines (map (\<lambda>f. jsonField (fst f) (snd f)) (drop 0 ?fs)) @ [] @ ''}'')
      (during (objectDone ?p (dataOf ?s3) ?s3))"
    using c(1) takes_ignored [of ?p "dataOf ?s3" ?fs] by (intro reads_object [where b = 2 and j = 0]) (auto simp: jsonKeys_def)
  moreover have "objectDone ?p (dataOf ?s3) ?s3 = ?s4"
    using p(4) by (simp add: objectDone_def dataOf_def withData_def)
  ultimately have 5: "reads (during ?s3) (jsonLines (map (\<lambda>c. jsonField (storageName c) (dataType c)) cols) @ ''}'') (during ?s4)"
    by (simp add: comp_def)
  have "?s4\<lparr>path := butlast (path ?s4), lastPopType := CHR ''K''\<rparr> = ?s5" using p(1) by simp
  then have 6: "reads (during ?s4) '','' (during ?s5)" using reads_comma_object [OF i(5)] by simp
  have "reads (during s) ((jsonString ''COL_TYPES'' @ '' '') @ '':'' @ '' '' @ ''{'' @ [newline] @
      (jsonLines (map (\<lambda>c. jsonField (storageName c) (dataType c)) cols) @ ''}'') @ '','' @ [newline]) (during ?s5)"
    by (intro reads_seq [OF 1 reads_seq [OF 2 reads_seq [OF 3(1) reads_seq [OF 4 reads_seq [OF 3(2) reads_seq [OF 5 reads_seq [OF 6 3(3)]]]]]]]) simp_all
  then show ?thesis by simp
qed

section \<open>Round trip\<close>

lemma int64_number:
  assumes "- (2 ^ 63) \<le> t" "t < 2 ^ 63"
  shows "strtol10 (dropWhile isspace (c_str (int64_to_string t))) = t" "\<forall>c \<in> set (int64_to_string t). plainChar c"
proof -
  have sat: "saturate t = t" using assms by (simp add: saturate_def)
  show "strtol10 (dropWhile isspace (c_str (int64_to_string t))) = t"
  proof (cases "t < 0")
    case True
    then have "c_str (int64_to_string t) = int64_to_string t" using c_str_to_string [of "nat (- t)"] by (simp add: int64_to_string_def c_str_def)
    then show ?thesis
      using True sat by (simp add: int64_to_string_def isspace_def strtol10_def takeWhile_to_string digits_value_to_string)
  next
    case False
    then show ?thesis
      using sat by (simp add: int64_to_string_def c_str_to_string dropWhile_to_string strtol10_to_string)
  qed
  have "plainChar c" if "is_digit c" for c using that by (auto simp: plainChar_def is_digit_def less_eq_char_def)
  then show "\<forall>c \<in> set (int64_to_string t). plainChar c"
    using to_string_digits by (auto simp: int64_to_string_def plainChar_def)
qed

text \<open>The cells as \<open>getValueAsString\<close> shows them; those of a well-formed table are shown as they are.\<close>

definition shownCell :: "column_info \<Rightarrow> string \<Rightarrow> string" where
  "shownCell ci s = (if isBoolType (ctype ci) then boolText (ctype ci) s else s)"

definition shownRow :: "table_view \<Rightarrow> nat \<Rightarrow> string list" where
  "shownRow v r = map (\<lambda>c. shownCell (columnsInfo v ! c) (dataView v ! r ! c)) [0..<getNumberOfColumns v]"

lemma shownCell_typed: "cellTyped ci d s \<Longrightarrow> shownCell ci s = s"
proof -
  assume t: "cellTyped ci d s"
  have v: "boolText TYPE_ON_OFF TYPE_VALUE_ON = TYPE_VALUE_ON" "boolText TYPE_ON_OFF TYPE_VALUE_OFF = TYPE_VALUE_OFF"
    "boolText TYPE_TRUE_FALSE TYPE_VALUE_TRUE = TYPE_VALUE_TRUE" "boolText TYPE_TRUE_FALSE TYPE_VALUE_FALSE = TYPE_VALUE_FALSE"
    "boolText TYPE_YES_NO TYPE_VALUE_YES = TYPE_VALUE_YES" "boolText TYPE_YES_NO TYPE_VALUE_NO = TYPE_VALUE_NO"
    by (simp_all add: boolText_def column_types bool_values)
  have "boolText (ctype ci) s = s" if "isBoolType (ctype ci)"
  proof -
    have c: "ctype ci = TYPE_ON_OFF \<Longrightarrow> s = TYPE_VALUE_ON \<or> s = TYPE_VALUE_OFF"
      "ctype ci = TYPE_TRUE_FALSE \<Longrightarrow> s = TYPE_VALUE_TRUE \<or> s = TYPE_VALUE_FALSE"
      "ctype ci = TYPE_YES_NO \<Longrightarrow> s = TYPE_VALUE_YES \<or> s = TYPE_VALUE_NO"
      using t unfolding cellTyped_def by blast+
    from that consider "ctype ci = TYPE_ON_OFF" | "ctype ci = TYPE_TRUE_FALSE" | "ctype ci = TYPE_YES_NO"
      unfolding isBoolType_def by blast
    then show ?thesis by cases (use c v in metis)+
  qed
  then show ?thesis by (simp add: shownCell_def)
qed

lemma shownRow_ok:
  assumes "table_ok te v" "r < getNumberOfRows v"
  shows "shownRow v r = dataView v ! r"
proof -
  have r: "length (dataView v ! r) = getNumberOfColumns v" using assms by (simp add: table_ok_def rectangular_def)
  have "shownCell (columnsInfo v ! c) (dataView v ! r ! c) = dataView v ! r ! c" if "c < getNumberOfColumns v" for c
    using table_ok_cells [OF assms(1) that, of "dataView v ! r ! c"] assms(2) shownCell_typed by (auto simp: columnCells_def)
  then show ?thesis using r by (auto simp: shownRow_def intro: nth_equalityI)
qed

lemma outcomes_returned: "\<forall>x \<in> set xs. f x = Returned (g x) \<Longrightarrow> outcomes (map f xs) = Returned (map g xs)"
  by (induction xs) simp_all

lemma printJSON_run:
  assumes "rectangular v" "\<not> customStorage v"
  shows "printJSON vs v = Returned (jsonText v (map (\<lambda>r. map (escapeValue False) (shownRow v r)) [0..<getNumberOfRows v]))"
proof -
  have "getEscapedValueAsString vs v r c False False = Returned (escapeValue False (shownCell (columnsInfo v ! c) (dataView v ! r ! c)))"
    if "r < getNumberOfRows v" "c < getNumberOfColumns v" for r c
    using that assms(1) by (simp add: getEscapedValueAsString_def getValueAsString_def cell_def rectangular_def shownCell_def converted_def)
  then have "rowTexts vs v r = Returned (map (escapeValue False) (shownRow v r))" if "r < getNumberOfRows v" for r
    unfolding rowTexts_def shownRow_def map_map comp_def by (intro outcomes_returned) (simp add: that)
  then have "outcomes (map (rowTexts vs v) [0..<getNumberOfRows v]) = Returned (map (\<lambda>r. map (escapeValue False) (shownRow v r)) [0..<getNumberOfRows v])"
    by (intro outcomes_returned) simp
  then show ?thesis using assms(2) by (simp add: printJSON_def)
qed

text \<open>What has no escape in the format, or would be taken for one.\<close>

definition storable :: "table_view \<Rightarrow> bool" where
  "storable v \<longleftrightarrow>
     \<not> customStorage v \<and> columnsInfo v \<noteq> [] \<and> distinct (storageNames v) \<and>
     (\<forall>c \<in> set (columnsInfo v). cleanText (storageName c) \<and> cleanText (dataType c)) \<and>
     cleanText (tableName v) \<and> cleanText (author v) \<and> plainEnd (comment v) \<and>
     - (2 ^ 63) \<le> creationTime v \<and> creationTime v < 2 ^ 63 \<and> (\<forall>r \<in> set (dataView v). \<forall>s \<in> set r. plainEnd s)"

text \<open>A view of the same table that has not been filled.\<close>

definition unfilled :: "table_view \<Rightarrow> table_view \<Rightarrow> bool" where
  "unfilled v u \<longleftrightarrow>
     columnsInfo u = columnsInfo v \<and> dataView u = [] \<and> length (rowDefaultValues u) = getNumberOfColumns u \<and>
     \<not> customStorage u \<and> \<not> fillWithLooseColumnMatching u \<and> \<not> getSourceRawData u"

lemma plain_escape: "plainEnd s \<Longrightarrow> safeFrom False (escapeValue False s)"
  by (auto simp: safeFrom_escape plainEnd_def)

text \<open>The members and the data set, one after the other.\<close>

lemma reads_document:
  assumes v: "storable v" "columnsInfo v = columnsInfo w" and w: "fillable w"
    and t: "\<forall>r \<in> set rows. length r = getNumberOfColumns w \<and> (\<forall>s \<in> set r. plainEnd s)"
    and u: "u = w\<lparr>comment := comment v, author := author v, creationTime := creationTime v\<rparr>"
  shows "reads (during (core (newScan w))) (jsonText v (map (map (escapeValue False)) rows)) (\<lambda>st. view st = fillView u rows (length rows) 0)"
proof -
  let ?textss = "map (map (escapeValue False)) rows"
  let ?s0 = "core (newScan w)"
  let ?s1 = "?s0\<lparr>path := path ?s0 @ [(CHR ''{'', ''{'')], lastPopType := CHR ''_'', bracketCount := Suc (bracketCount ?s0)\<rparr>"
  let ?s2 = "memberDone ''NAME'' (tableName v) ?s1"
  let ?s3 = "memberDone ''COMMENT'' (comment v) ?s2"
  let ?s4 = "memberDone ''AUTHOR'' (author v) ?s3"
  let ?s5 = "memberDone ''CREATION_TIME'' (int64_to_string (creationTime v)) ?s4"
  let ?s6 = "?s5\<lparr>lastPopType := CHR ''K''\<rparr>"
  have i: "idle ?s0" by (simp add: newScan_def idle_def)
  have m: "atMembers ?s1" "atMembers ?s2" "atMembers ?s3" "atMembers ?s4" "atMembers ?s5" "atMembers ?s6"
    using i by (simp_all add: newScan_def core_def atMembers_def memberDone_def idle_def)
  have 0: "reads (during ?s0) ''{'' (during ?s1)" by (rule reads_open [OF i])
  have 1: "reads (during ?s1) [newline] (during ?s1)" using i by (intro reads_blanks) (simp_all add: idle_def)
  have 2: "reads (during ?s1) (jsonString ''NAME'' @ '' : '' @ jsonString (tableName v) @ [CHR '','', newline]) (during ?s2)"
    using reads_member [OF m(1), of "''NAME''" "tableName v"] v(1) clean_safe [of "tableName v"] by (simp add: storable_def jsonKeys_def)
  have 3: "reads (during ?s2) (jsonString ''COMMENT'' @ '' : '' @ jsonString (escapeValue False (comment v)) @ [CHR '','', newline]) (during ?s3)"
    using reads_member [OF m(2), of "''COMMENT''" "escapeValue False (comment v)"] v(1) plain_escape [of "comment v"] restore_escapeValue [of "comment v"]
    by (simp add: storable_def jsonKeys_def)
  have 4: "reads (during ?s3) (jsonString ''AUTHOR'' @ '' : '' @ jsonString (author v) @ [CHR '','', newline]) (during ?s4)"
    using reads_member [OF m(3), of "''AUTHOR''" "author v"] v(1) clean_safe [of "author v"] by (simp add: storable_def jsonKeys_def)
  have 5: "reads (during ?s4) (jsonString ''CREATION_TIME'' @ '' : '' @ int64_to_string (creationTime v) @ [CHR '','', newline]) (during ?s5)"
    using reads_number_member [OF m(4), of "''CREATION_TIME''" "int64_to_string (creationTime v)"] int64_number(2) [of "creationTime v"] v(1)
    by (simp add: storable_def jsonKeys_def)
  have 6: "reads (during ?s5) (jsonString ''COL_TYPES'' @ '' : {'' @ [newline] @
      jsonLines (map (\<lambda>c. jsonField (storageName c) (dataType c)) (columnsInfo v)) @ ''},'' @ [newline]) (during ?s6)"
    using v(1) by (intro reads_colTypes [OF m(5)]) (simp_all add: storable_def)
  have fu: "fillable u" "columnsInfo u = columnsInfo v" using w v(2) u by (simp_all add: fillable_def)
  have "strtol10 (dropWhile isspace (c_str (int64_to_string (creationTime v)))) = creationTime v"
    using int64_number(1) v(1) by (simp add: storable_def)
  then have "view ?s6 = u" by (simp add: memberDone_def memberView_def newScan_def u)
  moreover have "fillView u rows 0 0 = u" using fu(1) by (simp add: fillView_def fillable_def)
  ultimately have "dataOf ?s6 = fillData u rows 0 0"
    by (simp add: dataOf_def fillData_def keysSeen_def) (simp add: memberDone_def newScan_def)
  moreover have "\<forall>k < length rows. length (?textss ! k) = getNumberOfColumns u \<and>
      map restoreJSONStringEntities (?textss ! k) = rows ! k \<and> (\<forall>t \<in> set (?textss ! k). safeFrom False t)"
    using t v(2) fu(2) by (auto simp: comp_def restore_escapeValue intro!: plain_escape)
  ultimately have 7: "reads (during ?s6) (jsonString ''DATA_SET'' @ '' : ['' @ [newline] @
      jsonLines (map (jsonRow (storageNames u)) ?textss) @ [CHR '']'', newline] @ ''}'') (\<lambda>st. view st = fillView u rows (length rows) 0)"
    using fu t v m(6) by (intro reads_dataSet) (simp_all add: storable_def)
  show ?thesis
    using reads_seq [OF 0 reads_seq [OF 1 reads_seq [OF 2 reads_seq [OF 3 reads_seq [OF 4 reads_seq [OF 5 reads_seq [OF 6 7]]]]]]] fu(2)
    by (simp add: jsonText_def)
qed

text \<open>
  C17. What is stored is what is loaded: the text that \<open>printJSON\<close> makes of a well-formed table is read by
  \<open>fillFromJSON\<close>, into a view of the same columns without data, as the same rows of cells, comment, author
  and creation time. Texts that end in a backslash, and quotes in the name of the author, are excluded.
\<close>

theorem json_roundtrip:
  assumes "table_ok te v" "storable v" "unfilled v u"
  shows "\<exists>json u'. printJSON vs v = Returned json \<and> fillFromJSON json u = (Returned 0, u') \<and>
    dataView u' = dataView v \<and> comment u' = comment v \<and> author u' = author v \<and> creationTime u' = creationTime v \<and>
    columnsInfo u' = columnsInfo v"
proof -
  let ?w = "clearSource u"
  let ?u = "?w\<lparr>comment := comment v, author := author v, creationTime := creationTime v\<rparr>"
  let ?rows = "dataView v"
  have r: "rectangular v" using assms(1) by (simp add: table_ok_def)
  have "map (\<lambda>r. map (escapeValue False) (shownRow v r)) [0..<getNumberOfRows v] = map (map (escapeValue False)) ?rows"
    using shownRow_ok [OF assms(1)] by (intro nth_equalityI) simp_all
  then have p: "printJSON vs v = Returned (jsonText v (map (map (escapeValue False)) ?rows))"
    using printJSON_run [OF r, of vs] assms(2) by (simp add: storable_def)
  let ?json = "jsonText v (map (map (escapeValue False)) ?rows)"
  have w: "fillable ?w" "columnsInfo v = columnsInfo ?w" "getSourceRawData u = False" "\<not> customStorage u"
    using assms(2,3) by (simp_all add: fillable_def unfilled_def clearSource_def storable_def)
  have "reads (during (core (newScan ?w))) ?json (\<lambda>st. view st = fillView ?u ?rows (length ?rows) 0)"
    using r assms(2) w by (intro reads_document [OF assms(2) w(2,1)]) (auto simp: rectangular_def storable_def)
  then obtain st where st: "scanText [] ?json [] (newScan ?w) = (Returned (), st)" "view st = fillView ?u ?rows (length ?rows) 0"
    unfolding reads_def by (metis (mono_tags, lifting) during_def plainEnd_simps(1))
  then have "fillFromJSON ?json u = finishFill (fillView ?u ?rows (length ?rows) 0)"
    using w(3,4) by (simp add: fillFromJSON_def scanText_def)
  moreover have "finishFill (fillView ?u ?rows (length ?rows) 0) = (Returned 0, fixSourceColumns (fillView ?u ?rows (length ?rows) 0))"
    using w(1) by (simp add: finishFill_def fillView_def fillable_def)
  ultimately show ?thesis
    using p w(2) by (simp add: fixSourceColumns_def fillView_def)
qed

end
