(* ===== verification/TableSample.thy ===== *)
theory TableSample
  imports TableRoundTrip
begin

text \<open>
  A small concrete table, a list of readers with a status, a group, a rate with an upper limit and the
  three trailing columns: \<open>init\<close> returns on it, so the theorems on \<open>init\<close> apply to it.
\<close>

section \<open>A sample table\<close>

definition sampleEnv :: "nat table_env" where
  "sampleEnv = \<lparr>te_variables = \<lparr>getenv = (\<lambda>_. None), systemVariables = (\<lambda>_. None)\<rparr>, te_now = 1000,
     getDouble = (\<lambda>s. if s = ''7'' then Some 7 else if s = ''10'' then Some 10 else None),
     exceeds = (\<lambda>a b. b < a), getTimestampString = (\<lambda>s. s)\<rparr>"

definition sampleColumn :: "string \<Rightarrow> string \<Rightarrow> string \<Rightarrow> string \<Rightarrow> string \<Rightarrow> column_info" where
  "sampleColumn t n st dt mx =
     \<lparr>ctype = t, cname = n, storageName = st, dataType = dt, defaultValue = ''DEFAULT'', dataChoices = [],
      minValue = [], maxValue = mx, bitMapInfo = None\<rparr>"

definition sampleColumns :: "column_info list" where
  "sampleColumns =
     [sampleColumn ''UID'' ''Name'' ''NAME'' ''STRING'' [], sampleColumn ''OnOff'' ''Status'' ''STATUS'' ''STRING'' [],
      sampleColumn ''GroupID-Readers'' ''Group'' ''GROUP'' ''STRING'' [], sampleColumn ''Data'' ''Rate'' ''RATE'' ''NUMBER'' ''10'',
      sampleColumn ''Comment'' ''CommentDescription'' ''COMMENT_DESCRIPTION'' ''STRING'' [],
      sampleColumn ''Author'' ''Author'' ''AUTHOR'' ''STRING'' [],
      sampleColumn ''Timestamp'' ''Time'' ''TIME'' ''TIMESTAMP WITH TIMEZONE'' []]"

definition sampleView :: table_view where
  "sampleView =
     \<lparr>storageData = [], tableName = ''SAMPLE_TABLE'', version = 1, comment = [], author = [], creationTime = 0,
      lastAccessTime = 0, rowDefaultValues = [], colUID = INVALID_INDEX, colStatus = INVALID_INDEX,
      colPriority = INVALID_INDEX, colLinkGroupIDs = [], fillWithLooseColumnMatching = False, getSourceRawData = False,
      sourceRawData = [], sourceColumnMismatchCount = 0, sourceColumnMissingCount = 0, sourceColumnNames = {},
      columnsInfo = sampleColumns,
      dataView = [[''reader0'', ''on'', ''A | B'', ''7'', ''c'', ''me'', ''5''], [''reader1'', ''0'', ''B'', ''10'', ''c'', ''me'', ''6'']]\<rparr>"

lemmas sample_simps = sampleView_def sampleColumns_def sampleColumn_def column_types column_names data_types INVALID_INDEX_def

lemma sampleView_sized: "sized sampleView"
  by (simp add: sized_def sample_simps)

lemma sampleView_structure: "structureGood sampleView" "rectangular sampleView"
  by (simp_all add: structureGood_def trailerGood_def Let_def findColByType_def uidCol_def capsColName_def rectangular_def sample_simps)

lemma sampleView_uid: "uidCol sampleView = 0"
  by (simp add: uidCol_def findColByType_def sample_simps)

lemma sampleView_fields:
  "columnsInfo sampleView = sampleColumns" "getNumberOfColumns sampleView = 7" "length sampleColumns = 7"
  by (simp_all add: sample_simps)

lemma below7: "(\<forall>c < 7. P c) \<longleftrightarrow> P 0 \<and> P 1 \<and> P 2 \<and> P 3 \<and> P 4 \<and> P 5 \<and> P (6 :: nat)"
proof -
  have "c < 7 \<longleftrightarrow> c = 0 \<or> c = 1 \<or> c = 2 \<or> c = 3 \<or> c = 4 \<or> c = 5 \<or> c = 6" for c :: nat by auto
  then show ?thesis by auto
qed

lemma sampleView_cells:
  "columnCells sampleView 0 = [''reader0'', ''reader1'']" "columnCells sampleView 1 = [''on'', ''0'']"
  "columnCells sampleView 2 = [''A | B'', ''B'']" "columnCells sampleView 3 = [''7'', ''10'']"
  by (simp_all add: columnCells_def sampleView_def)

lemma sampleView_types:
  "typeOf sampleView 0 = ''UID''" "typeOf sampleView 1 = ''OnOff''" "typeOf sampleView 2 = ''GroupID-Readers''"
  "typeOf sampleView 3 = ''Data''" "typeOf sampleView 4 = ''Comment''" "typeOf sampleView 5 = ''Author''" "typeOf sampleView 6 = ''Timestamp''"
  by (simp_all add: sampleView_def sampleColumns_def sampleColumn_def)

lemma sampleView_unique: "uniqueGood (structured sampleView)"
proof -
  have u: "uidGood ''reader0''" "uidGood ''reader1''"
    by (simp_all add: uidGood_def nameChar_def is_alnum_def less_eq_char_def)
  have c: "columnCells (structured sampleView) c = columnCells sampleView c" for c by (simp add: columnCells_def)
  have t: "\<forall>c < 7. typeOf sampleView c \<noteq> TYPE_UNIQUE_DATA \<and> typeOf sampleView c \<noteq> TYPE_UNIQUE_GROUP_DATA"
    unfolding below7 sampleView_types by (simp add: column_types)
  have f: "columnsInfo (structured sampleView) = columnsInfo sampleView" "colUID (structured sampleView) = 0"
    by (simp_all add: sampleView_uid)
  show ?thesis
    unfolding uniqueGood_def c f sampleView_fields(2) sampleView_cells using t u by simp
qed

lemma sampleView_kinds:
  "\<forall>c < 7. \<not> isLinkId (typeOf sampleView c) \<and> \<not> isChildLink (typeOf sampleView c)"
  "\<forall>c < 7. typeOf sampleView c \<noteq> TYPE_FIXED_CHOICE_DATA"
  "\<forall>c < 7. isBoolType (typeOf sampleView c) \<longleftrightarrow> c = 1"
  "\<forall>c < 7. isGroupID (typeOf sampleView c) \<longleftrightarrow> c = 2"
  "\<forall>c < 7. dataType (columnsInfo sampleView ! c) = DATATYPE_NUMBER \<longleftrightarrow> c = 3"
  unfolding below7 sampleView_types
  by (simp_all add: isLinkId_def isChildLink_def isChildLinkGroupID_def isChildLinkUID_def isGroupID_def isBoolType_def tagged_def column_types)
    (simp add: sample_simps)

lemma sampleView_numbers: "numbersGood sampleEnv (columnsInfo sampleView ! 3) [''7'', ''10'']"
proof -
  have num: "cellNumber sampleEnv (columnsInfo sampleView ! 3) s = Returned x"
    if "s = ''7'' \<and> x = 7 \<or> s = ''10'' \<and> x = 10" for s x
    using that by (auto simp: cellNumber_def chosenDefault_def sample_simps converted_def convert_plain sampleEnv_def)
  have lim: "limitOf sampleEnv (minValue (columnsInfo sampleView ! 3)) = Returned None"
    "limitOf sampleEnv (maxValue (columnsInfo sampleView ! 3)) = Returned (Some 10)"
    by (simp_all add: limitOf_def sample_simps converted_def convert_plain sampleEnv_def)
  show ?thesis
    using num lim by (simp add: numbersGood_def withinLimits_def) (simp add: sampleEnv_def)
qed

lemma sampleView_values: "valuesGood sampleEnv (prepared sampleView)"
proof -
  have c: "columnCells (prepared sampleView) c = columnCells sampleView c" for c by (simp add: columnCells_def prepared_def)
  have f: "columnsInfo (prepared sampleView) = columnsInfo sampleView" by (simp add: prepared_def)
  have b: "boolForm ''OnOff'' ''on'' \<noteq> None" "boolForm ''OnOff'' ''0'' \<noteq> None"
    by (simp_all add: boolForm_def column_types bool_values)
  have good: "cellGood (columnsInfo sampleView ! c) d s" if c: "c < 7" and s: "s \<in> set (columnCells sampleView c)" for c d s
  proof -
    have "boolForm (typeOf sampleView c) s \<noteq> None" if "isBoolType (typeOf sampleView c)"
    proof -
      have "c = 1" using that c sampleView_kinds(3) by blast
      then show ?thesis using b s sampleView_types(2) sampleView_cells(2) by auto
    qed
    then show ?thesis using c sampleView_kinds(1,2) by (simp add: cellGood_def)
  qed
  have lims: "numbersGood sampleEnv (columnsInfo sampleView ! c) (map (cellForm (columnsInfo sampleView ! c) d) (columnCells sampleView c))"
    if "c < 7" for c d
  proof (cases "c = 3")
    case True
    have "cellForm (columnsInfo sampleView ! 3) d = (\<lambda>s. s)" using sampleView_kinds by (auto simp: cellForm_def)
    then show ?thesis using True sampleView_numbers sampleView_cells by simp
  next
    case False
    then show ?thesis using that sampleView_kinds(5) by (simp add: numbersGood_def)
  qed
  have "columnGood sampleEnv (prepared sampleView) c" if "c < 7" for c
    using that good lims sampleView_kinds(1) by (simp add: columnGood_def Let_def c f)
  moreover have "groupLabels (prepared sampleView) = [linkIndex ''GroupID-Readers'']" "linkIdLabels (prepared sampleView) = []"
  proof -
    have "[0..<7] = [0, 1, 2, 3, 4, 5, 6 :: nat]" by (simp add: upt_conv_Cons)
    then show "groupLabels (prepared sampleView) = [linkIndex ''GroupID-Readers'']" "linkIdLabels (prepared sampleView) = []"
      using sampleView_kinds(1,4) unfolding groupLabels_def linkIdLabels_def labelSum_def f sampleView_fields(2) below7
      by (simp_all add: columnLabels_def sampleView_types(3))
  qed
  ultimately show ?thesis by (simp add: valuesGood_def f sampleView_fields)
qed

lemma sampleView_init: "init sampleEnv sampleView = (Returned (), normalised (prepared sampleView))"
  using init_run [OF sampleView_sized] sampleView_structure sampleView_unique sampleView_values by blast

theorem init_establishes_witness:
  "sized sampleView \<and> init sampleEnv sampleView = (Returned (), normalised (prepared sampleView)) \<and>
    table_ok sampleEnv (normalised (prepared sampleView))"
  using init_establishes [OF sampleView_sized sampleView_init] sampleView_sized sampleView_init by blast

theorem init_idempotent_witness:
  "sized sampleView \<and> init sampleEnv sampleView = (Returned (), normalised (prepared sampleView)) \<and>
    init sampleEnv (normalised (prepared sampleView)) = (Returned (), normalised (prepared sampleView))"
  using init_idempotent [OF sampleView_sized sampleView_init] sampleView_sized sampleView_init by blast

section \<open>Rows of the sample\<close>

lemma sampleView_rows: "getNumberOfRows sampleView = 2" by (simp add: sampleView_def)

lemma finalNumber_readers: "finalNumber ''reader0'' = 0" "finalNumber ''reader1'' = 1"
  by (simp_all add: finalNumber_def trailing_def is_digit_def less_eq_char_def digits_value_def digit_value_def)


text \<open>A table of names only.\<close>

definition namesView :: table_view where
  "namesView = sampleView\<lparr>columnsInfo := [sampleColumn ''UID'' ''Name'' ''NAME'' ''STRING'' []],
     dataView := [[''reader0''], [''reader1'']], colUID := 0, rowDefaultValues := [[]]\<rparr>"

lemma to_string_digit: "n < 10 \<Longrightarrow> to_string n = [digit_char n]"
  by (subst to_string.simps) simp

lemma digit_chars: "digit_char 1 = CHR ''1''" "digit_char 2 = CHR ''2''" "digit_char 3 = CHR ''3''" "digit_char 7 = CHR ''7''"
  by code_simp+

lemma namesView_add:
  "addRow 5 [] True ''reader'' 1 [] [] namesView = (Returned 1, withRow 1 [''reader2''] namesView)"
  by (simp add: addRow_def namesView_def sample_simps insertRow_def shiftRows_def fillColumn_def getColUID_def uniqueColumn_def
      run_simps asks_def andThen_def give_def setUniqueColumnValue_def inTable_def uniqueGroup_def cell_def setCell_def putCell_def
      uniqueStep_def trailing_def stem_def valueBase_def is_digit_def less_eq_char_def newUnique_def noteConflict_def withRow_def
      valueNumber_def scan_unsigned_def isspace_def digits_value_def digit_value_def to_string_digit digit_chars)


text \<open>Rows with priorities in two groups.\<close>

definition priorityView :: table_view where
  "priorityView = sampleView\<lparr>columnsInfo :=
       [sampleColumn ''UID'' ''Name'' ''NAME'' ''STRING'' [], sampleColumn ''GroupID-Readers'' ''Group'' ''GROUP'' ''STRING'' [],
        sampleColumn ''Data'' ''Priority'' ''PRIORITY'' ''NUMBER'' []],
     dataView := [[''a'', ''G'', ''7''], [''b'', ''H'', ''1''], [''c'', ''H | G'', ''3'']], colPriority := 2, rowDefaultValues := [[], [], []]\<rparr>"

lemma priorityView_priority:
  assumes "r < 3" "dataView priorityView ! r ! 2 = [digit_char d]" "0 < d" "d < 10"
  shows "rowPriority sampleEnv priorityView r = Returned (of_nat d)"
proof -
  have t: "convertEnvironmentVariables (te_variables sampleEnv) [digit_char d] = Some (Inr [digit_char d])"
    using digits_no_dollar [of d] assms(4) by (intro convert_plain) (simp add: to_string_digit)
  have n: "getNumber [digit_char d] = Number (of_nat d :: u64)"
    using getNumber_to_string [of d] assms(4) by (simp add: to_string_digit)
  have "length (dataView priorityView ! r) = 3" "getNumberOfRows priorityView = 3" "getNumberOfColumns priorityView = 3"
    using assms(1) by (auto simp: priorityView_def numeral_3_eq_3 less_Suc_eq)
  moreover have "dataType (columnsInfo priorityView ! 2) = DATATYPE_NUMBER" "typeOf priorityView 2 \<noteq> TYPE_FIXED_CHOICE_DATA"
    by (simp_all add: priorityView_def sample_simps)
  ultimately have "getValueU64 sampleEnv priorityView r 2 = Returned (of_nat d)"
    using assms t n by (simp add: getValueU64_def getValue_def validateValueForColumn_def chosenDefault_def converted_def
        wordOutcome_def cell_def)
  moreover have "of_nat d \<noteq> (0 :: u64)" using assms(3,4) by (simp add: word_of_nat_eq_0_iff nat_dvd_not_less)
  ultimately show ?thesis by (simp add: rowPriority_def priorityView_def)
qed

lemma priorityView_rows: "getGroupRows sampleEnv priorityView 1 ''G'' False True = Returned [2, 0]"
proof -
  have p: "rowPriority sampleEnv priorityView 0 = Returned 7" "rowPriority sampleEnv priorityView 2 = Returned 3"
    using priorityView_priority [of 0 7] priorityView_priority [of 2 3] by (simp_all add: priorityView_def digit_chars)
  have m: "rowInGroup priorityView 1 ''G'' 0 = Returned True" "rowInGroup priorityView 1 ''G'' 1 = Returned False"
    "rowInGroup priorityView 1 ''G'' 2 = Returned True"
    by (simp_all add: rowInGroup_def isEntryInGroupCol_def cell_def priorityView_def sample_simps groupNames_words groupSep_def wildCardMatch_def)
  have "getNumberOfRows priorityView = 3" "colPriority priorityView = 2" by (simp_all add: priorityView_def)
  moreover have "[0..<3] = [0, 1, 2 :: nat]" by (simp add: upt_conv_Cons)
  ultimately show ?thesis
    using m p by (simp add: getGroupRows_def getGroupRowsInVectors_def rowEnabled_def INVALID_INDEX_def)
qed

theorem getGroupRows_sorted_witness:
  "getGroupRows sampleEnv priorityView 1 ''G'' False True = Returned [2, 0] \<and>
    [2, 0] = sort_key (priorityOf sampleEnv priorityView True)
      (filter (groupRow sampleEnv priorityView 1 ''G'' False) [0..<getNumberOfRows priorityView])"
  using getGroupRows_sorted [OF priorityView_rows] priorityView_rows by blast

theorem addRowToGroup_undone_witness:
  "\<exists>s t. addRowToGroup 1 1 ''G'' priorityView = (Returned (), putCell 1 1 s priorityView) \<and> groupNames s = ''G'' # [''H''] \<and>
    isEntryInGroupCol (putCell 1 1 s priorityView) 1 1 ''G'' = Returned True \<and>
    removeRowFromGroup 1 1 ''G'' False (putCell 1 1 s priorityView) = (Returned False, putCell 1 1 t priorityView) \<and> groupNames t = [''H'']"
proof (rule addRowToGroup_undone)
  show "\<not> inGroupCell priorityView 1 ''G'' 1"
    by (simp add: inGroupCell_def priorityView_def groupNames_words groupSep_def wildCardMatch_def)
qed (simp_all add: rectangular_def priorityView_def groupNames_words groupSep_def sample_simps)

section \<open>Storing the sample\<close>

abbreviation sampleTable :: table_view where
  "sampleTable \<equiv> normalised (prepared sampleView)"

lemma normColumns_fields:
  "tableName (fold normColumn cs v) = tableName v \<and> author (fold normColumn cs v) = author v \<and>
    comment (fold normColumn cs v) = comment v \<and> creationTime (fold normColumn cs v) = creationTime v \<and>
    fillWithLooseColumnMatching (fold normColumn cs v) = fillWithLooseColumnMatching v \<and>
    getSourceRawData (fold normColumn cs v) = getSourceRawData v"
  by (induction cs arbitrary: v) (simp_all add: normColumn_def mapColumn_def)

lemma sampleTable_fields:
  "tableName sampleTable = ''SAMPLE_TABLE''" "author sampleTable = []" "comment sampleTable = []" "creationTime sampleTable = 0"
  "columnsInfo sampleTable = sampleColumns" "\<not> fillWithLooseColumnMatching sampleTable" "\<not> getSourceRawData sampleTable"
  using normColumns_fields [of "[0..<getNumberOfColumns (prepared sampleView)]" "prepared sampleView"] init_result(1) [OF sampleView_sized sampleView_init]
  by (simp_all add: normalised_def prepared_def initRowDefaults_def structured_def fixSourceColumns_def sampleView_def)

lemma sample_prefixes: "convertToCaps False GROUP_CACHE_PREPEND = Returned ''GROUP_CACHE-''" "convertToCaps False JSON_DOC_PREPEND = Returned ''JSON_DOC-''"
  by code_simp+

lemma sampleTable_cells:
  assumes "r \<in> set (dataView sampleTable)" "s \<in> set r"
  shows "plainEnd s"
proof -
  have ok: "table_ok sampleEnv sampleTable" using init_result [OF sampleView_sized sampleView_init] by blast
  have forms: "\<forall>c < 7. columnCells sampleTable c = map (cellForm (columnsInfo sampleView ! c) (rowDefault (columnsInfo sampleView ! c))) (columnCells sampleView c)"
    using init_result [OF sampleView_sized sampleView_init] unfolding sampleView_fields(2) by blast
  have "length r = 7" using ok assms(1) sampleTable_fields(5) sampleView_fields(3) by (simp add: table_ok_def rectangular_def)
  then obtain c where c: "c < 7" "s \<in> set (columnCells sampleTable c)"
    using assms by (auto simp: in_set_conv_nth [of s] columnCells_def)
  show ?thesis
  proof (cases "c = 1")
    case True
    then have "cellTyped (columnsInfo sampleTable ! 1) (rowDefaultValues sampleTable ! 1) s"
      using table_ok_cells [OF ok, of 1 s] c sampleTable_fields(5) sampleView_fields(3) by simp
    then have "s = TYPE_VALUE_ON \<or> s = TYPE_VALUE_OFF"
      using sampleView_types(2) unfolding sampleTable_fields(5) cellTyped_def sampleView_fields(1) by (simp add: column_types)
    then show ?thesis by (auto simp: bool_values)
  next
    case False
    then have "s \<in> set (columnCells sampleView c)"
      using c forms sampleView_kinds(1,3) by (auto simp: cellForm_def)
    moreover have "\<forall>c < 7. \<forall>s \<in> set (columnCells sampleView c). plainEnd s"
      unfolding below7 by (simp add: columnCells_def sampleView_def)
    ultimately show ?thesis using c(1) by blast
  qed
qed

lemma sampleTable_storable: "storable sampleTable"
proof -
  have "\<not> customStorage sampleTable" by (simp add: customStorage_def hasPrefix_def sample_prefixes sampleTable_fields(1))
  moreover have "distinct (map storageName sampleColumns)" "\<forall>c \<in> set sampleColumns. cleanText (storageName c) \<and> cleanText (dataType c)"
    by (simp_all add: sampleColumns_def sampleColumn_def cleanText_def)
  ultimately show ?thesis
    using sampleTable_cells sampleView_fields(3) unfolding storable_def sampleTable_fields by (auto simp: cleanText_def)
qed

lemma sampleTable_unfilled: "unfilled sampleTable (sampleTable\<lparr>dataView := []\<rparr>)"
proof -
  have "table_ok sampleEnv sampleTable" using init_result [OF sampleView_sized sampleView_init] by blast
  then have "length (rowDefaultValues sampleTable) = getNumberOfColumns sampleTable" by (simp add: table_ok_def)
  moreover have "\<not> customStorage (sampleTable\<lparr>dataView := []\<rparr>)"
    by (simp add: customStorage_def hasPrefix_def sample_prefixes sampleTable_fields(1))
  ultimately show ?thesis using sampleTable_fields(6,7) by (simp add: unfilled_def)
qed

theorem json_roundtrip_witness:
  "\<exists>json u'. printJSON (te_variables sampleEnv) sampleTable = Returned json \<and>
    fillFromJSON json (sampleTable\<lparr>dataView := []\<rparr>) = (Returned 0, u') \<and> dataView u' = dataView sampleTable \<and>
    comment u' = comment sampleTable \<and> author u' = author sampleTable \<and> creationTime u' = creationTime sampleTable \<and>
    columnsInfo u' = columnsInfo sampleTable"
  using init_result [OF sampleView_sized sampleView_init] by (intro json_roundtrip [OF _ sampleTable_storable sampleTable_unfilled]) blast

end
