(* ===== verification/BitFields.thy ===== *)
theory BitFields
  imports Effects Numbers "HOL-Library.Word"
begin

unbundle bit_operations_syntax

text \<open>
  \<open>BitManipulator/BitManipulator.cc\<close> and \<open>Macros/BinaryStringMacros.cc\<close>, \<open>.icc\<close>: fields of bits in words and in
  buffers of bytes. A shift by the width of the word or more has no meaning (\<^term>\<open>None\<close>). The theorems
  give every bit of the results.
\<close>

type_synonym byte = "8 word"

section \<open>Fields of words\<close>

text \<open>The loops \<open>data &= ~(1 << i)\<close>, over the positions listed.\<close>

definition clearBits :: "nat list \<Rightarrow> 'a::len word \<Rightarrow> 'a word" where
  "clearBits is w = fold (\<lambda>i d. d AND NOT (push_bit i 1)) is w"

definition insertBits64 :: "64 word \<Rightarrow> 64 word \<Rightarrow> nat \<Rightarrow> nat \<Rightarrow> 64 word option" where
  "insertBits64 data value startBit numberOfBits =
     (if 64 \<le> startBit \<or> 64 < startBit + numberOfBits then None
      else Some (clearBits (map (\<lambda>i. startBit + i) [0..<numberOfBits]) data OR push_bit startBit value))"

definition insertBits32 :: "32 word \<Rightarrow> 32 word \<Rightarrow> nat \<Rightarrow> nat \<Rightarrow> 32 word option" where
  "insertBits32 data value startBit numberOfBits =
     (if 32 \<le> startBit then None
      else
        (let inField = (\<lambda>i. startBit \<le> i \<and> i < (startBit + numberOfBits) mod 2 ^ 32)
         in Some (clearBits (filter inField [0..<32]) data +
                  clearBits (filter (\<lambda>i. \<not> inField i) [0..<32]) (push_bit startBit value))))"

definition reverseBits64 :: "64 word \<Rightarrow> nat \<Rightarrow> nat \<Rightarrow> 64 word option" where
  "reverseBits64 data startBit numberOfBits =
     (if 64 < numberOfBits then None
      else Some (fold (\<lambda>r d. d OR push_bit (numberOfBits - 1 - r) (drop_bit r data AND 1)) [startBit..<numberOfBits] 0))"

text \<open>The shift distance \<open>numberOfBits - 1 - r\<close> is unsigned and wraps around at the last position of a field that does not
  start at bit 0.\<close>

definition reverseBits32 :: "32 word \<Rightarrow> nat \<Rightarrow> nat \<Rightarrow> 32 word option" where
  "reverseBits32 data startBit numberOfBits =
     (let finish = (startBit + numberOfBits) mod 2 ^ 32
      in if startBit < finish \<and> (32 < finish \<or> 0 < startBit) then None
         else Some (fold (\<lambda>r d. d OR push_bit (numberOfBits - 1 - r) (drop_bit r data AND 1)) [startBit..<finish] 0))"

definition readBits :: "32 word \<Rightarrow> nat \<Rightarrow> nat \<Rightarrow> 32 word option" where
  "readBits data startBit numberOfBits =
     (let finish = (startBit + numberOfBits) mod 2 ^ 32
      in if startBit < finish \<and> 32 < finish then None
         else Some (fold (\<lambda>r d. d + push_bit (r - startBit) (drop_bit r data AND 1)) [startBit..<finish] 0))"

lemma bit_clearBits: "bit (clearBits is w) n \<longleftrightarrow> bit w n \<and> n \<notin> set is"
proof (induction "is" arbitrary: w)
  case (Cons i "is")
  then show ?case using bit_imp_le_length [of w n] by (auto simp: clearBits_def bit_simps)
qed (simp add: clearBits_def)

text \<open>
  A field inserted into a 64 bit word: below it the word is unchanged and inside it are the bits of the
  value; above it, bits of a value that is too long are added to those of the word.
\<close>

theorem insertBits64_bits:
  assumes "startBit < 64" "startBit + numberOfBits \<le> 64"
  shows "\<exists>w. insertBits64 data value startBit numberOfBits = Some w \<and>
    (\<forall>i < 64. bit w i \<longleftrightarrow> (if i < startBit then bit data i
       else if i < startBit + numberOfBits then bit value (i - startBit) else bit data i \<or> bit value (i - startBit)))"
  using assms by (auto simp: insertBits64_def bit_simps bit_clearBits)

theorem insertBits64_bits_witness:
  "\<exists>w. insertBits64 0xFF 0x5 4 3 = Some w \<and>
    (\<forall>i < 64. bit w i \<longleftrightarrow> (if i < 4 then bit (0xFF :: 64 word) i
       else if i < 4 + 3 then bit (0x5 :: 64 word) (i - 4) else bit (0xFF :: 64 word) i \<or> bit (0x5 :: 64 word) (i - 4)))"
  by (rule insertBits64_bits) simp_all

lemma disjoint_plus: "(\<And>n. \<not> (bit v n \<and> bit w n)) \<Longrightarrow> v + w = v OR w" for v w :: "'a::len word"
  by (rule disjunctive_add_eq_or) (simp add: bit_eq_iff bit_simps)

lemma insertBits32_run:
  assumes "startBit < 32" "startBit + numberOfBits < 2 ^ 32"
  shows "\<exists>w. insertBits32 data value startBit numberOfBits = Some w \<and>
    (\<forall>i < 32. bit w i \<longleftrightarrow> (if startBit \<le> i \<and> i < startBit + numberOfBits then bit value (i - startBit) else bit data i))"
proof -
  let ?in = "\<lambda>i. startBit \<le> i \<and> i < startBit + numberOfBits"
  let ?d = "clearBits (filter ?in [0..<32]) data" and ?v = "clearBits (filter (\<lambda>i. \<not> ?in i) [0..<32]) (push_bit startBit value)"
  have d: "bit ?d i \<longleftrightarrow> bit data i \<and> \<not> ?in i" and v: "bit ?v i \<longleftrightarrow> bit (push_bit startBit value) i \<and> ?in i" for i
    using bit_imp_le_length [of data i] bit_imp_le_length [of "push_bit startBit value" i] by (auto simp: bit_clearBits)
  have "?d + ?v = ?d OR ?v" by (rule disjoint_plus) (unfold d v, blast)
  moreover have "bit (?d OR ?v) i \<longleftrightarrow> (if ?in i then bit value (i - startBit) else bit data i)" if "i < 32" for i
    using that unfolding bit_or_iff d v by (auto simp: bit_simps)
  ultimately show ?thesis using assms(1) unfolding insertBits32_def Let_def mod_less [OF assms(2)] by auto
qed

lemma readBits_run:
  assumes "startBit + numberOfBits \<le> 32"
  shows "\<exists>w. readBits data startBit numberOfBits = Some w \<and> w = take_bit numberOfBits (drop_bit startBit data)"
proof -
  let ?f = "\<lambda>r d. d + push_bit (r - startBit) (drop_bit r data AND 1)"
  have "fold ?f [startBit..<startBit + k] 0 = take_bit k (drop_bit startBit data)" if "k \<le> numberOfBits" for k
    using that
  proof (induction k)
    case (Suc k)
    let ?w = "take_bit k (drop_bit startBit data)" and ?b = "push_bit k (drop_bit (startBit + k) data AND 1)"
    have b: "bit ?b n \<longleftrightarrow> n = k \<and> bit data (startBit + k)" for n
      using Suc.prems assms by (auto simp: bit_simps)
    have "fold ?f [startBit..<startBit + Suc k] 0 = ?w + ?b" using Suc by simp
    also have "... = ?w OR ?b" by (rule disjoint_plus) (unfold b bit_take_bit_iff, simp)
    also have "... = take_bit (Suc k) (drop_bit startBit data)"
      by (rule bit_word_eqI) (unfold bit_or_iff b bit_take_bit_iff, auto simp: bit_drop_bit_eq less_Suc_eq)
    finally show ?case .
  qed simp
  then show ?thesis using assms by (simp add: readBits_def Let_def)
qed

text \<open>
  C37. What is read from a field of a 32 bit word is the value last inserted into it, cut to the length of the
  field, and inserting changes no bit outside the field.
\<close>

theorem readBits_insertBits:
  assumes "startBit < 32" "startBit + numberOfBits \<le> 32"
  shows "\<exists>w. insertBits32 data value startBit numberOfBits = Some w \<and>
    readBits w startBit numberOfBits = Some (take_bit numberOfBits value) \<and>
    (\<forall>i < 32. i < startBit \<or> startBit + numberOfBits \<le> i \<longrightarrow> (bit w i \<longleftrightarrow> bit data i))"
proof -
  obtain w where w: "insertBits32 data value startBit numberOfBits = Some w"
    "\<forall>i < 32. bit w i \<longleftrightarrow> (if startBit \<le> i \<and> i < startBit + numberOfBits then bit value (i - startBit) else bit data i)"
    using insertBits32_run [of startBit numberOfBits] assms by fastforce
  have "take_bit numberOfBits (drop_bit startBit w) = take_bit numberOfBits value"
    using w(2) assms(2) by (intro bit_word_eqI) (auto simp: bit_take_bit_iff bit_drop_bit_eq)
  then show ?thesis using w readBits_run [OF assms(2), of w] by auto
qed

theorem readBits_insertBits_witness:
  "\<exists>w. insertBits32 0xFFFF 0x25 4 5 = Some w \<and> readBits w 4 5 = Some (take_bit 5 0x25) \<and>
    (\<forall>i < 32. i < 4 \<or> 4 + 5 \<le> i \<longrightarrow> (bit w i \<longleftrightarrow> bit (0xFFFF :: 32 word) i))"
  by (rule readBits_insertBits) simp_all

lemma bit_reversed:
  assumes "numberOfBits \<le> LENGTH('a)" "k \<le> numberOfBits"
  shows "bit (fold (\<lambda>r d. d OR push_bit (numberOfBits - 1 - r) (drop_bit r data AND 1)) [0..<k] (0 :: 'a::len word)) i \<longleftrightarrow>
    i < numberOfBits \<and> numberOfBits - 1 - i < k \<and> bit data (numberOfBits - 1 - i)"
  using assms(2)
proof (induction k)
  case (Suc k)
  have "bit (push_bit (numberOfBits - 1 - k) (drop_bit k data AND 1)) i \<longleftrightarrow> i = numberOfBits - 1 - k \<and> bit data k"
    using Suc.prems assms(1) by (auto simp: bit_simps)
  then show ?case using Suc by (auto simp: bit_or_iff less_Suc_eq)
qed simp

text \<open>Reversal is correct when the field starts at bit 0.\<close>

lemma reverseBits32_bits:
  assumes "numberOfBits \<le> 32"
  shows "\<exists>w. reverseBits32 data 0 numberOfBits = Some w \<and> (\<forall>i. bit w i \<longleftrightarrow> i < numberOfBits \<and> bit data (numberOfBits - 1 - i))"
proof -
  have "bit (fold (\<lambda>r d. d OR push_bit (numberOfBits - 1 - r) (drop_bit r data AND 1)) [0..<numberOfBits] (0 :: 32 word)) i \<longleftrightarrow>
      i < numberOfBits \<and> bit data (numberOfBits - 1 - i)" for i
    using bit_reversed [of numberOfBits numberOfBits data i] assms by auto
  then show ?thesis using assms by (simp add: reverseBits32_def Let_def)
qed

text \<open>Fields that start elsewhere are not reversed: the 64 bit loop stops too early, the 32 bit one shifts too far.\<close>

lemma reverseBits_shifted: "reverseBits64 0xF0 4 4 = Some 0" "reverseBits32 0xF0 4 4 = None"
  by (simp_all add: reverseBits64_def reverseBits32_def Let_def)

section \<open>Fields of buffers\<close>

text \<open>
  \<open>insertBits\<close> into a string: the bits of a byte are counted from its high end. \<open>substr\<close> throws beyond the end of
  the string; at the end it gives the terminating zero, over which only zero may be stored.
\<close>

datatype bit_error = OutOfRange | SizeZero | TooFewBytes | NoNumberText

type_synonym buffer_act = "(byte list, bit_error, byte) act"

definition shiftFrom :: "nat \<Rightarrow> nat \<Rightarrow> nat \<Rightarrow> nat" where
  "shiftFrom lastByteLength span j =
     (if 1 < span then (if j \<noteq> span then lastByteLength + (span - 1 - j) * 8 else lastByteLength)
      else if span = 1 then lastByteLength * (1 - j) else 0)"

definition byteWritten :: "'a::len word \<Rightarrow> byte \<Rightarrow> nat \<Rightarrow> nat \<Rightarrow> nat \<Rightarrow> byte" where
  "byteWritten value old lo hi sh =
     (let toWrite = fold (\<lambda>y w. w OR push_bit y (ucast (drop_bit (sh + y) value AND 1))) [0..<Suc hi - lo] 0
      in clearBits (map (\<lambda>n. lo + n) [0..<Suc hi - lo]) old OR push_bit lo toWrite)"

definition insertByte :: "'a::len word \<Rightarrow> nat \<Rightarrow> nat \<Rightarrow> nat \<Rightarrow> nat \<Rightarrow> nat \<Rightarrow> buffer_act" where
  "insertByte value startBit lastBit span lastByteLength j data =
     (let p = startBit div 8 + j;
          lo = 7 - (if j \<noteq> span then 7 else lastBit mod 8);
          hi = 7 - (if j = 0 then startBit mod 8 else 0);
          sh = shiftFrom lastByteLength span j
      in if length data < p then (Raised OutOfRange, data)
         else if LENGTH('a) < sh + (Suc hi - lo) then (Undef, data)
         else
           (let b = byteWritten value (if p < length data then data ! p else 0) lo hi sh
            in if p = length data \<and> b \<noteq> 0 then (Undef, data) else (Returned b, data[p := b])))"

fun insertBytes :: "'a::len word \<Rightarrow> nat \<Rightarrow> nat \<Rightarrow> nat \<Rightarrow> nat \<Rightarrow> nat list \<Rightarrow> byte \<Rightarrow> buffer_act" where
  "insertBytes value startBit lastBit span lastByteLength [] b = give b"
| "insertBytes value startBit lastBit span lastByteLength (j # js) b =
     andThen (insertByte value startBit lastBit span lastByteLength j) (insertBytes value startBit lastBit span lastByteLength js)"

definition insertBitsBuffer :: "'a::len word \<Rightarrow> nat \<Rightarrow> nat \<Rightarrow> buffer_act" where
  "insertBitsBuffer value startBit numberOfBits =
     (let lastBit = (startBit + numberOfBits + (2 ^ 32 - 1)) mod 2 ^ 32
      in if lastBit div 8 < startBit div 8 then give 0
         else insertBytes value startBit lastBit (lastBit div 8 - startBit div 8) ((startBit + numberOfBits) mod 8)
                [0..<Suc (lastBit div 8 - startBit div 8)] 0)"

text \<open>Bit \<open>b\<close> of a buffer, counted from the high end of each byte and from the low end.\<close>

definition highBit :: "byte list \<Rightarrow> nat \<Rightarrow> bool" where
  "highBit data b \<longleftrightarrow> bit (data ! (b div 8)) (7 - b mod 8)"

definition lowBit :: "byte list \<Rightarrow> nat \<Rightarrow> bool" where
  "lowBit data b \<longleftrightarrow> bit (data ! (b div 8)) (b mod 8)"

lemma bit_byteWritten:
  assumes "hi < 8" "sh + (Suc hi - lo) \<le> LENGTH('a)" "i < 8"
  shows "bit (byteWritten (value :: 'a::len word) old lo hi sh) i \<longleftrightarrow> (if lo \<le> i \<and> i \<le> hi then bit value (sh + (i - lo)) else bit old i)"
proof -
  define t where "t m = fold (\<lambda>y w. w OR push_bit y (ucast (drop_bit (sh + y) value AND 1))) [0..<m] (0 :: byte)" for m
  have t: "bit (t m) k \<longleftrightarrow> k < m \<and> bit value (sh + k)" if "m \<le> Suc hi - lo" for m k
    using that
  proof (induction m)
    case (Suc m)
    have "bit (push_bit m (ucast (drop_bit (sh + m) value AND 1) :: byte)) k \<longleftrightarrow> k = m \<and> bit value (sh + m)"
      using Suc.prems assms(1,2) by (auto simp: bit_simps)
    then show ?case using Suc by (auto simp: t_def bit_or_iff less_Suc_eq)
  qed (simp add: t_def)
  have "bit (push_bit lo (t (Suc hi - lo))) i \<longleftrightarrow> lo \<le> i \<and> i \<le> hi \<and> bit value (sh + (i - lo))"
    using assms(3) t [of "Suc hi - lo" "i - lo"] unfolding bit_push_bit_iff by (auto simp: Suc_diff_le)
  moreover have "i \<in> set (map (\<lambda>n. lo + n) [0..<Suc hi - lo]) \<longleftrightarrow> lo \<le> i \<and> i \<le> hi"
    by (auto simp: image_iff intro!: bexI [of _ "i - lo"])
  ultimately show ?thesis unfolding byteWritten_def Let_def t_def [symmetric] bit_or_iff bit_clearBits by auto
qed

text \<open>One byte of the loop, and the bits of the buffer after it.\<close>

lemma insertByte_run:
  fixes v :: "'a::len word"
  assumes "p = startBit div 8 + j" "p < length data"
    and "lo = 7 - (if j \<noteq> span then 7 else lastBit mod 8)" "hi = 7 - (if j = 0 then startBit mod 8 else 0)"
    and "sh = shiftFrom lastByteLength span j" "sh + (Suc hi - lo) \<le> LENGTH('a)"
  obtains b data' where "insertByte v startBit lastBit span lastByteLength j data = (Returned b, data')"
    and "length data' = length data"
    and "\<And>i. highBit data' i \<longleftrightarrow>
      (if i div 8 = p \<and> lo \<le> 7 - i mod 8 \<and> 7 - i mod 8 \<le> hi then bit v (sh + (7 - i mod 8 - lo)) else highBit data i)"
proof
  let ?b = "byteWritten v (data ! p) lo hi sh"
  show "insertByte v startBit lastBit span lastByteLength j data = (Returned ?b, data[p := ?b])"
    using assms by (simp add: insertByte_def Let_def)
  have "hi < 8" using assms(4) by simp
  then show "highBit (data[p := ?b]) i \<longleftrightarrow>
      (if i div 8 = p \<and> lo \<le> 7 - i mod 8 \<and> 7 - i mod 8 \<le> hi then bit v (sh + (7 - i mod 8 - lo)) else highBit data i)" for i
    using assms(2,6) bit_byteWritten [of hi sh lo "7 - i mod 8" v "data ! p"] by (cases "i div 8 = p") (auto simp: highBit_def)
qed simp

lemma byte_and_bit: "(x :: nat) = 8 * (x div 8) + x mod 8" "x mod 8 < 8"
  by simp_all

lemma mirrored:
  "7 - x mod 8 \<le> 7 - y mod 8 \<longleftrightarrow> y mod 8 \<le> (x :: nat) mod 8" "7 - y mod 8 - (7 - x mod 8) = x mod 8 - y mod 8"
  using byte_and_bit(2) [of x] byte_and_bit(2) [of y] by (linarith, linarith)

text \<open>The positions of a field of one byte and of two, by byte and bit of the byte.\<close>

lemma field_one:
  fixes s l :: nat
  assumes "s = 8 * q + a" "l = 8 * q + c" "a < 8" "c < 8" "s + n = Suc l"
  shows "Suc (7 - a) - (7 - c) = n"
    and "i = 8 * k + r \<Longrightarrow> r < 8 \<Longrightarrow> s \<le> i \<and> i < s + n \<longleftrightarrow> k = q \<and> a \<le> r \<and> r \<le> c"
    and "i = 8 * q + r \<Longrightarrow> r < 8 \<Longrightarrow> s + n - 1 - i = c - r"
proof -
  show "Suc (7 - a) - (7 - c) = n" using assms by linarith
  show "i = 8 * k + r \<Longrightarrow> r < 8 \<Longrightarrow> s \<le> i \<and> i < s + n \<longleftrightarrow> k = q \<and> a \<le> r \<and> r \<le> c"
    using assms by (cases k q rule: linorder_cases) auto
  show "i = 8 * q + r \<Longrightarrow> r < 8 \<Longrightarrow> s + n - 1 - i = c - r" using assms by simp
qed

lemma field_two:
  fixes s l :: nat
  assumes "s = 8 * q + a" "l = 8 * Suc q + c" "a < 8" "c < 8" "s + n = Suc l"
  shows "Suc c + (Suc (7 - a) - 0) = n"
    and "i = 8 * k + r \<Longrightarrow> r < 8 \<Longrightarrow> s \<le> i \<and> i < s + n \<longleftrightarrow> k = q \<and> a \<le> r \<or> k = Suc q \<and> r \<le> c"
    and "i = 8 * q + r \<Longrightarrow> r < 8 \<Longrightarrow> s + n - 1 - i = Suc c + (7 - r)"
    and "i = 8 * Suc q + r \<Longrightarrow> r < 8 \<Longrightarrow> s + n - 1 - i = c - r"
proof -
  show "Suc c + (Suc (7 - a) - 0) = n" using assms by simp
  show "i = 8 * k + r \<Longrightarrow> r < 8 \<Longrightarrow> s \<le> i \<and> i < s + n \<longleftrightarrow> k = q \<and> a \<le> r \<or> k = Suc q \<and> r \<le> c"
  proof -
    assume i: "i = 8 * k + r" "r < 8"
    consider "k < q" | "k = q" | "k = Suc q" | "Suc q < k" by linarith
    then show ?thesis using assms i by cases (simp_all add: less_Suc_eq_le)
  qed
  show "i = 8 * q + r \<Longrightarrow> r < 8 \<Longrightarrow> s + n - 1 - i = Suc c + (7 - r)" using assms by simp
  show "i = 8 * Suc q + r \<Longrightarrow> r < 8 \<Longrightarrow> s + n - 1 - i = c - r" using assms by simp
qed

text \<open>
  A field of at most two bytes that does not end at the end of a second byte is written with the high bit of
  the value first, and no other bit of the buffer changes.
\<close>

theorem insertBitsBuffer_bits:
  fixes v :: "'a::len word"
  assumes n: "0 < numberOfBits" "numberOfBits \<le> LENGTH('a)"
    and fits: "startBit + numberOfBits \<le> 8 * length data" "startBit + numberOfBits < 2 ^ 32"
    and bytes: "(startBit + numberOfBits - 1) div 8 = startBit div 8 \<or>
      (startBit + numberOfBits - 1) div 8 = Suc (startBit div 8) \<and> (startBit + numberOfBits) mod 8 \<noteq> 0"
  shows "\<exists>b data'. insertBitsBuffer v startBit numberOfBits data = (Returned b, data') \<and> length data' = length data \<and>
    (\<forall>i < 8 * length data. highBit data' i \<longleftrightarrow>
       (if startBit \<le> i \<and> i < startBit + numberOfBits then bit v (startBit + numberOfBits - 1 - i) else highBit data i))"
proof -
  define lastBit where "lastBit = startBit + numberOfBits - 1"
  define m where "m = (startBit + numberOfBits) mod 8"
  have wrapped: "(startBit + numberOfBits + (2 ^ 32 - 1)) mod 2 ^ 32 = lastBit"
  proof -
    have "startBit + numberOfBits + (2 ^ 32 - 1) = lastBit + 2 ^ 32" "lastBit < 2 ^ 32" using n(1) fits(2) by (simp_all add: lastBit_def)
    then show ?thesis by (simp only: mod_add_self2 mod_less)
  qed
  have sum: "startBit + numberOfBits = Suc lastBit" using n(1) by (simp add: lastBit_def)
  have inside: "lastBit div 8 < length data" using fits(1) sum by (simp add: less_mult_imp_div_less)
  consider (one) "lastBit div 8 = startBit div 8" | (two) "lastBit div 8 = Suc (startBit div 8)" "m \<noteq> 0"
    using bytes by (auto simp: lastBit_def m_def)
  then show ?thesis
  proof cases
    case one
    note one_field = field_one [OF byte_and_bit(1) byte_and_bit(1) [of lastBit, unfolded one] byte_and_bit(2) byte_and_bit(2) sum]
    have width: "0 + (Suc (7 - startBit mod 8) - (7 - lastBit mod 8)) \<le> LENGTH('a)" using n(2) one_field(1) by simp
    obtain b data' where step: "insertByte v startBit lastBit 0 m 0 data = (Returned b, data')" "length data' = length data"
      "\<And>i. highBit data' i \<longleftrightarrow> (if i div 8 = startBit div 8 \<and> 7 - lastBit mod 8 \<le> 7 - i mod 8 \<and> 7 - i mod 8 \<le> 7 - startBit mod 8
         then bit v (0 + (7 - i mod 8 - (7 - lastBit mod 8))) else highBit data i)"
      by (rule insertByte_run [OF _ _ _ _ _ width, where j = 0 and span = 0 and data = data and v = v and startBit = startBit and lastBit = lastBit and lastByteLength = m and p = "startBit div 8"])
        (use inside one in \<open>simp_all add: shiftFrom_def\<close>)
    have "insertBitsBuffer v startBit numberOfBits data = (Returned b, data')"
      unfolding insertBitsBuffer_def Let_def wrapped m_def [symmetric] using step(1) one by (simp add: give_def)
    moreover have "highBit data' i \<longleftrightarrow> (if startBit \<le> i \<and> i < startBit + numberOfBits then bit v (startBit + numberOfBits - 1 - i) else highBit data i)" for i
    proof -
      have "startBit + numberOfBits - 1 - i = lastBit mod 8 - i mod 8" if "i div 8 = startBit div 8"
        by (rule one_field(3) [OF byte_and_bit(1) [of i, unfolded that] byte_and_bit(2)])
      then show ?thesis unfolding step(3) one_field(2) [OF byte_and_bit [of i]] mirrored by (intro if_cong) auto
    qed
    ultimately show ?thesis using step(2) by blast
  next
    case two
    have m: "m = Suc (lastBit mod 8)" using two(2) unfolding m_def sum mod_Suc by (simp split: if_splits)
    note two_field = field_two [OF byte_and_bit(1) byte_and_bit(1) [of lastBit, unfolded two(1)] byte_and_bit(2) byte_and_bit(2) sum]
    have first: "m + (Suc (7 - startBit mod 8) - 0) \<le> LENGTH('a)" using n(2) two_field(1) unfolding m by simp
    then have second: "0 + (Suc 7 - (7 - lastBit mod 8)) \<le> LENGTH('a)" unfolding m by linarith
    obtain b data1 where step: "insertByte v startBit lastBit 1 m 0 data = (Returned b, data1)" "length data1 = length data"
      "\<And>i. highBit data1 i \<longleftrightarrow> (if i div 8 = startBit div 8 \<and> 0 \<le> 7 - i mod 8 \<and> 7 - i mod 8 \<le> 7 - startBit mod 8
         then bit v (m + (7 - i mod 8 - 0)) else highBit data i)"
      by (rule insertByte_run [OF _ _ _ _ _ first, where j = 0 and span = 1 and data = data and v = v and startBit = startBit and lastBit = lastBit and lastByteLength = m and p = "startBit div 8"])
        (use inside two(1) in \<open>simp_all add: shiftFrom_def\<close>)
    obtain b' data2 where step2: "insertByte v startBit lastBit 1 m 1 data1 = (Returned b', data2)" "length data2 = length data1"
      "\<And>i. highBit data2 i \<longleftrightarrow> (if i div 8 = Suc (startBit div 8) \<and> 7 - lastBit mod 8 \<le> 7 - i mod 8 \<and> 7 - i mod 8 \<le> 7
         then bit v (0 + (7 - i mod 8 - (7 - lastBit mod 8))) else highBit data1 i)"
      by (rule insertByte_run [OF _ _ _ _ _ second, where j = 1 and span = 1 and data = data1 and v = v and startBit = startBit and lastBit = lastBit and lastByteLength = m and p = "Suc (startBit div 8)"])
        (use inside two(1) step(2) in \<open>simp_all add: shiftFrom_def\<close>)
    have "insertBitsBuffer v startBit numberOfBits data = (Returned b', data2)"
      unfolding insertBitsBuffer_def Let_def wrapped m_def [symmetric] using step(1) step2(1) two(1) by (simp add: give_def)
    moreover have "highBit data2 i \<longleftrightarrow> (if startBit \<le> i \<and> i < startBit + numberOfBits then bit v (startBit + numberOfBits - 1 - i) else highBit data i)" for i
    proof -
      have "startBit + numberOfBits - 1 - i = m + (7 - i mod 8)" if "i div 8 = startBit div 8"
        unfolding m by (rule two_field(3) [OF byte_and_bit(1) [of i, unfolded that] byte_and_bit(2)])
      moreover have "startBit + numberOfBits - 1 - i = lastBit mod 8 - i mod 8" if "i div 8 = Suc (startBit div 8)"
        by (rule two_field(4) [OF byte_and_bit(1) [of i, unfolded that] byte_and_bit(2)])
      ultimately show ?thesis unfolding step2(3) step(3) two_field(2) [OF byte_and_bit [of i]] mirrored
        by (cases "i div 8 = startBit div 8"; cases "i div 8 = Suc (startBit div 8)") simp_all
    qed
    ultimately show ?thesis using step(2) step2(2) by auto
  qed
qed

theorem insertBitsBuffer_bits_witness:
  "\<exists>b data'. insertBitsBuffer (0x2D :: 64 word) 5 6 [0xFF, 0x00] = (Returned b, data') \<and> length data' = length [0xFF, 0x00 :: byte] \<and>
    (\<forall>i < 8 * length [0xFF, 0x00 :: byte]. highBit data' i \<longleftrightarrow>
       (if 5 \<le> i \<and> i < 5 + 6 then bit (0x2D :: 64 word) (5 + 6 - 1 - i) else highBit [0xFF, 0x00] i))"
  by (rule insertBitsBuffer_bits) simp_all

text \<open>
  Longer fields are written wrongly: the low byte of a value of two whole bytes is stored twice, and the last
  byte of a field of three is taken from the wrong place.
\<close>

lemma insertBitsBuffer_long:
  "insertBitsBuffer (0xABCD :: 64 word) 0 16 [0, 0] = (Returned 0xCD, [0xCD, 0xCD])"
  "insertBitsBuffer (0xABCDE :: 64 word) 0 20 [0, 0, 0] = (Returned 0xD0, [0xAB, 0xCD, 0xD0])"
  by (simp_all add: insertBitsBuffer_def Let_def insertByte_def shiftFrom_def byteWritten_def clearBits_def give_def upt_conv_Cons)

section \<open>Values in buffers of bytes\<close>

text \<open>
  \<open>extractValueFromBinaryString\<close>: the bytes that may be read are a list, for a \<open>std::string\<close> its characters and the
  terminating zero; the target is a list of bytes as well.
\<close>

definition byteAt :: "byte list \<Rightarrow> nat \<Rightarrow> nat \<Rightarrow> byte" where
  "byteAt mem byteOffset bitOffset =
     (if bitOffset = 0 then mem ! byteOffset
      else drop_bit bitOffset (mem ! byteOffset) OR push_bit (8 - bitOffset) (mem ! (byteOffset + 1)))"

fun extractLoop :: "byte list \<Rightarrow> byte list \<Rightarrow> nat \<Rightarrow> nat \<Rightarrow> nat \<Rightarrow> nat \<Rightarrow> (bit_error, byte list) outcome" where
  "extractLoop mem val byteOffset bitOffset bitsLeft valuei =
     (if bitsLeft = 0 then Returned val
      else if length mem \<le> (if bitOffset = 0 then byteOffset else byteOffset + 1) \<or> length val \<le> valuei then Undef
      else if 7 < bitsLeft
        then extractLoop mem (val[valuei := byteAt mem byteOffset bitOffset]) (byteOffset + 1) bitOffset (bitsLeft - 8) (valuei + 1)
      else Returned (val[valuei := byteAt mem byteOffset bitOffset AND drop_bit (8 - bitsLeft) (- 1)]))"

declare extractLoop.simps [simp del]

definition extractValueFromBinaryString ::
    "byte list \<Rightarrow> nat \<Rightarrow> byte list \<Rightarrow> nat \<Rightarrow> nat \<Rightarrow> (bit_error, byte list) outcome" where
  "extractValueFromBinaryString mem bufferNumberOfBytes val valueNumberOfBits bitIndex =
     (if valueNumberOfBits = 0 then Raised SizeZero
      else if (bufferNumberOfBytes * 8) mod 2 ^ 32 < (bitIndex + valueNumberOfBits) mod 2 ^ 32 then Raised TooFewBytes
      else extractLoop mem val (bitIndex div 8) (bitIndex mod 8) valueNumberOfBits 0)"

definition resized :: "byte list \<Rightarrow> nat \<Rightarrow> byte list" where
  "resized bs n = take n bs @ replicate (n - length bs) 0"

definition extractStringFromBinaryString :: "byte list \<Rightarrow> byte list \<Rightarrow> nat \<Rightarrow> nat \<Rightarrow> (bit_error, byte list) outcome" where
  "extractStringFromBinaryString data val valueNumberOfBits bitIndex =
     extractValueFromBinaryString (data @ [0]) (length data)
       (resized val (valueNumberOfBits div 8 + (if valueNumberOfBits mod 8 \<noteq> 0 then 1 else 0))) valueNumberOfBits bitIndex"

text \<open>The template for a value of \<open>n\<close> bytes.\<close>

definition extractTypeFromBinaryString :: "byte list \<Rightarrow> nat \<Rightarrow> nat \<Rightarrow> (bit_error, byte list) outcome" where
  "extractTypeFromBinaryString data n bitIndex =
     extractValueFromBinaryString (data @ [0]) (length data) (replicate n 0) (n * 8) bitIndex"

text \<open>\<open>insertValueInBinaryString\<close>: the value is the list of its bytes in memory, the lowest first.\<close>

definition insertValueInBinaryString :: "byte list \<Rightarrow> byte list \<Rightarrow> nat \<Rightarrow> byte list" where
  "insertValueInBinaryString data val bitIndex =
     (let byteIndex = bitIndex div 8; k = bitIndex mod 8; n = length val;
          buffer = resized data (byteIndex + n + (if k \<noteq> 0 then 1 else 0));
          keepMask = drop_bit k (- 1)
      in if k \<noteq> 0
         then take byteIndex buffer
              @ [(buffer ! byteIndex AND keepMask) OR push_bit k (val ! 0)]
              @ map (\<lambda>i. (val ! (i - 1) AND keepMask) OR push_bit k (val ! i)) [1..<n]
              @ [(val ! (n - 1) AND keepMask) OR push_bit k (buffer ! (byteIndex + n))]
         else take byteIndex buffer @ val)"

text \<open>The specialization for text; \<open>doubleBytes\<close> stands for the conversion of a text to a \<open>double\<close>.\<close>

definition bytesOf :: "64 word \<Rightarrow> byte list" where
  "bytesOf w = map (\<lambda>i. ucast (drop_bit (8 * i) w)) [0..<8]"

definition insertTextInBinaryString ::
    "(string \<Rightarrow> byte list option) \<Rightarrow> byte list \<Rightarrow> string \<Rightarrow> nat \<Rightarrow> (bit_error, byte list) outcome" where
  "insertTextInBinaryString doubleBytes data t bitIndex =
     (if getNumberType t = ''nan'' then Raised NoNumberText
      else if getNumberType t = ''double''
        then (case doubleBytes t of None \<Rightarrow> Raised NoNumberText | Some v \<Rightarrow> Returned (insertValueInBinaryString data v bitIndex))
      else (case getNumber t of
              Number v \<Rightarrow> Returned (insertValueInBinaryString data (bytesOf v) bitIndex)
            | NotANumber v \<Rightarrow> Raised NoNumberText
            | _ \<Rightarrow> Undef))"

lemma bit_byteAt:
  assumes "bitOffset < 8" "k < 8"
  shows "bit (byteAt mem byteOffset bitOffset) k \<longleftrightarrow> lowBit mem (8 * byteOffset + bitOffset + k)"
proof (cases "bitOffset + k < 8")
  case True
  then have "(8 * byteOffset + (bitOffset + k)) div 8 = byteOffset" "(8 * byteOffset + (bitOffset + k)) mod 8 = bitOffset + k" by auto
  then show ?thesis using True assms unfolding lowBit_def add.assoc by (auto simp: byteAt_def bit_simps)
next
  case False
  define e where "e = bitOffset + k - 8"
  have e: "bitOffset + k = 8 + e" "e < 8" using False assms by (auto simp: e_def)
  have at: "(8 * byteOffset + bitOffset + k) div 8 = Suc byteOffset" "(8 * byteOffset + bitOffset + k) mod 8 = e"
  proof -
    have pos: "8 * byteOffset + bitOffset + k = e + 8 * Suc byteOffset" using e by simp
    show "(8 * byteOffset + bitOffset + k) div 8 = Suc byteOffset" unfolding pos using e(2) by (subst div_mult_self2) simp_all
    show "(8 * byteOffset + bitOffset + k) mod 8 = e" unfolding pos mod_mult_self2 using e(2) by simp
  qed
  have "\<not> bit (drop_bit bitOffset (mem ! byteOffset)) k" using False bit_imp_le_length by (fastforce simp: bit_drop_bit_eq)
  moreover have "8 - bitOffset \<le> k" "k - (8 - bitOffset) = e" "bitOffset \<noteq> 0" using e assms by auto
  ultimately show ?thesis unfolding lowBit_def at byteAt_def using assms by (simp add: bit_or_iff bit_push_bit_iff)
qed

text \<open>The loop, from byte \<open>valuei\<close> of the target on.\<close>

lemma extractLoop_bits:
  assumes "bitOffset < 8" "8 * byteOffset + bitOffset + bitsLeft \<le> 8 * length data" "valuei + (bitsLeft + 7) div 8 \<le> length val"
  shows "\<exists>res. extractLoop (data @ [0]) val byteOffset bitOffset bitsLeft valuei = Returned res \<and> length res = length val \<and>
    (\<forall>p < valuei. res ! p = val ! p) \<and>
    (\<forall>q k. q < (bitsLeft + 7) div 8 \<and> k < 8 \<longrightarrow>
       (bit (res ! (valuei + q)) k \<longleftrightarrow> 8 * q + k < bitsLeft \<and> lowBit (data @ [0]) (8 * byteOffset + bitOffset + (8 * q + k))))"
  using assms
proof (induction bitsLeft arbitrary: val byteOffset valuei rule: less_induct)
  case (less bitsLeft)
  let ?mem = "data @ [0]" and ?b = "byteAt (data @ [0]) byteOffset bitOffset"
  have ok: "\<not> (length ?mem \<le> (if bitOffset = 0 then byteOffset else byteOffset + 1) \<or> length val \<le> valuei)" if "bitsLeft \<noteq> 0"
    using less.prems that by auto
  consider "bitsLeft = 0" | (part) "0 < bitsLeft" "bitsLeft \<le> 7" | (whole) "7 < bitsLeft" by linarith
  then show ?case
  proof cases
    case part
    let ?m = "?b AND drop_bit (8 - bitsLeft) (- 1)"
    have run: "extractLoop ?mem val byteOffset bitOffset bitsLeft valuei = Returned (val[valuei := ?m])"
      using ok part by (subst extractLoop.simps) simp
    have "bit ?m k \<longleftrightarrow> k < bitsLeft \<and> lowBit ?mem (8 * byteOffset + bitOffset + k)" if "k < 8" for k
      using that part bit_byteAt [OF less.prems(1) that] by (auto simp: bit_simps)
    moreover have "(bitsLeft + 7) div 8 = 1" using part by simp
    ultimately show ?thesis using run less.prems(3) by auto
  next
    case whole
    have run: "extractLoop ?mem val byteOffset bitOffset bitsLeft valuei =
        extractLoop ?mem (val[valuei := ?b]) (byteOffset + 1) bitOffset (bitsLeft - 8) (valuei + 1)"
      using ok whole by (subst extractLoop.simps) simp
    have "bitsLeft + 7 = bitsLeft - 8 + 7 + 8" using whole by simp
    then have count: "(bitsLeft + 7) div 8 = Suc ((bitsLeft - 8 + 7) div 8)" by simp
    obtain res where res: "extractLoop ?mem (val[valuei := ?b]) (byteOffset + 1) bitOffset (bitsLeft - 8) (valuei + 1) = Returned res"
        "length res = length val" "\<forall>p < valuei + 1. res ! p = val[valuei := ?b] ! p"
      and bits: "\<And>q k. q < (bitsLeft - 8 + 7) div 8 \<Longrightarrow> k < 8 \<Longrightarrow>
         (bit (res ! (valuei + 1 + q)) k \<longleftrightarrow> 8 * q + k < bitsLeft - 8 \<and> lowBit ?mem (8 * (byteOffset + 1) + bitOffset + (8 * q + k)))"
      using less.IH [of "bitsLeft - 8" "byteOffset + 1" "valuei + 1" "val[valuei := ?b]"] less.prems whole count by auto
    have "bit (res ! (valuei + q)) k \<longleftrightarrow> 8 * q + k < bitsLeft \<and> lowBit ?mem (8 * byteOffset + bitOffset + (8 * q + k))"
      if "q < (bitsLeft + 7) div 8" "k < 8" for q k
    proof (cases q)
      case 0
      then show ?thesis using that whole res(3) bit_byteAt [OF less.prems(1) that(2), of ?mem byteOffset] ok by auto
    next
      case (Suc r)
      have r: "r < (bitsLeft - 8 + 7) div 8" using that(1) Suc count by simp
      have eqs: "8 * (byteOffset + 1) + bitOffset + (8 * r + k) = 8 * byteOffset + bitOffset + (8 * q + k)" "valuei + 1 + r = valuei + q"
        "8 * r + k < bitsLeft - 8 \<longleftrightarrow> 8 * q + k < bitsLeft" using Suc by auto
      show ?thesis by (rule bits [OF r that(2), unfolded eqs])
    qed
    then show ?thesis using run res by auto
  qed (subst extractLoop.simps, auto)
qed

lemma lowBit_bound: "n \<le> 8 * length data \<Longrightarrow> i < n \<Longrightarrow> lowBit (data @ [0]) i \<longleftrightarrow> lowBit data i"
  by (simp add: lowBit_def nth_append less_mult_imp_div_less mult.commute)

lemma extractString_run:
  assumes "0 < n" "bitIndex + n \<le> 8 * length data" "8 * length data < 2 ^ 32" "(n + 7) div 8 = length val"
  shows "\<exists>res. extractValueFromBinaryString (data @ [0]) (length data) val n bitIndex = Returned res \<and> length res = length val \<and>
    (\<forall>i < 8 * length val. lowBit res i \<longleftrightarrow> i < n \<and> lowBit data (bitIndex + i))"
proof -
  have "(length data * 8) mod 2 ^ 32 = 8 * length data" "(bitIndex + n) mod 2 ^ 32 = bitIndex + n" using assms(2,3) by simp_all
  then have run: "extractValueFromBinaryString (data @ [0]) (length data) val n bitIndex =
      extractLoop (data @ [0]) val (bitIndex div 8) (bitIndex mod 8) n 0"
    using assms(1,2) unfolding extractValueFromBinaryString_def by simp
  obtain res where res: "extractLoop (data @ [0]) val (bitIndex div 8) (bitIndex mod 8) n 0 = Returned res" "length res = length val"
    "\<forall>q k. q < length val \<and> k < 8 \<longrightarrow> (bit (res ! q) k \<longleftrightarrow> 8 * q + k < n \<and> lowBit (data @ [0]) (bitIndex + (8 * q + k)))"
    using extractLoop_bits [of "bitIndex mod 8" "bitIndex div 8" n data 0 val] assms(2,4) by auto
  have "lowBit res i \<longleftrightarrow> i < n \<and> lowBit data (bitIndex + i)" if "i < 8 * length val" for i
  proof -
    have "i div 8 < length val" using that by (simp add: less_mult_imp_div_less mult.commute)
    then have "lowBit res i \<longleftrightarrow> i < n \<and> lowBit (data @ [0]) (bitIndex + i)" using res(3) by (simp add: lowBit_def)
    then show ?thesis using lowBit_bound [OF assms(2), of "bitIndex + i"] by auto
  qed
  then show ?thesis using run res(1,2) by auto
qed

text \<open>
  C38. Extracting any number of bits at any position of a string gives just these bits, low bit first, in the least
  number of bytes, the rest of the last byte cleared; nothing outside the string and its terminator is read.
\<close>

theorem extract_bits:
  assumes "0 < n" "bitIndex + n \<le> 8 * length data" "8 * length data < 2 ^ 32"
  shows "\<exists>res. extractStringFromBinaryString data val n bitIndex = Returned res \<and> length res = (n + 7) div 8 \<and>
    (\<forall>i < 8 * length res. lowBit res i \<longleftrightarrow> i < n \<and> lowBit data (bitIndex + i))"
proof -
  have size: "n div 8 + (if n mod 8 \<noteq> 0 then 1 else 0) = (n + 7) div 8" by presburger
  have "length (resized val ((n + 7) div 8)) = (n + 7) div 8" by (simp add: resized_def)
  then show ?thesis
    using extractString_run [OF assms, of "resized val ((n + 7) div 8)"] unfolding extractStringFromBinaryString_def size by auto
qed

theorem extract_bits_witness:
  "\<exists>res. extractStringFromBinaryString [0x34, 0x12] [] 7 5 = Returned res \<and> length res = (7 + 7) div 8 \<and>
    (\<forall>i < 8 * length res. lowBit res i \<longleftrightarrow> i < 7 \<and> lowBit [0x34, 0x12] (5 + i))"
  by (rule extract_bits) simp_all

text \<open>
  A value stored at a whole byte is extracted unchanged, and the bytes before it are kept; what followed it
  is cut off.
\<close>

theorem insert_extract_aligned:
  assumes "bitIndex mod 8 = 0" "0 < length val" "bitIndex + 8 * length val < 2 ^ 32"
  shows "extractTypeFromBinaryString (insertValueInBinaryString data val bitIndex) (length val) bitIndex = Returned val \<and>
    insertValueInBinaryString data val bitIndex = resized data (bitIndex div 8) @ val"
proof -
  let ?q = "bitIndex div 8"
  have buffer: "insertValueInBinaryString data val bitIndex = resized data ?q @ val"
    using assms(1) by (auto simp: insertValueInBinaryString_def Let_def resized_def min_def)
  have at: "bitIndex = 8 * ?q" using assms(1) by presburger
  have len_resized: "length (resized data ?q) = ?q" by (simp add: resized_def)
  then have len: "8 * length (resized data ?q @ val) = bitIndex + 8 * length val" using at by simp
  obtain res where res: "extractTypeFromBinaryString (resized data ?q @ val) (length val) bitIndex = Returned res" "length res = length val"
      "\<forall>i < 8 * length val. lowBit res i \<longleftrightarrow> lowBit (resized data ?q @ val) (bitIndex + i)"
    using extractString_run [of "length val * 8" bitIndex "resized data ?q @ val" "replicate (length val) 0"] assms(2,3) len
    unfolding extractTypeFromBinaryString_def by auto
  have "res ! p = val ! p" if "p < length val" for p
  proof (rule bit_word_eqI)
    fix k assume "k < LENGTH(8)"
    then have k: "8 * p + k < 8 * length val" "(8 * p + k) div 8 = p" "(8 * p + k) mod 8 = k" using that by auto
    have "bitIndex + (8 * p + k) = k + 8 * (?q + p)" using at by simp
    then have "(bitIndex + (8 * p + k)) div 8 = ?q + p" "(bitIndex + (8 * p + k)) mod 8 = k"
      using k(3) by (simp_all only: div_mult_self2 mod_mult_self2) simp_all
    then show "bit (res ! p) k \<longleftrightarrow> bit (val ! p) k"
      using res(3) [rule_format, OF k(1)] k(2,3) by (simp add: lowBit_def nth_append len_resized)
  qed
  then have "res = val" using res(2) by (intro nth_equalityI) auto
  then show ?thesis using res(1) buffer by simp
qed

theorem insert_extract_aligned_witness:
  "extractTypeFromBinaryString (insertValueInBinaryString [1, 2, 3, 4] [0xAB, 0xCD] 8) (length [0xAB, 0xCD :: byte]) 8 = Returned [0xAB, 0xCD] \<and>
   insertValueInBinaryString [1, 2, 3, 4] [0xAB, 0xCD] 8 = resized [1, 2, 3, 4] (8 div 8) @ [0xAB, 0xCD]"
  by (rule insert_extract_aligned) simp_all

text \<open>At other positions the mask keeps the low bits of the neighbouring bytes where the high ones are needed.\<close>

lemma insert_extract_shifted:
  "insertValueInBinaryString [] [0x12] 4 = [0x20, 0x02]"
  "extractTypeFromBinaryString (insertValueInBinaryString [] [0x12] 4) 1 4 = Returned [0x22]"
  by (simp_all add: insertValueInBinaryString_def extractTypeFromBinaryString_def extractValueFromBinaryString_def Let_def
      extractLoop.simps byteAt_def resized_def mask_eq_exp_minus_1)

section \<open>Hexadecimal text\<close>

definition hexBytes :: "byte list \<Rightarrow> nat list \<Rightarrow> string option" where
  "hexBytes mem is =
     (if \<forall>i \<in> set is. i < length mem then Some (concat (map (\<lambda>i. hex_byte (char_of (unat (mem ! i)))) is)) else None)"

definition binaryStringToHexString :: "byte list \<Rightarrow> string \<Rightarrow> string \<Rightarrow> string" where
  "binaryStringToHexString mem resultPreamble resultDelimiter =
     resultPreamble @ concat (map (\<lambda>i. (if i \<noteq> 0 then resultDelimiter else []) @ hex_byte (char_of (unat (mem ! i)))) [0..<length mem])"

text \<open>Whole groups of eight bytes, then the rest, the highest byte first; \<open>numberOfBytes - 1\<close> wraps around when there is none.\<close>

definition hexGroup :: "byte list \<Rightarrow> string \<Rightarrow> nat \<Rightarrow> string option" where
  "hexGroup mem resultDelimiter j =
     map_option (\<lambda>t. (if j \<noteq> 0 then resultDelimiter else []) @ t) (hexBytes mem (map (\<lambda>k. 7 - k + j * 8) [0..<8]))"

definition binaryNumberToHexString :: "byte list \<Rightarrow> nat \<Rightarrow> string \<Rightarrow> string \<Rightarrow> string option" where
  "binaryNumberToHexString mem numberOfBytes resultPreamble resultDelimiter =
     (let groups = map (\<lambda>g. hexGroup mem resultDelimiter (8 * g)) [0..<(numberOfBytes - 1) div 8];
          rest = hexBytes mem (if numberOfBytes = 0 then [2 ^ 32 - 1] else rev [8 * ((numberOfBytes - 1) div 8)..<numberOfBytes])
      in if None \<in> set groups \<or> rest = None then None
         else Some (resultPreamble @ concat (map the groups) @ the rest))"

primrec bytesValue :: "byte list \<Rightarrow> nat" where
  "bytesValue [] = 0"
| "bytesValue (b # bs) = unat b + 256 * bytesValue bs"

lemma digit_value_hex_digit: "d < 16 \<Longrightarrow> digit_value (hex_digit d) = int d"
proof -
  assume "d < 16"
  then have "d \<in> set [0..<16]" by simp
  then show ?thesis unfolding digit_value_def hex_digit_def is_digit_def by (auto simp: upt_conv_Cons less_eq_char_def)
qed

lemma digits_value_append: "digits_value b (xs @ [x, y]) = digits_value b xs * b * b + digit_value x * b + digit_value y"
  by (simp add: digits_value_def algebra_simps)

lemma digits_value_hexBytes: "digits_value 16 (concat (map (\<lambda>b. hex_byte (char_of (unat b))) (rev bs))) = int (bytesValue bs)"
proof (induction bs)
  case (Cons b bs)
  have b: "unat b < 256" using unsigned_less [of b] by simp
  then have h: "hex_byte (char_of (unat b)) = [hex_digit (unat b div 16), hex_digit (unat b mod 16)]" by (simp add: hex_byte_def)
  have "unat b div 16 < 16" using b by (simp add: less_mult_imp_div_less)
  moreover have "int (unat b) = 16 * int (unat b div 16) + int (unat b mod 16)" by (metis mult_div_mod_eq of_nat_add of_nat_mult of_nat_numeral)
  ultimately show ?case using Cons by (simp add: h digits_value_append digit_value_hex_digit)
qed (simp add: digits_value_def)

text \<open>
  The text of a number of up to eight bytes, the lowest byte first in memory, is its value in base 16.
\<close>

theorem hex_of_number:
  assumes "0 < length mem" "length mem \<le> 8"
  shows "\<exists>t. binaryNumberToHexString mem (length mem) resultPreamble resultDelimiter = Some (resultPreamble @ t) \<and>
    digits_value 16 t = int (bytesValue mem)"
proof -
  have one: "(length mem - 1) div 8 = 0" using assms by simp
  have "map f (rev [0..<length mem]) = map g (rev mem)" if "\<And>i. f i = g (mem ! i)" for f and g :: "byte \<Rightarrow> string"
    using map_nth [of mem] that by (metis (no_types, lifting) list.map_comp comp_apply map_cong rev_map)
  then have "hexBytes mem (rev [0..<length mem]) = Some (concat (map (\<lambda>b. hex_byte (char_of (unat b))) (rev mem)))"
    unfolding hexBytes_def by simp
  then show ?thesis using assms(1) unfolding binaryNumberToHexString_def Let_def one by (simp add: digits_value_hexBytes)
qed

theorem hex_of_number_witness:
  "\<exists>t. binaryNumberToHexString [0xEF, 0xBE] (length [0xEF, 0xBE :: byte]) ''0x'' '' '' = Some (''0x'' @ t) \<and>
    digits_value 16 t = int (bytesValue [0xEF, 0xBE])"
  by (rule hex_of_number) simp_all

text \<open>The second group of eight is looked for at byte 64, so the bytes of a buffer longer than 16 are not its text.\<close>

lemma hex_of_long_buffer: "17 \<le> numberOfBytes \<Longrightarrow> length mem \<le> 64 \<Longrightarrow> binaryNumberToHexString mem numberOfBytes p d = None"
proof -
  assume "17 \<le> numberOfBytes" "length mem \<le> 64"
  then have "hexGroup mem d (8 * 1) = None" by (auto simp: hexGroup_def hexBytes_def intro!: bexI [of _ 0])
  moreover have "1 \<in> set [0..<(numberOfBytes - 1) div 8]" using \<open>17 \<le> numberOfBytes\<close> by simp
  ultimately have "None \<in> set (map (\<lambda>g. hexGroup mem d (8 * g)) [0..<(numberOfBytes - 1) div 8])" by (metis image_eqI list.set_map)
  then show ?thesis unfolding binaryNumberToHexString_def Let_def by (simp only: if_True simp_thms)
qed

end
