(* ===== verification/ProducerBuffers.thy ===== *)
theory ProducerBuffers
  imports RingBuffers Effects
begin

text \<open>
  \<open>DataManager/CircularBuffer.icc\<close>, \<open>.h\<close>: the buffer between several producers and their consumers, one ring
  per producer, read in turn. For every consumer the map iterator to the ring it read last is kept; it may
  point behind the last ring or, made by \<open>operator[]\<close>, to nothing. Using such an iterator ends in \<^const>\<open>Undef\<close>.
\<close>

section \<open>Model\<close>

datatype buffer_error = ProducerExists | NoSuchProducer

datatype iter = AtProducer string | AtEnd | Singular

record ('d, 'h) circular =
  theBuffer :: "(string, ('d, 'h) ring) omap"
  lastReadBuffer :: "(string, iter) omap"
  circularConsumers :: "(string, consumer_priority) omap"

type_synonym ('d, 'h, 'a) circular_act = "(('d, 'h) circular, buffer_error, 'a) act"

definition newCircular :: "('d, 'h) circular" where
  "newCircular = \<lparr>theBuffer = [], lastReadBuffer = [], circularConsumers = []\<rparr>"

definition beginIter :: "(string, 'v) omap \<Rightarrow> iter" where
  "beginIter m = (case m of [] \<Rightarrow> AtEnd | (k, v) # _ \<Rightarrow> AtProducer k)"

definition nextIter :: "(string, 'v) omap \<Rightarrow> string \<Rightarrow> iter" where
  "nextIter m p = beginIter (filter (\<lambda>(k, v). p < k) m)"

definition eachRing :: "(('d, 'h) ring \<Rightarrow> ('d, 'h) ring) \<Rightarrow> ('d, 'h) circular \<Rightarrow> ('d, 'h) circular" where
  "eachRing f s = s\<lparr>theBuffer := map (\<lambda>(k, b). (k, f b)) (theBuffer s)\<rparr>"

definition resetCircular :: "('d, 'h) circular \<Rightarrow> ('d, 'h) circular" where
  "resetCircular s = eachRing resetRing s"

definition isEmptyCircular :: "('d, 'h) circular \<Rightarrow> bool" where
  "isEmptyCircular s \<longleftrightarrow> (\<forall>kb \<in> set (theBuffer s). isEmptyRing (snd kb))"

definition getTotalNumberOfSubBuffers :: "('d, 'h) circular \<Rightarrow> nat" where
  "getTotalNumberOfSubBuffers s = sum_list (map (\<lambda>(k, b). numberOfSubBuffers b) (theBuffer s)) mod 2 ^ 32"

definition ringAt :: "('d, 'h) circular \<Rightarrow> string \<Rightarrow> (buffer_error, ('d, 'h) ring) outcome" where
  "ringAt s p = (case omap_get (theBuffer s) p of None \<Rightarrow> Raised NoSuchProducer | Some b \<Rightarrow> Returned b)"

definition getProducerBufferSize :: "('d, 'h) circular \<Rightarrow> string \<Rightarrow> (buffer_error, nat) outcome" where
  "getProducerBufferSize s p = outcome_bind (ringAt s p) (\<lambda>b. Returned (numberOfSubBuffers b))"

definition getProducerWrittenBuffers :: "('d, 'h) circular \<Rightarrow> string \<Rightarrow> (buffer_error, nat) outcome" where
  "getProducerWrittenBuffers s p = outcome_bind (ringAt s p) (\<lambda>b. Returned (numberOfWrittenBuffers b))"

definition registerProducer :: "'d \<Rightarrow> 'h \<Rightarrow> string \<Rightarrow> nat \<Rightarrow> ('d, 'h, unit) circular_act" where
  "registerProducer d0 h0 producerID bufferSize s =
     (if omap_get (theBuffer s) producerID \<noteq> None then (Raised ProducerExists, s)
      else
        (let b = fold (\<lambda>(c, p). registerConsumer c p) (circularConsumers s) (newRing d0 h0 producerID bufferSize)
         in (Returned (), s\<lparr>theBuffer := omap_put producerID b (theBuffer s)\<rparr>)))"

definition registerCircularConsumer :: "string \<Rightarrow> consumer_priority \<Rightarrow> ('d, 'h) circular \<Rightarrow> ('d, 'h) circular" where
  "registerCircularConsumer consumerID prio s =
     (let s1 = eachRing (registerConsumer consumerID prio) (s\<lparr>circularConsumers := omap_put consumerID prio (circularConsumers s)\<rparr>)
      in s1\<lparr>lastReadBuffer := omap_put consumerID (beginIter (theBuffer s1)) (lastReadBuffer s1)\<rparr>)"

definition resetCircularConsumers :: "('d, 'h) circular \<Rightarrow> ('d, 'h) circular" where
  "resetCircularConsumers s = eachRing resetConsumerList (s\<lparr>circularConsumers := []\<rparr>)"

definition setNextProducerBuffer :: "string \<Rightarrow> ('d, 'h, unit) circular_act" where
  "setNextProducerBuffer c s =
     (let (it, m) = at_ins Singular (lastReadBuffer s) c; s1 = s\<lparr>lastReadBuffer := m\<rparr>
      in case it of
           AtProducer p \<Rightarrow>
             (let n = nextIter (theBuffer s) p
              in (Returned (), s1\<lparr>lastReadBuffer := omap_put c (if n = AtEnd then beginIter (theBuffer s) else n) m\<rparr>))
         | _ \<Rightarrow> (Undef, s1))"

text \<open>
  \<open>lastReadBuffer_[consumerID]->second.read(..)\<close>, with \<^term>\<open>None\<close> for a negative result; \<open>rd\<close> is the \<open>read\<close> of the ring,
  which copies a datum (\<^const>\<open>readRing\<close>) or gives its place (\<^const>\<open>readPointers\<close>).
\<close>

type_synonym ('d, 'h, 'r) ring_read = "string \<Rightarrow> ('d, 'h) ring \<Rightarrow> (('d, 'h) ring \<times> 'r option) option"

definition readLast :: "('d, 'h, 'r) ring_read \<Rightarrow> string \<Rightarrow> ('d, 'h, 'r option) circular_act" where
  "readLast rd c s =
     (let (it, m) = at_ins Singular (lastReadBuffer s) c; s1 = s\<lparr>lastReadBuffer := m\<rparr>
      in case it of
           AtProducer p \<Rightarrow>
             (case omap_get (theBuffer s) p of
                None \<Rightarrow> (Undef, s1)
              | Some b \<Rightarrow>
                  (case rd c b of
                     None \<Rightarrow> (Undef, s1)
                   | Some (b', r) \<Rightarrow> (Returned r, s1\<lparr>theBuffer := omap_put p b' (theBuffer s)\<rparr>)))
         | _ \<Rightarrow> (Undef, s1))"

primrec readRounds :: "('d, 'h, 'r) ring_read \<Rightarrow> string \<Rightarrow> nat \<Rightarrow> ('d, 'h, 'r option) circular_act" where
  "readRounds rd c 0 = readLast rd c"
| "readRounds rd c (Suc readCounter) =
     andThen (readLast rd c)
       (\<lambda>r. case r of None \<Rightarrow> thenDo (setNextProducerBuffer c) (readRounds rd c readCounter) | Some _ \<Rightarrow> give r)"

text \<open>
  The rounds are counted by \<open>size() - 1\<close>; the size is not 0 when the step to the next ring is defined.
\<close>

definition readWith :: "('d, 'h, 'r) ring_read \<Rightarrow> string \<Rightarrow> ('d, 'h, 'r option) circular_act" where
  "readWith rd c = thenDo (setNextProducerBuffer c) (\<lambda>s. readRounds rd c (length (theBuffer s) - 1) s)"

definition readCircular :: "string \<Rightarrow> ('d, 'h, ('d \<times> 'h) option) circular_act" where
  "readCircular = readWith readRing"

definition readCircularPointers :: "string \<Rightarrow> ('d, 'h, nat option) circular_act" where
  "readCircularPointers = readWith readPointers"

definition getLastReadBuffer :: "string \<Rightarrow> ('d, 'h, ('d, 'h) ring) circular_act" where
  "getLastReadBuffer c s =
     (let (it, m) = at_ins Singular (lastReadBuffer s) c
      in (case it of
            AtProducer p \<Rightarrow> (case omap_get (theBuffer s) p of None \<Rightarrow> Undef | Some b \<Rightarrow> Returned b)
          | _ \<Rightarrow> Undef, s\<lparr>lastReadBuffer := m\<rparr>))"

text \<open>\<open>getBuffer\<close> makes a ring of the default size, without consumers, for a producer that is not registered.\<close>

definition getBuffer :: "'d \<Rightarrow> 'h \<Rightarrow> string \<Rightarrow> ('d, 'h) circular \<Rightarrow> ('d, 'h) ring \<times> ('d, 'h) circular" where
  "getBuffer d0 h0 producerID s =
     (let (b, m) = at_ins (newRing d0 h0 [] 100) (theBuffer s) producerID in (b, s\<lparr>theBuffer := m\<rparr>))"

text \<open>A producer writes through \<open>getBuffer(id).write(..)\<close>.\<close>

definition writeCircular :: "'d \<Rightarrow> 'h \<Rightarrow> bool \<Rightarrow> string \<Rightarrow> 'd \<times> 'h \<Rightarrow> ('d, 'h, nat option) circular_act" where
  "writeCircular d0 h0 dbg producerID x s =
     (let (b, s1) = getBuffer d0 h0 producerID s
      in case writeRing dbg x b of
           None \<Rightarrow> (Undef, s1)
         | Some (b', r) \<Rightarrow> (Returned r, s1\<lparr>theBuffer := omap_put producerID b' (theBuffer s1)\<rparr>))"

text \<open>A producer that fills its sub-buffer in place.\<close>

definition attachCircular :: "'d \<Rightarrow> 'h \<Rightarrow> string \<Rightarrow> ('d, 'h, nat option) circular_act" where
  "attachCircular d0 h0 producerID s =
     (let (b, s1) = getBuffer d0 h0 producerID s
      in (case attachToEmptySubBuffer b of None \<Rightarrow> Undef | Some r \<Rightarrow> Returned r, s1))"

definition setWrittenCircular :: "'d \<Rightarrow> 'h \<Rightarrow> string \<Rightarrow> ('d, 'h, nat) circular_act" where
  "setWrittenCircular d0 h0 producerID s =
     (let (b, s1) = getBuffer d0 h0 producerID s
      in case setWrittenSubBuffer b of
           None \<Rightarrow> (Undef, s1)
         | Some (b', i) \<Rightarrow> (Returned i, s1\<lparr>theBuffer := omap_put producerID b' (theBuffer s1)\<rparr>))"

section \<open>Reading in turn\<close>

text \<open>The producers in the order in which they are asked after \<open>p\<close> was read last.\<close>

definition inTurn :: "string list \<Rightarrow> string \<Rightarrow> string list" where
  "inTurn ks p = filter (\<lambda>k. p < k) ks @ filter (\<lambda>k. k \<le> p) ks"

lemma inTurn_split:
  assumes "sorted (xs @ p # ys)" "distinct (xs @ p # ys)"
  shows "inTurn (xs @ p # ys) p = ys @ xs @ [p]" and "filter (\<lambda>k. p < k) (xs @ p # ys) = ys"
proof -
  have "\<forall>x \<in> set xs. x < p" "\<forall>y \<in> set ys. p < y" using assms by (auto simp: sorted_append less_le)
  then have "filter (\<lambda>k. p < k) xs = []" "filter (\<lambda>k. k \<le> p) xs = xs" "filter (\<lambda>k. p < k) ys = ys" "filter (\<lambda>k. k \<le> p) ys = []"
    by (auto simp: filter_empty_conv not_less less_imp_le intro!: filter_True)
  then show "inTurn (xs @ p # ys) p = ys @ xs @ [p]" "filter (\<lambda>k. p < k) (xs @ p # ys) = ys" by (simp_all add: inTurn_def)
qed

lemma inTurn_next:
  assumes "sorted ks" "distinct ks" "p \<in> set ks" "inTurn ks p = q # rest"
  shows "inTurn ks q = rest @ [q]" "q \<in> set ks"
proof -
  obtain xs ys where ks: "ks = xs @ p # ys" using assms(3) by (meson split_list)
  note turn = inTurn_split(1) [OF assms(1,2) [unfolded ks]]
  have eq: "ys @ xs @ [p] = q # rest" using assms(4) turn ks by simp
  then have "q \<in> set (ys @ xs @ [p])" by simp
  then show "q \<in> set ks" using ks by auto
  show "inTurn ks q = rest @ [q]"
  proof (cases ys)
    case (Cons y ys')
    then have "ks = (xs @ [p]) @ q # ys'" "rest = ys' @ xs @ [p]" using eq ks by auto
    then show ?thesis using inTurn_split(1) [of "xs @ [p]" q ys'] assms(1,2) by simp
  next
    case Nil
    then show ?thesis
    proof (cases xs)
      case xs: (Cons x xs')
      then have "ks = [] @ q # (xs' @ [p])" "rest = xs' @ [p]" using Nil eq ks by auto
      then show ?thesis using inTurn_split(1) [of "[]" q "xs' @ [p]"] assms(1,2) by simp
    qed (use eq turn ks in simp)
  qed
qed

lemma length_inTurn: "length (inTurn ks p) = length ks"
  using sum_length_filter_compl [of "\<lambda>k. p < k" ks] by (simp add: inTurn_def not_less)

lemma set_inTurn: "set (inTurn ks p) = set ks"
  by (auto simp: inTurn_def)

lemma inTurn_last: "sorted ks \<Longrightarrow> distinct ks \<Longrightarrow> p \<in> set ks \<Longrightarrow> \<exists>us. inTurn ks p = us @ [p]"
  by (metis append.assoc inTurn_split(1) split_list)

abbreviation producers :: "('d, 'h) circular \<Rightarrow> string list" where
  "producers s \<equiv> map fst (theBuffer s)"

abbreviation lastRead :: "('d, 'h) circular \<Rightarrow> string \<Rightarrow> iter option" where
  "lastRead s c \<equiv> omap_get (lastReadBuffer s) c"

lemma setNext_run:
  assumes "omap_ok (theBuffer s)" "lastRead s c = Some (AtProducer p)" "p \<in> set (producers s)" "inTurn (producers s) p = q # rest"
  shows "setNextProducerBuffer c s = (Returned (), s\<lparr>lastReadBuffer := omap_put c (AtProducer q) (lastReadBuffer s)\<rparr>)"
proof -
  obtain xs ys where ks: "producers s = xs @ p # ys" using assms(3) by (meson split_list)
  have sd: "sorted (xs @ p # ys)" "distinct (xs @ p # ys)" using assms(1) unfolding omap_ok_def ks by simp_all
  have start: "beginIter m = (case map fst m of [] \<Rightarrow> AtEnd | k # _ \<Rightarrow> AtProducer k)" for m :: "(string, ('d, 'h) ring) omap"
    by (cases m) (auto simp: beginIter_def)
  have "map fst (filter (\<lambda>(k, v). p < k) (theBuffer s)) = ys"
  proof -
    have "map fst (filter (\<lambda>(k, v). p < k) (theBuffer s)) = filter (\<lambda>k. p < k) (producers s)"
      by (simp add: filter_map comp_def split_def)
    then show ?thesis using inTurn_split(2) [OF sd] unfolding ks by simp
  qed
  then have "nextIter (theBuffer s) p = (case ys of [] \<Rightarrow> AtEnd | k # _ \<Rightarrow> AtProducer k)" unfolding nextIter_def start by simp
  moreover have "beginIter (theBuffer s) = AtProducer (hd (xs @ [p]))" unfolding start ks by (cases xs) simp_all
  moreover have "ys @ xs @ [p] = q # rest" using inTurn_split(1) [OF sd] assms(4) ks by simp
  ultimately show ?thesis using assms(2)
    by (cases ys; cases xs) (auto simp: setNextProducerBuffer_def at_ins_def Let_def)
qed

section \<open>What the buffer represents\<close>

text \<open>
  \<open>W p\<close> is everything the ring of producer \<open>p\<close> has accepted, \<open>R p c\<close> how much of it consumer \<open>c\<close> has read, and
  \<open>N p\<close> the size of the ring.
\<close>

definition circular_rel ::
    "string set \<Rightarrow> (string \<Rightarrow> nat) \<Rightarrow> ('d, 'h) circular \<Rightarrow> (string \<Rightarrow> ('d \<times> 'h) list) \<Rightarrow> (string \<Rightarrow> string \<Rightarrow> nat) \<Rightarrow> bool" where
  "circular_rel cs N s W R \<longleftrightarrow>
     omap_ok (theBuffer s) \<and>
     (\<forall>p b. omap_get (theBuffer s) p = Some b \<longrightarrow> ring_rel cs (N p) b (W p) (R p)) \<and>
     (\<forall>c \<in> cs. \<exists>p \<in> set (producers s). lastRead s c = Some (AtProducer p))"

lemma producers_put: "p \<in> set (map fst m) \<Longrightarrow> omap_ok m \<Longrightarrow> map fst (omap_put p b m) = map fst m"
proof (induction p b m rule: omap_put.induct)
  case (2 k v k' v' m)
  then show ?case by (auto simp: omap_ok_Cons dest: less_asym)
qed simp

lemma ring_get: "p \<in> set (producers s) \<Longrightarrow> \<exists>b. omap_get (theBuffer s) p = Some b"
  by (metis image_set map_of_eq_None_iff not_None_eq)

text \<open>\<open>waiting\<close>: consumer \<open>c\<close> has not read everything of producer \<open>p\<close>.\<close>

abbreviation waiting :: "(string \<Rightarrow> 'x list) \<Rightarrow> (string \<Rightarrow> string \<Rightarrow> nat) \<Rightarrow> string \<Rightarrow> string \<Rightarrow> bool" where
  "waiting W R c p \<equiv> R p c < length (W p)"

abbreviation readOne :: "(string \<Rightarrow> string \<Rightarrow> nat) \<Rightarrow> string \<Rightarrow> string \<Rightarrow> string \<Rightarrow> string \<Rightarrow> nat" where
  "readOne R c p \<equiv> R(p := (R p)(c := Suc (R p c)))"

lemma lastRead_moved:
  assumes "circular_rel cs N s W R" "q \<in> set (producers s)"
  shows "circular_rel cs N (s\<lparr>lastReadBuffer := omap_put c (AtProducer q) (lastReadBuffer s)\<rparr>) W R"
  using assms by (auto simp: circular_rel_def)

lemma readLast_run:
  assumes rel: "circular_rel cs N s W R" and c: "c \<in> cs" and q: "lastRead s c = Some (AtProducer q)" "q \<in> set (producers s)"
  shows "if waiting W R c q
    then \<exists>t. readLast readRing c s = (Returned (Some (W q ! R q c)), t) \<and> circular_rel cs N t W (readOne R c q) \<and>
      lastReadBuffer t = lastReadBuffer s \<and> producers t = producers s
    else readLast readRing c s = (Returned None, s)"
proof -
  obtain b where b: "omap_get (theBuffer s) q = Some b" using ring_get [OF q(2)] by blast
  then have ring: "ring_rel cs (N q) b (W q) (R q)" and ok: "omap_ok (theBuffer s)" using rel by (auto simp: circular_rel_def)
  show ?thesis
  proof (cases "waiting W R c q")
    case True
    obtain b' where b': "readRing c b = Some (b', Some (W q ! R q c))" "ring_rel cs (N q) b' (W q) ((R q)(c := Suc (R q c)))"
      using read_some [OF ring c True] by blast
    let ?t = "s\<lparr>theBuffer := omap_put q b' (theBuffer s)\<rparr>"
    have "readLast readRing c s = (Returned (Some (W q ! R q c)), ?t)" using q(1) b b'(1) by (simp add: readLast_def at_ins_def Let_def)
    moreover have "producers ?t = producers s" using producers_put [OF q(2) ok] by simp
    moreover have "circular_rel cs N ?t W (readOne R c q)"
      using rel b'(2) calculation(2) unfolding circular_rel_def by (auto simp: ok)
    ultimately show ?thesis using True by auto
  next
    case False
    have "R q c \<le> length (W q)" using rel_capacity [OF ring c] by simp
    then have "readRing c b = Some (b, None)" using read_none [OF ring c] False by simp
    moreover have "omap_put q b (theBuffer s) = theBuffer s" using b ok by (rule omap_put_same)
    ultimately show ?thesis using False q(1) b by (simp add: readLast_def at_ins_def Let_def)
  qed
qed

lemma readRounds_run:
  assumes "circular_rel cs N s W R" "c \<in> cs" "lastRead s c = Some (AtProducer q)" "q \<in> set (producers s)" "n \<le> length (producers s)"
  shows "case find (waiting W R c) (q # take n (inTurn (producers s) q)) of
      None \<Rightarrow> \<exists>t. readRounds readRing c n s = (Returned None, t) \<and> circular_rel cs N t W R \<and> theBuffer t = theBuffer s \<and>
        lastRead t c = Some (AtProducer (last (q # take n (inTurn (producers s) q))))
    | Some r \<Rightarrow> \<exists>t. readRounds readRing c n s = (Returned (Some (W r ! R r c)), t) \<and> circular_rel cs N t W (readOne R c r) \<and>
        producers t = producers s \<and> lastRead t c = Some (AtProducer r)"
  using assms
proof (induction n arbitrary: s q)
  case 0
  then show ?case using readLast_run [OF 0(1-4)] by (auto split: if_splits)
next
  case (Suc n)
  note here = readLast_run [OF Suc.prems(1-4)]
  show ?case
  proof (cases "waiting W R c q")
    case True
    then show ?thesis using here Suc.prems(3) by (auto simp: run_simps)
  next
    case False
    have sd: "sorted (producers s)" "distinct (producers s)" and ok: "omap_ok (theBuffer s)" using Suc.prems(1) by (auto simp: circular_rel_def omap_ok_def)
    obtain q' rest where turn: "inTurn (producers s) q = q' # rest"
      using Suc.prems(4) length_inTurn [of "producers s" q] by (cases "inTurn (producers s) q") auto
    note after = inTurn_next [OF sd Suc.prems(4) turn]
    let ?s = "s\<lparr>lastReadBuffer := omap_put c (AtProducer q') (lastReadBuffer s)\<rparr>"
    have step: "setNextProducerBuffer c s = (Returned (), ?s)" using setNext_run [OF ok Suc.prems(3,4) turn] .
    have run: "readRounds readRing c (Suc n) s = readRounds readRing c n ?s" using here False step by simp
    have same: "theBuffer ?s = theBuffer s" by simp
    have "n \<le> length rest" using Suc.prems(5) length_inTurn [of "producers s" q] turn by simp
    then have rest: "take n (inTurn (producers s) q') = take n rest" using after(1) by simp
    have found: "find (waiting W R c) (q # take (Suc n) (q' # rest)) = find (waiting W R c) (q' # take n rest)"
      and final: "last (q # take (Suc n) (q' # rest)) = last (q' # take n rest)" using False by simp_all
    have at: "lastRead ?s c = Some (AtProducer q')" and n: "n \<le> length (producers s)" using Suc.prems(5) by simp_all
    show ?thesis unfolding turn found final run
      by (rule Suc.IH [OF lastRead_moved [OF Suc.prems(1) after(2)] Suc.prems(2) at, unfolded same, OF after(2) n, unfolded rest])
  qed
qed

text \<open>
  C39. A read gives the oldest datum the consumer has not read of the first producer, in turn after the one read
  last, that has such a datum; it fails exactly when no producer has one, and then changes nothing. The data of
  each producer thus arrive in the order of writing, none lost or repeated, and no producer is passed over twice.
\<close>

theorem circular_read:
  assumes "circular_rel cs N s W R" "c \<in> cs" "lastRead s c = Some (AtProducer p)"
  shows "case find (waiting W R c) (inTurn (producers s) p) of
      None \<Rightarrow> \<exists>t. readCircular c s = (Returned None, t) \<and> circular_rel cs N t W R \<and> theBuffer t = theBuffer s \<and>
        lastRead t c = Some (AtProducer p)
    | Some r \<Rightarrow> \<exists>t. readCircular c s = (Returned (Some (W r ! R r c)), t) \<and> circular_rel cs N t W (readOne R c r) \<and>
        lastRead t c = Some (AtProducer r) \<and> r \<in> set (producers s)"
proof -
  have ok: "omap_ok (theBuffer s)" and sd: "sorted (producers s)" "distinct (producers s)"
    using assms(1) by (auto simp: circular_rel_def omap_ok_def)
  have "\<exists>q \<in> set (producers s). lastRead s c = Some (AtProducer q)" using assms(1,2) unfolding circular_rel_def by blast
  then have p: "p \<in> set (producers s)" using assms(3) by (metis iter.inject option.inject)
  obtain q rest where turn: "inTurn (producers s) p = q # rest"
    using p length_inTurn [of "producers s" p] by (cases "inTurn (producers s) p") auto
  note after = inTurn_next [OF sd p turn]
  let ?s = "s\<lparr>lastReadBuffer := omap_put c (AtProducer q) (lastReadBuffer s)\<rparr>"
  let ?n = "length (producers s) - 1"
  have run: "readCircular c s = readRounds readRing c ?n ?s"
    using setNext_run [OF ok assms(3) p turn] by (simp add: readCircular_def readWith_def)
  have len: "?n = length rest" using length_inTurn [of "producers s" p] turn by simp
  have visited: "q # take ?n (inTurn (producers ?s) q) = inTurn (producers s) p" using after(1) turn len by simp
  have "last (inTurn (producers s) p) = p" using inTurn_last [OF sd p] by auto
  moreover have "r \<in> set (producers s)" if "find (waiting W R c) (inTurn (producers s) p) = Some r" for r
    using that set_inTurn by (metis find_Some_iff nth_mem)
  ultimately show ?thesis
    using readRounds_run [OF lastRead_moved [OF assms(1) after(2)] assms(2), of c q ?n] after(2) unfolding run visited
    by (auto split: option.splits)
qed

text \<open>A write changes the ring of its producer only, and is refused when a consumer is a whole ring behind.\<close>

lemma circular_write:
  assumes rel: "circular_rel cs N s W R" and p: "p \<in> set (producers s)"
  shows "if \<forall>c \<in> cs. length (W p) < R p c + N p
    then \<exists>i t. writeCircular d0 h0 False p x s = (Returned (Some i), t) \<and> circular_rel cs N t (W(p := W p @ [x])) R
    else writeCircular d0 h0 False p x s = (Returned None, s)"
proof -
  obtain b where b: "omap_get (theBuffer s) p = Some b" using ring_get [OF p] by blast
  then have ring: "ring_rel cs (N p) b (W p) (R p)" and ok: "omap_ok (theBuffer s)" using rel by (auto simp: circular_rel_def)
  have get: "getBuffer d0 h0 p s = (b, s)" using b by (simp add: getBuffer_def at_ins_def)
  show ?thesis
  proof (cases "\<forall>c \<in> cs. length (W p) < R p c + N p")
    case True
    obtain b' i where b': "writeRing False x b = Some (b', Some i)" "ring_rel cs (N p) b' (W p @ [x]) (R p)"
      using write_accepted [OF ring True, of False x] by blast
    let ?t = "s\<lparr>theBuffer := omap_put p b' (theBuffer s)\<rparr>"
    have "producers ?t = producers s" using producers_put [OF p ok] by simp
    then have "circular_rel cs N ?t (W(p := W p @ [x])) R" using rel b'(2) unfolding circular_rel_def by (auto simp: ok)
    moreover have "writeCircular d0 h0 False p x s = (Returned (Some i), ?t)" by (simp add: writeCircular_def get b'(1))
    ultimately show ?thesis using True by auto
  next
    case False
    have "omap_put p b (theBuffer s) = theBuffer s" using b ok by (rule omap_put_same)
    moreover have "writeRing False x b = Some (b, None)" using write_full [OF ring False, of False x] by simp
    ultimately have "writeCircular d0 h0 False p x s = (Returned None, s)" by (simp add: writeCircular_def get)
    then show ?thesis by (simp only: False if_False)
  qed
qed

section \<open>Setting up\<close>

text \<open>A buffer with rings and consumers to which nothing was written.\<close>

definition circular_new :: "string set \<Rightarrow> (string \<Rightarrow> nat) \<Rightarrow> ('d, 'h) circular \<Rightarrow> bool" where
  "circular_new cs N s \<longleftrightarrow>
     omap_ok (theBuffer s) \<and> theBuffer s \<noteq> [] \<and>
     (\<forall>p b. omap_get (theBuffer s) p = Some b \<longrightarrow> 0 < N p \<and> pristine cs (N p) b) \<and>
     (\<forall>c \<in> cs. \<exists>p \<in> set (producers s). lastRead s c = Some (AtProducer p))"

lemma circular_new_rel: "circular_new cs N s \<Longrightarrow> cs \<noteq> {} \<Longrightarrow> circular_rel cs N s (\<lambda>_. []) (\<lambda>_ _. 0)"
  by (auto simp: circular_new_def circular_rel_def pristine_rel)

lemma circular_new_consumer:
  assumes "circular_new cs N s"
  shows "circular_new (insert c cs) N (registerCircularConsumer c prio s)"
proof -
  obtain p b m where m: "theBuffer s = (p, b) # m" using assms by (cases "theBuffer s") (auto simp: circular_new_def)
  define t where "t = registerCircularConsumer c prio s"
  have t: "theBuffer t = map (\<lambda>(k, b). (k, registerConsumer c prio b)) (theBuffer s)"
      "lastReadBuffer t = omap_put c (AtProducer p) (lastReadBuffer s)"
    using m by (simp_all add: t_def registerCircularConsumer_def Let_def eachRing_def beginIter_def)
  have keys: "producers t = producers s" "p \<in> set (producers s)" using m by (simp_all add: t(1) split_def)
  have "omap_ok (theBuffer t)" "theBuffer t \<noteq> []" using assms by (simp_all add: t(1) circular_new_def omap_ok_map)
  moreover have "0 < N q \<and> pristine (insert c cs) (N q) b" if "omap_get (theBuffer t) q = Some b" for q b
    using that assms by (auto simp: t(1) omap_get_map circular_new_def pristine_register)
  moreover have "\<exists>q \<in> set (producers t). omap_get (lastReadBuffer t) k = Some (AtProducer q)" if "k \<in> insert c cs" for k
    using that assms keys(2) unfolding keys(1) t(2) circular_new_def by auto
  ultimately show ?thesis unfolding t_def [symmetric] circular_new_def by blast
qed

text \<open>The first producer, before any consumer is registered.\<close>

lemma circular_new_producer:
  assumes "0 < n" "N p = n"
  shows "\<exists>t. registerProducer d0 h0 p n newCircular = (Returned (), t) \<and> circular_new {} N t"
  using assms pristine_new by (auto simp: registerProducer_def newCircular_def circular_new_def Let_def omap_ok_def)

definition oneProducer :: "(nat, bool) circular" where
  "oneProducer = registerCircularConsumer ''c'' HighConsumerPriority (snd (registerProducer 0 False ''p'' 2 newCircular))"

theorem circular_read_witness:
  "\<exists>t. readCircular ''c'' (snd (writeCircular 0 False False ''p'' (7, True) oneProducer)) = (Returned (Some (7, True)), t)"
proof -
  have "circular_new {} (\<lambda>_. 2) (snd (registerProducer (0 :: nat) False ''p'' 2 newCircular))"
    using circular_new_producer [of 2 "\<lambda>_. 2" "''p''" "0 :: nat" False] by auto
  then have "circular_new {''c''} (\<lambda>_. 2) oneProducer" unfolding oneProducer_def by (rule circular_new_consumer)
  then have rel: "circular_rel {''c''} (\<lambda>_. 2) oneProducer (\<lambda>_. []) (\<lambda>_ _. 0)" by (rule circular_new_rel) simp
  have keys: "producers oneProducer = [''p'']"
    by (simp add: oneProducer_def registerCircularConsumer_def registerProducer_def newCircular_def eachRing_def Let_def)
  let ?w = "writeCircular 0 False False ''p'' (7, True) oneProducer"
  have w: "circular_rel {''c''} (\<lambda>_. 2) (snd ?w) ((\<lambda>_. [])(''p'' := [(7, True)])) (\<lambda>_ _. 0)"
    using circular_write [OF rel, of "''p''" 0 False "(7, True)"] keys by auto
  have p: "lastRead (snd ?w) ''c'' = Some (AtProducer ''p'')" "producers (snd ?w) = [''p'']" by code_simp+
  show ?thesis using circular_read [OF w _ p(1)] by (auto simp: p(2) inTurn_def)
qed

text \<open>A consumer that is registered before the first producer keeps an iterator behind the end, and its reads are undefined.\<close>

lemma consumer_first:
  "\<exists>t u. registerProducer (0 :: nat) False ''p'' 2 (registerCircularConsumer ''c'' HighConsumerPriority newCircular) = (Returned (), t) \<and>
    readCircular ''c'' t = (Undef, u)"
  by (simp add: registerProducer_def registerCircularConsumer_def newCircular_def eachRing_def Let_def beginIter_def readCircular_def readWith_def
      setNextProducerBuffer_def at_ins_def andThen_def)

end
