(* ===== verification/TableCache.thy ===== *)
theory TableCache
  imports TableRows
begin

text \<open>
  \<open>TableCore/TableBase.cc\<close>: a table with its mock-up view, the versions kept in memory and the active one.
  The pointer \<open>activeTableView_\<close> is the key of the view it points to; using it after that view was erased ends
  in \<^const>\<open>Undef\<close>. The theorems show that this never happens, which views the trimming of the cache removes
  and which versions new views get.
\<close>

section \<open>State\<close>

datatype base_error =
    ViewFault table_error | NotInCache | NoActiveView | VersionExists | VersionNotStored | WrongVersion
  | InvalidStored | PersistentTarget | InvalidNewVersion | NoFreeVersion | SourceNotFound
  | ColumnsDiffer | MissingVersion | IdColumnsDiffer

record table_base =
  baseName :: string
  tableDescription :: string
  maxViewsInCache :: nat
  activeTableView :: "u32 option"
  mockupTableView :: table_view
  tableViews :: "(u32, table_view) omap"

type_synonym 'a base_act = "(table_base, base_error, 'a) act"

definition viewResult :: "(table_error, 'a) outcome \<Rightarrow> (base_error, 'a) outcome" where
  "viewResult r = (case r of Returned x \<Rightarrow> Returned x | Raised e \<Rightarrow> Raised (ViewFault e) | Undef \<Rightarrow> Undef)"

definition isStored :: "table_base \<Rightarrow> u32 \<Rightarrow> bool" where
  "isStored tb ver \<longleftrightarrow> omap_get (tableViews tb) ver \<noteq> None"

text \<open>\<open>tableViews_.at(version)\<close>, changed in place, and \<open>emplace(version, TableView(tableName_))\<close>.\<close>

definition atView :: "u32 \<Rightarrow> 'a view_act \<Rightarrow> 'a base_act" where
  "atView ver m tb =
     (case omap_get (tableViews tb) ver of
        None \<Rightarrow> (Raised NotInCache, tb)
      | Some v \<Rightarrow> (case m v of (r, v') \<Rightarrow> (viewResult r, tb\<lparr>tableViews := omap_put ver v' (tableViews tb)\<rparr>)))"

definition emplaceView :: "int \<Rightarrow> u32 \<Rightarrow> unit base_act" where
  "emplaceView now ver tb =
     (case newTableView now (baseName tb) of
        Returned v \<Rightarrow> (Returned (), if isStored tb ver then tb else tb\<lparr>tableViews := omap_put ver v (tableViews tb)\<rparr>)
      | Raised e \<Rightarrow> (Raised (ViewFault e), tb)
      | Undef \<Rightarrow> (Undef, tb))"

text \<open>The two steps that every new view starts with: the place in the map, and \<open>copy(source, version, author)\<close>.\<close>

definition placeCopy :: "int \<Rightarrow> u32 \<Rightarrow> table_view \<Rightarrow> string \<Rightarrow> unit base_act" where
  "placeCopy now ver src auth = thenDo (emplaceView now ver) (atView ver (copyView now src ver auth))"

section \<open>Active view and access\<close>

definition deactivate :: "table_base \<Rightarrow> table_base" where
  "deactivate tb = tb\<lparr>activeTableView := None\<rparr>"

definition isActive :: "table_base \<Rightarrow> bool" where
  "isActive tb \<longleftrightarrow> activeTableView tb \<noteq> None"

definition getView :: "table_base \<Rightarrow> u32 \<Rightarrow> (base_error, table_view) outcome" where
  "getView tb ver =
     (if ver \<noteq> INVALID then (case omap_get (tableViews tb) ver of Some v \<Rightarrow> Returned v | None \<Rightarrow> Raised NotInCache)
      else (case activeTableView tb of
              None \<Rightarrow> Raised NoActiveView
            | Some k \<Rightarrow> (case omap_get (tableViews tb) k of Some v \<Rightarrow> Returned v | None \<Rightarrow> Undef)))"

definition getViewVersion :: "table_base \<Rightarrow> (base_error, u32) outcome" where
  "getViewVersion tb = outcome_bind (getView tb INVALID) (\<lambda>v. Returned (version v))"

text \<open>\<open>if(activeTableView_ && getViewVersion() == version) deactivate()\<close>.\<close>

definition deactivateIf :: "u32 \<Rightarrow> unit base_act" where
  "deactivateIf ver tb =
     (if activeTableView tb = None then (Returned (), tb)
      else (case getViewVersion tb of
              Returned k \<Rightarrow> (Returned (), if k = ver then deactivate tb else tb)
            | Raised e \<Rightarrow> (Raised e, tb)
            | Undef \<Rightarrow> (Undef, tb)))"

definition eraseView :: "u32 \<Rightarrow> bool base_act" where
  "eraseView ver tb =
     (if \<not> isStored tb ver then (Returned False, tb)
      else thenDo (deactivateIf ver)
             (thenDo (modifies (\<lambda>tb. tb\<lparr>tableViews := omap_del ver (tableViews tb)\<rparr>)) (give True)) tb)"

definition setActiveView :: "u32 \<Rightarrow> bool base_act" where
  "setActiveView ver tb =
     (case omap_get (tableViews tb) ver of
        None \<Rightarrow> (Raised VersionNotStored, tb)
      | Some v \<Rightarrow> (if version v \<noteq> ver then Raised WrongVersion else Returned True, tb\<lparr>activeTableView := Some ver\<rparr>))"

definition getTemporaryView :: "table_base \<Rightarrow> u32 \<Rightarrow> (base_error, table_view) outcome" where
  "getTemporaryView tb ver =
     (if \<not> isTemporaryVersion ver then Raised NotInCache
      else (case omap_get (tableViews tb) ver of Some v \<Rightarrow> Returned v | None \<Rightarrow> Raised NotInCache))"

definition getStoredVersions :: "table_base \<Rightarrow> u32 list" where
  "getStoredVersions tb = map fst (tableViews tb)"

definition getNumberOfStoredViews :: "table_base \<Rightarrow> nat" where
  "getNumberOfStoredViews tb =
     length (filter (\<lambda>(k, v). \<not> isTemporaryVersion k \<and> \<not> isInvalid k) (tableViews tb))"

definition latestAndMockupColumnNumberMismatch :: "table_base \<Rightarrow> bool" where
  "latestAndMockupColumnNumberMismatch tb =
     (if tableViews tb \<noteq> [] \<and> \<not> isTemporaryVersion (fst (last (tableViews tb)))
      then getNumberOfColumns (snd (last (tableViews tb))) \<noteq> getNumberOfColumns (mockupTableView tb)
      else True)"

section \<open>Trimming\<close>

text \<open>
  The view with the oldest access, \<open>INVALID\<close> if there is none; with \<open>trimSize\<close> 0 the first one. The value -1 of
  \<open>stalest\<close> means that none was found yet.
\<close>

fun stalestView :: "nat \<Rightarrow> (u32, table_view) omap \<Rightarrow> u32 \<Rightarrow> int \<Rightarrow> u32" where
  "stalestView trimSize [] ver stalest = ver"
| "stalestView trimSize ((k, v) # m) ver stalest =
     (if \<not> isTemporaryVersion k \<and> (stalest = - 1 \<or> lastAccessTime v < stalest)
      then (if trimSize = 0 then k else stalestView trimSize m k (lastAccessTime v))
      else stalestView trimSize m ver stalest)"

text \<open>Every round erases a view, so there are at most as many rounds as views; the last count only tests.\<close>

primrec trimRounds :: "nat \<Rightarrow> nat \<Rightarrow> unit base_act" where
  "trimRounds trimSize 0 = give ()"
| "trimRounds trimSize (Suc n) = (\<lambda>tb.
     if getNumberOfStoredViews tb \<le> trimSize then (Returned (), tb)
     else
       (let ver = stalestView trimSize (tableViews tb) INVALID (- 1)
        in if isInvalid ver then (Raised InvalidStored, tb)
           else thenDo (eraseView ver) (trimRounds trimSize n) tb))"

definition trimCache :: "nat option \<Rightarrow> unit base_act" where
  "trimCache trimSize tb =
     trimRounds (case trimSize of None \<Rightarrow> maxViewsInCache tb | Some n \<Rightarrow> n) (length (tableViews tb)) tb"

definition resetBase :: "bool \<Rightarrow> unit base_act" where
  "resetBase keepTemporaryVersions =
     thenDo (modifies deactivate)
       (if keepTemporaryVersions then trimCache (Some 0) else modifies (\<lambda>tb. tb\<lparr>tableViews := []\<rparr>))"

definition eraseTemporary :: "u32 \<Rightarrow> unit base_act" where
  "eraseTemporary k =
     (if isTemporaryVersion k
      then thenDo (deactivateIf k) (modifies (\<lambda>tb. tb\<lparr>tableViews := omap_del k (tableViews tb)\<rparr>))
      else give ())"

definition trimTemporary :: "u32 \<Rightarrow> unit base_act" where
  "trimTemporary targetVersion =
     (if isInvalid targetVersion then (\<lambda>tb. each eraseTemporary (getStoredVersions tb) tb)
      else if isTemporaryVersion targetVersion then thenDo (eraseView targetVersion) (give ())
      else fails PersistentTarget)"

section \<open>New views\<close>

definition setupMockupView :: "int \<Rightarrow> u32 \<Rightarrow> unit base_act" where
  "setupMockupView now ver tb =
     (if isStored tb ver then (Raised VersionExists, tb)
      else
        thenDo (placeCopy now ver (mockupTableView tb) (author (mockupTableView tb)))
          (thenDo (trimCache None)
            (\<lambda>tb. if isStored tb ver then (Returned (), tb) else (Raised VersionNotStored, tb))) tb)"

definition changeVersionAndActivateView :: "int \<Rightarrow> u32 \<Rightarrow> u32 \<Rightarrow> unit base_act" where
  "changeVersionAndActivateView now temporaryVersion ver tb =
     (case omap_get (tableViews tb) temporaryVersion of
        None \<Rightarrow> (Raised MissingVersion, tb)
      | Some src \<Rightarrow>
          if isInvalid ver then (Raised InvalidNewVersion, tb)
          else
            thenDo (placeCopy now ver src (author src))
              (thenDo (setActiveView ver) (thenDo (eraseView temporaryVersion) (give ()))) tb)"

text \<open>The search for a free temporary version, downwards from the start.\<close>

function freeTemporary :: "(u32, table_view) omap \<Rightarrow> u32 \<Rightarrow> u32" where
  "freeTemporary m ver =
     (if omap_get m ver = None then ver
      else (let k = getNextTemporaryVersion ver in if isInvalid k then k else freeTemporary m k))"
  by pat_completeness auto

termination
proof (relation "measure (\<lambda>(m, ver). if isTemporaryVersion ver then unat ver else 2 ^ 32)")
  fix m :: "(u32, table_view) omap" and ver k
  assume k: "k = getNextTemporaryVersion ver" "\<not> isInvalid k"
  have "isTemporaryVersion k"
    using k by (auto simp: getNextTemporaryVersion_def Let_def isInvalid_def split: if_splits)
  moreover have "unat k < unat ver" if "isTemporaryVersion ver"
  proof -
    have "0xFFFFD8EF < unat ver" "k = ver - 1" using k that by (auto simp: next_temporary isInvalid_def split: if_splits)
    moreover from this(1) have "ver \<noteq> 0" by auto
    ultimately show ?thesis using unat_minus_one [of ver] by simp
  qed
  ultimately show "((m, k), m, ver) \<in> measure (\<lambda>(m, ver). if isTemporaryVersion ver then unat ver else 2 ^ 32)"
    using unat_bound32 [of k] by auto
qed simp

declare freeTemporary.simps [simp del]

definition createTemporaryView :: "int \<Rightarrow> u32 \<Rightarrow> u32 \<Rightarrow> u32 base_act" where
  "createTemporaryView now sourceViewVersion destTemporaryViewVersion tb =
     (let start = (if isInvalid destTemporaryViewVersion then getNextTemporaryVersion INVALID else destTemporaryViewVersion);
          ver = freeTemporary (tableViews tb) start
      in if isStored tb ver \<or> isInvalid ver then (Raised NoFreeVersion, tb)
         else if sourceViewVersion = INVALID \<or> \<not> isStored tb sourceViewVersion then
           (if sourceViewVersion \<noteq> INVALID then (Raised SourceNotFound, tb)
            else thenDo (placeCopy now ver (mockupTableView tb) (author (mockupTableView tb))) (give ver) tb)
         else
           (let src = the (omap_get (tableViews tb) sourceViewVersion)
            in thenDo (attempt (placeCopy now ver src (author src))) (give ver) tb))"

text \<open>\<open>try { m } catch(...) { eraseView(version); throw; }\<close>\<close>

definition orErase :: "u32 \<Rightarrow> unit base_act \<Rightarrow> unit base_act" where
  "orErase ver m tb =
     (case m tb of
        (Raised e, t) \<Rightarrow> thenDo (eraseView ver) (fails e) t
      | r \<Rightarrow> r)"

definition base_copyView :: "int \<Rightarrow> table_view \<Rightarrow> u32 \<Rightarrow> string \<Rightarrow> bool \<Rightarrow> u32 base_act" where
  "base_copyView now src destinationVersion auth looseColumnMatching tb =
     (if \<not> looseColumnMatching \<and> getNumberOfColumns src \<noteq> getNumberOfColumns (mockupTableView tb) then (Raised ColumnsDiffer, tb)
      else if \<not> isInvalid destinationVersion \<and> isStored tb destinationVersion then (Raised VersionExists, tb)
      else
        andThen (createTemporaryView now INVALID destinationVersion) (\<lambda>ver.
          thenDo (orErase ver (placeCopy now ver src auth)) (give ver)) tb)"

definition base_getNextTemporaryVersion :: "table_base \<Rightarrow> (base_error, u32) outcome" where
  "base_getNextTemporaryVersion tb =
     (let ver = getNextTemporaryVersion
                  (if tableViews tb \<noteq> [] \<and> isTemporaryVersion (fst (hd (tableViews tb))) then fst (hd (tableViews tb)) else INVALID)
      in if isStored tb ver \<or> isInvalid ver \<or> \<not> isTemporaryVersion ver then Raised NoFreeVersion else Returned ver)"

definition base_getNextVersion :: "table_base \<Rightarrow> (base_error, u32) outcome" where
  "base_getNextVersion tb =
     (let ver = getNextVersion
                  (if tableViews tb \<noteq> [] \<and> \<not> isTemporaryVersion (fst (last (tableViews tb))) then fst (last (tableViews tb)) else INVALID)
      in if isStored tb ver \<or> isInvalid ver \<or> isTemporaryVersion ver then Raised NoFreeVersion else Returned ver)"

section \<open>Comparison of versions\<close>

text \<open>
  \<open>checkForDuplicate\<close>: the newest persistent version with the same column names and the same cells, author and
  time stamp apart. The sizes are unsigned, so that \<open>cols - 2\<close> of a table with one column is huge.
\<close>

definition comparedColumns :: "nat \<Rightarrow> nat" where
  "comparedColumns cols = (cols + (2 ^ 32 - 2)) mod 2 ^ 32"

fun sameCells :: "table_view \<Rightarrow> table_view \<Rightarrow> (nat \<times> nat) list \<Rightarrow> (base_error, bool) outcome" where
  "sameCells v w [] = Returned True"
| "sameCells v w ((r, c) # rcs) =
     outcome_bind (cell v r c) (\<lambda>x. outcome_bind (cell w r c) (\<lambda>y.
       if x \<noteq> y then Returned False else sameCells v w rcs))"

definition allCells :: "nat \<Rightarrow> nat \<Rightarrow> (nat \<times> nat) list" where
  "allCells rows cols = concat (map (\<lambda>r. map (\<lambda>c. (r, c)) [0..<comparedColumns cols]) [0..<rows])"

definition getDataColumnSize :: "table_view \<Rightarrow> nat" where
  "getDataColumnSize v = (if dataView v = [] then getNumberOfColumns v else length (hd (dataView v)))"

definition comparable :: "table_view \<Rightarrow> u32 \<Rightarrow> u32 \<Rightarrow> u32 \<Rightarrow> table_view \<Rightarrow> bool" where
  "comparable needle needleVersion ignoreVersion k v \<longleftrightarrow>
     k \<noteq> needleVersion \<and> k \<noteq> ignoreVersion \<and> \<not> isTemporaryVersion k \<and>
     getNumberOfRows v = getNumberOfRows needle \<and>
     getDataColumnSize v = getNumberOfColumns needle \<and> sourceColumnMismatchCount v = 0"

fun findDuplicate :: "table_view \<Rightarrow> u32 \<Rightarrow> u32 \<Rightarrow> (u32, table_view) omap \<Rightarrow> (base_error, u32) outcome" where
  "findDuplicate needle needleVersion ignoreVersion [] = Returned INVALID"
| "findDuplicate needle needleVersion ignoreVersion ((k, v) # m) =
     (if \<not> comparable needle needleVersion ignoreVersion k v then findDuplicate needle needleVersion ignoreVersion m
      else if card (sourceColumnNames v) \<noteq> card (sourceColumnNames needle) \<or> \<not> sourceColumnNames v \<subseteq> sourceColumnNames needle
      then findDuplicate needle needleVersion ignoreVersion m
      else
        outcome_bind (sameCells v needle (allCells (getNumberOfRows needle) (getNumberOfColumns needle))) (\<lambda>same.
          if same then Returned k else findDuplicate needle needleVersion ignoreVersion m))"

definition checkForDuplicate :: "table_base \<Rightarrow> u32 \<Rightarrow> u32 \<Rightarrow> (base_error, u32) outcome" where
  "checkForDuplicate tb needleVersion ignoreVersion =
     (case omap_get (tableViews tb) needleVersion of
        None \<Rightarrow> Raised MissingVersion
      | Some needle \<Rightarrow> findDuplicate needle needleVersion ignoreVersion (rev (tableViews tb)))"

end
