(* ===== verification/TableCacheProps.thy ===== *)
theory TableCacheProps
  imports TableCache
begin

text \<open>
  What the cache of a table promises: its state stays consistent and the active view never dangles, trimming
  removes the views that were not used for the longest time, and new views get versions that are free.
\<close>

section \<open>Consistency\<close>

definition cache_ok :: "table_base \<Rightarrow> bool" where
  "cache_ok tb \<longleftrightarrow>
     omap_ok (tableViews tb) \<and>
     (\<forall>k v. omap_get (tableViews tb) k = Some v \<longrightarrow> version v = k \<and> \<not> isInvalid k) \<and>
     (\<forall>k. activeTableView tb = Some k \<longrightarrow> isStored tb k)"

text \<open>Copying a view sets its version first, and none of its steps is undefined.\<close>

lemma findCol_defined: "findCol v n \<noteq> Undef"
  by (simp add: findCol_def split: option.split)

lemma copyView_sound: "fst (copyView now src ver auth v) \<noteq> Undef \<and> version (snd (copyView now src ver auth v)) = ver"
proof -
  have s: "sound (\<lambda>v. version v = ver) initColUID" "sound (\<lambda>v. version v = ver) initColStatus"
      "sound (\<lambda>v. version v = ver) initColPriority" "sound (\<lambda>v. version v = ver) (modifies initRowDefaults)"
    using findCol_defined by (auto simp: sound_def initColUID_def initColStatus_def initColPriority_def initRowDefaults_def modifies_def Let_def
        split: option.split outcome.split)
  have "sound (\<lambda>v. version v = ver)
      (thenDo initColUID (thenDo (modifies initRowDefaults) (thenDo (attempt initColStatus) (attempt initColPriority))))"
    by (intro sounds s)
  then show ?thesis by (simp add: copyView_def modifies_def sound_def give_def)
qed

lemma newTableView_defined: "newTableView now name \<noteq> Undef"
  by (simp add: newTableView_def convertToCaps_def Let_def split: option.split)

lemma viewResult_simps [simp]:
  "viewResult (Returned x) = Returned x" "viewResult (Raised e) = Raised (ViewFault e)" "viewResult r = Undef \<longleftrightarrow> r = Undef"
  by (simp_all add: viewResult_def split: outcome.split)

lemma cache_put:
  assumes "cache_ok tb" "version v = k" "\<not> isInvalid k"
  shows "cache_ok (tb\<lparr>tableViews := omap_put k v (tableViews tb)\<rparr>)"
  using assms by (auto simp: cache_ok_def isStored_def)

lemma placeCopy_run:
  obtains (placed) r v where "placeCopy now ver src auth tb = (r, tb\<lparr>tableViews := omap_put ver v (tableViews tb)\<rparr>)"
      "r \<noteq> Undef" "version v = ver"
  | (failed) e where "placeCopy now ver src auth tb = (Raised e, tb)"
proof (cases "newTableView now (baseName tb)")
  case (Returned v0)
  let ?m = "tableViews (if isStored tb ver then tb else tb\<lparr>tableViews := omap_put ver v0 (tableViews tb)\<rparr>)"
  obtain w where w: "omap_get ?m ver = Some w" by (cases "isStored tb ver") (auto simp: isStored_def)
  obtain r v where run: "copyView now src ver auth w = (r, v)" by fastforce
  then have "r \<noteq> Undef" "version v = ver" using copyView_sound [of now src ver auth w] by auto
  moreover have "placeCopy now ver src auth tb = (viewResult r, tb\<lparr>tableViews := omap_put ver v (tableViews tb)\<rparr>)"
    using Returned w run by (auto simp: placeCopy_def emplaceView_def atView_def)
  ultimately show thesis using placed by fastforce
next
  case (Raised e)
  then show thesis using failed by (auto simp: placeCopy_def emplaceView_def)
qed (simp add: newTableView_defined)

lemma placeCopy_sound [sounds]: "\<not> isInvalid ver \<Longrightarrow> sound cache_ok (placeCopy now ver src auth)"
proof (unfold sound_def, intro allI impI)
  fix tb assume "\<not> isInvalid ver" "cache_ok tb"
  then show "fst (placeCopy now ver src auth tb) \<noteq> Undef \<and> cache_ok (snd (placeCopy now ver src auth tb))"
    by (cases rule: placeCopy_run [of now ver src auth tb]) (auto intro: cache_put)
qed

lemma deactivateIf_run:
  assumes "cache_ok tb"
  shows "deactivateIf k tb = (Returned (), if activeTableView tb = Some k then deactivate tb else tb)"
  using assms by (auto simp: deactivateIf_def getViewVersion_def getView_def cache_ok_def isStored_def split: option.split)

lemma cache_del:
  assumes "cache_ok tb" "activeTableView tb \<noteq> Some k"
  shows "cache_ok (tb\<lparr>tableViews := omap_del k (tableViews tb)\<rparr>)"
  using assms by (auto simp: cache_ok_def isStored_def omap_get_del)

text \<open>Erasing a view: it is gone, and no longer active.\<close>

abbreviation without :: "u32 \<Rightarrow> table_base \<Rightarrow> table_base" where
  "without k tb \<equiv> (if activeTableView tb = Some k then deactivate tb else tb)\<lparr>tableViews := omap_del k (tableViews tb)\<rparr>"

lemma cache_without: "cache_ok tb \<Longrightarrow> cache_ok (without k tb)"
  using cache_del [of "deactivate tb" k] cache_del [of tb k] by (auto simp: cache_ok_def deactivate_def isStored_def)

lemma eraseView_run:
  assumes "cache_ok tb"
  shows "eraseView k tb = (if isStored tb k then (Returned True, without k tb) else (Returned False, tb))"
  using deactivateIf_run [OF assms, of k] by (auto simp: eraseView_def modifies_def give_def deactivate_def)

lemma eraseView_sound [sounds]: "sound cache_ok (eraseView k)"
  unfolding sound_def using eraseView_run cache_without by auto

lemma eraseTemporary_sound [sounds]: "sound cache_ok (eraseTemporary k)"
proof (unfold sound_def, intro allI impI)
  fix tb assume ok: "cache_ok tb"
  have "eraseTemporary k tb = (Returned (), if isTemporaryVersion k then without k tb else tb)"
    using deactivateIf_run [OF ok, of k] by (auto simp: eraseTemporary_def modifies_def give_def deactivate_def)
  then show "fst (eraseTemporary k tb) \<noteq> Undef \<and> cache_ok (snd (eraseTemporary k tb))" using ok cache_without [OF ok, of k] by auto
qed

lemma trimRounds_sound [sounds]: "sound cache_ok (trimRounds trimSize n)"
proof (induction n)
  case (Suc n)
  have "sound cache_ok (thenDo (eraseView ver) (trimRounds trimSize n))" for ver by (intro sounds Suc)
  then show ?case by (auto simp: sound_def Let_def)
qed (simp add: sounds)

lemma trimCache_sound [sounds]: "sound cache_ok (trimCache n)"
  using trimRounds_sound by (auto simp: sound_def trimCache_def)

lemma cache_deactivate: "cache_ok tb \<Longrightarrow> cache_ok (deactivate tb)"
  by (auto simp: cache_ok_def deactivate_def isStored_def)

lemma stored_sound [sounds]: "sound cache_ok (\<lambda>tb. if isStored tb ver then (Returned (), tb) else (Raised e, tb))"
  by (simp add: sound_def)

lemma setActiveView_sound [sounds]: "sound cache_ok (setActiveView ver)"
  by (auto simp: sound_def setActiveView_def cache_ok_def isStored_def split: option.split)

lemma resetBase_sound [sounds]: "sound cache_ok (resetBase keep)"
proof (rule soundI)
  fix tb assume ok: "cache_ok tb"
  have s: "sound cache_ok (thenDo (modifies deactivate) (trimCache (Some 0)))"
    "sound cache_ok (modifies (\<lambda>tb. (deactivate tb)\<lparr>tableViews := []\<rparr>))"
    by (intro sounds cache_deactivate, assumption) (intro sounds, simp add: cache_ok_def deactivate_def)
  show "fst (resetBase keep tb) \<noteq> Undef \<and> cache_ok (snd (resetBase keep tb))"
  proof (cases keep)
    case True
    then show ?thesis by (intro sound_like [OF s(1) ok]) (simp add: resetBase_def)
  next
    case False
    then show ?thesis by (intro sound_like [OF s(2) ok]) (simp add: resetBase_def modifies_def)
  qed
qed

lemma trimTemporary_sound [sounds]: "sound cache_ok (trimTemporary ver)"
proof -
  have "sound cache_ok (each eraseTemporary ks)" for ks by (intro sounds)
  then have "sound cache_ok (\<lambda>tb. each eraseTemporary (getStoredVersions tb) tb)" by (simp add: sound_def)
  then show ?thesis unfolding trimTemporary_def by (intro sounds)
qed

lemma setupMockupView_sound [sounds]: "\<not> isInvalid ver \<Longrightarrow> sound cache_ok (setupMockupView now ver)"
proof (rule soundI)
  fix tb assume v: "\<not> isInvalid ver" and ok: "cache_ok tb"
  have s: "sound cache_ok (thenDo (placeCopy now ver src auth) (thenDo (trimCache None)
      (\<lambda>tb. if isStored tb ver then (Returned (), tb) else (Raised VersionNotStored, tb))))" for src auth
    using v by (intro sounds)
  show "fst (setupMockupView now ver tb) \<noteq> Undef \<and> cache_ok (snd (setupMockupView now ver tb))"
  proof (cases "isStored tb ver")
    case False
    then show ?thesis by (intro sound_like [OF s ok]) (simp add: setupMockupView_def)
  qed (simp add: setupMockupView_def ok)
qed

lemma changeVersion_sound [sounds]: "sound cache_ok (changeVersionAndActivateView now temporaryVersion ver)"
proof (rule soundI)
  fix tb assume ok: "cache_ok tb"
  show "fst (changeVersionAndActivateView now temporaryVersion ver tb) \<noteq> Undef \<and>
      cache_ok (snd (changeVersionAndActivateView now temporaryVersion ver tb))"
  proof (cases "omap_get (tableViews tb) temporaryVersion = None \<or> isInvalid ver")
    case True
    then show ?thesis using ok by (auto simp: changeVersionAndActivateView_def split: option.split)
  next
    case False
    then obtain src where src: "omap_get (tableViews tb) temporaryVersion = Some src" and v: "\<not> isInvalid ver" by auto
    have s: "sound cache_ok (thenDo (placeCopy now ver src (author src))
        (thenDo (setActiveView ver) (thenDo (eraseView temporaryVersion) (give ()))))" using v by (intro sounds)
    show ?thesis by (rule sound_like [OF s ok]) (simp add: changeVersionAndActivateView_def src v)
  qed
qed

lemma createTemporaryView_sound [sounds]: "sound cache_ok (createTemporaryView now src dest)"
proof (rule soundI)
  fix tb assume ok: "cache_ok tb"
  let ?ver = "freeTemporary (tableViews tb) (if isInvalid dest then getNextTemporaryVersion INVALID else dest)"
  let ?fails = "isStored tb ?ver \<or> isInvalid ?ver \<or> src \<noteq> INVALID \<and> \<not> isStored tb src"
  show "fst (createTemporaryView now src dest tb) \<noteq> Undef \<and> cache_ok (snd (createTemporaryView now src dest tb))"
  proof (cases ?fails)
    case True
    then show ?thesis using ok by (auto simp: createTemporaryView_def Let_def)
  next
    case False
    then have "\<not> isInvalid ?ver" by blast
    then have s: "sound cache_ok (thenDo (placeCopy now ?ver v auth) (give ?ver))"
      "sound cache_ok (thenDo (attempt (placeCopy now ?ver v auth)) (give ?ver))" for v auth by (intro sounds; assumption)+
    show ?thesis
    proof (cases "src = INVALID")
      case True
      then show ?thesis using False by (intro sound_like [OF s(1) ok]) (simp add: createTemporaryView_def Let_def)
    next
      case source: False
      then show ?thesis using False by (intro sound_like [OF s(2) ok]) (simp add: createTemporaryView_def Let_def)
    qed
  qed
qed

lemma orErase_sound [sounds]: "sound cache_ok m \<Longrightarrow> sound cache_ok (orErase ver m)"
proof (rule soundI)
  fix tb assume m: "sound cache_ok m" and ok: "cache_ok tb"
  obtain r t where run: "m tb = (r, t)" by fastforce
  then have t: "r \<noteq> Undef" "cache_ok t" using soundD [OF m ok] by auto
  have "sound cache_ok (thenDo (eraseView ver) (fails e))" for e :: base_error by (intro sounds)
  then show "fst (orErase ver m tb) \<noteq> Undef \<and> cache_ok (snd (orErase ver m tb))"
    using run t by (cases r) (auto simp: orErase_def sound_def)
qed

lemma createTemporaryView_version:
  assumes "createTemporaryView now src dest tb = (Returned ver, t)"
  shows "ver = freeTemporary (tableViews tb) (if isInvalid dest then getNextTemporaryVersion INVALID else dest)"
    "\<not> isStored tb ver" "\<not> isInvalid ver"
  using assms by (auto simp: createTemporaryView_def Let_def run_simps split: if_splits)

lemma base_copyView_sound [sounds]: "sound cache_ok (base_copyView now src dest auth loose)"
proof (rule soundI)
  fix tb assume ok: "cache_ok tb"
  let ?guard = "\<not> loose \<and> getNumberOfColumns src \<noteq> getNumberOfColumns (mockupTableView tb) \<or> \<not> isInvalid dest \<and> isStored tb dest"
  obtain r t where run: "createTemporaryView now INVALID dest tb = (r, t)" by fastforce
  then have t: "r \<noteq> Undef" "cache_ok t" using soundD [OF createTemporaryView_sound ok] by auto
  show "fst (base_copyView now src dest auth loose tb) \<noteq> Undef \<and> cache_ok (snd (base_copyView now src dest auth loose tb))"
  proof (cases "?guard \<or> (\<exists>e. r = Raised e)")
    case True
    then show ?thesis using ok run t(2) by (auto simp: base_copyView_def)
  next
    case False
    then obtain ver where r: "r = Returned ver" using t(1) by (cases r) auto
    then have "\<not> isInvalid ver" using createTemporaryView_version(3) run by blast
    then have "sound cache_ok (thenDo (orErase ver (placeCopy now ver src auth)) (give ver))" by (intro sounds)
    moreover have "base_copyView now src dest auth loose tb = thenDo (orErase ver (placeCopy now ver src auth)) (give ver) t"
      using False run r by (auto simp: base_copyView_def)
    ultimately show ?thesis using t(2) by (simp add: sound_def)
  qed
qed

text \<open>The calls that change a table, and a sequence of them; the caller catches what they throw.\<close>

datatype base_call =
    Reset bool | Trim "nat option" | TrimTemporary u32 | SetupMockup int u32 | ChangeVersion int u32 u32
  | Erase u32 | Activate u32 | Deactivate | CreateTemporary int u32 u32 | CopyView int table_view u32 string bool

fun callBase :: "base_call \<Rightarrow> unit base_act" where
  "callBase (Reset keep) = resetBase keep"
| "callBase (Trim n) = trimCache n"
| "callBase (TrimTemporary ver) = trimTemporary ver"
| "callBase (SetupMockup now ver) = setupMockupView now ver"
| "callBase (ChangeVersion now tmp ver) = changeVersionAndActivateView now tmp ver"
| "callBase (Erase ver) = thenDo (eraseView ver) (give ())"
| "callBase (Activate ver) = thenDo (setActiveView ver) (give ())"
| "callBase Deactivate = modifies deactivate"
| "callBase (CreateTemporary now src dest) = thenDo (createTemporaryView now src dest) (give ())"
| "callBase (CopyView now src dest auth loose) = thenDo (base_copyView now src dest auth loose) (give ())"

definition runCalls :: "base_call list \<Rightarrow> unit base_act" where
  "runCalls cs = each (\<lambda>c. attempt (callBase c)) cs"

definition newBase :: "string \<Rightarrow> nat \<Rightarrow> table_view \<Rightarrow> table_base" where
  "newBase name n mockup =
     \<lparr>baseName = name, tableDescription = [], maxViewsInCache = n, activeTableView = None, mockupTableView = mockup, tableViews = []\<rparr>"

lemma callBase_sound: "(\<And>now ver. c = SetupMockup now ver \<Longrightarrow> \<not> isInvalid ver) \<Longrightarrow> sound cache_ok (callBase c)"
  by (cases c) (auto intro!: sounds cache_deactivate)

text \<open>
  C15. Whatever calls are made on a table, also when they throw, no access goes through a pointer to an erased
  view, every view is stored under its own version, and the active view, if there is one, is stored. The only
  condition is that no mock-up is set up under an invalid version, which \<open>setupMockupView\<close> does not check.
\<close>

theorem active_view_stored:
  assumes "\<And>now ver. SetupMockup now ver \<in> set calls \<Longrightarrow> \<not> isInvalid ver"
  shows "\<exists>t. runCalls calls (newBase name n mockup) = (Returned (), t) \<and> omap_ok (tableViews t) \<and>
    (\<forall>k v. omap_get (tableViews t) k = Some v \<longrightarrow> version v = k \<and> \<not> isInvalid k) \<and>
    (\<forall>k. activeTableView t = Some k \<longrightarrow> (\<exists>v. getView t INVALID = Returned v \<and> getView t k = Returned v))"
proof -
  have "sound cache_ok (runCalls calls)" unfolding runCalls_def using assms by (intro sounds callBase_sound) auto
  moreover have "cache_ok (newBase name n mockup)" by (simp add: cache_ok_def newBase_def)
  moreover have "fst (runCalls cs tb) \<noteq> Raised e" for cs e tb
    by (induction cs arbitrary: tb) (auto simp: runCalls_def give_def andThen_def attempt_def split: prod.split outcome.split)
  ultimately obtain t where t: "runCalls calls (newBase name n mockup) = (Returned (), t)" "cache_ok t"
    unfolding sound_def by (metis (full_types) old.unit.exhaust outcome.exhaust prod.collapse)
  then show ?thesis by (fastforce simp: cache_ok_def isStored_def getView_def isInvalid_def split: option.split)
qed

text \<open>A view for examples, with its version and the time of its last access.\<close>

definition cachedView :: "u32 \<Rightarrow> int \<Rightarrow> table_view" where
  "cachedView ver t =
     \<lparr>storageData = [], tableName = ''T'', version = ver, comment = [], author = [], creationTime = 0, lastAccessTime = t,
      rowDefaultValues = [], colUID = INVALID_INDEX, colStatus = INVALID_INDEX, colPriority = INVALID_INDEX, colLinkGroupIDs = [],
      fillWithLooseColumnMatching = False, getSourceRawData = False, sourceRawData = [], sourceColumnMismatchCount = 0,
      sourceColumnMissingCount = 0, sourceColumnNames = {}, columnsInfo = [], dataView = []\<rparr>"

theorem active_view_stored_witness:
  "\<exists>t. runCalls [SetupMockup 5 1, Activate 1, Trim (Some 1), Erase 1] (newBase ''T'' 2 (cachedView INVALID 0)) = (Returned (), t) \<and>
    omap_ok (tableViews t) \<and>
    (\<forall>k v. omap_get (tableViews t) k = Some v \<longrightarrow> version v = k \<and> \<not> isInvalid k) \<and>
    (\<forall>k. activeTableView t = Some k \<longrightarrow> (\<exists>v. getView t INVALID = Returned v \<and> getView t k = Returned v))"
  by (rule active_view_stored) (auto simp: isInvalid_def INVALID_def SCRATCH_def word_less_nat_alt)

section \<open>Trimming\<close>

abbreviation persistent :: "u32 \<Rightarrow> bool" where
  "persistent k \<equiv> \<not> isTemporaryVersion k \<and> \<not> isInvalid k"

lemma stalestView_next:
  assumes "0 < trimSize" "0 \<le> stalest" "\<forall>kv \<in> set m. 0 \<le> lastAccessTime (snd kv)"
  obtains t where "t \<le> stalest" "\<forall>kv \<in> set m. \<not> isTemporaryVersion (fst kv) \<longrightarrow> t \<le> lastAccessTime (snd kv)"
    "stalestView trimSize m ver stalest = ver \<and> t = stalest \<or>
     (\<exists>kv \<in> set m. fst kv = stalestView trimSize m ver stalest \<and> \<not> isTemporaryVersion (fst kv) \<and> lastAccessTime (snd kv) = t)"
  using assms(2,3)
proof (induction m arbitrary: ver stalest thesis)
  case (Cons kv m)
  obtain k v where kv: "kv = (k, v)" by fastforce
  have ok: "0 \<le> lastAccessTime v" "\<forall>kv \<in> set m. 0 \<le> lastAccessTime (snd kv)" using Cons.prems(3) kv by auto
  show ?case
  proof (cases "\<not> isTemporaryVersion k \<and> lastAccessTime v < stalest")
    case True
    then have run: "stalestView trimSize (kv # m) ver stalest = stalestView trimSize m k (lastAccessTime v)"
      using assms(1) kv by simp
    obtain t where t: "t \<le> lastAccessTime v" "\<forall>kv \<in> set m. \<not> isTemporaryVersion (fst kv) \<longrightarrow> t \<le> lastAccessTime (snd kv)"
      "stalestView trimSize m k (lastAccessTime v) = k \<and> t = lastAccessTime v \<or>
       (\<exists>kv \<in> set m. fst kv = stalestView trimSize m k (lastAccessTime v) \<and> \<not> isTemporaryVersion (fst kv) \<and> lastAccessTime (snd kv) = t)"
      by (rule Cons.IH [OF _ ok])
    show ?thesis by (rule Cons.prems(1) [of t]) (use t True run kv in auto)
  next
    case False
    have "stalest \<noteq> - 1" using Cons.prems(2) by simp
    then have run: "stalestView trimSize (kv # m) ver stalest = stalestView trimSize m ver stalest" using False kv by auto
    obtain t where t: "t \<le> stalest" "\<forall>kv \<in> set m. \<not> isTemporaryVersion (fst kv) \<longrightarrow> t \<le> lastAccessTime (snd kv)"
      "stalestView trimSize m ver stalest = ver \<and> t = stalest \<or>
       (\<exists>kv \<in> set m. fst kv = stalestView trimSize m ver stalest \<and> \<not> isTemporaryVersion (fst kv) \<and> lastAccessTime (snd kv) = t)"
      by (rule Cons.IH [OF _ Cons.prems(2) ok(2)])
    show ?thesis by (rule Cons.prems(1) [of t]) (use t False run kv in auto)
  qed
qed simp

lemma stalestView_first:
  assumes "\<exists>kv \<in> set m. \<not> isTemporaryVersion (fst kv)" "0 < trimSize" "\<forall>kv \<in> set m. 0 \<le> lastAccessTime (snd kv)"
  obtains kv where "kv \<in> set m" "stalestView trimSize m ver (- 1) = fst kv" "\<not> isTemporaryVersion (fst kv)"
    "\<forall>kv' \<in> set m. \<not> isTemporaryVersion (fst kv') \<longrightarrow> lastAccessTime (snd kv) \<le> lastAccessTime (snd kv')"
  using assms(1,3)
proof (induction m arbitrary: thesis)
  case (Cons kv m)
  obtain k v where kv: "kv = (k, v)" by fastforce
  have ok: "0 \<le> lastAccessTime v" "\<forall>kv \<in> set m. 0 \<le> lastAccessTime (snd kv)" using Cons.prems(3) kv by auto
  show ?case
  proof (cases "isTemporaryVersion k")
    case True
    then have rest: "\<exists>kv \<in> set m. \<not> isTemporaryVersion (fst kv)" using Cons.prems(2) kv by auto
    show ?thesis by (rule Cons.IH [OF _ rest ok(2)], rule Cons.prems(1)) (use True kv in auto)
  next
    case False
    then have run: "stalestView trimSize (kv # m) ver (- 1) = stalestView trimSize m k (lastAccessTime v)" using assms(2) kv by simp
    obtain t where t: "t \<le> lastAccessTime v" "\<forall>kv \<in> set m. \<not> isTemporaryVersion (fst kv) \<longrightarrow> t \<le> lastAccessTime (snd kv)"
      "stalestView trimSize m k (lastAccessTime v) = k \<and> t = lastAccessTime v \<or>
       (\<exists>kv \<in> set m. fst kv = stalestView trimSize m k (lastAccessTime v) \<and> \<not> isTemporaryVersion (fst kv) \<and> lastAccessTime (snd kv) = t)"
      using stalestView_next [OF assms(2) ok] .
    from t(3) show ?thesis
    proof
      assume "stalestView trimSize m k (lastAccessTime v) = k \<and> t = lastAccessTime v"
      then show ?thesis by (intro Cons.prems(1) [of kv]) (use t False run kv in auto)
    next
      assume "\<exists>kv \<in> set m. fst kv = stalestView trimSize m k (lastAccessTime v) \<and> \<not> isTemporaryVersion (fst kv) \<and> lastAccessTime (snd kv) = t"
      then obtain kv' where "kv' \<in> set m" "fst kv' = stalestView trimSize m k (lastAccessTime v)" "\<not> isTemporaryVersion (fst kv')" "lastAccessTime (snd kv') = t" by blast
      then show ?thesis by (intro Cons.prems(1) [of kv']) (use t run kv in auto)
    qed
  qed
qed simp

lemma count_del:
  assumes "(k, v) \<in> set m" "distinct (map fst m)" "P (k, v)"
  shows "Suc (length (filter P (omap_del k m))) = length (filter P m)"
  using assms by (induction k m rule: omap_del.induct) (auto simp: rev_image_eqI)

text \<open>The views are those of another table, except some that are gone.\<close>

definition trimmed :: "table_base \<Rightarrow> table_base \<Rightarrow> bool" where
  "trimmed tb t \<longleftrightarrow>
     (\<forall>k. omap_get (tableViews t) k = omap_get (tableViews tb) k \<or> omap_get (tableViews t) k = None \<and> \<not> isTemporaryVersion k) \<and>
     (\<forall>k v k' v'. omap_get (tableViews tb) k = Some v \<and> omap_get (tableViews t) k = None \<and>
        omap_get (tableViews t) k' = Some v' \<and> \<not> isTemporaryVersion k' \<longrightarrow> lastAccessTime v \<le> lastAccessTime v')"

lemma trimRounds_run:
  assumes "cache_ok tb" "\<forall>kv \<in> set (tableViews tb). 0 \<le> lastAccessTime (snd kv)" "length (tableViews tb) \<le> rounds" "0 < n"
  shows "\<exists>t. trimRounds n rounds tb = (Returned (), t) \<and> getNumberOfStoredViews t = min n (getNumberOfStoredViews tb) \<and> trimmed tb t"
  using assms(1-3)
proof (induction rounds arbitrary: tb)
  case 0
  then show ?case by (simp add: give_def trimmed_def getNumberOfStoredViews_def)
next
  case (Suc rounds)
  let ?m = "tableViews tb"
  have ok: "omap_ok ?m" using Suc.prems(1) by (simp add: cache_ok_def)
  then have dist: "distinct (map fst ?m)" by (simp add: omap_ok_def)
  have valid: "\<not> isInvalid k" if "(k, v) \<in> set ?m" for k v
    using Suc.prems(1) that omap_ok_mem [OF ok, of k v] by (simp add: cache_ok_def)
  show ?case
  proof (cases "getNumberOfStoredViews tb \<le> n")
    case True
    then show ?thesis by (auto simp: trimmed_def)
  next
    case False
    then have "filter (\<lambda>(k, v). persistent k) ?m \<noteq> []" by (auto simp: getNumberOfStoredViews_def)
    then have some: "\<exists>kv \<in> set ?m. \<not> isTemporaryVersion (fst kv)" by (auto simp: filter_empty_conv split_def)
    obtain kv where kv: "kv \<in> set ?m" "stalestView n ?m INVALID (- 1) = fst kv" "\<not> isTemporaryVersion (fst kv)"
        "\<forall>kv' \<in> set ?m. \<not> isTemporaryVersion (fst kv') \<longrightarrow> lastAccessTime (snd kv) \<le> lastAccessTime (snd kv')"
      by (rule stalestView_first [OF some assms(4) Suc.prems(2), of INVALID])
    obtain k v where k: "kv = (k, v)" by fastforce
    have get: "omap_get ?m k = Some v" using kv(1) k ok omap_ok_mem by metis
    have pers: "persistent k" using kv(1,3) valid k by auto
    let ?t = "without k tb"
    have views: "tableViews ?t = omap_del k ?m" by simp
    have erase: "eraseView k tb = (Returned True, ?t)" using eraseView_run [OF Suc.prems(1), of k] get by (simp add: isStored_def)
    have less: "Suc (getNumberOfStoredViews ?t) = getNumberOfStoredViews tb"
      unfolding getNumberOfStoredViews_def views using count_del [OF _ dist, of k v] kv(1) k pers by auto
    have "Suc (length (omap_del k ?m)) = length ?m" using count_del [OF _ dist, of k v "\<lambda>_. True"] kv(1) k by simp
    then have len: "length (tableViews ?t) \<le> rounds" using Suc.prems(3) unfolding views by simp
    have times: "\<forall>kv \<in> set (tableViews ?t). 0 \<le> lastAccessTime (snd kv)"
      using Suc.prems(2) set_omap_del [of k ?m] unfolding views by blast
    obtain t where t: "trimRounds n rounds ?t = (Returned (), t)" "getNumberOfStoredViews t = min n (getNumberOfStoredViews ?t)" "trimmed ?t t"
      using Suc.IH [OF cache_without [OF Suc.prems(1)] times len] by blast
    have "trimRounds n (Suc rounds) tb = (Returned (), t)"
      using False kv(2) k pers erase t(1) by (simp add: Let_def)
    moreover have "getNumberOfStoredViews t = min n (getNumberOfStoredViews tb)" using t(2) less False by simp
    moreover have "trimmed tb t"
    proof -
      have del: "omap_get (tableViews ?t) j = (if j = k then None else omap_get ?m j)" for j
        unfolding views using omap_get_del [OF ok, of k] by simp
      have "lastAccessTime v \<le> lastAccessTime w" if "omap_get ?m j = Some w" "\<not> isTemporaryVersion j" for j w
        using kv(4) that k map_of_SomeD [OF that(1)] by fastforce
      then show ?thesis using t(3) get pers unfolding trimmed_def del by (auto split: if_splits; metis option.inject option.distinct(1))
    qed
    ultimately show ?thesis by blast
  qed
qed

text \<open>
  C14. Trimming the cache always returns and leaves no more persistent views than allowed, as many as possible.
  No temporary view is removed, and none that was used later than a persistent view that is kept.
\<close>

theorem trimCache_stalest:
  assumes "cache_ok tb" "\<forall>kv \<in> set (tableViews tb). 0 \<le> lastAccessTime (snd kv)" "0 < n"
  shows "\<exists>t. trimCache (Some n) tb = (Returned (), t) \<and> getNumberOfStoredViews t = min n (getNumberOfStoredViews tb) \<and>
    (\<forall>k. omap_get (tableViews t) k = omap_get (tableViews tb) k \<or> omap_get (tableViews t) k = None \<and> \<not> isTemporaryVersion k) \<and>
    (\<forall>k v k' v'. omap_get (tableViews tb) k = Some v \<and> omap_get (tableViews t) k = None \<and>
       omap_get (tableViews t) k' = Some v' \<and> \<not> isTemporaryVersion k' \<longrightarrow> lastAccessTime v \<le> lastAccessTime v')"
  using trimRounds_run [OF assms(1,2) order_refl assms(3)] by (auto simp: trimCache_def trimmed_def)

theorem trimCache_stalest_witness:
  "let tb = (newBase ''T'' 9 (cachedView INVALID 0))\<lparr>tableViews := [(1, cachedView 1 7), (2, cachedView 2 3)]\<rparr>
   in \<exists>t. trimCache (Some 1) tb = (Returned (), t) \<and> getNumberOfStoredViews t = min 1 (getNumberOfStoredViews tb) \<and>
    (\<forall>k. omap_get (tableViews t) k = omap_get (tableViews tb) k \<or> omap_get (tableViews t) k = None \<and> \<not> isTemporaryVersion k) \<and>
    (\<forall>k v k' v'. omap_get (tableViews tb) k = Some v \<and> omap_get (tableViews t) k = None \<and>
       omap_get (tableViews t) k' = Some v' \<and> \<not> isTemporaryVersion k' \<longrightarrow> lastAccessTime v \<le> lastAccessTime v')"
proof -
  have "\<not> isInvalid 1" "\<not> isInvalid 2" by (simp_all add: isInvalid_def INVALID_def SCRATCH_def word_less_nat_alt)
  then show ?thesis unfolding Let_def
    by (intro trimCache_stalest) (auto simp: cache_ok_def newBase_def cachedView_def omap_ok_def split: if_splits)
qed

section \<open>New versions\<close>

lemma freeTemporary_free: "\<not> isInvalid (freeTemporary m ver) \<Longrightarrow> omap_get m (freeTemporary m ver) = None"
proof (induction m ver rule: freeTemporary.induct)
  case (1 m ver)
  show ?case
  proof (cases "omap_get m ver = None \<or> isInvalid (getNextTemporaryVersion ver)")
    case True
    then show ?thesis using 1(2) by (subst freeTemporary.simps) (auto simp: freeTemporary.simps [of m ver] Let_def split: if_splits)
  next
    case False
    then have "freeTemporary m ver = freeTemporary m (getNextTemporaryVersion ver)" by (subst freeTemporary.simps) (auto simp: Let_def)
    then show ?thesis using 1 False by simp
  qed
qed

lemma next_temporary_class: "\<not> isInvalid (getNextTemporaryVersion ver) \<Longrightarrow> isTemporaryVersion (getNextTemporaryVersion ver)"
  by (auto simp: getNextTemporaryVersion_def Let_def isInvalid_def split: if_splits)

lemma freeTemporary_temporary:
  "isTemporaryVersion ver \<Longrightarrow> \<not> isInvalid (freeTemporary m ver) \<Longrightarrow> isTemporaryVersion (freeTemporary m ver)"
proof (induction m ver rule: freeTemporary.induct)
  case (1 m ver)
  show ?case
  proof (cases "omap_get m ver = None \<or> isInvalid (getNextTemporaryVersion ver)")
    case True
    then show ?thesis using 1(2,3) by (auto simp: freeTemporary.simps [of m ver] Let_def split: if_splits)
  next
    case False
    then have "freeTemporary m ver = freeTemporary m (getNextTemporaryVersion ver)" by (subst freeTemporary.simps) (auto simp: Let_def)
    then show ?thesis using 1 False next_temporary_class by simp
  qed
qed

text \<open>
  The version of a new temporary view is free, and temporary unless a persistent version was asked for; no other
  view changes.
\<close>

lemma createTemporaryView_fresh:
  assumes "createTemporaryView now src dest tb = (Returned ver, t)"
  shows "\<not> isStored tb ver" "isInvalid dest \<or> isTemporaryVersion dest \<Longrightarrow> isTemporaryVersion ver"
    "k \<noteq> ver \<Longrightarrow> omap_get (tableViews t) k = omap_get (tableViews tb) k"
proof -
  note ver = createTemporaryView_version [OF assms]
  show "\<not> isStored tb ver" by (rule ver(2))
  have "isTemporaryVersion (getNextTemporaryVersion INVALID)"
    by (simp add: getNextTemporaryVersion_def isTemporaryVersion_def Let_def INVALID_def NUM_OF_TEMP_VERSIONS_def word_le_nat_alt)
  then show "isTemporaryVersion ver" if "isInvalid dest \<or> isTemporaryVersion dest"
    using that ver(1,3) freeTemporary_temporary by (metis (full_types))
  have "omap_get (tableViews u) k = omap_get (tableViews tb) k" if "k \<noteq> ver" "placeCopy now ver v auth tb = (r, u)" for k r u v auth
    using that by (cases rule: placeCopy_run [of now ver v auth tb]) auto
  then show "k \<noteq> ver \<Longrightarrow> omap_get (tableViews t) k = omap_get (tableViews tb) k"
    using assms ver(1) by (auto simp: createTemporaryView_def Let_def run_simps split: if_splits)
qed

text \<open>
  The next version of a table without temporary views is larger than all; with temporary views, which come last
  in the map, it is the first version of all, or an error if that exists. The next temporary version is looked
  for at the other end, where the temporary views are only if there is no persistent one.
\<close>

lemma sorted_le_last: "sorted xs \<Longrightarrow> x \<in> set xs \<Longrightarrow> x \<le> last xs" for xs :: "'a::linorder list"
  by (induction xs) auto

lemma base_getNextVersion_persistent:
  assumes "cache_ok tb" "tableViews tb \<noteq> []" "\<not> isTemporaryVersion (fst (last (tableViews tb)))"
    "base_getNextVersion tb = Returned ver"
  shows "isStored tb k \<Longrightarrow> k < ver"
proof -
  let ?l = "fst (last (tableViews tb))"
  have ver: "ver = ?l + 1" "ver \<noteq> INVALID" using assms(2-4) by (auto simp: base_getNextVersion_def getNextVersion_def Let_def isInvalid_def split: if_splits)
  assume "isStored tb k"
  then have "k \<in> set (map fst (tableViews tb))" by (auto simp: isStored_def dest: map_of_SomeD intro!: image_eqI)
  moreover have ok: "omap_ok (tableViews tb)" using assms(1) by (simp add: cache_ok_def)
  ultimately have "k \<le> last (map fst (tableViews tb))" unfolding omap_ok_def by (simp add: sorted_le_last)
  then have "k \<le> ?l" using assms(2) by (simp add: last_map)
  moreover have "?l < ?l + 1"
  proof -
    have "omap_get (tableViews tb) ?l = Some (snd (last (tableViews tb)))" using assms(2) omap_ok_mem [OF ok] by (metis last_in_set prod.collapse)
    then have "?l \<noteq> INVALID" using assms(1) by (auto simp: cache_ok_def isInvalid_def)
    then have "1 + ?l \<noteq> 0" by (metis INVALID_def add.commute add_eq_0_iff2 minus_unique)
    then show ?thesis using unatSuc [of ?l] by (simp add: word_less_nat_alt add.commute)
  qed
  ultimately show "k < ver" using ver by simp
qed

lemma base_getNextVersion_temporary:
  assumes "tableViews tb \<noteq> []" "isTemporaryVersion (fst (last (tableViews tb)))"
  shows "base_getNextVersion tb = (if isStored tb DEFAULT then Raised NoFreeVersion else Returned DEFAULT)"
proof -
  have "getNextVersion INVALID = DEFAULT" "\<not> isInvalid DEFAULT" "\<not> isTemporaryVersion DEFAULT" by code_simp+
  then show ?thesis using assms by (simp add: base_getNextVersion_def Let_def)
qed

lemma base_getNextTemporaryVersion_persistent:
  assumes "tableViews tb \<noteq> []" "\<not> isTemporaryVersion (fst (hd (tableViews tb)))"
  shows "base_getNextTemporaryVersion tb = (if isStored tb (INVALID - 1) then Raised NoFreeVersion else Returned (INVALID - 1))"
proof -
  have "getNextTemporaryVersion INVALID = INVALID - 1" "\<not> isInvalid (INVALID - 1)" "isTemporaryVersion (INVALID - 1)" by code_simp+
  then show ?thesis using assms by (simp add: base_getNextTemporaryVersion_def Let_def)
qed

end
