(* ===== verification/Spec2Isabelle.thy ===== *)
theory Spec2Isabelle
  imports RunControlProps StringTools Numbers ProgressBars RingBuffers TableVersions WildCards
    SessionProps RequestAccess UserFiles SystemMessages TableSample BitFields ProducerBuffers
    TableCacheProps
begin

text \<open>
  Verification of the core of otsdaq, the data acquisition framework of \<open>src/otsdaq\<close>.

  \<^bold>\<open>The program.\<close> A Gateway supervisor sends run control commands (Initialize, Configure, Start, ...) as
  SOAP messages to every other supervisor. Each of these carries a \<open>RunControlStateMachine\<close>: it parses the
  message, decides which transition of its finite state machine to execute, calls the supervisor's own
  function for it, and replies with the result. While it works a \<open>ProgressBar\<close> estimates how far it is. Data
  flows from producers to consumers through circular buffers, and fields of bits are packed into words and
  buffers. The configuration is a set of tables: a table keeps a cache of versions, each a view of typed
  columns and rows of text whose links and groups refer to other tables; what is configured is named by
  table groups, keys and versions. People use the Gateway through a web browser: \<open>WebUsers\<close> keeps their accounts, logs
  them in, checks every request, and holds the lock that gives one user at a time control of the system.
  All parts share the text functions of \<open>StringMacros\<close>.

  \<^bold>\<open>Theories.\<close>

  \<^item> \<open>Prelude\<close>: \<open>std::map\<close> with its iteration order (\<open>omap\<close>), \<open>operator[]\<close> (\<open>at_ins\<close>), string searches;
    the locale \<open>keyed_container\<close> states the laws of a map, interpreted on \<open>omap\<close>; the locale
    \<open>keyed_search\<close> those of a linear search for a key, interpreted on the six searches of \<open>WebUsers\<close>.

  \<^item> \<open>WildCards\<close> (\<open>Macros/StringMacros.cc\<close>, \<open>.icc\<close>): wildcard matching and lookup. The generic loop is
    proved equal to a declarative \<open>glob\<close>, and the fast paths around it are related to it.

  \<^item> \<open>StringTools\<close> (same files): URI, JSON and SQL text, trimming, splitting, recognition of numbers. Round
    trips, safety of the escaped text, totality of the splitter.

  \<^item> \<open>Numbers\<close> (same files): \<open>getNumber\<close> on a word type of any width: left to right evaluation,
    wrap-around, division by zero, the index safety of its operator list.

  \<^item> \<open>ProgressBars\<close> (\<open>ProgressBar/ProgressBar.cc\<close>): the bar and its step files; bounds and learning.

  \<^item> \<open>SoapMessages\<close> (\<open>SOAPUtilities\<close>, \<open>XdaqLite/XdaqLite.cc\<close>, \<open>xoap/MessageReference.h\<close>): commands,
    parameters, messages, their text on the wire, dispatch. Round trips.

  \<^item> \<open>FiniteStateMachines\<close> (\<open>toolbox/fsm/FiniteStateMachine.h\<close>, \<open>FiniteStateMachine/FiniteStateMachine.cc\<close>):
    the table driven machine. The functions that a supervisor registers are virtual and unknown here: a
    parameter \<open>env\<close> gives for a function, an event and a state the new state and the exception thrown. The
    locale \<open>machine_handlers\<close> says what the machine needs of them (they do not touch its table and state).

  \<^item> \<open>RunControl\<close> and \<open>RunControlProps\<close> (\<open>FiniteStateMachine/RunControlStateMachine.cc\<close>): the machine's
    states and transitions, construction, reset, and the message handler, cut into definitions at its
    comments; the locale \<open>rc_handlers\<close> extends \<open>machine_handlers\<close> and is interpreted on the base class's
    empty functions and on functions that throw what a script says. \<open>rc_graph\<close> is the documented graph,
    written independently of the construction. \<open>reachable\<close> is the step relation over messages, threads
    and resets.

  \<^item> \<open>RingBuffers\<close> (\<open>DataManager/BufferImplementation.icc\<close>): the ring of one producer. The locale
    \<open>broadcast\<close> specifies a bounded broadcast queue by what was written and how much each consumer has
    read; its interpretation \<open>ring\<close> is the refinement of the flags and pointers to it.

  \<^item> \<open>ProducerBuffers\<close> (\<open>DataManager/CircularBuffer.icc\<close>, \<open>.h\<close>): the rings of several producers and the iterator
    of each consumer. A read serves the producers in turn, on top of the facts of \<open>RingBuffers\<close>.

  \<^item> \<open>BitFields\<close> (\<open>BitManipulator/BitManipulator.cc\<close>, \<open>Macros/BinaryStringMacros.cc\<close>, \<open>.icc\<close>): fields of words and of
    buffers of bytes; every bit of the results, reading what was inserted, and where the code goes wrong.

  \<^item> \<open>Effects\<close>: actions on an object that may throw or have no meaning, with rules for runs (\<open>run_simps\<close>), for
    invariants (\<open>preserves\<close>) and for invariants under which an action is always defined (\<open>sound\<close>).

  \<^item> \<open>TableVersions\<close> (\<open>TableCore/TableVersion.cc\<close>, \<open>TableGroupKey.cc\<close>): the reserved ranges of versions,
    succession, text forms, and names of groups.

  \<^item> \<open>MapStrings\<close> (\<open>StringMacros.cc\<close>, \<open>.icc\<close>): environment and system variables in text, with arithmetic, and
    maps written as text. The substitution is a partial function whose termination is characterised; the
    text of a permission map is read back.

  \<^item> \<open>TableColumns\<close>, \<open>TableViews\<close>, \<open>TableRows\<close>, \<open>TableInit\<close> (\<open>TableCore/TableViewColumnInfo.cc\<close>, \<open>TableView.cc\<close>, \<open>.icc\<close>): the
    types of columns, the record \<open>table_view\<close> with its cells, links and groups, unique values, adding and copying
    rows, and \<open>init\<close>. \<open>TableProps\<close> shows what a successful \<open>init\<close> establishes and that it can be repeated;
    \<open>TableRowProps\<close> the operations on rows and groups.

  \<^item> \<open>TableText\<close>, \<open>TableTextProps\<close>, \<open>TableRoundTrip\<close> (\<open>TableView.cc\<close>): the JSON and CSV texts of a view and the scanners
    that read them, specified by triples \<open>reads\<close> for its pieces; a view survives the JSON text. \<open>TableSample\<close>
    holds small tables on which the theorems are applied.

  \<^item> \<open>TableCache\<close>, \<open>TableCacheProps\<close> (\<open>TableCore/TableBase.cc\<close>): a table with its mock-up, its views by version and the
    pointer to the active one; trimming, temporary views, copies, the search for duplicates, new versions. The
    pointer never dangles, trimming removes the stalest views, new temporary versions are free.

  \<^item> \<open>UserAccounts\<close> (\<open>WebUsersUtilities/WebUsers.cc\<close>, \<open>.h\<close>): the record \<open>web_users\<close> of the whole component and
    \<open>web_io\<close> of its surroundings (time, random numbers, digest, writable files, files an operator edits);
    searches, permissions, creating, changing and deleting accounts, security settings. Uniqueness is an
    invariant of every sequence of operations; only administrators change accounts.

  \<^item> \<open>UserSessions\<close>, \<open>SessionProps\<close> (same files): addresses, login sessions, active sessions and chains of cookie
    codes, expiry, the lock, login with password or certificate, logout, verification by the Gateway
    above, and the check of the cookie code of every request. \<open>session_reach\<close> ranges over all sequences of these
    operations; the sessions stay well formed, requests are authenticated exactly, wrong passwords
    lock an account, expiry and logout remove exactly what they should.

  \<^item> \<open>RequestAccess\<close> (same files): levels from groups, accountability, lock, and \<open>xmlRequestOnGateway\<close>; what a
    granted request implies.

  \<^item> \<open>UserFiles\<close> (same files): what is written at shutdown and read at start; accounts and sessions survive.

  \<^item> \<open>SystemMessages\<close> (same files): messages to users and what successive polls of a client get.

  \<^item> this theory: the path of a command from the Gateway's text to the reply.

  \<^bold>\<open>Reading the model.\<close> Classes are records, the C++ integers whose wrap-around matters are words, strings
  are lists of characters. Exceptions are values of \<open>exn\<close>; undefined behaviour is an outcome of its own
  (\<open>None\<close>, \<open>Undefined\<close>, \<open>OpsOutOfRange\<close>, \<open>Undef\<close>), so that a property that a call returns also says that it is
  defined. Text that a macro prepends to messages (subject, file, line) is a parameter. One call of a
  message handler, of an operation of a buffer, and the body of one detached thread are atomic steps;
  interleavings of these steps are what \<open>reachable\<close> and \<open>ring_fifo\<close> range over. Waiting for another thread
  is the outcome \<open>Waiting\<close>. Loops are total functions, with measures where the recursion is not
  structural; the three loops of the code that may run forever (substitution of variables, the search for
  an unused position, setting a first password) are partial functions into \<open>option\<close>, and theorems say when
  the first two return. There is no fuel, except that the rounds of \<open>trimCache\<close> are counted by the number of
  stored views, each of which erases one; \<open>trimCache_stalest\<close> shows that this is enough. The clock does not
  advance within one operation of a table. Texts of tables are shorter than \<open>INVALID_INDEX\<close>.

  \<^bold>\<open>Not modelled.\<close> Logging; sockets, HTTP and threads themselves; the database, the configuration manager
  and tree; of the tables the XML descriptions, \<open>print\<close>, the comparison report \<open>diffTwoVersions\<close> and
  \<open>mergeViews\<close>; the Gateway's user interface and its iterator; preferences, tooltips, login
  history and certificates of users, which are files that are only written and shown; hardware access;
  the functions of single supervisors, which are the parameter \<open>env\<close>; SHA-512, a function of the
  record \<open>web_io\<close>.
\<close>

section \<open>A command over the wire\<close>

text \<open>
  The branch of \<open>serveApp\<close> in \<open>XdaqLite/ots_lite_main.cc\<close> that serves a SOAP request: parse the
  body, dispatch it to the handler bound for it, here \<open>runControlMessageHandler\<close>, and send the
  serialised reply. A standard exception becomes an HTTP 500 response; anything else escapes.
\<close>

datatype soap_response = Response nat string | Escapes exn | NoResponse

definition soapError :: "exn \<Rightarrow> soap_response" where
  "soapError x = (if x = UnknownException then Escapes x else Response 500 (exn_what x))"

definition serveSOAP ::
  "'z rc_scheme handlers \<Rightarrow> rc_io \<Rightarrow> string \<Rightarrow> string \<Rightarrow> 'z rc_scheme
    \<Rightarrow> 'z rc_scheme \<times> soap_response" where
  "serveSOAP env io className body s =
     (case readFrom body of
        Inl x \<Rightarrow> (s, soapError x)
      | Inr msg \<Rightarrow>
          (case dispatchSOAP rc_bound className msg of
             Inl x \<Rightarrow> (s, soapError x)
           | Inr _ \<Rightarrow>
               (let (s1, r) = runControlMessageHandler env io (translate msg) s
                in (s1, case r of
                          Reply result \<Rightarrow> Response 200 (writeTo (makeMessage result))
                        | Threw x \<Rightarrow> soapError x
                        | Undefined \<Rightarrow> NoResponse
                        | Blocked \<Rightarrow> NoResponse))))"

lemma bound_wire: "c \<in> set rc_bound \<Longrightarrow> wire_name c \<and> wire_name (c @ ''Failed'')"
  by (auto simp: rc_bound_def wire_name_def xml_ws_def)

lemma serve_written:
  assumes "omap_ok (parameters m)" "\<forall>(k, v) \<in> set (parameters m). wire_key k" "command m \<in> set rc_bound"
    "snd (runControlMessageHandler env io m s) = Reply r"
  shows "serveSOAP env io cls (writeTo (makeSOAPMessageReference m)) s =
    (fst (runControlMessageHandler env io m s), Response 200 (writeTo (makeMessage r)))"
proof -
  have eta: "\<lparr>command = command m, parameters = parameters m\<rparr> = m" by simp
  show ?thesis
    using readFrom_element [OF _ assms(2,1)] translate_element [OF assms(1)] make_element [OF assms(1)]
      bound_wire [OF assms(3)] assms(3,4)
    by (simp add: serveSOAP_def xdaqName_def dispatchSOAP_def split_beta eta)
qed

lemma reply_read:
  assumes "wire_name r"
  shows "\<exists>x. readFrom (writeTo (makeMessage r)) = Inr x \<and> translate x = \<lparr>command = r, parameters = []\<rparr>"
  using readFrom_element [OF assms, of "[]"] translate_element [of "[]"]
  by (simp add: makeMessage_def addBodyElement_def xdaqName_def omap_ok_def)

text \<open>
  C3. From the Gateway's message to its reply: a command that the supervisor's state lists, written as
  SOAP text with any parameter values, is parsed, dispatched and carried out along the documented edge,
  and the response is a success; if the supervisor's function throws, the supervisor is in the failed
  state and the response, parsed by the Gateway, says that the command failed.
\<close>

theorem remote_command:
  assumes "rc_handlers env" "rc_ok s" "executes io m d s"
    "rc_graph (currentState s, d) = Some (to, f)"
    "\<forall>t. (snd (env f (Some (Event d)) t) = None) = good"
    "omap_ok (parameters m)" "\<forall>(k, v) \<in> set (parameters m). wire_key k"
  shows "\<exists>t body. serveSOAP env io cls (writeTo (makeSOAPMessageReference m)) s = (t, Response 200 body) \<and>
    currentState t = (if good then to else FAILED_STATE) \<and>
    (good \<or> (\<exists>x. readFrom body = Inr x \<and> translate x = \<lparr>command = d @ ''Failed'', parameters = []\<rparr>))"
proof -
  have d: "d \<in> set rc_bound" using rc_graph_bound [OF assms(4)] .
  have "command m = ''Halt'' \<or> command m = d"
    using assms(3) by (auto simp: executes_def Let_def effectiveCommand_def split: if_splits)
  then have b: "command m \<in> set rc_bound" using d by (auto simp: rc_bound_def)
  obtain r where r: "snd (runControlMessageHandler env io m s) = Reply r"
    using rc_handlers.command_reply [OF assms(1-3)] by blast
  have e: "currentState (fst (runControlMessageHandler env io m s)) = (if good then to else FAILED_STATE)"
    "\<not> good \<Longrightarrow> r = d @ ''Failed''"
    using rc_handlers.command_effect [OF assms(1-4), of good] assms(5) r by (auto simp: FAILED_STATE_NAME_def)
  show ?thesis
    using serve_written [OF assms(6,7) b r] e reply_read [of r] bound_wire [OF d] by auto
qed

theorem remote_command_witness:
  "\<exists>t body. serveSOAP (scripted_handlers (\<lambda>_. Some (RuntimeError ''no link''))) blank_io ''FESupervisor''
      (writeTo (makeSOAPMessageReference (plain ''Halt''))) fresh = (t, Response 200 body) \<and>
    currentState t = (if False then CHR ''H'' else FAILED_STATE) \<and>
    (False \<or> (\<exists>x. readFrom body = Inr x \<and> translate x = \<lparr>command = ''Initialize'' @ ''Failed'', parameters = []\<rparr>))"
proof (rule remote_command [OF rc_scripted.rc_handlers_axioms fresh_ok, where f = TransitionInitializing])
  show "executes blank_io (plain ''Halt'') ''Initialize'' fresh"
    using rc_ok_name(2) [OF fresh_ok]
    by (intro executes_plain) (simp_all add: reports_def effectiveCommand_def fresh_state)
qed (simp_all add: plain_def omap_ok_def fresh_state rc_graph_def scripted_handlers_def)
end
